(* ===== verification/Prelude.thy ===== *)
theory Prelude
  imports Main "HOL-Library.AList"
begin

text \<open>
  Shared vocabulary of the development. The program keeps almost all of its in-memory state in
  JavaScript \<open>Map\<close> objects, which remember insertion order: \<open>set\<close> on a present key keeps its
  position, \<open>set\<close> on a new key appends, iteration runs from the oldest entry. An association
  list with the updates of \<^verbatim>\<open>HOL-Library.AList\<close> is exactly that, so a \<open>Map\<close> is a
  \<^emph>\<open>jmap\<close> here. Fallible operations return \<open>error + result\<close>, the error left.
  Times, durations, counters and sizes are JavaScript numbers that the code keeps integral;
  they are \<^typ>\<open>int\<close> where they can be compared with a clock and \<^typ>\<open>nat\<close> where they are
  counts that start at zero.
\<close>

named_theorems jmap_simps \<open>rewriting facts about insertion-ordered maps\<close>
named_theorems inv_intros \<open>an operation keeps the invariant of its component\<close>

section \<open>Insertion-ordered maps\<close>

type_synonym ('k, 'v) jmap = "('k \<times> 'v) list"

abbreviation jmap_get :: "('k, 'v) jmap \<Rightarrow> 'k \<Rightarrow> 'v option" where
  "jmap_get m k \<equiv> map_of m k"

abbreviation jmap_set :: "('k, 'v) jmap \<Rightarrow> 'k \<Rightarrow> 'v \<Rightarrow> ('k, 'v) jmap" where
  "jmap_set m k v \<equiv> AList.update k v m"

abbreviation jmap_delete :: "('k, 'v) jmap \<Rightarrow> 'k \<Rightarrow> ('k, 'v) jmap" where
  "jmap_delete m k \<equiv> AList.delete k m"

abbreviation jmap_keys :: "('k, 'v) jmap \<Rightarrow> 'k list" where
  "jmap_keys m \<equiv> map fst m"

text \<open>A \<open>Map\<close> holds one entry per key.\<close>

definition jmap_ok :: "('k, 'v) jmap \<Rightarrow> bool" where
  "jmap_ok m \<longleftrightarrow> distinct (map fst m)"

lemma jmap_ok_Nil [simp, inv_intros]: "jmap_ok []"
  by (simp add: jmap_ok_def)

lemma jmap_ok_set [simp, inv_intros]: "jmap_ok m \<Longrightarrow> jmap_ok (jmap_set m k v)"
  by (simp add: jmap_ok_def distinct_update)

lemma jmap_ok_delete [simp, inv_intros]: "jmap_ok m \<Longrightarrow> jmap_ok (jmap_delete m k)"
  by (simp add: jmap_ok_def distinct_delete)

lemma jmap_ok_filter [simp, inv_intros]: "jmap_ok m \<Longrightarrow> jmap_ok (filter P m)"
  by (simp add: jmap_ok_def distinct_map_filter)

lemma jmap_ok_Cons: "jmap_ok (p # m) \<longleftrightarrow> fst p \<notin> fst ` set m \<and> jmap_ok m"
  by (simp add: jmap_ok_def)

lemma jmap_get_set [simp, jmap_simps]:
  "jmap_get (jmap_set m k v) k' = (if k' = k then Some v else jmap_get m k')"
  by (simp add: update_conv')

lemma jmap_get_delete [simp, jmap_simps]:
  "jmap_get (jmap_delete m k) k' = (if k' = k then None else jmap_get m k')"
  by (simp add: delete_conv')

lemma jmap_get_iff: "jmap_ok m \<Longrightarrow> jmap_get m k = Some v \<longleftrightarrow> (k, v) \<in> set m"
  by (simp add: jmap_ok_def)

lemma jmap_get_None: "jmap_get m k = None \<longleftrightarrow> k \<notin> fst ` set m"
  by (simp add: map_of_eq_None_iff)

lemma jmap_get_filter:
  "jmap_ok m \<Longrightarrow>
    jmap_get (filter P m) k =
      (case jmap_get m k of None \<Rightarrow> None | Some v \<Rightarrow> if P (k, v) then Some v else None)"
proof (induction m)
  case (Cons p m)
  then show ?case
    by (cases p) (auto simp: jmap_ok_Cons jmap_get_None split: option.splits dest: map_of_SomeD)
qed simp

lemma jmap_size_set [jmap_simps]:
  "length (jmap_set m k v) = (if k \<in> fst ` set m then length m else Suc (length m))"
  by (induction m) auto

lemma jmap_size_delete [jmap_simps]:
  "jmap_ok m \<Longrightarrow>
    length (jmap_delete m k) = (if k \<in> fst ` set m then length m - 1 else length m)"
proof (induction m)
  case (Cons p m)
  then show ?case
    by (cases "fst p = k") (auto simp: jmap_ok_Cons intro: Suc_pred dest: length_pos_if_in_set)
qed simp

lemma jmap_size_delete_le: "length (jmap_delete m k) \<le> length m"
  by (simp add: AList.delete_eq)

lemma jmap_keys_set: "fst ` set (jmap_set m k v) = insert k (fst ` set m)"
  by (simp add: dom_update)

lemma jmap_set_new: "k \<notin> fst ` set m \<Longrightarrow> jmap_set m k v = m @ [(k, v)]"
  by (induction m) auto

lemma jmap_set_set: "set (jmap_set m k v) \<subseteq> insert (k, v) (set m)"
  by (induction m) auto

lemma jmap_has_iff: "k \<in> fst ` set m \<longleftrightarrow> (\<exists>v. jmap_get m k = Some v)"
  by (simp add: dom_map_of_conv_image_fst [symmetric] dom_def)

lemma jmap_set_delete: "set (jmap_delete m k) = {(k', v). (k', v) \<in> set m \<and> k' \<noteq> k}"
  by (auto simp: AList.delete_eq)

lemma jmap_ok_tl [simp, inv_intros]: "jmap_ok m \<Longrightarrow> jmap_ok (tl m)"
  by (cases m) (auto simp: jmap_ok_Cons)

lemma set_tl_subset: "set (tl xs) \<subseteq> set xs"
  by (cases xs) auto

lemma jmap_ok_snoc: "jmap_ok (m @ [(k, v)]) \<longleftrightarrow> k \<notin> fst ` set m \<and> jmap_ok m"
  by (auto simp: jmap_ok_def)

text \<open>Deleting a key and setting it again moves its entry to the end.\<close>

lemma jmap_touch: "jmap_set (jmap_delete m k) k v = jmap_delete m k @ [(k, v)]"
  by (simp add: jmap_set_new delete_notin_dom)

lemma jmap_touch_keys:
  "jmap_keys (jmap_set (jmap_delete m k) k v) = removeAll k (jmap_keys m) @ [k]"
  by (simp add: jmap_touch delete_keys)

lemma jmap_touch_size:
  assumes "jmap_ok m" and "jmap_get m k = Some w"
  shows "length (jmap_set (jmap_delete m k) k v) = length m"
proof -
  have "(k, w) \<in> set m" using assms(2) by (rule map_of_SomeD)
  then have "k \<in> fst ` set m" "0 < length m" by (force, cases m, auto)
  then show ?thesis using assms(1) by (simp add: jmap_touch jmap_size_delete)
qed

text \<open>
  The loop \<open>for (const [key, value] of map) if (P value) map.delete(key)\<close>, which several
  components run to drop stale entries. Deleting while iterating is well defined for a \<open>Map\<close>:
  every entry is visited once. The loop keeps precisely the entries that fail the test.
\<close>

fun jmap_delete_loop :: "('v \<Rightarrow> bool) \<Rightarrow> ('k \<times> 'v) list \<Rightarrow> ('k, 'v) jmap \<Rightarrow> ('k, 'v) jmap" where
  "jmap_delete_loop P [] m = m"
| "jmap_delete_loop P ((k, v) # es) m =
     jmap_delete_loop P es (if P v then jmap_delete m k else m)"

definition jmap_delete_where :: "('v \<Rightarrow> bool) \<Rightarrow> ('k, 'v) jmap \<Rightarrow> ('k, 'v) jmap" where
  "jmap_delete_where P m = jmap_delete_loop P m m"

lemma jmap_delete_loop_filter:
  assumes "jmap_ok m" and "jmap_ok es" and "set es \<subseteq> set m"
  shows "jmap_delete_loop P es m = filter (\<lambda>(k, v). (k, v) \<in> set es \<longrightarrow> \<not> P v) m"
  using assms
proof (induction es arbitrary: m)
  case Nil
  then show ?case by (simp add: filter_id_conv)
next
  case (Cons e es)
  obtain k v where e: "e = (k, v)" by (cases e)
  have k: "k \<notin> fst ` set es" and es: "jmap_ok es"
    using Cons.prems(2) by (auto simp: e jmap_ok_Cons)
  have kv: "(k, v') \<in> set m \<longleftrightarrow> v' = v" for v'
    using Cons.prems(1,3) by (auto simp: e jmap_get_iff [symmetric])
  show ?case
  proof (cases "P v")
    case True
    have "set es \<subseteq> set (jmap_delete m k)"
      using Cons.prems(3) k by (force simp: e jmap_set_delete)
    then have "jmap_delete_loop P (e # es) m
        = filter (\<lambda>(k, v). (k, v) \<in> set es \<longrightarrow> \<not> P v) (jmap_delete m k)"
      using True Cons.IH [of "jmap_delete m k"] Cons.prems(1) es by (simp add: e)
    also have "\<dots> = filter (\<lambda>(k, v). (k, v) \<in> set (e # es) \<longrightarrow> \<not> P v) m"
      using k kv True by (auto simp: AList.delete_eq e intro!: filter_cong)
    finally show ?thesis .
  next
    case False
    then show ?thesis
      using Cons.IH [of m] Cons.prems es k
      by (auto simp: e intro!: filter_cong)
  qed
qed

lemma jmap_delete_where_eq [jmap_simps]:
  "jmap_ok m \<Longrightarrow> jmap_delete_where P m = filter (\<lambda>(k, v). \<not> P v) m"
  by (auto simp: jmap_delete_where_def jmap_delete_loop_filter intro: filter_cong)

lemma jmap_ok_delete_where [simp, inv_intros]: "jmap_ok m \<Longrightarrow> jmap_ok (jmap_delete_where P m)"
  by (simp add: jmap_delete_where_eq)

lemma jmap_size_delete_where: "jmap_ok m \<Longrightarrow> length (jmap_delete_where P m) \<le> length m"
  by (simp add: jmap_delete_where_eq)

lemma jmap_get_delete_where:
  "jmap_ok m \<Longrightarrow>
    jmap_get (jmap_delete_where P m) k =
      (case jmap_get m k of None \<Rightarrow> None | Some v \<Rightarrow> if P v then None else Some v)"
  by (auto simp: jmap_delete_where_eq jmap_get_filter split: option.splits)

section \<open>Results\<close>

text \<open>Sequencing of fallible steps, as exceptions propagate.\<close>

definition result_bind :: "'e + 'a \<Rightarrow> ('a \<Rightarrow> 'e + 'b) \<Rightarrow> 'e + 'b" where
  "result_bind r f = (case r of Inl e \<Rightarrow> Inl e | Inr a \<Rightarrow> f a)"

lemma result_bind_simps [simp]:
  "result_bind (Inl e) f = Inl e"
  "result_bind (Inr a) f = f a"
  by (simp_all add: result_bind_def)

lemma result_bind_Inr:
  "result_bind r f = Inr b \<longleftrightarrow> (\<exists>a. r = Inr a \<and> f a = Inr b)"
  by (cases r) auto

definition result_map_value :: "('a \<Rightarrow> 'b) \<Rightarrow> 'e + 'a \<Rightarrow> 'e + 'b" where
  "result_map_value f r = (case r of Inl e \<Rightarrow> Inl e | Inr a \<Rightarrow> Inr (f a))"

lemma result_map_value_simps [simp]:
  "result_map_value f (Inl e) = Inl e"
  "result_map_value f (Inr a) = Inr (f a)"
  by (simp_all add: result_map_value_def)

lemma result_map_value_Inr: "result_map_value f r = Inr b \<longleftrightarrow> (\<exists>a. r = Inr a \<and> b = f a)"
  by (cases r) auto

text \<open>\<open>items.map(f)\<close> where \<open>f\<close> may throw: the first exception, or all the results.\<close>

fun result_map :: "('a \<Rightarrow> 'e + 'b) \<Rightarrow> 'a list \<Rightarrow> 'e + 'b list" where
  "result_map f [] = Inr []"
| "result_map f (x # xs) =
     (case f x of
        Inl e \<Rightarrow> Inl e
      | Inr y \<Rightarrow> (case result_map f xs of Inl e \<Rightarrow> Inl e | Inr ys \<Rightarrow> Inr (y # ys)))"

lemma result_map_cong [fundef_cong]:
  "xs = ys \<Longrightarrow> (\<And>x. x \<in> set ys \<Longrightarrow> f x = g x) \<Longrightarrow> result_map f xs = result_map g ys"
proof (induction xs arbitrary: ys)
  case (Cons x xs)
  then show ?case by (auto split: sum.splits)
qed simp

lemma result_map_Inr:
  "result_map f xs = Inr ys \<longleftrightarrow> list_all2 (\<lambda>x y. f x = Inr y) xs ys"
proof (induction xs arbitrary: ys)
  case Nil
  then show ?case by auto
next
  case (Cons x xs)
  show ?case
    by (auto simp: list_all2_Cons1 Cons.IH [symmetric] split: sum.splits)
qed

lemma result_map_Inr_map:
  "result_map f xs = Inr ys \<longleftrightarrow> (\<forall>x \<in> set xs. \<exists>y. f x = Inr y) \<and> ys = map (\<lambda>x. projr (f x)) xs"
proof (induction xs arbitrary: ys)
  case (Cons x xs)
  show ?case
    using Cons.IH [of "map (\<lambda>x. projr (f x)) xs"] Cons.IH
    by (cases "result_map f xs") (auto split: sum.splits)
qed auto

lemma result_map_length: "result_map f xs = Inr ys \<Longrightarrow> length ys = length xs"
  by (auto simp: result_map_Inr dest: list_all2_lengthD)

section \<open>Lists\<close>

text \<open>\<open>[...new Set(xs)]\<close>: duplicates removed, the first occurrence kept in place.\<close>

fun unique_from :: "'a list \<Rightarrow> 'a list \<Rightarrow> 'a list" where
  "unique_from seen [] = []"
| "unique_from seen (x # xs) =
     (if x \<in> set seen then unique_from seen xs else x # unique_from (x # seen) xs)"

definition js_unique :: "'a list \<Rightarrow> 'a list" where
  "js_unique xs = unique_from [] xs"

lemma set_unique_from: "set (unique_from seen xs) = set xs - set seen"
  by (induction xs arbitrary: seen) auto

lemma distinct_unique_from: "distinct (unique_from seen xs)"
  by (induction xs arbitrary: seen) (auto simp: set_unique_from)

lemma set_js_unique [simp]: "set (js_unique xs) = set xs"
  by (simp add: js_unique_def set_unique_from)

lemma distinct_js_unique [simp]: "distinct (js_unique xs)"
  by (simp add: js_unique_def distinct_unique_from)

lemma unique_from_id: "distinct xs \<Longrightarrow> set xs \<inter> set seen = {} \<Longrightarrow> unique_from seen xs = xs"
  by (induction xs arbitrary: seen) auto

lemma js_unique_id [simp]: "distinct xs \<Longrightarrow> js_unique xs = xs"
  by (simp add: js_unique_def unique_from_id)

lemma length_unique_from: "length (unique_from seen xs) \<le> length xs"
  by (induction xs arbitrary: seen) (auto intro: le_SucI)

lemma unique_from_length_eq:
  "length (unique_from seen xs) = length xs \<Longrightarrow> distinct xs \<and> set xs \<inter> set seen = {}"
proof (induction xs arbitrary: seen)
  case (Cons x xs)
  show ?case
    using Cons.prems Cons.IH [of "x # seen"] length_unique_from [of seen xs]
    by (auto split: if_splits)
qed simp

lemma js_unique_length: "length (js_unique xs) = length xs \<longleftrightarrow> distinct xs"
  using unique_from_length_eq [of "[]" xs] by (auto simp: js_unique_def unique_from_id)

lemma list_all2_in1: "list_all2 R xs ys \<Longrightarrow> x \<in> set xs \<Longrightarrow> \<exists>y \<in> set ys. R x y"
  by (induction rule: list_all2_induct) auto

lemma list_all2_in2: "list_all2 R xs ys \<Longrightarrow> y \<in> set ys \<Longrightarrow> \<exists>x \<in> set xs. R x y"
  by (induction rule: list_all2_induct) auto

text \<open>The first element that passes a test, \<open>xs.find(P)\<close>.\<close>

lemma find_Some_iff': "find P xs = Some x \<Longrightarrow> x \<in> set xs \<and> P x"
  by (auto simp: find_Some_iff)

lemma sum_list_map_filter_split:
  "sum_list (map f xs) = sum_list (map f (filter P xs)) + sum_list (map f (filter (\<lambda>x. \<not> P x) xs))"
  for f :: "'a \<Rightarrow> nat"
  by (induction xs) auto

lemma length_filter_update:
  "i < length xs \<Longrightarrow>
    length (filter P (xs[i := y])) + (if P (xs ! i) then 1 else 0) =
    length (filter P xs) + (if P y then 1 else 0)"
proof (induction xs arbitrary: i)
  case (Cons x xs)
  then show ?case by (cases i) auto
qed simp

lemma nth_update_if: "xs[i := y] ! j = (if j = i \<and> i < length xs then y else xs ! j)"
  by (cases "i < length xs") (auto simp: nth_list_update list_update_beyond not_less)

lemma list_all_update: "list_all P xs \<Longrightarrow> P y \<Longrightarrow> list_all P (xs[i := y])"
  by (auto simp: list_all_iff dest: set_update_subset_insert [THEN subsetD])

lemma list_all_update_self:
  assumes "list_all P xs" and "\<And>x. P x \<Longrightarrow> P (f x)"
  shows "list_all P (xs[i := f (xs ! i)])"
proof (cases "i < length xs")
  case True
  then show ?thesis using assms by (intro list_all_update) (auto simp: list_all_length)
next
  case False
  then show ?thesis using assms(1) by (simp add: list_update_beyond not_less)
qed

lemma length_filter_filter: "length (filter P (filter Q xs)) \<le> length (filter P xs)"
proof -
  have "length (filter P (filter Q xs)) = length (filter Q (filter P xs))" by (simp add: conj_commute)
  also have "\<dots> \<le> length (filter P xs)" by (rule length_filter_le)
  finally show ?thesis .
qed

lemma length_filter_delete: "length (filter P (jmap_delete m k)) \<le> length (filter P m)"
  unfolding AList.delete_eq by (rule length_filter_filter)

lemma length_filter_split:
  "length xs = length (filter P xs) + length (filter (\<lambda>x. \<not> P x) xs)"
  by (induction xs) auto

end
