(* ===== verification/GatewayTypes.thy ===== *)
theory GatewayTypes
  imports Prelude
begin

text \<open>
  The data model of \<^verbatim>\<open>src/types.ts\<close> and \<^verbatim>\<open>src/errors.ts\<close>: one record per interface,
  one datatype per union, optional properties as options, field names prefixed by their
  interface because record fields are global constants. JavaScript strings are lists of
  characters. A \<open>RegExp\<close> object is its source; the engine that runs it is a parameter of the
  functions that use one. \<open>Record<string, T>\<close> is an insertion-ordered map of own properties.
\<close>

section \<open>Errors\<close>

datatype gateway_error_code =
  Unauthenticated | Unauthorized_service | Unknown_service | Unknown_destination
| Unknown_access | Reference_expired | Reference_invalid | Destination_not_allowed
| Host_not_allowed | Scheme_not_allowed | Port_not_allowed | Policy_denied | Tls_error
| Downstream_timeout | Downstream_error | Request_too_large | Response_too_large
| Unsupported_transfer_encoding | Cookie_not_allowed | Secret_scan_busy | Secret_scan_failed
| Self_api_key_denied | Capacity_exceeded | Config_error

text \<open>A \<open>GatewayError\<close> carries its code, its message and the request it answers, if known.\<close>

record gateway_exception =
  ge_code :: gateway_error_code
  ge_message :: string
  ge_request_id :: "string option"

definition gateway_error :: "gateway_error_code \<Rightarrow> string \<Rightarrow> gateway_exception" where
  "gateway_error code msg = \<lparr>ge_code = code, ge_message = msg, ge_request_id = None\<rparr>"

lemma ge_code_gateway_error [simp]: "ge_code (gateway_error c m) = c"
  by (simp add: gateway_error_def)

lemma ge_message_gateway_error [simp]: "ge_message (gateway_error c m) = m"
  by (simp add: gateway_error_def)

type_synonym 'a gateway_result = "gateway_exception + 'a"

section \<open>Untyped values\<close>

text \<open>\<open>unknown\<close> as it reaches the gateway from a JSON request: numbers are opaque to it.\<close>

datatype json =
  JNull | JBool bool | JNumber int | JString string
| JArray "json list" | JObject "(string \<times> json) list"

text \<open>The value of a header of \<open>IncomingHttpHeaders\<close>: \<open>string | string[]\<close>\<close>

datatype header_value = Header_one string | Header_many "string list"

section \<open>Authentication\<close>

datatype auth_mode = Mode_oauth | Mode_builtin_oauth | Mode_bearer

record auth_context =
  ac_subject :: string
  ac_scopes :: "string list"
  ac_mode :: auth_mode

section \<open>Limits and lifetimes\<close>

record token_config =
  tc_idleTtlMs :: int
  tc_maxTtlMs :: int

record login_rate_limit_config =
  lr_windowMs :: int
  lr_perSource :: nat
  lr_perAccount :: nat
  lr_global :: nat
  lr_initialLockoutMs :: int
  lr_maxLockoutMs :: int
  lr_maxEntries :: nat

record limits_config =
  lc_maxInboundBodyBytes :: nat
  lc_inboundBodyTimeoutMs :: int
  lc_maxUnauthenticatedInflight :: nat
  lc_maxUnauthenticatedInflightPerSource :: nat
  lc_maxPasswordVerifications :: nat
  lc_maxPasswordVerificationsPerSource :: nat
  lc_loginGlobalAttempts :: nat
  lc_loginGlobalWindowMs :: int
  lc_maxDenialRecords :: nat
  lc_denialTtlMs :: int
  lc_stateSweepIntervalMs :: int
  lc_maxTokenRecords :: nat
  lc_maxTokenRecordsPerSubject :: nat
  lc_maxAuthorizationCodes :: nat
  lc_maxRefreshTokenRecords :: nat
  lc_maxOAuthClientMetadataInflight :: nat
  lc_maxOAuthClientMetadataInflightPerOrigin :: nat
  lc_maxServiceRequestsInflight :: nat
  lc_maxServiceRequestsInflightPerSubject :: nat
  lc_maxServiceRequestsInflightPerService :: nat
  lc_maxRequestBodyBytes :: nat
  lc_maxResponseBodyBytes :: nat
  lc_timeoutMs :: int

section \<open>Services\<close>

record tls_config =
  tls_verify :: bool

datatype host_matcher_config = HM_exact string | HM_suffix string | HM_regex string

record destination_config =
  dc_id :: string
  dc_baseUrl :: string
  dc_schemes :: "string list"
  dc_hosts :: "host_matcher_config list"
  dc_ports :: "int list"
  dc_tls :: tls_config

record credential_usage_config =
  cu_kind :: string
  cu_name :: "string option"
  cu_prefix :: "string option"
  cu_suffix :: "string option"
  cu_enforce :: bool

datatype credential_source_config = Source_env string | Source_file string

record credential_config =
  cr_id :: string
  cr_usage :: credential_usage_config
  cr_source :: credential_source_config
  cr_secret :: string

record access_config =
  access_users :: "string list"

datatype policy_effect = Allow | Deny

datatype secretlint_override = Secretlint_disabled | Secretlint_disabled_rules "string list"

record binary_response_config =
  br_scan :: bool
  br_maxBytes :: "nat option"

record policy_rule_config =
  pr_id :: string
  pr_effect :: policy_effect
  pr_priority :: int
  pr_methods :: "string list"
  pr_hosts :: "string list"
  pr_paths :: "string list"
  pr_reason :: "string option"
  pr_secretlint :: "secretlint_override option"
  pr_binaryResponse :: binary_response_config

record policy_config =
  pc_mode :: policy_effect
  pc_rules :: "policy_rule_config list"

record service_config =
  sc_id :: string
  sc_name :: string
  sc_description :: "string option"
  sc_apiDocsUrl :: "string option"
  sc_destinations :: "destination_config list"
  sc_tls :: tls_config
  sc_credentials :: "credential_config list"
  sc_access :: access_config
  sc_policy :: policy_config

text \<open>
  Of \<open>GatewayConfig\<close>, the sections the modelled operations read: the lifetimes, the limits
  and the services. The server, control, logging, audit, persistence and identity sections are
  read by the listeners and stores that are not modelled.
\<close>

record gateway_config =
  gc_tokens :: token_config
  gc_limits :: limits_config
  gc_services :: "(string, service_config) jmap"

end
