(* ===== verification/InflightLimiter.thy ===== *)
theory InflightLimiter
  imports GatewayTypes
begin

text \<open>
  \<^verbatim>\<open>src/inflightLimiter.ts\<close>: counters of requests in flight, overall and per source.
  \<open>acquire\<close> either refuses or hands
  out a release closure; the closure is a \<^emph>\<open>lease\<close> here, the values it captured together with
  its \<open>released\<close> flag. The locale \<open>capacity_limiter\<close> is what a caller relies on; this limiter
  interprets it, and so does the per-service limiter built on top of it.
\<close>

section \<open>Sequences of acquisitions and releases\<close>

text \<open>
  The callers of a limiter, as a sequence of commands: ask for a lease under a key, or call the
  release closure of the \<open>n\<close>-th lease handed out so far (any number of times).
\<close>

datatype 'k pool_command = Acquire 'k | Release nat

fun pool_step ::
  "('s \<Rightarrow> 'k \<Rightarrow> 's \<times> 'h option) \<Rightarrow> ('h \<Rightarrow> 's \<Rightarrow> 'h \<times> 's) \<Rightarrow>
   's \<times> 'h list \<Rightarrow> 'k pool_command \<Rightarrow> 's \<times> 'h list"
where
  "pool_step acq rel (s, hs) (Acquire k) =
     (case acq s k of (s', None) \<Rightarrow> (s', hs) | (s', Some h) \<Rightarrow> (s', hs @ [h]))"
| "pool_step acq rel (s, hs) (Release i) =
     (if i < length hs then (case rel (hs ! i) s of (h', s') \<Rightarrow> (s', hs[i := h'])) else (s, hs))"

definition pool_run ::
  "('s \<Rightarrow> 'k \<Rightarrow> 's \<times> 'h option) \<Rightarrow> ('h \<Rightarrow> 's \<Rightarrow> 'h \<times> 's) \<Rightarrow>
   's \<Rightarrow> 'k pool_command list \<Rightarrow> 's \<times> 'h list"
where
  "pool_run acq rel s cmds = foldl (pool_step acq rel) (s, []) cmds"

definition outstanding :: "('h \<Rightarrow> bool) \<Rightarrow> ('h \<Rightarrow> bool) \<Rightarrow> 'h list \<Rightarrow> int" where
  "outstanding released P hs = int (length (filter (\<lambda>h. \<not> released h \<and> P h) hs))"

lemma outstanding_Nil [simp]: "outstanding released P [] = 0"
  by (simp add: outstanding_def)

lemma outstanding_snoc:
  "outstanding released P (hs @ [h]) =
    outstanding released P hs + (if \<not> released h \<and> P h then 1 else 0)"
  by (simp add: outstanding_def)

lemma outstanding_nonneg: "0 \<le> outstanding released P hs"
  by (simp add: outstanding_def)

lemma outstanding_release:
  assumes "i < length hs" and "\<not> released (hs ! i)" and "released h'"
  shows "outstanding released P (hs[i := h']) =
    outstanding released P hs - (if P (hs ! i) then 1 else 0)"
  using length_filter_update [OF assms(1), of "\<lambda>h. \<not> released h \<and> P h" h'] assms(2,3)
  by (auto simp: outstanding_def split: if_splits)

lemma outstanding_pos:
  assumes "i < length hs" and "\<not> released (hs ! i)" and "P (hs ! i)"
  shows "0 < outstanding released P hs"
  using assms nth_mem [OF assms(1)]
  by (auto simp: outstanding_def filter_empty_conv)

text \<open>How many leases are out under each key.\<close>

definition per_key :: "('h \<Rightarrow> bool) \<Rightarrow> ('h \<Rightarrow> string) \<Rightarrow> 'h list \<Rightarrow> string \<Rightarrow> int" where
  "per_key released key hs k = outstanding released (\<lambda>h. key h = k) hs"

lemma per_key_Nil [simp]: "per_key released key [] = (\<lambda>_. 0)"
  by (simp add: per_key_def fun_eq_iff)

lemma per_key_nonneg: "0 \<le> per_key released key hs k"
  by (simp add: per_key_def outstanding_nonneg)

lemma per_key_snoc:
  "\<not> released h \<Longrightarrow> key h = k \<Longrightarrow>
    per_key released key (hs @ [h]) = (per_key released key hs)(k := per_key released key hs k + 1)"
  by (auto simp: per_key_def outstanding_snoc fun_eq_iff)

lemma per_key_release:
  assumes "i < length hs" and "\<not> released (hs ! i)" and "released h'" and "key (hs ! i) = k"
  shows "per_key released key (hs[i := h']) =
    (per_key released key hs)(k := per_key released key hs k - 1)"
  using outstanding_release [where released = released, OF assms(1-3)] assms(4)
  by (auto simp: per_key_def fun_eq_iff)

lemma per_key_pos:
  "i < length hs \<Longrightarrow> \<not> released (hs ! i) \<Longrightarrow> key (hs ! i) = k \<Longrightarrow> 0 < per_key released key hs k"
  by (auto simp: per_key_def intro: outstanding_pos)

text \<open>
  The contract of a limiter. \<open>held s hs\<close> relates the counters of \<open>s\<close> to the leases handed out;
  the laws say that every operation keeps it, that a refusal changes nothing and that a second
  release of the same lease does nothing.
\<close>

locale capacity_limiter =
  fixes acquire :: "'s \<Rightarrow> 'k \<Rightarrow> 's \<times> 'h option"
    and release :: "'h \<Rightarrow> 's \<Rightarrow> 'h \<times> 's"
    and released :: "'h \<Rightarrow> bool"
    and held :: "'s \<Rightarrow> 'h list \<Rightarrow> bool"
  assumes acquire_refused: "acquire s k = (s', None) \<Longrightarrow> s' = s"
    and acquire_held: "held s hs \<Longrightarrow> acquire s k = (s', Some h) \<Longrightarrow> held s' (hs @ [h])"
    and acquire_fresh: "acquire s k = (s', Some h) \<Longrightarrow> \<not> released h"
    and release_twice: "released h \<Longrightarrow> release h s = (h, s)"
    and release_marks: "release h s = (h', s') \<Longrightarrow> released h'"
    and release_held:
      "held s hs \<Longrightarrow> i < length hs \<Longrightarrow> release (hs ! i) s = (h', s') \<Longrightarrow> held s' (hs[i := h'])"
begin

lemma pool_step_held: "held (fst p) (snd p) \<Longrightarrow>
    held (fst (pool_step acquire release p c)) (snd (pool_step acquire release p c))"
proof (cases p)
  case (Pair s hs)
  assume "held (fst p) (snd p)"
  then show ?thesis
    using Pair acquire_held release_held acquire_refused
    by (cases c) (fastforce split: prod.splits option.splits)+
qed

lemma pool_foldl_held: "held (fst p) (snd p) \<Longrightarrow>
    held (fst (foldl (pool_step acquire release) p cs)) (snd (foldl (pool_step acquire release) p cs))"
proof (induction cs arbitrary: p)
  case (Cons c cs)
  then show ?case using pool_step_held [of p c] by simp
qed simp

lemma pool_run_held: "held s [] \<Longrightarrow> pool_run acquire release s cs = (s', hs) \<Longrightarrow> held s' hs"
  using pool_foldl_held [of "(s, [])" cs] by (simp add: pool_run_def)

lemma release_idem: "release h s = (h', s') \<Longrightarrow> release h' s' = (h', s')"
  by (blast intro: release_twice dest: release_marks)

end

section \<open>The in-flight limiter\<close>

record inflight_limiter =
  il_maxTotal :: int
  il_maxPerSource :: int
  il_total :: int
  il_bySource :: "(string, int) jmap"

record inflight_lease =
  lease_source :: string
  lease_released :: bool

definition new_inflight_limiter :: "int \<Rightarrow> int \<Rightarrow> inflight_limiter" where
  "new_inflight_limiter maxTotal maxPerSource =
     \<lparr>il_maxTotal = maxTotal, il_maxPerSource = maxPerSource, il_total = 0, il_bySource = []\<rparr>"

definition count_or :: "int \<Rightarrow> (string, int) jmap \<Rightarrow> string \<Rightarrow> int" where
  "count_or d m k = (case jmap_get m k of None \<Rightarrow> d | Some c \<Rightarrow> c)"

definition put_remaining :: "(string, int) jmap \<Rightarrow> string \<Rightarrow> int \<Rightarrow> (string, int) jmap" where
  "put_remaining m k remaining =
     (if remaining = 0 then jmap_delete m k else jmap_set m k remaining)"

definition inflight_acquire ::
  "inflight_limiter \<Rightarrow> string \<Rightarrow> inflight_limiter \<times> inflight_lease option" where
  "inflight_acquire l source =
     (let sourceCount = count_or 0 (il_bySource l) source
      in if il_total l \<ge> il_maxTotal l \<or> sourceCount \<ge> il_maxPerSource l then (l, None)
         else (l\<lparr>il_total := il_total l + 1,
                 il_bySource := jmap_set (il_bySource l) source (sourceCount + 1)\<rparr>,
               Some \<lparr>lease_source = source, lease_released = False\<rparr>))"

definition inflight_release ::
  "inflight_lease \<Rightarrow> inflight_limiter \<Rightarrow> inflight_lease \<times> inflight_limiter" where
  "inflight_release h l =
     (if lease_released h then (h, l)
      else let remaining = count_or 1 (il_bySource l) (lease_source h) - 1
           in (h\<lparr>lease_released := True\<rparr>,
               l\<lparr>il_total := il_total l - 1,
                 il_bySource := put_remaining (il_bySource l) (lease_source h) remaining\<rparr>))"

text \<open>A counter map that is exact for some number of uses per key: no entry is zero.\<close>

definition counts_exactly :: "(string, int) jmap \<Rightarrow> (string \<Rightarrow> int) \<Rightarrow> bool" where
  "counts_exactly m f \<longleftrightarrow>
     jmap_ok m \<and> (\<forall>k. jmap_get m k = (if f k = 0 then None else Some (f k)))"

lemma counts_exactly_Nil [simp]: "counts_exactly [] (\<lambda>_. 0)"
  by (simp add: counts_exactly_def)

lemma counts_exactly_count: "counts_exactly m f \<Longrightarrow> count_or 0 m k = f k"
  by (simp add: counts_exactly_def count_or_def)

lemma counts_exactly_count1: "counts_exactly m f \<Longrightarrow> f k \<noteq> 0 \<Longrightarrow> count_or 1 m k = f k"
  by (simp add: counts_exactly_def count_or_def)

lemma counts_exactly_up:
  "counts_exactly m f \<Longrightarrow> 0 \<le> f k \<Longrightarrow> counts_exactly (jmap_set m k (f k + 1)) (f(k := f k + 1))"
  by (simp add: counts_exactly_def)

lemma counts_exactly_put:
  "counts_exactly m f \<Longrightarrow> counts_exactly (put_remaining m k c) (f(k := c))"
  by (simp add: counts_exactly_def put_remaining_def)

lemma all_le_fun_upd: "\<forall>k. f k \<le> (b :: int) \<Longrightarrow> c \<le> b \<Longrightarrow> \<forall>k'. (f(k := c)) k' \<le> b"
  by simp

definition inflight_held :: "inflight_limiter \<Rightarrow> inflight_lease list \<Rightarrow> bool" where
  "inflight_held l hs \<longleftrightarrow>
     il_total l = outstanding lease_released (\<lambda>_. True) hs \<and>
     il_total l \<le> max 0 (il_maxTotal l) \<and>
     counts_exactly (il_bySource l) (per_key lease_released lease_source hs) \<and>
     (\<forall>s. per_key lease_released lease_source hs s \<le> max 0 (il_maxPerSource l))"

lemma inflight_acquire_held:
  assumes "inflight_held l hs" and acq: "inflight_acquire l s = (l', Some h)"
  shows "inflight_held l' (hs @ [h])"
proof -
  let ?f = "per_key lease_released lease_source hs"
  have ce: "counts_exactly (il_bySource l) ?f" and le: "\<forall>s. ?f s \<le> max 0 (il_maxPerSource l)"
    using assms(1) by (auto simp: inflight_held_def)
  have c: "count_or 0 (il_bySource l) s = ?f s"
    using ce by (rule counts_exactly_count)
  have h: "\<not> lease_released h" "lease_source h = s" "?f s < il_maxPerSource l"
    and l': "l' = l\<lparr>il_total := il_total l + 1, il_bySource := jmap_set (il_bySource l) s (?f s + 1)\<rparr>"
    and t: "il_total l < il_maxTotal l"
    using acq c by (auto simp: inflight_acquire_def Let_def split: if_splits)
  have b: "?f s + 1 \<le> max 0 (il_maxPerSource l)" "il_total l + 1 \<le> max 0 (il_maxTotal l)"
    using h t by auto
  show ?thesis
    using assms(1) counts_exactly_up [OF ce per_key_nonneg, of s] b
      all_le_fun_upd [OF le b(1), of s]
    by (simp add: inflight_held_def l' outstanding_snoc per_key_snoc [where k = s] h)
qed

lemma inflight_release_held:
  assumes "inflight_held l hs" and i: "i < length hs"
    and rel: "inflight_release (hs ! i) l = (h', l')"
  shows "inflight_held l' (hs[i := h'])"
proof (cases "lease_released (hs ! i)")
  case True
  then show ?thesis using assms by (auto simp: inflight_release_def)
next
  case False
  let ?s = "lease_source (hs ! i)" and ?f = "per_key lease_released lease_source hs"
  have pos: "0 < ?f ?s" using i False by (simp add: per_key_pos)
  have ce: "counts_exactly (il_bySource l) ?f" and le: "\<forall>s. ?f s \<le> max 0 (il_maxPerSource l)"
    using assms(1) by (auto simp: inflight_held_def)
  have c: "count_or 1 (il_bySource l) ?s = ?f ?s"
    using counts_exactly_count1 [OF ce] pos by simp
  have h': "lease_released h'"
    and l': "l' = l\<lparr>il_total := il_total l - 1,
               il_bySource := put_remaining (il_bySource l) ?s (?f ?s - 1)\<rparr>"
    using rel False c by (auto simp: inflight_release_def Let_def)
  have "?f ?s - 1 \<le> max 0 (il_maxPerSource l)"
    using le by (metis diff_ge_0_iff_ge diff_left_mono diff_zero order_trans zero_le_one)
  then show ?thesis
    using assms(1) counts_exactly_put [OF ce, of ?s "?f ?s - 1"]
      all_le_fun_upd [OF le, of "?f ?s - 1" ?s]
    by (simp add: inflight_held_def l' outstanding_release per_key_release i False h')
qed

interpretation inflight: capacity_limiter
  inflight_acquire inflight_release lease_released inflight_held
proof unfold_locales
  show "inflight_held s' (hs @ [h])"
    if "inflight_held s hs" "inflight_acquire s k = (s', Some h)" for s hs k s' h
    using that by (rule inflight_acquire_held)
  show "inflight_held s' (hs[i := h'])"
    if "inflight_held s hs" "i < length hs" "inflight_release (hs ! i) s = (h', s')"
    for s hs i h' s'
    using that by (rule inflight_release_held)
qed (auto simp: inflight_acquire_def inflight_release_def Let_def split: if_splits)

lemma inflight_held_new: "inflight_held (new_inflight_limiter t p) []"
  by (simp add: inflight_held_def new_inflight_limiter_def)

lemma inflight_limits_acquire [simp]:
  "inflight_acquire l k = (l', r) \<Longrightarrow> il_maxTotal l' = il_maxTotal l"
  "inflight_acquire l k = (l', r) \<Longrightarrow> il_maxPerSource l' = il_maxPerSource l"
  by (auto simp: inflight_acquire_def Let_def split: if_splits)

lemma inflight_limits_release [simp]:
  "inflight_release h l = (h', l') \<Longrightarrow> il_maxTotal l' = il_maxTotal l"
  "inflight_release h l = (h', l') \<Longrightarrow> il_maxPerSource l' = il_maxPerSource l"
  by (auto simp: inflight_release_def Let_def split: if_splits)

end
