(* ===== verification/ServiceRequestLimiter.thy ===== *)
theory ServiceRequestLimiter
  imports InflightLimiter
begin

text \<open>
  \<^verbatim>\<open>src/serviceRequestLimiter.ts\<close>: the limiter of authenticated service requests, an
  in-flight limiter over subjects plus a counter per service. Its lease holds the lease of the
  inner limiter. It interprets \<open>capacity_limiter\<close> by the facts of the inner interpretation.
\<close>

record service_limiter =
  srl_maxPerService :: int
  srl_overall :: inflight_limiter
  srl_byService :: "(string, int) jmap"

record service_lease =
  sl_service :: string
  sl_overall :: inflight_lease
  sl_released :: bool

definition new_service_limiter :: "int \<Rightarrow> int \<Rightarrow> int \<Rightarrow> service_limiter" where
  "new_service_limiter maxTotal maxPerSubject maxPerService =
     \<lparr>srl_maxPerService = maxPerService,
      srl_overall = new_inflight_limiter maxTotal maxPerSubject,
      srl_byService = []\<rparr>"

definition service_acquire ::
  "service_limiter \<Rightarrow> string \<times> string \<Rightarrow> service_limiter \<times> service_lease option" where
  "service_acquire l key =
     (let (subject, service) = key;
          serviceCount = count_or 0 (srl_byService l) service
      in if serviceCount \<ge> srl_maxPerService l then (l, None)
         else case inflight_acquire (srl_overall l) subject of
             (overall', None) \<Rightarrow> (l\<lparr>srl_overall := overall'\<rparr>, None)
           | (overall', Some releaseOverall) \<Rightarrow>
               (l\<lparr>srl_overall := overall',
                  srl_byService := jmap_set (srl_byService l) service (serviceCount + 1)\<rparr>,
                Some \<lparr>sl_service = service, sl_overall = releaseOverall, sl_released = False\<rparr>))"

definition service_release :: "service_lease \<Rightarrow> service_limiter \<Rightarrow> service_lease \<times> service_limiter" where
  "service_release h l =
     (if sl_released h then (h, l)
      else case inflight_release (sl_overall h) (srl_overall l) of
          (releaseOverall', overall') \<Rightarrow>
            (let remaining = count_or 1 (srl_byService l) (sl_service h) - 1
             in (h\<lparr>sl_released := True, sl_overall := releaseOverall'\<rparr>,
                 l\<lparr>srl_overall := overall',
                   srl_byService := put_remaining (srl_byService l) (sl_service h) remaining\<rparr>)))"

text \<open>\<open>acquireServiceRequest\<close>: a refusal becomes the error \<open>capacity_exceeded\<close>.\<close>

definition acquireServiceRequest ::
  "service_limiter \<Rightarrow> string \<Rightarrow> string \<Rightarrow> service_limiter \<times> service_lease gateway_result" where
  "acquireServiceRequest l subject service =
     (case service_acquire l (subject, service) of
        (l', None) \<Rightarrow>
          (l', Inl (gateway_error Capacity_exceeded
                      ''Authenticated service request capacity is exhausted.''))
      | (l', Some release) \<Rightarrow> (l', Inr release))"

definition sl_subject :: "service_lease \<Rightarrow> string" where
  "sl_subject h = lease_source (sl_overall h)"

text \<open>A service lease and the overall lease inside it are released together.\<close>

definition service_held :: "service_limiter \<Rightarrow> service_lease list \<Rightarrow> bool" where
  "service_held l hs \<longleftrightarrow>
     (\<forall>h \<in> set hs. lease_released (sl_overall h) = sl_released h) \<and>
     inflight_held (srl_overall l) (map sl_overall hs) \<and>
     counts_exactly (srl_byService l) (per_key sl_released sl_service hs) \<and>
     (\<forall>s. per_key sl_released sl_service hs s \<le> max 0 (srl_maxPerService l))"

lemma service_acquire_held:
  assumes "service_held l hs" and acq: "service_acquire l (u, s) = (l', Some h)"
  shows "service_held l' (hs @ [h])"
proof -
  let ?f = "per_key sl_released sl_service hs"
  have ce: "counts_exactly (srl_byService l) ?f" and le: "\<forall>s. ?f s \<le> max 0 (srl_maxPerService l)"
    and inner: "inflight_held (srl_overall l) (map sl_overall hs)"
    using assms(1) by (auto simp: service_held_def)
  obtain o' r where o': "inflight_acquire (srl_overall l) u = (o', Some r)"
    and h: "h = \<lparr>sl_service = s, sl_overall = r, sl_released = False\<rparr>" "?f s < srl_maxPerService l"
    and l': "l' = l\<lparr>srl_overall := o', srl_byService := jmap_set (srl_byService l) s (?f s + 1)\<rparr>"
    using acq counts_exactly_count [OF ce]
    by (auto simp: service_acquire_def Let_def split: if_splits prod.splits option.splits)
  have b: "?f s + 1 \<le> max 0 (srl_maxPerService l)" using h(2) by simp
  have "inflight_held o' (map sl_overall hs @ [r])"
    using inner o' by (rule inflight.acquire_held)
  then show ?thesis
    using assms(1) counts_exactly_up [OF ce per_key_nonneg, of s]
      all_le_fun_upd [OF le b, of s] inflight.acquire_fresh [OF o']
    by (simp add: service_held_def l' h(1) per_key_snoc [where k = s])
qed

lemma service_release_held:
  assumes "service_held l hs" and i: "i < length hs"
    and rel: "service_release (hs ! i) l = (h', l')"
  shows "service_held l' (hs[i := h'])"
proof (cases "sl_released (hs ! i)")
  case True
  then show ?thesis using assms by (auto simp: service_release_def)
next
  case False
  let ?s = "sl_service (hs ! i)" and ?f = "per_key sl_released sl_service hs"
  have pos: "0 < ?f ?s" using i False by (simp add: per_key_pos)
  have ce: "counts_exactly (srl_byService l) ?f" and le: "\<forall>s. ?f s \<le> max 0 (srl_maxPerService l)"
    and inner: "inflight_held (srl_overall l) (map sl_overall hs)"
    and same: "\<forall>h \<in> set hs. lease_released (sl_overall h) = sl_released h"
    using assms(1) by (auto simp: service_held_def)
  obtain o' r' where o': "inflight_release (sl_overall (hs ! i)) (srl_overall l) = (r', o')"
    and h': "h' = (hs ! i)\<lparr>sl_released := True, sl_overall := r'\<rparr>"
    and l': "l' = l\<lparr>srl_overall := o',
               srl_byService := put_remaining (srl_byService l) ?s (?f ?s - 1)\<rparr>"
    using rel False counts_exactly_count1 [OF ce, of ?s] pos
    by (auto simp: service_release_def Let_def split: prod.splits)
  have "inflight_held o' ((map sl_overall hs)[i := r'])"
    using inner i o' by (intro inflight.release_held [where i = i]) simp_all
  moreover have "\<forall>h \<in> set (hs[i := h']). lease_released (sl_overall h) = sl_released h"
    using same inflight.release_marks [OF o'] set_update_subset_insert [of hs i h'] by (auto simp: h')
  moreover have "?f ?s - 1 \<le> max 0 (srl_maxPerService l)"
    using le by (metis diff_ge_0_iff_ge diff_left_mono diff_zero order_trans zero_le_one)
  ultimately show ?thesis
    using counts_exactly_put [OF ce, of ?s "?f ?s - 1"] all_le_fun_upd [OF le, of "?f ?s - 1" ?s]
      i False
    by (simp add: service_held_def l' per_key_release h' map_update)
qed

interpretation srl: capacity_limiter
  service_acquire service_release sl_released service_held
proof unfold_locales
  show "service_held s' (hs @ [h])"
    if "service_held s hs" "service_acquire s k = (s', Some h)" for s hs k s' h
    using that service_acquire_held by (cases k) blast
  show "service_held s' (hs[i := h'])"
    if "service_held s hs" "i < length hs" "service_release (hs ! i) s = (h', s')"
    for s hs i h' s'
    using that by (rule service_release_held)
  show "s' = s" if "service_acquire s k = (s', None)" for s k s'
    using that
    by (auto simp: service_acquire_def Let_def dest: inflight.acquire_refused
        split: if_splits prod.splits option.splits)
qed (auto simp: service_acquire_def service_release_def Let_def
      split: if_splits prod.splits option.splits)

lemma service_held_new: "service_held (new_service_limiter t u s) []"
  by (simp add: service_held_def new_service_limiter_def inflight_held_new)

text \<open>No operation changes the configured limits.\<close>

definition service_limits :: "service_limiter \<Rightarrow> int \<times> int \<times> int" where
  "service_limits l =
     (il_maxTotal (srl_overall l), il_maxPerSource (srl_overall l), srl_maxPerService l)"

lemma service_limits_step:
  "service_limits (fst (pool_step service_acquire service_release p c)) = service_limits (fst p)"
  by (cases p; cases c)
    (auto simp: service_limits_def service_acquire_def service_release_def Let_def
      split: prod.splits option.splits)

lemma service_limits_run:
  "service_limits (fst (pool_run service_acquire service_release l cs)) = service_limits l"
proof -
  have "service_limits (fst (foldl (pool_step service_acquire service_release) p cs))
      = service_limits (fst p)" for p
    by (induction cs arbitrary: p) (simp_all add: service_limits_step)
  then show ?thesis by (simp add: pool_run_def)
qed

lemma outstanding_map: "outstanding r P (map f hs) = outstanding (\<lambda>h. r (f h)) (\<lambda>h. P (f h)) hs"
  by (simp add: outstanding_def filter_map o_def)

lemma outstanding_cong:
  "(\<And>h. h \<in> set hs \<Longrightarrow> r h = r' h) \<Longrightarrow> outstanding r P hs = outstanding r' P hs"
  unfolding outstanding_def by (intro arg_cong [where f = "\<lambda>xs. int (length xs)"] filter_cong) auto

lemma service_held_bounds:
  assumes "service_held l hs"
  shows "outstanding sl_released (\<lambda>_. True) hs \<le> max 0 (il_maxTotal (srl_overall l))"
    and "outstanding sl_released (\<lambda>h. sl_subject h = u) hs \<le> max 0 (il_maxPerSource (srl_overall l))"
    and "outstanding sl_released (\<lambda>h. sl_service h = s) hs \<le> max 0 (srl_maxPerService l)"
proof -
  have eq: "outstanding sl_released P hs = outstanding (\<lambda>h. lease_released (sl_overall h)) P hs" for P
    using assms by (intro outstanding_cong) (simp add: service_held_def)
  show "outstanding sl_released (\<lambda>_. True) hs \<le> max 0 (il_maxTotal (srl_overall l))"
    "outstanding sl_released (\<lambda>h. sl_subject h = u) hs \<le> max 0 (il_maxPerSource (srl_overall l))"
    "outstanding sl_released (\<lambda>h. sl_service h = s) hs \<le> max 0 (srl_maxPerService l)"
    using assms
    by (auto simp: service_held_def inflight_held_def per_key_def outstanding_map sl_subject_def eq)
qed

lemma service_held_all_released:
  assumes "service_held l hs" and "\<forall>h \<in> set hs. sl_released h"
  shows "il_total (srl_overall l) = 0" and "il_bySource (srl_overall l) = []"
    and "srl_byService l = []"
proof -
  have same: "\<forall>h \<in> set hs. lease_released (sl_overall h)"
    using assms by (simp add: service_held_def)
  have o1: "outstanding lease_released P (map sl_overall hs) = 0" for P
    using same by (simp add: outstanding_def filter_empty_conv)
  have o2: "outstanding sl_released Q hs = 0" for Q
    using assms(2) by (simp add: outstanding_def filter_empty_conv)
  have empty: "m = []" if "counts_exactly m (\<lambda>_. 0)" for m
    using that by (cases m) (auto simp: counts_exactly_def split: if_splits)
  have f: "per_key lease_released lease_source (map sl_overall hs) = (\<lambda>_. 0)"
    "per_key sl_released sl_service hs = (\<lambda>_. 0)"
    by (simp_all add: per_key_def o1 o2 fun_eq_iff)
  show "il_total (srl_overall l) = 0" "il_bySource (srl_overall l) = []" "srl_byService l = []"
    using assms(1) by (simp_all add: service_held_def inflight_held_def o1 f empty)
qed

section \<open>Properties\<close>

text \<open>
  C29: However callers interleave acquisitions and calls of the release closures handed out,
  including releasing the same lease twice, the leases not yet released never exceed the total
  limit, the limit per subject and the limit per service of the configured limiter (a limit below
  zero admits nobody).
\<close>

theorem service_requests_within_limits:
  "let (l, hs) = pool_run service_acquire service_release (new_service_limiter t u s) cs
   in outstanding sl_released (\<lambda>_. True) hs \<le> max 0 t \<and>
      outstanding sl_released (\<lambda>h. sl_subject h = subject) hs \<le> max 0 u \<and>
      outstanding sl_released (\<lambda>h. sl_service h = service) hs \<le> max 0 s"
proof -
  obtain l hs where run:
    "pool_run service_acquire service_release (new_service_limiter t u s) cs = (l, hs)"
    by (cases "pool_run service_acquire service_release (new_service_limiter t u s) cs")
  have "service_held l hs" using service_held_new run by (rule srl.pool_run_held)
  moreover have "il_maxTotal (srl_overall l) = t" "il_maxPerSource (srl_overall l) = u"
    "srl_maxPerService l = s"
    using service_limits_run [of "new_service_limiter t u s" cs] run
    by (simp_all add: service_limits_def new_service_limiter_def new_inflight_limiter_def)
  ultimately show ?thesis
    using service_held_bounds [of l hs] run by simp
qed

text \<open>
  No capacity leaks. After any interleaving of acquisitions and releases, if every lease
  handed out has been released the limiter is back in its initial state, both counter maps empty,
  so it admits requests exactly as a new limiter does.
\<close>

theorem service_capacity_recovered:
  assumes "pool_run service_acquire service_release (new_service_limiter t u s) cs = (l, hs)"
    and "\<forall>h \<in> set hs. sl_released h"
  shows "l = new_service_limiter t u s"
proof -
  have "service_held l hs" using service_held_new assms(1) by (rule srl.pool_run_held)
  then have "il_total (srl_overall l) = 0" "il_bySource (srl_overall l) = []" "srl_byService l = []"
    using assms(2) by (auto intro: service_held_all_released)
  moreover have "il_maxTotal (srl_overall l) = t" "il_maxPerSource (srl_overall l) = u"
    "srl_maxPerService l = s"
    using service_limits_run [of "new_service_limiter t u s" cs] assms(1)
    by (simp_all add: service_limits_def new_service_limiter_def new_inflight_limiter_def)
  ultimately show ?thesis
    by (simp add: new_service_limiter_def new_inflight_limiter_def)
qed

theorem service_capacity_recovered_witness:
  "fst (pool_run service_acquire service_release (new_service_limiter 2 1 1)
     [Acquire (''u'', ''s''), Acquire (''v'', ''s''), Release 0, Acquire (''v'', ''s''), Release 0,
      Release 1]) = new_service_limiter 2 1 1"
proof -
  let ?run = "pool_run service_acquire service_release (new_service_limiter 2 1 1)
     [Acquire (''u'', ''s''), Acquire (''v'', ''s''), Release 0, Acquire (''v'', ''s''), Release 0,
      Release 1]"
  have "length (snd ?run) = 2 \<and> (\<forall>h \<in> set (snd ?run). sl_released h)"
    by code_simp
  then show ?thesis
    using service_capacity_recovered [of 2 1 1 _ "fst ?run" "snd ?run"] by simp
qed

end
