(* ===== verification/ExpiringStore.thy ===== *)
theory ExpiringStore
  imports GatewayTypes
begin

text \<open>
  The contract that the in-memory stores with expiring entries share: denial records, replayed
  nonces, rate windows and references each drop, before they are used, the entries whose expiry
  is not after the clock. The locale is stated on the pruning loop of a store and interpreted by
  each of them.
\<close>

locale expiring_store =
  fixes expiry :: "'v \<Rightarrow> int"
    and prune :: "int \<Rightarrow> ('k, 'v) jmap \<Rightarrow> ('k, 'v) jmap"
  assumes prune_filter: "jmap_ok m \<Longrightarrow> prune now m = filter (\<lambda>(k, v). now < expiry v) m"
begin

lemma prune_ok: "jmap_ok m \<Longrightarrow> jmap_ok (prune now m)"
  by (simp add: prune_filter)

lemma prune_size: "jmap_ok m \<Longrightarrow> length (prune now m) \<le> length m"
  by (simp add: prune_filter)

lemma prune_get:
  "jmap_ok m \<Longrightarrow>
    jmap_get (prune now m) k =
      (case jmap_get m k of None \<Rightarrow> None | Some v \<Rightarrow> if now < expiry v then Some v else None)"
  by (auto simp: prune_filter jmap_get_filter split: option.splits)

lemma prune_live: "jmap_ok m \<Longrightarrow> jmap_get (prune now m) k = Some v \<Longrightarrow> now < expiry v"
  by (simp add: prune_get split: option.splits if_splits)

lemma prune_keeps:
  "jmap_ok m \<Longrightarrow> jmap_get m k = Some v \<Longrightarrow> now < expiry v \<Longrightarrow> jmap_get (prune now m) k = Some v"
  by (simp add: prune_get)

lemma prune_set: "jmap_ok m \<Longrightarrow> (k, v) \<in> set (prune now m) \<longleftrightarrow> (k, v) \<in> set m \<and> now < expiry v"
  by (simp add: prune_filter)

lemma prune_id: "jmap_ok m \<Longrightarrow> \<forall>(k, v) \<in> set m. now < expiry v \<Longrightarrow> prune now m = m"
  by (auto simp: prune_filter intro!: filter_True)

lemma prune_later:
  "jmap_ok m \<Longrightarrow> now \<le> now' \<Longrightarrow> prune now' (prune now m) = prune now' m"
  by (auto simp: prune_filter intro!: filter_cong)

end

end
