(* ===== verification/DenialStore.thy ===== *)
theory DenialStore
  imports ExpiringStore
begin

text \<open>
  \<^verbatim>\<open>src/denials.ts\<close>: the bounded store of denied requests, with a time to live and eviction of
  the least recently used record, and \<open>explainDenial\<close>, which answers only the subject the denial
  belongs to. Every operation takes the clock reading it makes.
\<close>

record denial_record =
  dn_request_id :: string
  dn_subject :: string
  dn_reason :: string
  dn_matched_rule :: "string option"
  dn_policy_mode :: policy_effect
  dn_suggestion :: "string option"

text \<open>A stored record: \<open>DenialRecord & { expiresAt: number }\<close>.\<close>

record stored_denial =
  sd_denial :: denial_record
  sd_expiresAt :: int

record denial_store =
  ds_capacity :: nat
  ds_ttlMs :: int
  ds_records :: "(string, stored_denial) jmap"

text \<open>The input of \<open>record\<close>, \<open>Omit<DenialRecord, "request_id">\<close>.\<close>

record denial_input =
  di_subject :: string
  di_reason :: string
  di_matched_rule :: "string option"
  di_policy_mode :: policy_effect
  di_suggestion :: "string option"

definition new_denial_store :: "nat \<Rightarrow> int \<Rightarrow> denial_store" where
  "new_denial_store capacity ttlMs = \<lparr>ds_capacity = capacity, ds_ttlMs = ttlMs, ds_records = []\<rparr>"

definition prune_denials :: "int \<Rightarrow> (string, stored_denial) jmap \<Rightarrow> (string, stored_denial) jmap" where
  "prune_denials now = jmap_delete_where (\<lambda>r. sd_expiresAt r \<le> now)"

definition denial_sweep :: "int \<Rightarrow> denial_store \<Rightarrow> denial_store" where
  "denial_sweep now s = s\<lparr>ds_records := prune_denials now (ds_records s)\<rparr>"

definition drop_oldest :: "('k, 'v) jmap \<Rightarrow> ('k, 'v) jmap" where
  "drop_oldest m = (case m of [] \<Rightarrow> m | (oldest, _) # _ \<Rightarrow> jmap_delete m oldest)"

text \<open>A full store gives up its oldest entry before a record is added.\<close>

definition make_room :: "denial_store \<Rightarrow> (string, stored_denial) jmap" where
  "make_room s =
     (if length (ds_records s) \<ge> ds_capacity s then drop_oldest (ds_records s) else ds_records s)"

definition denial_record_of :: "denial_input \<Rightarrow> string \<Rightarrow> denial_record" where
  "denial_record_of i requestId =
     \<lparr>dn_request_id = requestId, dn_subject = di_subject i, dn_reason = di_reason i,
      dn_matched_rule = di_matched_rule i, dn_policy_mode = di_policy_mode i,
      dn_suggestion = di_suggestion i\<rparr>"

definition denial_record_op ::
  "int \<Rightarrow> denial_store \<Rightarrow> denial_input \<Rightarrow> string \<Rightarrow> denial_store \<times> denial_record" where
  "denial_record_op now s0 i requestId =
     (let s = denial_sweep now s0;
          r = \<lparr>sd_denial = denial_record_of i requestId, sd_expiresAt = now + ds_ttlMs s\<rparr>
      in (s\<lparr>ds_records := jmap_set (make_room s) requestId r\<rparr>, sd_denial r))"

definition denial_get :: "int \<Rightarrow> denial_store \<Rightarrow> string \<Rightarrow> denial_store \<times> denial_record option" where
  "denial_get now s requestId =
     (case jmap_get (ds_records s) requestId of
        None \<Rightarrow> (s, None)
      | Some r \<Rightarrow>
          (if sd_expiresAt r \<le> now
           then (s\<lparr>ds_records := jmap_delete (ds_records s) requestId\<rparr>, None)
           else (s\<lparr>ds_records := jmap_set (jmap_delete (ds_records s) requestId) requestId r\<rparr>,
                 Some (sd_denial r))))"

record denial_explanation =
  dx_request_id :: string
  dx_reason :: string
  dx_matched_rule :: "string option"
  dx_policy_mode :: policy_effect
  dx_suggestion :: "string option"

definition explainDenial ::
  "int \<Rightarrow> denial_store \<Rightarrow> string \<Rightarrow> string \<Rightarrow> denial_store \<times> denial_explanation option" where
  "explainDenial now s subject requestId =
     (case denial_get now s requestId of
        (s', None) \<Rightarrow> (s', None)
      | (s', Some r) \<Rightarrow>
          (if dn_subject r \<noteq> subject then (s', None)
           else (s', Some \<lparr>dx_request_id = dn_request_id r, dx_reason = dn_reason r,
                           dx_matched_rule = dn_matched_rule r,
                           dx_policy_mode = dn_policy_mode r,
                           dx_suggestion = dn_suggestion r\<rparr>)))"

section \<open>Library lemmas\<close>

interpretation denials: expiring_store sd_expiresAt prune_denials
  by unfold_locales (simp add: prune_denials_def jmap_delete_where_eq not_le)

lemma jmap_ok_drop_oldest [simp, inv_intros]: "jmap_ok m \<Longrightarrow> jmap_ok (drop_oldest m)"
  by (cases m) (auto simp: drop_oldest_def jmap_ok_Cons)

lemma drop_oldest_tl: "jmap_ok m \<Longrightarrow> drop_oldest m = tl m"
  by (cases m) (auto simp: drop_oldest_def jmap_ok_Cons)

definition denial_ok :: "denial_store \<Rightarrow> bool" where
  "denial_ok s \<longleftrightarrow>
     jmap_ok (ds_records s) \<and> length (ds_records s) \<le> max 1 (ds_capacity s) \<and>
     (\<forall>(k, r) \<in> set (ds_records s). dn_request_id (sd_denial r) = k)"

lemma denial_ok_new [inv_intros]: "denial_ok (new_denial_store c t)"
  by (simp add: denial_ok_def new_denial_store_def)

lemma denial_ok_sweep [inv_intros]: "denial_ok s \<Longrightarrow> denial_ok (denial_sweep now s)"
  using denials.prune_size [of "ds_records s" now]
  by (auto simp: denial_ok_def denial_sweep_def denials.prune_ok denials.prune_set)

lemma make_room_ok:
  assumes "denial_ok s"
  shows "jmap_ok (make_room s)" "set (make_room s) \<subseteq> set (ds_records s)"
    "Suc (length (make_room s)) \<le> max 1 (ds_capacity s)"
  using assms set_tl_subset [of "ds_records s"]
  by (auto simp: make_room_def denial_ok_def drop_oldest_tl)

lemma denial_record_op_store:
  "fst (denial_record_op now s i rid) =
    (denial_sweep now s)\<lparr>ds_records := jmap_set (make_room (denial_sweep now s)) rid
      \<lparr>sd_denial = denial_record_of i rid, sd_expiresAt = now + ds_ttlMs s\<rparr>\<rparr>"
  by (simp add: denial_record_op_def Let_def denial_sweep_def)

lemma denial_ok_record [inv_intros]:
  assumes "denial_ok s"
  shows "denial_ok (fst (denial_record_op now s i rid))"
proof -
  let ?s = "denial_sweep now s"
  let ?r = "\<lparr>sd_denial = denial_record_of i rid, sd_expiresAt = now + ds_ttlMs s\<rparr>"
  have s: "denial_ok ?s" using assms by (rule denial_ok_sweep)
  note m = make_room_ok [OF s]
  have "length (jmap_set (make_room ?s) rid ?r) \<le> max 1 (ds_capacity ?s)"
    using m(3) by (simp add: jmap_size_set)
  moreover have "dn_request_id (sd_denial r) = k" if "(k, r) \<in> set (jmap_set (make_room ?s) rid ?r)" for k r
  proof -
    have "(k, r) = (rid, ?r) \<or> (k, r) \<in> set (ds_records ?s)"
      using that m(2) jmap_set_set [of rid ?r "make_room ?s"] by blast
    then show ?thesis using s by (auto simp: denial_ok_def denial_record_of_def)
  qed
  ultimately show ?thesis
    using m(1) by (auto simp: denial_ok_def denial_record_op_store)
qed

lemma denial_ok_get [inv_intros]:
  assumes "denial_ok s"
  shows "denial_ok (fst (denial_get now s rid))"
proof (cases "jmap_get (ds_records s) rid")
  case None
  then show ?thesis using assms by (simp add: denial_get_def)
next
  case (Some r)
  then have inm: "(rid, r) \<in> set (ds_records s)" by (rule map_of_SomeD)
  show ?thesis
    using assms Some inm jmap_touch_size [OF _ Some, of r] jmap_size_delete_le [of rid "ds_records s"]
    by (auto simp: denial_get_def denial_ok_def jmap_set_delete jmap_touch jmap_ok_snoc image_iff)
qed

lemma fst_explainDenial: "fst (explainDenial now s u rid) = fst (denial_get now s rid)"
  by (auto simp: explainDenial_def split: prod.splits option.splits)

section \<open>Runs of the store\<close>

datatype denial_command =
  Cmd_record int denial_input string | Cmd_explain int string string | Cmd_sweep int

fun denial_step :: "denial_store \<Rightarrow> denial_command \<Rightarrow> denial_store" where
  "denial_step s (Cmd_record now i rid) = fst (denial_record_op now s i rid)"
| "denial_step s (Cmd_explain now u rid) = fst (explainDenial now s u rid)"
| "denial_step s (Cmd_sweep now) = denial_sweep now s"

fun command_time :: "denial_command \<Rightarrow> int" where
  "command_time (Cmd_record now i rid) = now"
| "command_time (Cmd_explain now u rid) = now"
| "command_time (Cmd_sweep now) = now"

fun records_id :: "string \<Rightarrow> denial_command \<Rightarrow> bool" where
  "records_id rid (Cmd_record now i rid') = (rid' = rid)"
| "records_id rid _ = False"

lemma denial_ok_step [inv_intros]: "denial_ok s \<Longrightarrow> denial_ok (denial_step s c)"
  by (cases c) (simp_all add: fst_explainDenial inv_intros)

lemma denial_config_step [simp]:
  "ds_capacity (denial_step s c) = ds_capacity s" "ds_ttlMs (denial_step s c) = ds_ttlMs s"
  by (cases c; simp add: denial_record_op_def denial_sweep_def Let_def fst_explainDenial
      denial_get_def split: option.split)+

lemma denial_config_run [simp]:
  "ds_capacity (foldl denial_step s cs) = ds_capacity s"
  by (induction cs arbitrary: s) simp_all

lemma denial_ok_run: "denial_ok s \<Longrightarrow> denial_ok (foldl denial_step s cs)"
  by (induction cs arbitrary: s) (simp_all add: inv_intros)

text \<open>A record and how many entries are more recently used than it.\<close>

definition denial_at :: "denial_store \<Rightarrow> string \<Rightarrow> stored_denial \<Rightarrow> nat \<Rightarrow> bool" where
  "denial_at s rid r n \<longleftrightarrow>
     denial_ok s \<and> (\<exists>older newer. ds_records s = older @ (rid, r) # newer \<and> length newer \<le> n)"

lemma denial_atI:
  "denial_ok s \<Longrightarrow> ds_records s = older @ (rid, r) # newer \<Longrightarrow> length newer \<le> n \<Longrightarrow>
    denial_at s rid r n"
  by (auto simp: denial_at_def)

lemma denial_at_get: "denial_at s rid r n \<Longrightarrow> jmap_get (ds_records s) rid = Some r"
  by (auto simp: denial_at_def denial_ok_def jmap_get_iff)

lemma denial_at_mono: "denial_at s rid r n \<Longrightarrow> n \<le> n' \<Longrightarrow> denial_at s rid r n'"
  unfolding denial_at_def by (meson order_trans)

lemma denial_at_sweep:
  assumes "denial_at s rid r n" and "now < sd_expiresAt r"
  shows "denial_at (denial_sweep now s) rid r n"
proof -
  obtain xs ys where m: "ds_records s = xs @ (rid, r) # ys" "length ys \<le> n" and ok: "denial_ok s"
    using assms(1) by (auto simp: denial_at_def)
  let ?f = "filter (\<lambda>(k, v). now < sd_expiresAt v)"
  have "ds_records (denial_sweep now s) = ?f xs @ (rid, r) # ?f ys"
    using ok m(1) assms(2) by (simp add: denial_sweep_def denials.prune_filter denial_ok_def)
  moreover have "length (?f ys) \<le> n"
    using m(2) length_filter_le [of "\<lambda>(k, v). now < sd_expiresAt v" ys] by linarith
  ultimately show ?thesis
    using denial_ok_sweep [OF ok, of now] by (rule denial_atI [rotated])
qed

lemma jmap_set_after:
  "k \<noteq> rid \<Longrightarrow> \<exists>xs' ys'. jmap_set (xs @ (rid, r) # ys) k v = xs' @ (rid, r) # ys' \<and>
    length ys' \<le> Suc (length ys)"
proof (induction xs)
  case Nil
  then show ?case
    by (intro exI [of _ "[]"] exI [of _ "jmap_set ys k v"]) (simp add: jmap_size_set)
next
  case (Cons x xs)
  show ?case
  proof (cases "fst x = k")
    case True
    then show ?thesis by (intro exI [of _ "(k, v) # xs"] exI [of _ ys]) simp
  next
    case False
    from Cons obtain xs' ys' where "jmap_set (xs @ (rid, r) # ys) k v = xs' @ (rid, r) # ys'"
      "length ys' \<le> Suc (length ys)" by blast
    with False show ?thesis by (intro exI [of _ "x # xs'"] exI [of _ ys']) simp
  qed
qed

lemma denial_at_record:
  assumes "denial_at s rid r n" and "now < sd_expiresAt r" and "rid' \<noteq> rid"
    and "Suc n < ds_capacity s"
  shows "denial_at (fst (denial_record_op now s i rid')) rid r (Suc n)"
proof -
  let ?s = "denial_sweep now s"
  have "denial_at ?s rid r n" using assms(1,2) by (rule denial_at_sweep)
  then obtain xs ys where m: "ds_records ?s = xs @ (rid, r) # ys" "length ys \<le> n"
    and ok: "jmap_ok (ds_records ?s)"
    by (auto simp: denial_at_def denial_ok_def)
  have cap: "ds_capacity ?s = ds_capacity s" by (simp add: denial_sweep_def)
  have "\<exists>xs'. make_room ?s = xs' @ (rid, r) # ys"
  proof (cases xs)
    case Nil
    then have "length (ds_records ?s) < ds_capacity ?s" using m assms(4) cap by simp
    then show ?thesis using m by (auto simp: make_room_def)
  next
    case (Cons x xs')
    then show ?thesis using m ok by (auto simp: make_room_def drop_oldest_tl)
  qed
  then obtain xs' where room: "make_room ?s = xs' @ (rid, r) # ys" by blast
  obtain as bs where
    "jmap_set (make_room ?s) rid' \<lparr>sd_denial = denial_record_of i rid',
        sd_expiresAt = now + ds_ttlMs s\<rparr> = as @ (rid, r) # bs" "length bs \<le> Suc (length ys)"
    using jmap_set_after [OF assms(3)] unfolding room by metis
  moreover have "denial_ok (fst (denial_record_op now s i rid'))"
    using assms(1) by (intro denial_ok_record) (simp add: denial_at_def)
  ultimately show ?thesis
    using m(2) by (intro denial_atI [where older = as and newer = bs])
      (simp_all add: denial_record_op_store)
qed

lemma denial_at_explain:
  assumes "denial_at s rid r n" and "now < sd_expiresAt r"
  shows "denial_at (fst (explainDenial now s u rid')) rid r (Suc n)"
proof -
  obtain xs ys where m: "ds_records s = xs @ (rid, r) # ys" "length ys \<le> n" and ok: "denial_ok s"
    using assms(1) by (auto simp: denial_at_def)
  have g: "jmap_get (ds_records s) rid = Some r" using assms(1) by (rule denial_at_get)
  have del: "jmap_delete (ds_records s) rid' = jmap_delete xs rid' @ (rid, r) # jmap_delete ys rid'"
    if "rid' \<noteq> rid" using that m(1) by (simp add: AList.delete_eq)
  have len: "length (jmap_delete ys rid') \<le> length ys" by (rule jmap_size_delete_le)
  have ok': "denial_ok (fst (explainDenial now s u rid'))"
    using denial_ok_get [OF ok, of now rid'] by (simp add: fst_explainDenial)
  show ?thesis
  proof (cases "rid' = rid")
    case True
    then show ?thesis
      using ok' g assms(2)
      by (intro denial_atI [where older = "jmap_delete (ds_records s) rid" and newer = "[]"])
        (simp_all add: fst_explainDenial denial_get_def jmap_touch)
  next
    case False
    show ?thesis
    proof (cases "snd (denial_get now s rid')")
      case None
      then show ?thesis
        using False ok' m del len assms(1)
        by (auto simp: fst_explainDenial denial_get_def intro: denial_atI denial_at_mono
            split: option.splits if_splits)
    next
      case (Some a)
      then obtain q where "fst (denial_get now s rid') =
          s\<lparr>ds_records := jmap_delete (ds_records s) rid' @ [(rid', q)]\<rparr>"
        by (auto simp: denial_get_def jmap_touch split: option.splits if_splits)
      then show ?thesis
        using del [OF False] len m(2)
        by (intro denial_atI [OF ok', where older = "jmap_delete xs rid'"
              and newer = "jmap_delete ys rid' @ [(rid', q)]"])
          (simp_all add: fst_explainDenial)
    qed
  qed
qed

lemma denial_at_run:
  assumes "denial_at s rid r n" and "\<forall>c \<in> set cs. command_time c < sd_expiresAt r \<and> \<not> records_id rid c"
    and "n + length cs < ds_capacity s"
  shows "denial_at (foldl denial_step s cs) rid r (n + length cs)"
  using assms
proof (induction cs arbitrary: s n)
  case (Cons c cs)
  have "denial_at (denial_step s c) rid r (Suc n)"
    using Cons.prems
    by (cases c)
      (auto intro: denial_at_record denial_at_explain denial_at_mono [OF denial_at_sweep])
  then show ?case using Cons.IH [of "denial_step s c" "Suc n"] Cons.prems by simp
qed simp

lemma denial_at_new_record:
  assumes "denial_ok s" and "rid \<notin> fst ` set (ds_records s)"
  shows "denial_at (fst (denial_record_op now s i rid)) rid
    \<lparr>sd_denial = denial_record_of i rid, sd_expiresAt = now + ds_ttlMs s\<rparr> 0"
proof -
  let ?s = "denial_sweep now s"
  have "set (ds_records ?s) \<subseteq> set (ds_records s)"
    using assms(1) by (auto simp: denial_ok_def denial_sweep_def denials.prune_set)
  then have "rid \<notin> fst ` set (make_room ?s)"
    using make_room_ok(2) [OF denial_ok_sweep [OF assms(1), of now]] assms(2) by blast
  then show ?thesis
    using denial_ok_record [OF assms(1), of now i rid]
    by (intro denial_atI [where older = "make_room ?s" and newer = "[]"])
      (simp_all add: denial_record_op_store jmap_set_new)
qed

section \<open>Properties\<close>

text \<open>
  C35: \<open>explainDenial\<close> gives an explanation exactly when a record of that identifier is
  stored, has not expired and belongs to the asking subject, and the explanation is the stored
  reason, rule, mode and suggestion. Nobody learns about another subject's denial.
\<close>

theorem explainDenial_exact:
  "snd (explainDenial now s u rid) = Some x \<longleftrightarrow>
    (\<exists>r. jmap_get (ds_records s) rid = Some r \<and> now < sd_expiresAt r \<and>
      dn_subject (sd_denial r) = u \<and>
      x = \<lparr>dx_request_id = dn_request_id (sd_denial r), dx_reason = dn_reason (sd_denial r),
           dx_matched_rule = dn_matched_rule (sd_denial r),
           dx_policy_mode = dn_policy_mode (sd_denial r),
           dx_suggestion = dn_suggestion (sd_denial r)\<rparr>)"
  by (auto simp: explainDenial_def denial_get_def split: option.splits)

text \<open>
  A denial stays explainable for its time to live however the store is used afterwards,
  as long as fewer operations than the capacity follow: after \<open>record\<close> under a new identifier,
  any mix of other records, explanations and sweeps that happen before the expiry leaves the
  record available to its subject with the recorded contents.
\<close>

theorem denial_retained:
  assumes "denial_ok s" and "rid \<notin> fst ` set (ds_records s)"
    and "\<forall>c \<in> set cs. command_time c < now + ds_ttlMs s \<and> \<not> records_id rid c"
    and "length cs < ds_capacity s" and "now' < now + ds_ttlMs s"
  shows "snd (explainDenial now' (foldl denial_step (fst (denial_record_op now s i rid)) cs)
      (di_subject i) rid) =
    Some \<lparr>dx_request_id = rid, dx_reason = di_reason i, dx_matched_rule = di_matched_rule i,
          dx_policy_mode = di_policy_mode i, dx_suggestion = di_suggestion i\<rparr>"
proof -
  let ?r = "\<lparr>sd_denial = denial_record_of i rid, sd_expiresAt = now + ds_ttlMs s\<rparr>"
  let ?s = "fst (denial_record_op now s i rid)"
  have "ds_capacity ?s = ds_capacity s"
    by (simp add: denial_record_op_def denial_sweep_def Let_def)
  then have "denial_at (foldl denial_step ?s cs) rid ?r (0 + length cs)"
    using assms by (intro denial_at_run denial_at_new_record) auto
  from denial_at_get [OF this] show ?thesis
    using assms(5) by (simp add: explainDenial_def denial_get_def denial_record_of_def)
qed

theorem denial_retained_witness:
  "snd (explainDenial 9
     (foldl denial_step
       (fst (denial_record_op 0 (new_denial_store 3 10)
         \<lparr>di_subject = ''alice'', di_reason = ''r'', di_matched_rule = None,
          di_policy_mode = Deny, di_suggestion = None\<rparr> ''a''))
       [Cmd_record 1 \<lparr>di_subject = ''bob'', di_reason = ''q'', di_matched_rule = None,
          di_policy_mode = Deny, di_suggestion = None\<rparr> ''b'', Cmd_explain 2 ''bob'' ''b''])
     ''alice'' ''a'') =
   Some \<lparr>dx_request_id = ''a'', dx_reason = ''r'', dx_matched_rule = None,
         dx_policy_mode = Deny, dx_suggestion = None\<rparr>"
  by (rule denial_retained [where s = "new_denial_store 3 10" and rid = "''a''" and now = 0
        and i = "\<lparr>di_subject = ''alice'', di_reason = ''r'', di_matched_rule = None,
          di_policy_mode = Deny, di_suggestion = None\<rparr>", simplified])
    (simp_all add: denial_ok_new, simp_all add: new_denial_store_def)

text \<open>
  Whatever sequence of records, explanations and sweeps runs on a fresh store, it holds at
  most its capacity of records (one, if the capacity is zero), one per request identifier, and
  every record is filed under its own identifier.
\<close>

theorem denial_store_bounded:
  "denial_ok (foldl denial_step (new_denial_store capacity ttlMs) cs) \<and>
   length (ds_records (foldl denial_step (new_denial_store capacity ttlMs) cs)) \<le> max 1 capacity"
proof -
  let ?s = "foldl denial_step (new_denial_store capacity ttlMs) cs"
  have ok: "denial_ok ?s" by (intro denial_ok_run denial_ok_new)
  moreover have "ds_capacity ?s = capacity" by (simp add: new_denial_store_def)
  ultimately show ?thesis by (simp add: denial_ok_def)
qed

end
