(* ===== verification/VaultErrors.thy ===== *)
theory VaultErrors
  imports Prelude
begin

text \<open>
  \<^verbatim>\<open>src/vault/errors.ts\<close>: the error codes of the vault process and the fixed message each
  code carries.
\<close>

datatype vault_error_code =
  Vault_config_invalid | Vault_key_invalid | Vault_frame_invalid | Vault_authentication_failed
| Vault_request_stale | Vault_replay_detected | Vault_capacity_exceeded
| Vault_capability_invalid | Vault_store_unavailable | Vault_record_invalid
| Vault_record_conflict | Vault_record_not_found | Vault_protocol_error
| Vault_operation_denied | Vault_archive_invalid | Vault_archive_authentication_failed

record vault_error =
  ve_code :: vault_error_code
  ve_message :: string

fun vault_message :: "vault_error_code \<Rightarrow> string" where
  "vault_message Vault_config_invalid = ''Vault configuration is invalid.''"
| "vault_message Vault_key_invalid = ''Vault key material is invalid.''"
| "vault_message Vault_frame_invalid = ''Vault protocol frame is invalid.''"
| "vault_message Vault_authentication_failed = ''Vault request authentication failed.''"
| "vault_message Vault_request_stale = ''Vault request is outside the allowed time window.''"
| "vault_message Vault_replay_detected = ''Vault request was already consumed.''"
| "vault_message Vault_capacity_exceeded = ''Vault request capacity is exhausted.''"
| "vault_message Vault_capability_invalid = ''Vault capability is invalid.''"
| "vault_message Vault_store_unavailable = ''Vault store is unavailable.''"
| "vault_message Vault_record_invalid = ''Vault record is invalid.''"
| "vault_message Vault_record_conflict = ''Vault record state conflicts with the request.''"
| "vault_message Vault_record_not_found = ''Vault record was not found.''"
| "vault_message Vault_protocol_error = ''Vault protocol operation failed.''"
| "vault_message Vault_operation_denied = ''Vault operation is not allowed.''"
| "vault_message Vault_archive_invalid = ''Vault archive is invalid.''"
| "vault_message Vault_archive_authentication_failed = ''Vault archive authentication failed.''"

definition vaultError :: "vault_error_code \<Rightarrow> vault_error" where
  "vaultError code = \<lparr>ve_code = code, ve_message = vault_message code\<rparr>"

lemma ve_code_vaultError [simp]: "ve_code (vaultError c) = c"
  by (simp add: vaultError_def)

lemma vaultError_eq [simp]: "vaultError c = vaultError d \<longleftrightarrow> c = d"
  by (auto simp: vaultError_def)

type_synonym 'a vault_result = "vault_error + 'a"

end
