(* ===== verification/ReplayCache.thy ===== *)
theory ReplayCache
  imports ExpiringStore VaultErrors
begin

text \<open>
  \<^verbatim>\<open>src/vault/replayCache.ts\<close>: the bounded cache of consumed request nonces. A full cache
  refuses new requests instead of forgetting old ones.
\<close>

record replay_cache =
  rc_entries :: "(string, int) jmap"
  rc_capacity :: nat

definition new_replay_cache :: "int \<Rightarrow> replay_cache option" where
  "new_replay_cache capacity =
     (if capacity > 9007199254740991 \<or> capacity < 1 then None
      else Some \<lparr>rc_entries = [], rc_capacity = nat capacity\<rparr>)"

definition prune_replays :: "int \<Rightarrow> (string, int) jmap \<Rightarrow> (string, int) jmap" where
  "prune_replays now = jmap_delete_where (\<lambda>expiresAt. expiresAt \<le> now)"

definition replay_consume ::
  "replay_cache \<Rightarrow> string \<Rightarrow> int \<Rightarrow> int \<Rightarrow> replay_cache \<times> unit vault_result" where
  "replay_consume c0 key expiresAt now =
     (let c = c0\<lparr>rc_entries := prune_replays now (rc_entries c0)\<rparr>
      in if jmap_get (rc_entries c) key \<noteq> None then (c, Inl (vaultError Vault_replay_detected))
         else if length (rc_entries c) \<ge> rc_capacity c
         then (c, Inl (vaultError Vault_capacity_exceeded))
         else (c\<lparr>rc_entries := jmap_set (rc_entries c) key expiresAt\<rparr>, Inr ()))"

definition replay_size :: "replay_cache \<Rightarrow> nat" where
  "replay_size c = length (rc_entries c)"

section \<open>Library lemmas\<close>

interpretation replays: expiring_store "\<lambda>expiresAt. expiresAt" prune_replays
  by unfold_locales (simp add: prune_replays_def jmap_delete_where_eq not_le)

definition replay_ok :: "replay_cache \<Rightarrow> bool" where
  "replay_ok c \<longleftrightarrow> jmap_ok (rc_entries c) \<and> length (rc_entries c) \<le> rc_capacity c"

lemma replay_ok_new: "new_replay_cache capacity = Some c \<Longrightarrow> replay_ok c"
  by (auto simp: new_replay_cache_def replay_ok_def split: if_splits)

lemma replay_ok_consume [inv_intros]:
  "replay_ok c \<Longrightarrow> replay_ok (fst (replay_consume c key e now))"
  using replays.prune_size [of "rc_entries c" now]
  by (auto simp: replay_ok_def replay_consume_def Let_def replays.prune_ok jmap_size_set)

text \<open>A run: requests \<open>(key, expiresAt, now)\<close> in order.\<close>

definition replay_step :: "replay_cache \<Rightarrow> string \<times> int \<times> int \<Rightarrow> replay_cache" where
  "replay_step c r = (case r of (key, e, now) \<Rightarrow> fst (replay_consume c key e now))"

lemma replay_ok_step [inv_intros]: "replay_ok c \<Longrightarrow> replay_ok (replay_step c r)"
  by (cases r) (simp add: replay_step_def replay_ok_consume)

lemma replay_ok_run: "replay_ok c \<Longrightarrow> replay_ok (foldl replay_step c rs)"
  by (induction rs arbitrary: c) (simp_all add: inv_intros)

lemma rc_capacity_consume [simp]: "rc_capacity (fst (replay_consume c key e now)) = rc_capacity c"
  by (simp add: replay_consume_def Let_def)

lemma replay_consume_accepted:
  "replay_ok c \<Longrightarrow> snd (replay_consume c key e now) = Inr () \<Longrightarrow>
    jmap_get (rc_entries (fst (replay_consume c key e now))) key = Some e"
  by (auto simp: replay_consume_def Let_def split: if_splits)

lemma replay_consume_keeps:
  assumes "replay_ok c" and "jmap_get (rc_entries c) key = Some e" and "now < e"
  shows "jmap_get (rc_entries (fst (replay_consume c key' e' now))) key = Some e"
  using assms replays.prune_keeps [of "rc_entries c" key e now]
  by (auto simp: replay_consume_def Let_def replay_ok_def)

lemma replay_run_keeps:
  assumes "replay_ok c" and "jmap_get (rc_entries c) key = Some e"
    and "\<forall>(k, x, now) \<in> set rs. now < e"
  shows "jmap_get (rc_entries (foldl replay_step c rs)) key = Some e"
  using assms
proof (induction rs arbitrary: c)
  case (Cons r rs)
  then show ?case
    using replay_consume_keeps [of c key e] by (cases r) (auto simp: replay_step_def inv_intros)
qed simp

section \<open>Properties\<close>

text \<open>
  C30: A nonce the cache accepted is rejected as a replay for as long as it has not expired,
  whatever requests arrive in between and even if the cache fills up: no request whose clock is
  before the expiry makes the cache forget it.
\<close>

theorem replay_rejected:
  assumes "replay_ok c" and "snd (replay_consume c key expiresAt now) = Inr ()"
    and "\<forall>(k, e, t) \<in> set rs. t < expiresAt" and "now' < expiresAt"
  shows "snd (replay_consume (foldl replay_step (fst (replay_consume c key expiresAt now)) rs)
      key expiresAt' now') = Inl (vaultError Vault_replay_detected)"
proof -
  let ?c = "foldl replay_step (fst (replay_consume c key expiresAt now)) rs"
  have ok: "replay_ok ?c" using assms(1) by (intro replay_ok_run replay_ok_consume)
  have "jmap_get (rc_entries ?c) key = Some expiresAt"
    using assms by (intro replay_run_keeps replay_ok_consume replay_consume_accepted)
  then have "jmap_get (prune_replays now' (rc_entries ?c)) key = Some expiresAt"
    using ok assms(4) by (intro replays.prune_keeps) (simp_all add: replay_ok_def)
  then show ?thesis by (simp add: replay_consume_def Let_def)
qed

theorem replay_rejected_witness:
  "snd (replay_consume
     (foldl replay_step (fst (replay_consume \<lparr>rc_entries = [], rc_capacity = 1\<rparr> ''n'' 9 0))
       [(''m'', 20, 5)]) ''n'' 30 8) = Inl (vaultError Vault_replay_detected)"
  by (rule replay_rejected)
    (simp_all add: replay_ok_def replay_consume_def prune_replays_def jmap_delete_where_def)

text \<open>
  \<open>consume\<close> is exact: over the entries still alive it answers a replay for a stored key, then
  a capacity error for a full cache, and otherwise stores the key; the cache never holds more
  than its capacity, and a rejected request changes nothing but the expired entries.
\<close>

theorem replay_consume_exact:
  assumes "replay_ok c"
  shows "replay_consume c key e now =
     (let live = filter (\<lambda>(k, x). now < x) (rc_entries c)
      in if key \<in> fst ` set live then (c\<lparr>rc_entries := live\<rparr>, Inl (vaultError Vault_replay_detected))
         else if length live = rc_capacity c
         then (c\<lparr>rc_entries := live\<rparr>, Inl (vaultError Vault_capacity_exceeded))
         else (c\<lparr>rc_entries := live @ [(key, e)]\<rparr>, Inr ()))
    \<and> replay_size (fst (replay_consume c key e now)) \<le> rc_capacity c"
proof -
  have len: "length (filter (\<lambda>(k, x). now < x) (rc_entries c)) \<le> rc_capacity c"
    using assms le_trans [OF length_filter_le] by (auto simp: replay_ok_def)
  have "replay_size (fst (replay_consume c key e now)) \<le> rc_capacity c"
    using replay_ok_consume [OF assms, of key e now] by (simp add: replay_ok_def replay_size_def)
  with len assms show ?thesis
    by (auto simp: replay_consume_def Let_def replay_ok_def replays.prune_filter jmap_get_None
        jmap_set_new)
qed

theorem replay_consume_exact_witness:
  "replay_consume \<lparr>rc_entries = [(''a'', 5)], rc_capacity = 1\<rparr> ''b'' 9 7 =
    (\<lparr>rc_entries = [(''b'', 9)], rc_capacity = 1\<rparr>, Inr ())"
  using replay_consume_exact [of "\<lparr>rc_entries = [(''a'', 5)], rc_capacity = 1\<rparr>" "''b''" 9 7]
  by (simp add: replay_ok_def jmap_ok_def Let_def)

end
