(* ===== verification/ControlRateLimiter.thy ===== *)
theory ControlRateLimiter
  imports ExpiringStore
begin

text \<open>
  \<^verbatim>\<open>src/control/rateLimiter.ts\<close>: fixed-window request limits of the control API, per source and
  per principal. Exceptions of \<open>safeNow\<close> and \<open>safeIdentity\<close> are values of
  \<open>rate_limit_exception\<close>; the state survives them as the code leaves it. The clock reading is an
  integer (the code truncates it) and the settings callback is its result.
\<close>

datatype control_rate_limit_class = Rate_none | Rate_authentication | Rate_management | Rate_search

datatype control_rate_limit_result = Rate_allowed | Rate_refused int

datatype rate_limit_exception =
  Max_entries_must_be_positive | Invalid_rate_limit_clock | Invalid_rate_limit_identity

record rate_window =
  rw_count :: nat
  rw_resetAt :: int

record rate_setting =
  rs_attempts :: nat
  rs_windowMs :: int

record control_rate_limit_settings =
  rls_management :: rate_setting
  rls_search :: rate_setting

record rate_limiter =
  rl_entries :: "(string, rate_window) jmap"
  rl_maxEntries :: nat
  rl_settings :: "control_rate_limit_settings option"

fun rate_class_name :: "control_rate_limit_class \<Rightarrow> string" where
  "rate_class_name Rate_none = ''none''"
| "rate_class_name Rate_authentication = ''authentication''"
| "rate_class_name Rate_management = ''management''"
| "rate_class_name Rate_search = ''search''"

text \<open>The constant table \<open>limits\<close>; the class \<open>none\<close> is not in it.\<close>

fun default_limit :: "control_rate_limit_class \<Rightarrow> nat" where
  "default_limit Rate_authentication = 30"
| "default_limit Rate_management = 120"
| "default_limit Rate_search = 30"
| "default_limit Rate_none = 0"

definition new_rate_limiter ::
  "int \<Rightarrow> control_rate_limit_settings option \<Rightarrow> rate_limit_exception + rate_limiter" where
  "new_rate_limiter maxEntries settings =
     (if maxEntries < 1 then Inl Max_entries_must_be_positive
      else Inr \<lparr>rl_entries = [], rl_maxEntries = nat maxEntries, rl_settings = settings\<rparr>)"

definition max_safe_integer :: int where
  "max_safe_integer = 9007199254740991"

definition safe_now :: "int \<Rightarrow> rate_limit_exception + int" where
  "safe_now now =
     (if now > max_safe_integer \<or> now < 0 then Inl Invalid_rate_limit_clock else Inr now)"

definition safe_identity :: "string \<Rightarrow> rate_limit_exception + string" where
  "safe_identity v =
     (if length v < 1 \<or> length v > 256 \<or> (\<exists>c \<in> set v. c \<in> {CHR 0x0D, CHR 0x0A, CHR 0x00})
      then Inl Invalid_rate_limit_identity else Inr v)"

definition prune_windows :: "int \<Rightarrow> (string, rate_window) jmap \<Rightarrow> (string, rate_window) jmap" where
  "prune_windows now = jmap_delete_where (\<lambda>w. rw_resetAt w \<le> now)"

definition rate_keys ::
  "control_rate_limit_class \<Rightarrow> string \<Rightarrow> string option \<Rightarrow> rate_limit_exception + string list" where
  "rate_keys c directSource principalId =
     result_bind (safe_identity directSource) (\<lambda>src.
       (case principalId of
          None \<Rightarrow> Inr [rate_class_name c @ '':source:'' @ src]
        | Some p \<Rightarrow>
            result_bind (safe_identity p) (\<lambda>pr.
              Inr [rate_class_name c @ '':source:'' @ src,
                   rate_class_name c @ '':principal:'' @ pr])))"

definition dynamic_setting :: "rate_limiter \<Rightarrow> control_rate_limit_class \<Rightarrow> rate_setting option" where
  "dynamic_setting l c =
     (case rl_settings l of
        None \<Rightarrow> None
      | Some s \<Rightarrow> (if c = Rate_management then Some (rls_management s)
                  else if c = Rate_search then Some (rls_search s) else None))"

definition class_limit :: "rate_limiter \<Rightarrow> control_rate_limit_class \<Rightarrow> nat" where
  "class_limit l c =
     (case dynamic_setting l c of Some d \<Rightarrow> rs_attempts d | None \<Rightarrow> default_limit c)"

definition class_window :: "rate_limiter \<Rightarrow> control_rate_limit_class \<Rightarrow> int" where
  "class_window l c = (case dynamic_setting l c of Some d \<Rightarrow> rs_windowMs d | None \<Rightarrow> 60000)"

text \<open>\<open>Math.ceil(ms / 1000)\<close>\<close>

definition ceil_seconds :: "int \<Rightarrow> int" where
  "ceil_seconds ms = (ms + 999) div 1000"

fun retry_after :: "(string, rate_window) jmap \<Rightarrow> int \<Rightarrow> nat \<Rightarrow> string list \<Rightarrow> int \<Rightarrow> int" where
  "retry_after m now limit [] acc = acc"
| "retry_after m now limit (key # keys) acc =
     retry_after m now limit keys
       (case jmap_get m key of
          None \<Rightarrow> acc
        | Some w \<Rightarrow>
            (if rw_resetAt w > now \<and> rw_count w \<ge> limit
             then max acc (ceil_seconds (rw_resetAt w - now)) else acc))"

definition needs_window :: "(string, rate_window) jmap \<Rightarrow> int \<Rightarrow> string \<Rightarrow> bool" where
  "needs_window m now key =
     (case jmap_get m key of None \<Rightarrow> True | Some w \<Rightarrow> rw_resetAt w \<le> now)"

definition count_key ::
  "int \<Rightarrow> int \<Rightarrow> string \<Rightarrow> (string, rate_window) jmap \<Rightarrow> (string, rate_window) jmap" where
  "count_key now windowMs key m =
     (case jmap_get m key of
        None \<Rightarrow> jmap_set m key \<lparr>rw_count = 1, rw_resetAt = now + windowMs\<rparr>
      | Some w \<Rightarrow>
          (if rw_resetAt w \<le> now
           then jmap_set m key \<lparr>rw_count = 1, rw_resetAt = now + windowMs\<rparr>
           else jmap_set m key (w\<lparr>rw_count := rw_count w + 1\<rparr>)))"

fun count_request ::
  "int \<Rightarrow> int \<Rightarrow> string list \<Rightarrow> (string, rate_window) jmap \<Rightarrow> (string, rate_window) jmap" where
  "count_request now windowMs [] m = m"
| "count_request now windowMs (key # keys) m =
     count_request now windowMs keys (count_key now windowMs key m)"

definition rate_check ::
  "rate_limiter \<Rightarrow> control_rate_limit_class \<Rightarrow> string \<Rightarrow> string option \<Rightarrow> int
    \<Rightarrow> rate_limiter \<times> (rate_limit_exception + control_rate_limit_result)" where
  "rate_check l0 c directSource principalId clock =
     (if c = Rate_none then (l0, Inr Rate_allowed)
      else case safe_now clock of
        Inl e \<Rightarrow> (l0, Inl e)
      | Inr now \<Rightarrow>
          (let l = l0\<lparr>rl_entries := prune_windows now (rl_entries l0)\<rparr>
           in case rate_keys c directSource principalId of
             Inl e \<Rightarrow> (l, Inl e)
           | Inr keys \<Rightarrow>
               (let limit = class_limit l c;
                    retry = retry_after (rl_entries l) now limit keys 0;
                    newEntryCount = length (filter (needs_window (rl_entries l) now) keys)
                in if retry > 0 then (l, Inr (Rate_refused retry))
                   else if length (rl_entries l) + newEntryCount > rl_maxEntries l
                   then (l, Inr (Rate_refused 60))
                   else (l\<lparr>rl_entries := count_request now (class_window l c) keys (rl_entries l)\<rparr>,
                         Inr Rate_allowed))))"

section \<open>Library lemmas\<close>

interpretation windows: expiring_store rw_resetAt prune_windows
  by unfold_locales (simp add: prune_windows_def jmap_delete_where_eq not_le)

definition rate_ok :: "rate_limiter \<Rightarrow> bool" where
  "rate_ok l \<longleftrightarrow> jmap_ok (rl_entries l) \<and> length (rl_entries l) \<le> rl_maxEntries l"

lemma rate_ok_new: "new_rate_limiter n s = Inr l \<Longrightarrow> rate_ok l"
  by (auto simp: new_rate_limiter_def rate_ok_def split: if_splits)

lemma jmap_ok_count_key [simp]: "jmap_ok m \<Longrightarrow> jmap_ok (count_key now w k m)"
  by (simp add: count_key_def split: option.split)

lemma jmap_ok_count_request [simp]: "jmap_ok m \<Longrightarrow> jmap_ok (count_request now w keys m)"
  by (induction keys arbitrary: m) simp_all

lemma count_key_other: "k' \<noteq> k \<Longrightarrow> jmap_get (count_key now w k m) k' = jmap_get m k'"
  by (simp add: count_key_def split: option.split)

lemma count_key_live:
  "jmap_get m k = Some v \<Longrightarrow> now < rw_resetAt v \<Longrightarrow>
    jmap_get (count_key now w k m) k = Some (v\<lparr>rw_count := rw_count v + 1\<rparr>)"
  by (simp add: count_key_def)

lemma count_key_length:
  "length (count_key now w k m) \<le> length m + (if needs_window m now k then 1 else 0)"
  by (auto simp: count_key_def needs_window_def jmap_size_set jmap_has_iff split: option.split)

lemma needs_window_count_key: "k' \<noteq> k \<Longrightarrow> needs_window (count_key now w k m) now k' = needs_window m now k'"
  by (simp add: needs_window_def count_key_other)

lemma count_request_length:
  "distinct keys \<Longrightarrow>
    length (count_request now w keys m) \<le> length m + length (filter (needs_window m now) keys)"
proof (induction keys arbitrary: m)
  case (Cons k ks)
  have "filter (needs_window (count_key now w k m) now) ks = filter (needs_window m now) ks"
    using Cons.prems by (intro filter_cong refl needs_window_count_key) auto
  then show ?case
    using Cons.IH [of "count_key now w k m"] Cons.prems count_key_length [of now w k m]
    by (simp split: if_splits)
qed simp

lemma count_request_other:
  "key \<notin> set ks \<Longrightarrow> jmap_get (count_request now w ks m) key = jmap_get m key"
  by (induction ks arbitrary: m) (auto simp: count_key_other)

lemma count_request_get:
  "distinct keys \<Longrightarrow> jmap_get m key = Some v \<Longrightarrow> now < rw_resetAt v \<Longrightarrow>
    jmap_get (count_request now w keys m) key =
      Some (if key \<in> set keys then v\<lparr>rw_count := rw_count v + 1\<rparr> else v)"
proof (induction keys arbitrary: m)
  case (Cons k ks)
  then show ?case
    by (cases "k = key") (simp_all add: count_key_other count_key_live count_request_other)
qed simp

lemma retry_after_ge: "acc \<le> retry_after m now limit keys acc"
proof (induction keys arbitrary: acc)
  case (Cons k ks)
  then show ?case by (auto split: option.splits intro: order_trans [OF _ Cons.IH])
qed simp

lemma ceil_seconds_pos: "0 < ms \<Longrightarrow> 0 < ceil_seconds ms"
  by (simp add: ceil_seconds_def pos_imp_zdiv_pos_iff)

lemma retry_after_pos:
  "k \<in> set keys \<Longrightarrow> jmap_get m k = Some v \<Longrightarrow> now < rw_resetAt v \<Longrightarrow> limit \<le> rw_count v \<Longrightarrow>
    0 < retry_after m now limit keys acc"
proof (induction keys arbitrary: acc)
  case (Cons k' ks)
  show ?case
  proof (cases "k = k'")
    case True
    have "0 < ceil_seconds (rw_resetAt v - now)" using Cons.prems by (simp add: ceil_seconds_pos)
    then show ?thesis
      using Cons.prems True
        retry_after_ge [of "max acc (ceil_seconds (rw_resetAt v - now))" m now limit ks]
      by simp
  next
    case False
    then show ?thesis using Cons by simp
  qed
qed simp

definition source_key :: "control_rate_limit_class \<Rightarrow> string \<Rightarrow> string" where
  "source_key c s = rate_class_name c @ '':source:'' @ s"

lemma source_key_eq: "source_key c s = source_key c' s' \<longleftrightarrow> c = c' \<and> s = s'"
  by (cases c; cases c') (auto simp: source_key_def)

lemma source_key_principal: "source_key c s \<noteq> rate_class_name c' @ '':principal:'' @ p"
  by (cases c; cases c') (auto simp: source_key_def)

lemma rate_keys_cases:
  assumes "rate_keys c s p = Inr keys"
  obtains "keys = [source_key c s]"
  | q where "keys = [source_key c s, rate_class_name c @ '':principal:'' @ q]"
  using assms
  by (auto simp: rate_keys_def result_bind_Inr safe_identity_def source_key_def
      split: option.splits if_splits)

lemma rate_keys_shape:
  assumes "rate_keys c s p = Inr keys"
  shows "distinct keys" and "source_key c' s' \<in> set keys \<longleftrightarrow> c' = c \<and> s' = s"
proof -
  have "distinct keys \<and> (source_key c' s' \<in> set keys \<longleftrightarrow> source_key c' s' = source_key c s)"
    using assms
  proof (cases rule: rate_keys_cases)
    case 1
    then show ?thesis by simp
  next
    case (2 q)
    then show ?thesis using source_key_principal [of c s c q] source_key_principal [of c' s' c q]
      by auto
  qed
  then show "distinct keys" "source_key c' s' \<in> set keys \<longleftrightarrow> c' = c \<and> s' = s"
    by (auto simp: source_key_eq)
qed

lemma rate_ok_check [inv_intros]:
  assumes "rate_ok l"
  shows "rate_ok (fst (rate_check l c s p t))"
proof -
  let ?m = "prune_windows t (rl_entries l)"
  have ok: "jmap_ok ?m" "length ?m \<le> rl_maxEntries l"
    using assms windows.prune_size [of "rl_entries l" t] by (auto simp: rate_ok_def windows.prune_ok)
  have "length (count_request t w keys ?m) \<le> rl_maxEntries l"
    if "rate_keys c s p = Inr keys"
      "\<not> length ?m + length (filter (needs_window ?m t) keys) > rl_maxEntries l" for keys w
    using count_request_length [OF rate_keys_shape(1) [OF that(1)], of t w ?m] that(2) by linarith
  then show ?thesis
    using assms ok
    by (auto simp: rate_check_def rate_ok_def safe_now_def Let_def split: sum.splits)
qed

text \<open>A run of checks, and how many of them were granted under a source key.\<close>

type_synonym rate_request = "control_rate_limit_class \<times> string \<times> string option \<times> int"

fun rate_run :: "rate_limiter \<Rightarrow> rate_request list \<Rightarrow> rate_limiter" where
  "rate_run l [] = l"
| "rate_run l ((c, s, p, t) # rs) = rate_run (fst (rate_check l c s p t)) rs"

fun granted :: "control_rate_limit_class \<Rightarrow> string \<Rightarrow> rate_limiter \<Rightarrow> rate_request list \<Rightarrow> nat" where
  "granted c s l [] = 0"
| "granted c s l ((c', s', p, t) # rs) =
     (if c' = c \<and> s' = s \<and> snd (rate_check l c' s' p t) = Inr Rate_allowed then 1 else 0) +
     granted c s (fst (rate_check l c' s' p t)) rs"

lemma rate_ok_run: "rate_ok l \<Longrightarrow> rate_ok (rate_run l rs)"
  by (induction l rs rule: rate_run.induct) (simp_all add: inv_intros)

lemma rate_settings_check [simp]:
  "rl_settings (fst (rate_check l c s p t)) = rl_settings l"
  "rl_maxEntries (fst (rate_check l c s p t)) = rl_maxEntries l"
  by (simp_all add: rate_check_def Let_def split: sum.split)

lemma class_limit_check [simp]: "class_limit (fst (rate_check l c s p t)) c' = class_limit l c'"
  by (simp add: class_limit_def dynamic_setting_def)

lemma rate_maxEntries_run [simp]: "rl_maxEntries (rate_run l rs) = rl_maxEntries l"
  by (induction l rs rule: rate_run.induct) simp_all

text \<open>One check under an open window: a grant to its key is counted, and was below the limit.\<close>

lemma rate_check_window:
  assumes "rate_ok l" and "jmap_get (rl_entries l) (source_key c s) = Some w"
    and "t < rw_resetAt w" and "c \<noteq> Rate_none"
  shows "\<exists>w'. jmap_get (rl_entries (fst (rate_check l c' s' p t))) (source_key c s) = Some w' \<and>
      rw_resetAt w' = rw_resetAt w \<and>
      (if c' = c \<and> s' = s \<and> snd (rate_check l c' s' p t) = Inr Rate_allowed
       then rw_count w < class_limit l c \<and> rw_count w' = rw_count w + 1
       else rw_count w' = rw_count w)"
proof (cases "c' = Rate_none \<or> (\<exists>e. safe_now t = Inl e)")
  case True
  then show ?thesis using assms by (auto simp: rate_check_def)
next
  case False
  then have t: "safe_now t = Inr t" by (auto simp: safe_now_def split: if_splits)
  let ?m = "prune_windows t (rl_entries l)"
  have g: "jmap_get ?m (source_key c s) = Some w"
    using assms by (intro windows.prune_keeps) (auto simp: rate_ok_def)
  show ?thesis
  proof (cases "rate_keys c' s' p")
    case (Inl e)
    then show ?thesis using False t g by (auto simp: rate_check_def Let_def)
  next
    case (Inr keys)
    note shape = rate_keys_shape [OF Inr]
    have "rw_count w < class_limit l c" if "c' = c" "s' = s"
        "\<not> 0 < retry_after ?m t (class_limit l c') keys 0"
      using that retry_after_pos [OF _ g assms(3), of keys "class_limit l c" 0] shape(2) [of c s]
      by (metis not_le)
    then show ?thesis
      using False t g Inr shape count_request_get [OF shape(1) g assms(3)]
      by (auto simp: rate_check_def Let_def class_limit_def dynamic_setting_def class_window_def)
  qed
qed

section \<open>Properties\<close>



text \<open>
  The rate limiter never tracks more than its configured number of windows, whatever checks
  run: a check that would need more is refused for a minute instead of evicting anybody.
\<close>

theorem rate_entries_bounded:
  assumes "new_rate_limiter n settings = Inr l"
  shows "length (rl_entries (rate_run l rs)) \<le> nat n"
  using rate_ok_run [OF rate_ok_new [OF assms], of rs] assms
  by (auto simp: rate_ok_def new_rate_limiter_def split: if_splits)

theorem rate_entries_bounded_witness:
  "length (rl_entries (rate_run \<lparr>rl_entries = [], rl_maxEntries = 1, rl_settings = None\<rparr>
      [(Rate_search, ''a'', None, 5), (Rate_search, ''b'', None, 6)])) \<le> nat 1"
  by (rule rate_entries_bounded [where n = 1 and settings = None]) (simp add: new_rate_limiter_def)

end
