(* ===== verification/LoginAttemptLimiter.thy ===== *)
theory LoginAttemptLimiter
  imports GatewayTypes
begin

text \<open>
  \<^verbatim>\<open>src/loginAttemptLimiter.ts\<close>: counters of failed logins per source, per account and overall,
  with lockouts that double up to a maximum. A counter is reached only through the map that holds
  it, so its in-place updates are updates of the map. Clock readings are arguments; the power of
  two is exact, as it is for doubles until the minimum cuts it off.
\<close>

section \<open>Model\<close>

record counter =
  ct_count :: nat
  ct_windowStartedAt :: int
  ct_lockoutUntil :: int
  ct_lockoutLevel :: nat
  ct_lastSeenAt :: int

record login_limiter =
  ll_sources :: "(string, counter) jmap"
  ll_accounts :: "(string, counter) jmap"
  ll_global :: counter
  ll_limits :: login_rate_limit_config

datatype login_verdict = Login_allowed | Login_blocked int

definition newCounter :: "int \<Rightarrow> counter" where
  "newCounter now =
     \<lparr>ct_count = 0, ct_windowStartedAt = now, ct_lockoutUntil = 0, ct_lockoutLevel = 0,
      ct_lastSeenAt = now\<rparr>"

definition new_login_limiter :: "login_rate_limit_config \<Rightarrow> int \<Rightarrow> login_limiter" where
  "new_login_limiter L now =
     \<lparr>ll_sources = [], ll_accounts = [], ll_global = newCounter now, ll_limits = L\<rparr>"

text \<open>The first entry after a stable sort by the time it was last seen.\<close>

definition oldest_key :: "(string, counter) jmap \<Rightarrow> string option" where
  "oldest_key store =
     (case sort_key (\<lambda>(k, c). ct_lastSeenAt c) store of [] \<Rightarrow> None | e # _ \<Rightarrow> Some (fst e))"

definition getCounter ::
  "login_rate_limit_config \<Rightarrow> string \<Rightarrow> int \<Rightarrow> (string, counter) jmap \<Rightarrow> (string, counter) jmap \<times> counter"
where
  "getCounter L key now store =
     (case jmap_get store key of
        Some existing \<Rightarrow> (store, existing)
      | None \<Rightarrow>
          (let room = (if length store \<ge> lr_maxEntries L
                       then case oldest_key store of None \<Rightarrow> store | Some k \<Rightarrow> jmap_delete store k
                       else store)
           in (jmap_set room key (newCounter now), newCounter now)))"

definition lock_duration :: "login_rate_limit_config \<Rightarrow> nat \<Rightarrow> int" where
  "lock_duration L level = min (lr_initialLockoutMs L * 2 ^ level) (lr_maxLockoutMs L)"

definition increment :: "login_rate_limit_config \<Rightarrow> nat \<Rightarrow> int \<Rightarrow> counter \<Rightarrow> counter" where
  "increment L threshold now c0 =
     (let c1 = (if now - ct_windowStartedAt c0 \<ge> lr_windowMs L
                then c0\<lparr>ct_count := 0, ct_windowStartedAt := now\<rparr> else c0);
          c2 = c1\<lparr>ct_count := ct_count c1 + 1, ct_lastSeenAt := now\<rparr>
      in if ct_count c2 < threshold then c2
         else c2\<lparr>ct_lockoutUntil := now + lock_duration L (ct_lockoutLevel c2),
                 ct_lockoutLevel := ct_lockoutLevel c2 + 1, ct_count := 0,
                 ct_windowStartedAt := now + lock_duration L (ct_lockoutLevel c2)\<rparr>)"

definition increment_key ::
  "login_rate_limit_config \<Rightarrow> nat \<Rightarrow> int \<Rightarrow> string \<Rightarrow> (string, counter) jmap \<Rightarrow> (string, counter) jmap" where
  "increment_key L threshold now key store =
     (case getCounter L key now store of (store', c) \<Rightarrow> jmap_set store' key (increment L threshold now c))"

definition recordFailure :: "int \<Rightarrow> string \<Rightarrow> string \<Rightarrow> login_limiter \<Rightarrow> login_limiter" where
  "recordFailure now src account l =
     l\<lparr>ll_sources := increment_key (ll_limits l) (lr_perSource (ll_limits l)) now src (ll_sources l),
       ll_accounts := increment_key (ll_limits l) (lr_perAccount (ll_limits l)) now account (ll_accounts l),
       ll_global := increment (ll_limits l) (lr_global (ll_limits l)) now (ll_global l)\<rparr>"

definition recordSuccess :: "string \<Rightarrow> string \<Rightarrow> login_limiter \<Rightarrow> login_limiter" where
  "recordSuccess src account l =
     l\<lparr>ll_sources := jmap_delete (ll_sources l) src, ll_accounts := jmap_delete (ll_accounts l) account\<rparr>"

definition stale_counter :: "login_rate_limit_config \<Rightarrow> int \<Rightarrow> counter \<Rightarrow> bool" where
  "stale_counter L now c \<longleftrightarrow>
     ct_lastSeenAt c < now - lr_windowMs L - lr_maxLockoutMs L \<and> ct_lockoutUntil c \<le> now"

definition login_sweep :: "int \<Rightarrow> login_limiter \<Rightarrow> login_limiter" where
  "login_sweep now l =
     l\<lparr>ll_sources := jmap_delete_where (stale_counter (ll_limits l) now) (ll_sources l),
       ll_accounts := jmap_delete_where (stale_counter (ll_limits l) now) (ll_accounts l),
       ll_global :=
         (if ct_lockoutUntil (ll_global l) \<le> now \<and>
             now - ct_windowStartedAt (ll_global l) \<ge> lr_windowMs (ll_limits l)
          then (ll_global l)\<lparr>ct_count := 0, ct_windowStartedAt := now\<rparr> else ll_global l)\<rparr>"

definition lockout_of :: "(string, counter) jmap \<Rightarrow> string \<Rightarrow> int" where
  "lockout_of store key = (case jmap_get store key of None \<Rightarrow> 0 | Some c \<Rightarrow> ct_lockoutUntil c)"

definition login_check :: "int \<Rightarrow> string \<Rightarrow> string \<Rightarrow> login_limiter \<Rightarrow> login_limiter \<times> login_verdict" where
  "login_check now src account l0 =
     (let l = login_sweep now l0;
          blockedUntil = max (lockout_of (ll_sources l) src)
                           (max (lockout_of (ll_accounts l) account) (ct_lockoutUntil (ll_global l)))
      in (l, if blockedUntil > now then Login_blocked (blockedUntil - now) else Login_allowed))"

datatype login_command =
  Cmd_check string string | Cmd_failure string string | Cmd_success string string

fun login_step :: "login_limiter \<Rightarrow> int \<times> login_command \<Rightarrow> login_limiter" where
  "login_step l (now, Cmd_check s a) = fst (login_check now s a l)"
| "login_step l (now, Cmd_failure s a) = recordFailure now s a l"
| "login_step l (now, Cmd_success s a) = recordSuccess s a l"

section \<open>Library lemmas\<close>

text \<open>What the configuration loader guarantees of the durations.\<close>

definition lockouts_ok :: "login_rate_limit_config \<Rightarrow> bool" where
  "lockouts_ok L \<longleftrightarrow> 0 < lr_initialLockoutMs L \<and> 0 < lr_maxLockoutMs L \<and> 0 < lr_windowMs L"

definition counter_ok :: "login_rate_limit_config \<Rightarrow> int \<Rightarrow> counter \<Rightarrow> bool" where
  "counter_ok L now c \<longleftrightarrow> ct_lockoutUntil c \<le> now + lock_duration L (ct_lockoutLevel c)"

definition store_ok :: "login_rate_limit_config \<Rightarrow> int \<Rightarrow> (string, counter) jmap \<Rightarrow> bool" where
  "store_ok L now m \<longleftrightarrow> jmap_ok m \<and> length m \<le> max 1 (lr_maxEntries L) \<and>
     (\<forall>(k, c) \<in> set m. counter_ok L now c)"

definition login_ok :: "int \<Rightarrow> login_limiter \<Rightarrow> bool" where
  "login_ok now l \<longleftrightarrow> lockouts_ok (ll_limits l) \<and> 0 \<le> now \<and> counter_ok (ll_limits l) now (ll_global l) \<and>
     store_ok (ll_limits l) now (ll_sources l) \<and> store_ok (ll_limits l) now (ll_accounts l)"

lemma lock_duration_mono: "lockouts_ok L \<Longrightarrow> m \<le> n \<Longrightarrow> lock_duration L m \<le> lock_duration L n"
  by (auto simp: lock_duration_def lockouts_ok_def min_le_iff_disj mult_left_mono)

lemma lock_duration_pos: "lockouts_ok L \<Longrightarrow> 0 < lock_duration L n"
  by (simp add: lock_duration_def lockouts_ok_def)

lemma lock_duration_max: "lock_duration L n \<le> lr_maxLockoutMs L"
  by (simp add: lock_duration_def)

lemma counter_ok_later: "counter_ok L now c \<Longrightarrow> now \<le> t \<Longrightarrow> counter_ok L t c"
  by (simp add: counter_ok_def)

lemma counter_ok_new: "lockouts_ok L \<Longrightarrow> 0 \<le> now \<Longrightarrow> counter_ok L t (newCounter now)" if "0 \<le> t"
  using that lock_duration_pos [of L 0] by (simp add: counter_ok_def newCounter_def)

text \<open>A failure never shortens a lockout.\<close>

lemma increment_lockout:
  assumes "lockouts_ok L" and "counter_ok L now c"
  shows "ct_lockoutUntil c \<le> ct_lockoutUntil (increment L n now c)"
    and "counter_ok L now (increment L n now c)"
  using assms lock_duration_mono [OF assms(1), of "ct_lockoutLevel c" "Suc (ct_lockoutLevel c)"]
  by (auto simp: increment_def Let_def counter_ok_def)

lemma store_ok_size: "store_ok L now m \<Longrightarrow> length m \<le> max 1 (lr_maxEntries L)"
  by (simp add: store_ok_def)

lemma store_ok_later: "store_ok L now m \<Longrightarrow> now \<le> t \<Longrightarrow> store_ok L t m"
  by (auto simp: store_ok_def counter_ok_later)

lemma oldest_key_in: "m \<noteq> [] \<Longrightarrow> \<exists>k. oldest_key m = Some k \<and> k \<in> fst ` set m"
proof -
  assume "m \<noteq> []"
  then obtain e es where "sort_key (\<lambda>(k, c). ct_lastSeenAt c) m = e # es"
    by (metis length_0_conv length_sort neq_Nil_conv)
  moreover from this have "e \<in> set m" by (metis list.set_intros(1) set_sort)
  ultimately show ?thesis by (auto simp: oldest_key_def)
qed

lemma increment_key_present:
  "jmap_get m k = Some c \<Longrightarrow> increment_key L n now k m = jmap_set m k (increment L n now c)"
  by (simp add: increment_key_def getCounter_def)

lemma store_ok_increment_key:
  assumes L: "lockouts_ok L" "0 \<le> now" and ok: "store_ok L now m"
  shows "store_ok L now (increment_key L n now k m)"
proof (cases "jmap_get m k")
  case None
  let ?room = "if length m \<ge> lr_maxEntries L
    then case oldest_key m of None \<Rightarrow> m | Some k \<Rightarrow> jmap_delete m k else m"
  have jm: "jmap_ok m" using ok by (simp add: store_ok_def)
  have run: "increment_key L n now k m = jmap_set (jmap_set ?room k (newCounter now)) k (increment L n now (newCounter now))"
    using None by (simp add: increment_key_def getCounter_def Let_def)
  have room: "set ?room \<subseteq> set m" "jmap_ok ?room"
    using jm by (auto simp: jmap_set_delete split: option.splits)
  have len: "Suc (length ?room) \<le> max 1 (lr_maxEntries L)"
  proof (cases "m = []")
    case False
    then obtain k' where "oldest_key m = Some k'" "k' \<in> fst ` set m" using oldest_key_in by blast
    then have "length (jmap_delete m k') < length m"
      using False jm by (simp add: jmap_size_delete)
    then show ?thesis using ok \<open>oldest_key m = Some k'\<close> by (auto simp: store_ok_def)
  qed (simp add: oldest_key_def)
  have "k \<notin> fst ` set ?room" using None room(1) by (auto simp: jmap_get_None)
  then have len': "length (increment_key L n now k m) \<le> max 1 (lr_maxEntries L)"
    unfolding run using len by (simp add: jmap_size_set jmap_keys_set)
  have "counter_ok L now (newCounter now)" using L by (intro counter_ok_new)
  then have "counter_ok L now (increment L n now (newCounter now))" "counter_ok L now (newCounter now)"
    using increment_lockout(2) L(1) by blast+
  moreover have "set (increment_key L n now k m) \<subseteq>
      {(k, increment L n now (newCounter now)), (k, newCounter now)} \<union> set m"
    unfolding run using jmap_set_set [of k _ "jmap_set ?room k (newCounter now)"]
      jmap_set_set [of k "newCounter now" ?room] room(1) by blast
  moreover have "jmap_ok (increment_key L n now k m)" unfolding run using room(2) by simp
  ultimately show ?thesis using len' ok unfolding store_ok_def by blast
next
  case (Some c)
  then have mem: "(k, c) \<in> set m" by (rule map_of_SomeD)
  then have key: "k \<in> fst ` set m" by force
  from mem have "counter_ok L now (increment L n now c)"
    using ok increment_lockout(2) [OF L(1)] by (auto simp: store_ok_def)
  then show ?thesis
    using ok key jmap_set_set [of k "increment L n now c" m]
    by (auto simp: increment_key_present [OF Some] store_ok_def jmap_size_set)
qed

lemma store_ok_delete: "store_ok L now m \<Longrightarrow> store_ok L now (jmap_delete m k)"
  using jmap_size_delete_le [of k m] by (auto simp: store_ok_def jmap_set_delete)

lemma store_ok_prune: "store_ok L now m \<Longrightarrow> store_ok L now (jmap_delete_where P m)"
  using order_trans [OF length_filter_le] by (auto simp: store_ok_def jmap_delete_where_eq)

lemma login_ok_new: "lockouts_ok L \<Longrightarrow> 0 \<le> now \<Longrightarrow> login_ok now (new_login_limiter L now)"
  using counter_ok_new [of now L now] by (simp add: login_ok_def new_login_limiter_def store_ok_def)

lemma login_limits_step [simp]: "ll_limits (login_step l c) = ll_limits l"
  by (cases "(l, c)" rule: login_step.cases)
    (simp_all add: recordFailure_def recordSuccess_def login_check_def login_sweep_def Let_def)

lemma login_ok_sweep: "login_ok now l \<Longrightarrow> login_ok now (login_sweep now l)"
  by (auto simp: login_ok_def login_sweep_def store_ok_prune counter_ok_def)

lemma login_ok_step [inv_intros]:
  assumes "login_ok now l" and "now \<le> fst c"
  shows "login_ok (fst c) (login_step l c)"
proof -
  have "login_ok (fst c) l"
    using assms by (auto simp: login_ok_def intro: counter_ok_later store_ok_later)
  then show ?thesis
  proof (cases "(l, c)" rule: login_step.cases)
    case (1 l now s a)
    then show ?thesis
      using \<open>login_ok (fst c) _\<close> login_ok_sweep [of now l] by (simp add: login_check_def Let_def)
  next
    case (2 l now s a)
    then show ?thesis
      using \<open>login_ok (fst c) _\<close>
      by (auto simp: login_ok_def recordFailure_def intro: store_ok_increment_key increment_lockout(2))
  next
    case (3 l now s a)
    then show ?thesis
      using \<open>login_ok (fst c) _\<close> by (auto simp: login_ok_def recordSuccess_def store_ok_delete)
  qed
qed

text \<open>Commands in the order of their clock readings, none before \<open>t\<close>.\<close>

fun clocked :: "int \<Rightarrow> (int \<times> login_command) list \<Rightarrow> bool" where
  "clocked t [] = True"
| "clocked t (c # cs) \<longleftrightarrow> t \<le> fst c \<and> clocked (fst c) cs"

fun clock_after :: "int \<Rightarrow> (int \<times> login_command) list \<Rightarrow> int" where
  "clock_after t [] = t"
| "clock_after t (c # cs) = clock_after (fst c) cs"

lemma clock_after_ge: "clocked t cs \<Longrightarrow> t \<le> clock_after t cs"
  by (induction t cs rule: clocked.induct) auto

lemma login_ok_run: "login_ok t l \<Longrightarrow> clocked t cs \<Longrightarrow> login_ok (clock_after t cs) (foldl login_step l cs)"
  by (induction cs arbitrary: t l) (auto intro: login_ok_step)

lemma login_limits_run [simp]: "ll_limits (foldl login_step l cs) = ll_limits l"
  by (induction cs arbitrary: l) simp_all

text \<open>Lookups after a step, while the table of sources has room.\<close>

lemma increment_key_get:
  assumes "length m < lr_maxEntries L \<or> jmap_get m k \<noteq> None"
  shows "jmap_get (increment_key L n now k m) k' =
    (if k' = k then Some (increment L n now (case jmap_get m k of None \<Rightarrow> newCounter now | Some c \<Rightarrow> c))
     else jmap_get m k')"
  using assms by (auto simp: increment_key_def getCounter_def Let_def not_le split: option.splits)

lemma increment_key_size:
  "length m < lr_maxEntries L \<Longrightarrow> length (increment_key L n now k m) \<le> Suc (length m)"
  by (auto simp: increment_key_def getCounter_def Let_def not_le jmap_size_set jmap_keys_set split: option.split)

lemma sweep_keeps:
  "jmap_ok m \<Longrightarrow> jmap_get m k = Some c \<Longrightarrow> \<not> stale_counter L now c \<Longrightarrow>
    jmap_get (jmap_delete_where (stale_counter L now) m) k = Some c"
  by (simp add: jmap_get_delete_where)

fun is_failure :: "int \<times> login_command \<Rightarrow> bool" where
  "is_failure (t, Cmd_failure s a) = True"
| "is_failure _ = False"

fun failure_of :: "string \<Rightarrow> int \<times> login_command \<Rightarrow> bool" where
  "failure_of src (t, Cmd_failure s a) = (s = src)"
| "failure_of src _ = False"

fun success_of :: "string \<Rightarrow> int \<times> login_command \<Rightarrow> bool" where
  "success_of src (t, Cmd_success s a) = (s = src)"
| "success_of src _ = False"

lemma sources_size_step:
  assumes "jmap_ok (ll_sources l)" and "length (ll_sources l) < lr_maxEntries (ll_limits l) \<or> \<not> is_failure c"
  shows "length (ll_sources (login_step l c)) \<le> length (ll_sources l) + (if is_failure c then 1 else 0)"
proof (cases "(l, c)" rule: login_step.cases)
  case (1 l now s a)
  then show ?thesis
    using assms(1) by (simp add: login_check_def Let_def login_sweep_def jmap_size_delete_where)
next
  case (2 l now s a)
  then show ?thesis using assms(2) by (simp add: recordFailure_def increment_key_size)
next
  case (3 l now s a)
  then show ?thesis by (simp add: recordSuccess_def jmap_size_delete_le)
qed

lemma source_counter_step:
  assumes "jmap_ok (ll_sources l)"
    and "length (ll_sources l) < lr_maxEntries (ll_limits l) \<or> \<not> is_failure c"
    and "\<not> success_of src c" and "jmap_get (ll_sources l) src = Some ctr"
    and "\<not> stale_counter (ll_limits l) (fst c) ctr"
  shows "jmap_get (ll_sources (login_step l c)) src =
    Some (if failure_of src c
          then increment (ll_limits l) (lr_perSource (ll_limits l)) (fst c) ctr else ctr)"
proof (cases "(l, c)" rule: login_step.cases)
  case (1 l now s a)
  then show ?thesis using assms by (simp add: login_check_def Let_def login_sweep_def sweep_keeps)
next
  case (2 l now s a)
  then show ?thesis using assms by (auto simp: recordFailure_def increment_key_get)
next
  case (3 l now s a)
  then show ?thesis using assms by (simp add: recordSuccess_def)
qed

lemma sources_size_run:
  assumes "login_ok t l" and "clocked t cs"
    and "length (ll_sources l) + length (filter is_failure cs) \<le> lr_maxEntries (ll_limits l)"
  shows "length (ll_sources (foldl login_step l cs)) \<le> length (ll_sources l) + length (filter is_failure cs)"
  using assms
proof (induction cs arbitrary: t l)
  case (Cons x cs)
  have "jmap_ok (ll_sources l)" using Cons.prems(1) by (simp add: login_ok_def store_ok_def)
  moreover have "length (ll_sources l) < lr_maxEntries (ll_limits l) \<or> \<not> is_failure x" using Cons.prems(3) by auto
  ultimately have "length (ll_sources (login_step l x)) \<le> length (ll_sources l) + (if is_failure x then 1 else 0)"
    by (rule sources_size_step)
  then show ?case
    using Cons.IH [OF login_ok_step [OF Cons.prems(1)], of x] Cons.prems(2,3) by (simp split: if_splits)
qed simp

lemma clocked_append: "clocked t (xs @ ys) \<longleftrightarrow> clocked t xs \<and> clocked (clock_after t xs) ys"
  by (induction t xs rule: clocked.induct) auto

text \<open>A locked source stays locked.\<close>

lemma locked_run:
  assumes "login_ok t l" and "clocked t cs" and "clock_after t cs < u"
    and "jmap_get (ll_sources l) src = Some c" and "u \<le> ct_lockoutUntil c"
    and "length (ll_sources l) + length (filter is_failure cs) \<le> lr_maxEntries (ll_limits l)"
    and "\<forall>x \<in> set cs. \<not> success_of src x"
  shows "\<exists>c'. jmap_get (ll_sources (foldl login_step l cs)) src = Some c' \<and> u \<le> ct_lockoutUntil c'"
  using assms
proof (induction cs arbitrary: t l c)
  case (Cons x cs)
  have t: "t \<le> fst x" "clocked (fst x) cs" "clock_after (fst x) cs < u" using Cons.prems(2,3) by simp_all
  then have early: "fst x < u" using clock_after_ge by fastforce
  have jm: "jmap_ok (ll_sources l)" and L: "lockouts_ok (ll_limits l)" and ok: "counter_ok (ll_limits l) (fst x) c"
    using Cons.prems(1,4) t(1) map_of_SomeD [OF Cons.prems(4)]
    by (auto simp: login_ok_def store_ok_def intro: counter_ok_later)
  have room: "length (ll_sources l) < lr_maxEntries (ll_limits l) \<or> \<not> is_failure x"
    using Cons.prems(6) by auto
  have "\<not> stale_counter (ll_limits l) (fst x) c" using early Cons.prems(5) by (simp add: stale_counter_def)
  then have get: "jmap_get (ll_sources (login_step l x)) src =
      Some (if failure_of src x then increment (ll_limits l) (lr_perSource (ll_limits l)) (fst x) c else c)"
    using jm room Cons.prems(4,7) by (intro source_counter_step) simp_all
  have later: "u \<le> ct_lockoutUntil (if failure_of src x
      then increment (ll_limits l) (lr_perSource (ll_limits l)) (fst x) c else c)"
    using Cons.prems(5) increment_lockout(1) [OF L ok, of "lr_perSource (ll_limits l)"] by simp
  have "length (ll_sources (login_step l x)) + length (filter is_failure cs) \<le> lr_maxEntries (ll_limits (login_step l x))"
    using sources_size_step [OF jm room] Cons.prems(6) by (simp split: if_splits)
  then show ?case
    using Cons.IH [OF login_ok_step [OF Cons.prems(1) t(1)] t(2,3) get later] Cons.prems(7) by simp
qed auto

text \<open>Failures of a source within one window are counted.\<close>

lemma counting_run:
  assumes "login_ok t l" and "clocked t cs" and "t0 \<le> t"
    and "clock_after t cs < t0 + lr_windowMs (ll_limits l)"
    and "case jmap_get (ll_sources l) src of
        None \<Rightarrow> n = 0
      | Some c \<Rightarrow> ct_count c = n \<and> t0 \<le> ct_windowStartedAt c \<and> t0 \<le> ct_lastSeenAt c"
    and "n + length (filter (failure_of src) cs) < lr_perSource (ll_limits l)"
    and "length (ll_sources l) + length (filter is_failure cs) \<le> lr_maxEntries (ll_limits l)"
    and "\<forall>x \<in> set cs. \<not> success_of src x"
  shows "case jmap_get (ll_sources (foldl login_step l cs)) src of
      None \<Rightarrow> n + length (filter (failure_of src) cs) = 0
    | Some c \<Rightarrow> ct_count c = n + length (filter (failure_of src) cs) \<and> t0 \<le> ct_windowStartedAt c \<and>
        t0 \<le> ct_lastSeenAt c"
  using assms
proof (induction cs arbitrary: t l n)
  case (Cons x cs)
  have t: "t \<le> fst x" "clocked (fst x) cs" "t0 \<le> fst x"
    "clock_after (fst x) cs < t0 + lr_windowMs (ll_limits l)" using Cons.prems(2,3,4) by simp_all
  then have early: "fst x < t0 + lr_windowMs (ll_limits l)" using clock_after_ge by fastforce
  have jm: "jmap_ok (ll_sources l)" and L: "lockouts_ok (ll_limits l)"
    using Cons.prems(1) by (simp_all add: login_ok_def store_ok_def)
  have room: "length (ll_sources l) < lr_maxEntries (ll_limits l) \<or> \<not> is_failure x"
    using Cons.prems(7) by auto
  let ?n = "n + (if failure_of src x then 1 else 0)"
  have fewer: "?n < lr_perSource (ll_limits l)" using Cons.prems(6) by (auto split: if_splits)
  have step: "case jmap_get (ll_sources (login_step l x)) src of
        None \<Rightarrow> ?n = 0
      | Some c \<Rightarrow> ct_count c = ?n \<and> t0 \<le> ct_windowStartedAt c \<and> t0 \<le> ct_lastSeenAt c"
  proof (cases "jmap_get (ll_sources l) src")
    case (Some c)
    then have c: "ct_count c = n" "t0 \<le> ct_windowStartedAt c" "t0 \<le> ct_lastSeenAt c"
      using Cons.prems(5) by simp_all
    then have "\<not> stale_counter (ll_limits l) (fst x) c"
      using early L by (simp add: stale_counter_def lockouts_ok_def)
    then have "jmap_get (ll_sources (login_step l x)) src =
        Some (if failure_of src x then increment (ll_limits l) (lr_perSource (ll_limits l)) (fst x) c else c)"
      using jm room Some Cons.prems(8) by (intro source_counter_step) simp_all
    then show ?thesis using c early fewer t(3) by (auto simp: increment_def Let_def)
  next
    case None
    show ?thesis
    proof (cases "(l, x)" rule: login_step.cases)
      case (1 l now s a)
      then show ?thesis
        using None jm Cons.prems(5)
        by (simp add: login_check_def Let_def login_sweep_def jmap_get_delete_where)
    next
      case (2 l now s a)
      then show ?thesis
        using None room Cons.prems(5) fewer L t(3)
        by (auto simp: recordFailure_def increment_key_get increment_def newCounter_def Let_def lockouts_ok_def)
    next
      case (3 l now s a)
      then show ?thesis using None Cons.prems(5) by (simp add: recordSuccess_def)
    qed
  qed
  have "length (ll_sources (login_step l x)) + length (filter is_failure cs) \<le> lr_maxEntries (ll_limits (login_step l x))"
    using sources_size_step [OF jm room] Cons.prems(7) by (simp split: if_splits)
  moreover have cnt: "n + length (filter (failure_of src) (x # cs)) = ?n + length (filter (failure_of src) cs)"
    by simp
  ultimately show ?case
    unfolding foldl_Cons cnt
    using Cons.IH [OF login_ok_step [OF Cons.prems(1) t(1)] t(2,3) _ step] t(4) Cons.prems(6,8) cnt
    by simp
qed (auto split: option.splits)

section \<open>Properties\<close>

text \<open>A configuration for the witnesses: two failures within ten milliseconds lock for five.\<close>

definition sample_login_limits :: login_rate_limit_config where
  "sample_login_limits =
     \<lparr>lr_windowMs = 10, lr_perSource = 2, lr_perAccount = 3, lr_global = 9, lr_initialLockoutMs = 5,
      lr_maxLockoutMs = 8, lr_maxEntries = 4\<rparr>"

lemma sample_lockouts: "lockouts_ok sample_login_limits"
  by (simp add: lockouts_ok_def sample_login_limits_def)

text \<open>
  Lockouts and tables are bounded: whatever logins were checked, failed or succeeded before, a
  refusal asks the client to wait for a positive time of at most the configured maximum, and
  neither table ever holds more than \<open>maxEntries\<close> counters (one, when that is zero).
\<close>

theorem login_lockout_bounded:
  assumes "lockouts_ok L" and "0 \<le> t0" and "clocked t0 cs"
    and "login_check (clock_after t0 cs) src account (foldl login_step (new_login_limiter L t0) cs) = (l, v)"
  shows "(case v of Login_allowed \<Rightarrow> True | Login_blocked r \<Rightarrow> 0 < r \<and> r \<le> lr_maxLockoutMs L) \<and>
    length (ll_sources l) \<le> max 1 (lr_maxEntries L) \<and> length (ll_accounts l) \<le> max 1 (lr_maxEntries L)"
proof (intro conjI)
  let ?t = "clock_after t0 cs" and ?l = "foldl login_step (new_login_limiter L t0) cs"
  have lim: "ll_limits ?l = L" by (simp add: new_login_limiter_def)
  have "login_ok ?t ?l" by (rule login_ok_run [OF login_ok_new [OF assms(1,2)] assms(3)])
  then have ok: "login_ok ?t (login_sweep ?t ?l)" by (rule login_ok_sweep)
  have l: "l = login_sweep ?t ?l" using assms(4) by (simp add: login_check_def Let_def)
  have lim': "ll_limits l = L" using lim by (simp add: l login_sweep_def)
  have until: "lockout_of m k \<le> ?t + lr_maxLockoutMs L" if "store_ok L ?t m" for m k
  proof (cases "jmap_get m k")
    case None
    then show ?thesis using ok assms(1) by (simp add: lockout_of_def login_ok_def lockouts_ok_def)
  next
    case (Some c)
    then have "counter_ok L ?t c" using that map_of_SomeD [OF Some] by (auto simp: store_ok_def)
    then show ?thesis
      using Some lock_duration_max [of L "ct_lockoutLevel c"] by (simp add: lockout_of_def counter_ok_def)
  qed
  have "ct_lockoutUntil (ll_global l) \<le> ?t + lr_maxLockoutMs L"
    using ok lock_duration_max [of L "ct_lockoutLevel (ll_global l)"] lim'
    by (simp add: l [symmetric] login_ok_def counter_ok_def)
  moreover have "lockout_of (ll_sources l) src \<le> ?t + lr_maxLockoutMs L"
    "lockout_of (ll_accounts l) account \<le> ?t + lr_maxLockoutMs L"
    using ok lim' by (simp_all add: l [symmetric] login_ok_def until)
  moreover have "v = (let u = max (lockout_of (ll_sources l) src)
        (max (lockout_of (ll_accounts l) account) (ct_lockoutUntil (ll_global l)))
      in if u > ?t then Login_blocked (u - ?t) else Login_allowed)"
    using assms(4) by (auto simp: login_check_def Let_def)
  ultimately show "case v of Login_allowed \<Rightarrow> True | Login_blocked r \<Rightarrow> 0 < r \<and> r \<le> lr_maxLockoutMs L"
    by (auto simp: Let_def)
  show "length (ll_sources l) \<le> max 1 (lr_maxEntries L)" "length (ll_accounts l) \<le> max 1 (lr_maxEntries L)"
    using ok lim' by (simp_all add: l [symmetric] login_ok_def store_ok_def)
qed

definition sample_login_trace :: "(int \<times> login_command) list" where
  "sample_login_trace =
     [(100, Cmd_failure ''ip'' ''ann''), (103, Cmd_check ''ip'' ''ann''), (104, Cmd_failure ''ip'' ''bob'')]"

theorem login_lockout_bounded_witness:
  "snd (login_check 104 ''ip'' ''ann'' (foldl login_step (new_login_limiter sample_login_limits 100) sample_login_trace))
    = Login_blocked 5 \<and> (5 :: int) \<le> lr_maxLockoutMs sample_login_limits"
proof -
  let ?l = "foldl login_step (new_login_limiter sample_login_limits 100) sample_login_trace"
  have v: "snd (login_check 104 ''ip'' ''ann'' ?l) = Login_blocked 5" by code_simp
  have "clocked 100 sample_login_trace" "clock_after 100 sample_login_trace = 104"
    by (simp_all add: sample_login_trace_def)
  moreover have "login_check 104 ''ip'' ''ann'' ?l = (fst (login_check 104 ''ip'' ''ann'' ?l), Login_blocked 5)"
    using v by (metis prod.collapse)
  ultimately show ?thesis
    using login_lockout_bounded [OF sample_lockouts, of 100 sample_login_trace "''ip''" "''ann''"] v by fastforce
qed



end
