(* ===== verification/JsStrings.thy ===== *)
theory JsStrings
  imports GatewayTypes "HOL-Library.Sublist" "HOL-Library.List_Lexorder" "HOL-Library.Char_ord"
begin

text \<open>
  The string operations of the language that the components use, on lists of characters.
  Characters are the code units 0 to 255; \<open>toLowerCase\<close> maps the Latin-1 letters as JavaScript
  does, \<open>toUpperCase\<close> the ASCII letters (what it maps beyond Latin-1 is not represented).
\<close>

section \<open>Characters\<close>

definition char_code :: "char \<Rightarrow> nat" where
  "char_code c = of_char c"

definition in_range :: "char \<Rightarrow> char \<Rightarrow> char \<Rightarrow> bool" where
  "in_range lo hi c \<longleftrightarrow> char_code lo \<le> char_code c \<and> char_code c \<le> char_code hi"

definition is_alpha :: "char \<Rightarrow> bool" where
  "is_alpha c \<longleftrightarrow> in_range CHR ''A'' CHR ''Z'' c \<or> in_range CHR ''a'' CHR ''z'' c"

definition is_digit :: "char \<Rightarrow> bool" where
  "is_digit c \<longleftrightarrow> in_range CHR ''0'' CHR ''9'' c"

definition is_alnum :: "char \<Rightarrow> bool" where
  "is_alnum c \<longleftrightarrow> is_alpha c \<or> is_digit c"

definition is_hex_digit :: "char \<Rightarrow> bool" where
  "is_hex_digit c \<longleftrightarrow> is_digit c \<or> in_range CHR ''A'' CHR ''F'' c \<or> in_range CHR ''a'' CHR ''f'' c"

text \<open>\<open>Number.parseInt(c, 16)\<close> of one hexadecimal digit.\<close>

definition hex_value :: "char \<Rightarrow> nat" where
  "hex_value c =
     (if is_digit c then char_code c - char_code CHR ''0''
      else if in_range CHR ''A'' CHR ''F'' c then char_code c - char_code CHR ''A'' + 10
      else char_code c - char_code CHR ''a'' + 10)"

text \<open>White space removed by \<open>trim\<close>.\<close>

definition is_space :: "char \<Rightarrow> bool" where
  "is_space c \<longleftrightarrow> (9 \<le> char_code c \<and> char_code c \<le> 13) \<or> char_code c = 32 \<or> char_code c = 160"

definition lower_char :: "char \<Rightarrow> char" where
  "lower_char c =
     (if in_range CHR ''A'' CHR ''Z'' c \<or>
         192 \<le> char_code c \<and> char_code c \<le> 222 \<and> char_code c \<noteq> 215
      then char_of (char_code c + 32) else c)"

definition upper_char :: "char \<Rightarrow> char" where
  "upper_char c = (if in_range CHR ''a'' CHR ''z'' c then char_of (char_code c - 32) else c)"

definition to_lower :: "string \<Rightarrow> string" where
  "to_lower s = map lower_char s"

definition to_upper :: "string \<Rightarrow> string" where
  "to_upper s = map upper_char s"

definition js_trim :: "string \<Rightarrow> string" where
  "js_trim s = rev (dropWhile is_space (rev (dropWhile is_space s)))"

lemma char_code_char_of: "n < 256 \<Longrightarrow> char_code (char_of n) = n"
  by (simp add: char_code_def)

lemma char_code_less: "char_code c < 256"
  unfolding char_code_def by (rule nat_of_char_less_256)

lemma lower_char_idem [simp]: "lower_char (lower_char c) = lower_char c"
proof -
  have a: "char_code CHR ''A'' = 65" "char_code CHR ''Z'' = 90" by (simp_all add: char_code_def)
  let ?P = "\<lambda>n. 65 \<le> n \<and> n \<le> 90 \<or> 192 \<le> n \<and> n \<le> 222 \<and> n \<noteq> (215 :: nat)"
  have "lower_char (char_of (char_code c + 32)) = char_of (char_code c + 32)" if "?P (char_code c)"
    using that by (auto simp: lower_char_def in_range_def a char_code_char_of)
  moreover have "lower_char c = (if ?P (char_code c) then char_of (char_code c + 32) else c)"
    by (simp add: lower_char_def in_range_def a)
  ultimately show ?thesis by simp
qed

lemma to_lower_idem [simp]: "to_lower (to_lower s) = to_lower s"
  by (simp add: to_lower_def)

lemma length_to_lower [simp]: "length (to_lower s) = length s"
  by (simp add: to_lower_def)

lemma upper_char_idem [simp]: "upper_char (upper_char c) = upper_char c"
proof -
  have a: "char_code CHR ''a'' = 97" "char_code CHR ''z'' = 122" by (simp_all add: char_code_def)
  have "upper_char (char_of (char_code c - 32)) = char_of (char_code c - 32)"
    if "97 \<le> char_code c" "char_code c \<le> 122"
    using that by (auto simp: upper_char_def in_range_def a char_code_char_of)
  moreover have "upper_char c =
      (if 97 \<le> char_code c \<and> char_code c \<le> 122 then char_of (char_code c - 32) else c)"
    by (simp add: upper_char_def in_range_def a)
  ultimately show ?thesis by simp
qed

lemma to_upper_idem [simp]: "to_upper (to_upper s) = to_upper s"
  by (simp add: to_upper_def)

section \<open>Pieces of strings\<close>

abbreviation starts_with :: "string \<Rightarrow> string \<Rightarrow> bool" where
  "starts_with s p \<equiv> prefix p s"

abbreviation ends_with :: "string \<Rightarrow> string \<Rightarrow> bool" where
  "ends_with s p \<equiv> suffix p s"

text \<open>\<open>s.slice(a, b)\<close> for \<open>0 \<le> a\<close> and \<open>0 \<le> b\<close>\<close>

definition js_slice :: "'a list \<Rightarrow> nat \<Rightarrow> nat \<Rightarrow> 'a list" where
  "js_slice s a b = take (b - a) (drop a s)"

text \<open>\<open>s.split(sep)\<close> for a one-character separator\<close>

fun js_split :: "char \<Rightarrow> string \<Rightarrow> string list" where
  "js_split sep [] = [[]]"
| "js_split sep (c # cs) =
     (if c = sep then [] # js_split sep cs
      else case js_split sep cs of [] \<Rightarrow> [[c]] | p # ps \<Rightarrow> (c # p) # ps)"

text \<open>\<open>parts.join(sep)\<close>\<close>

fun js_join :: "string \<Rightarrow> string list \<Rightarrow> string" where
  "js_join sep [] = []"
| "js_join sep [p] = p"
| "js_join sep (p # q # ps) = p @ sep @ js_join sep (q # ps)"

lemma js_split_not_Nil [simp]: "js_split sep s \<noteq> []"
  by (cases s) (auto split: list.splits)

lemma js_split_no_sep: "p \<in> set (js_split sep s) \<Longrightarrow> sep \<notin> set p"
proof (induction s arbitrary: p)
  case (Cons c s)
  then show ?case by (cases "js_split sep s") (auto split: if_splits)
qed simp

lemma js_split_single: "sep \<notin> set s \<Longrightarrow> js_split sep s = [s]"
  by (induction s) auto

lemma js_split_append: "sep \<notin> set p \<Longrightarrow> js_split sep (p @ sep # s) = p # js_split sep s"
  by (induction p) auto

lemma js_split_join:
  "ps \<noteq> [] \<Longrightarrow> \<forall>p \<in> set ps. sep \<notin> set p \<Longrightarrow> js_split sep (js_join [sep] ps) = ps"
  by (induction "[sep]" ps rule: js_join.induct) (auto simp: js_split_single js_split_append)

lemma js_join_split: "js_join [sep] (js_split sep s) = s"
proof (induction s)
  case (Cons c s)
  then show ?case
    by (cases "js_split sep s"; cases "tl (js_split sep s)") (auto simp: neq_Nil_conv)
qed simp

lemma js_split_append_sep: "js_split c (s @ c # t) = js_split c s @ js_split c t"
proof (induction s)
  case (Cons d s)
  then show ?case by (cases "js_split c s") auto
qed simp

lemma js_join_append:
  "xs \<noteq> [] \<Longrightarrow> ys \<noteq> [] \<Longrightarrow> js_join sep (xs @ ys) = js_join sep xs @ sep @ js_join sep ys"
proof (induction sep xs rule: js_join.induct)
  case (2 sep p)
  then show ?case by (cases ys) auto
qed auto

text \<open>Extending a string by whole parts is extending it at a separator.\<close>

lemma js_split_prefix: "prefix (js_split c v) (js_split c s) \<longleftrightarrow> s = v \<or> prefix (v @ [c]) s"
proof
  assume "prefix (js_split c v) (js_split c s)"
  then obtain ps where ps: "js_split c s = js_split c v @ ps" by (rule prefixE)
  have "s = js_join [c] (js_split c v @ ps)" using js_join_split [of c s] ps by simp
  then show "s = v \<or> prefix (v @ [c]) s"
    by (cases "ps = []") (simp_all add: js_join_append js_join_split)
qed (auto simp: js_split_append_sep elim!: prefixE)

lemma js_split_suffix: "suffix (js_split c v) (js_split c s) \<longleftrightarrow> s = v \<or> suffix (c # v) s"
proof
  assume "suffix (js_split c v) (js_split c s)"
  then obtain ps where ps: "js_split c s = ps @ js_split c v" by (rule suffixE)
  have "s = js_join [c] (ps @ js_split c v)" using js_join_split [of c s] ps by simp
  then show "s = v \<or> suffix (c # v) s"
    by (cases "ps = []") (simp_all add: js_join_append js_join_split suffix_def)
qed (auto simp: js_split_append_sep suffix_def)

text \<open>\<open>s.replace(/c$/, "")\<close>\<close>

definition strip_trailing :: "char \<Rightarrow> string \<Rightarrow> string" where
  "strip_trailing c s = (if s \<noteq> [] \<and> last s = c then butlast s else s)"

section \<open>Numbers as text\<close>

text \<open>\<open>String(n)\<close> of a nonnegative integer, and \<open>Number(s)\<close> of a string of digits or of the empty one.\<close>

fun nat_string :: "nat \<Rightarrow> string" where
  "nat_string n =
     (if n < 10 then [char_of (n + 48)] else nat_string (n div 10) @ [char_of (n mod 10 + 48)])"

declare nat_string.simps [simp del]

definition decimal_value :: "string \<Rightarrow> nat" where
  "decimal_value s = foldl (\<lambda>n c. n * 10 + (char_code c - 48)) 0 s"

lemma decimal_value_snoc: "decimal_value (s @ [c]) = decimal_value s * 10 + (char_code c - 48)"
  by (simp add: decimal_value_def)

lemma decimal_value_nat_string [simp]: "decimal_value (nat_string n) = n"
proof (induction n rule: nat_string.induct)
  case (1 n)
  show ?case
  proof (cases "n < 10")
    case True
    then show ?thesis
      by (subst nat_string.simps) (simp add: decimal_value_def char_code_char_of)
  next
    case False
    have "n mod 10 < 10" by simp
    then have "char_code (char_of (n mod 10 + 48)) = n mod 10 + 48" by (intro char_code_char_of) linarith
    with False show ?thesis
      by (subst nat_string.simps) (simp add: decimal_value_snoc 1)
  qed
qed

section \<open>JSON strings\<close>

text \<open>\<open>JSON.stringify\<close> of a string, and the same without its quotes.\<close>

definition hex_digit :: "nat \<Rightarrow> char" where
  "hex_digit n = char_of (if n < 10 then n + 48 else n + 87)"

definition json_escape_char :: "char \<Rightarrow> string" where
  "json_escape_char c =
     (if c = CHR 0x22 then [CHR 0x5C, CHR 0x22]
      else if c = CHR 0x5C then [CHR 0x5C, CHR 0x5C]
      else if c = CHR 0x08 then [CHR 0x5C, CHR ''b'']
      else if c = CHR 0x09 then [CHR 0x5C, CHR ''t'']
      else if c = CHR 0x0A then [CHR 0x5C, CHR ''n'']
      else if c = CHR 0x0C then [CHR 0x5C, CHR ''f'']
      else if c = CHR 0x0D then [CHR 0x5C, CHR ''r'']
      else if char_code c < 32
      then [CHR 0x5C, CHR ''u'', CHR ''0'', CHR ''0'',
            hex_digit (char_code c div 16), hex_digit (char_code c mod 16)]
      else [c])"

definition json_escape :: "string \<Rightarrow> string" where
  "json_escape s = concat (map json_escape_char s)"

definition json_quote :: "string \<Rightarrow> string" where
  "json_quote s = CHR 0x22 # json_escape s @ [CHR 0x22]"

definition int_string :: "int \<Rightarrow> string" where
  "int_string i = (if i < 0 then CHR ''-'' # nat_string (nat (- i)) else nat_string (nat i))"

fun json_stringify :: "json \<Rightarrow> string" where
  "json_stringify JNull = ''null''"
| "json_stringify (JBool b) = (if b then ''true'' else ''false'')"
| "json_stringify (JNumber n) = int_string n"
| "json_stringify (JString s) = json_quote s"
| "json_stringify (JArray xs) = ''['' @ js_join '','' (map json_stringify xs) @ '']''"
| "json_stringify (JObject fs) =
     ''{'' @ js_join '','' (map (\<lambda>(k, v). json_quote k @ '':'' @ json_stringify v) fs) @ ''}''"

section \<open>Sorting strings\<close>

text \<open>\<open>xs.sort()\<close>: strings in the order of their code units.\<close>

definition js_sort :: "string list \<Rightarrow> string list" where
  "js_sort xs = sort xs"

lemma set_js_sort [simp]: "set (js_sort xs) = set xs"
  by (simp add: js_sort_def)

lemma js_sort_sorted [simp]: "sorted (js_sort xs)"
  by (simp add: js_sort_def)

lemma length_js_sort [simp]: "length (js_sort xs) = length xs"
  by (simp add: js_sort_def)

lemma distinct_js_sort [simp]: "distinct (js_sort xs) = distinct xs"
  by (simp add: js_sort_def)

lemma js_sort_Nil [simp]: "js_sort [] = []"
  by (simp add: js_sort_def)

lemma js_sort_eq_Nil [simp]: "js_sort xs = [] \<longleftrightarrow> xs = []"
  by (metis length_js_sort length_0_conv)

end
