(* ===== verification/ServiceRegistry.thy ===== *)
theory ServiceRegistry
  imports JsStrings "HOL-Library.Product_Lexorder"
begin

text \<open>
  \<^verbatim>\<open>src/registry.ts\<close> and \<^verbatim>\<open>src/credentialUsage.ts\<close>: which services a subject sees, lookup of a
  service and of its credentials, and the usage hints. \<open>resolveDestination\<close> is with the URL
  validation it calls. The lookup \<open>config.services[id]\<close> is one of the record's own properties.
\<close>

section \<open>Usage hints\<close>

definition or_empty :: "string option \<Rightarrow> string" where
  "or_empty s = (case s of None \<Rightarrow> [] | Some x \<Rightarrow> x)"

definition credentialUsageHint :: "credential_usage_config \<Rightarrow> string" where
  "credentialUsageHint usage =
     (let pre = or_empty (cu_prefix usage); suf = or_empty (cu_suffix usage)
      in if length pre > 0 \<or> length suf > 0
         then (let template = json_quote (pre @ ''<reference>'' @ suf)
               in case cu_name usage of
                    Some name \<Rightarrow>
                      (if to_lower (cu_kind usage) = ''header''
                       then ''Set the '' @ name @ '' header value to '' @ template @ ''.''
                       else ''Use '' @ template @ '' as '' @ name @ '' '' @ cu_kind usage)
                  | None \<Rightarrow> ''Use '' @ template @ '' as '' @ cu_kind usage)
         else case cu_name usage of
                Some name \<Rightarrow> ''Use reference as '' @ name @ '' '' @ cu_kind usage
              | None \<Rightarrow> ''Use reference as '' @ cu_kind usage)"

definition credentialReferenceTemplate :: "credential_usage_config \<Rightarrow> string \<Rightarrow> string" where
  "credentialReferenceTemplate usage reference =
     or_empty (cu_prefix usage) @ reference @ or_empty (cu_suffix usage)"

section \<open>Services\<close>

definition gateway_access_id :: string where
  "gateway_access_id = ''gateway_access''"

definition gateway_access_usage_hint :: string where
  "gateway_access_usage_hint = ''Pass reference as service_reference''"

definition canAccessService :: "service_config \<Rightarrow> auth_context \<Rightarrow> bool" where
  "canAccessService service auth \<longleftrightarrow> ac_subject auth \<in> set (access_users (sc_access service))"

definition getService ::
  "gateway_config \<Rightarrow> string \<Rightarrow> auth_context option \<Rightarrow> service_config gateway_result" where
  "getService config serviceId auth =
     (case jmap_get (gc_services config) serviceId of
        None \<Rightarrow> Inl (gateway_error Unknown_service (''Unknown service: '' @ serviceId))
      | Some service \<Rightarrow>
          (case auth of
             None \<Rightarrow> Inr service
           | Some a \<Rightarrow>
               (if \<not> canAccessService service a
                then Inl (gateway_error Unauthorized_service
                            (''Not authorized for service: '' @ serviceId))
                else Inr service)))"

definition getCredential :: "service_config \<Rightarrow> string \<Rightarrow> credential_config gateway_result" where
  "getCredential service credentialId =
     (case find (\<lambda>c. cr_id c = credentialId) (sc_credentials service) of
        None \<Rightarrow> Inl (gateway_error Unknown_access (''Unknown access id: '' @ credentialId))
      | Some c \<Rightarrow> Inr c)"

section \<open>Descriptions\<close>

record destination_summary =
  dsum_id :: string
  dsum_base_url_hint :: string
  dsum_tls_verify :: bool

record access_method =
  am_id :: string
  am_usage_hint :: string

record service_summary =
  ss_id :: string
  ss_name :: string
  ss_description :: "string option"
  ss_api_docs_url :: "string option"
  ss_destinations :: "destination_summary list"
  ss_access_methods :: "access_method list"
  ss_policy_summary :: string

record policy_rule_description =
  prd_id :: string
  prd_effect :: policy_effect
  prd_priority :: int
  prd_methods :: "string list"
  prd_hosts :: "string list"
  prd_paths :: "string list"
  prd_reason :: "string option"
  prd_binary_scan :: bool
  prd_binary_max_size_bytes :: "nat option"

record service_policy_description =
  spd_id :: string
  spd_name :: string
  spd_description :: "string option"
  spd_api_docs_url :: "string option"
  spd_destinations :: "destination_summary list"
  spd_access_methods :: "access_method list"
  spd_mode :: policy_effect
  spd_rules :: "policy_rule_description list"

definition destination_summary_of :: "destination_config \<Rightarrow> destination_summary" where
  "destination_summary_of d =
     \<lparr>dsum_id = dc_id d, dsum_base_url_hint = dc_baseUrl d, dsum_tls_verify = tls_verify (dc_tls d)\<rparr>"

definition accessMethods :: "service_config \<Rightarrow> access_method list" where
  "accessMethods service =
     (if length (sc_credentials service) = 0
      then [\<lparr>am_id = gateway_access_id, am_usage_hint = gateway_access_usage_hint\<rparr>]
      else map (\<lambda>c. \<lparr>am_id = cr_id c, am_usage_hint = credentialUsageHint (cr_usage c)\<rparr>)
             (sc_credentials service))"

definition effect_name :: "policy_effect \<Rightarrow> string" where
  "effect_name e = (case e of Allow \<Rightarrow> ''allow'' | Deny \<Rightarrow> ''deny'')"

definition serviceSummary :: "service_config \<Rightarrow> service_summary" where
  "serviceSummary service =
     \<lparr>ss_id = sc_id service, ss_name = sc_name service, ss_description = sc_description service,
      ss_api_docs_url = sc_apiDocsUrl service,
      ss_destinations = map destination_summary_of (sc_destinations service),
      ss_access_methods = accessMethods service,
      ss_policy_summary = ''mode='' @ effect_name (pc_mode (sc_policy service))\<rparr>"

definition listVisibleServices :: "gateway_config \<Rightarrow> auth_context \<Rightarrow> service_summary list" where
  "listVisibleServices config auth =
     map serviceSummary
       (filter (\<lambda>service. canAccessService service auth) (map snd (gc_services config)))"

text \<open>
  \<open>orderedRules\<close>: a stable sort by a comparator that puts higher priorities first and, at equal
  priority, denials before permissions; that comparator is the order of this key.
\<close>

definition rule_order_key :: "policy_rule_config \<Rightarrow> int \<times> int" where
  "rule_order_key r = (- pr_priority r, if pr_effect r = Deny then 0 else 1)"

definition orderedRules :: "policy_rule_config list \<Rightarrow> policy_rule_config list" where
  "orderedRules rules = sort_key rule_order_key rules"

definition describe_rule :: "policy_rule_config \<Rightarrow> policy_rule_description" where
  "describe_rule r =
     \<lparr>prd_id = pr_id r, prd_effect = pr_effect r, prd_priority = pr_priority r,
      prd_methods = pr_methods r, prd_hosts = pr_hosts r, prd_paths = pr_paths r,
      prd_reason = pr_reason r, prd_binary_scan = br_scan (pr_binaryResponse r),
      prd_binary_max_size_bytes = br_maxBytes (pr_binaryResponse r)\<rparr>"

definition describeServicePolicy ::
  "gateway_config \<Rightarrow> auth_context \<Rightarrow> string \<Rightarrow> service_policy_description gateway_result" where
  "describeServicePolicy config auth serviceId =
     result_bind (getService config serviceId (Some auth)) (\<lambda>service.
       Inr \<lparr>spd_id = sc_id service, spd_name = sc_name service,
            spd_description = sc_description service, spd_api_docs_url = sc_apiDocsUrl service,
            spd_destinations = map destination_summary_of (sc_destinations service),
            spd_access_methods = accessMethods service,
            spd_mode = pc_mode (sc_policy service),
            spd_rules = map describe_rule (orderedRules (pc_rules (sc_policy service)))\<rparr>)"

section \<open>Library lemmas\<close>

lemma getService_Inr:
  "getService config s (Some auth) = Inr service \<longleftrightarrow>
    jmap_get (gc_services config) s = Some service \<and> canAccessService service auth"
  by (auto simp: getService_def split: option.splits)

lemma getCredential_Inr:
  "getCredential service i = Inr c \<Longrightarrow> c \<in> set (sc_credentials service) \<and> cr_id c = i"
  by (auto simp: getCredential_def split: option.splits dest!: find_Some_iff')

lemma find_unique:
  "distinct (map f xs) \<Longrightarrow> x \<in> set xs \<Longrightarrow> find (\<lambda>y. f y = f x) xs = Some x"
  by (induction xs) auto

lemma getCredential_own:
  "distinct (map cr_id (sc_credentials service)) \<Longrightarrow> c \<in> set (sc_credentials service) \<Longrightarrow>
    getCredential service (cr_id c) = Inr c"
  by (simp add: getCredential_def find_unique)

end
