(* ===== verification/UrlValidation.thy ===== *)
theory UrlValidation
  imports ServiceRegistry
begin

text \<open>
  \<^verbatim>\<open>src/urlValidation.ts\<close> and \<open>resolveDestination\<close> of \<^verbatim>\<open>src/registry.ts\<close>: a request target is
  accepted when its scheme, host, port and path are those of a destination of the service. The
  URL parser, the setter of \<open>pathname\<close>, \<open>isIP\<close>, \<open>domainToASCII\<close> and the regular expression engine
  belong to the platform; they are the fields of a \<open>url_platform\<close>, an argument of the functions
  that use them. \<open>new URL\<close> may throw a \<open>TypeError\<close>, which is not a \<open>GatewayError\<close>.
\<close>

record url =
  url_protocol :: string
  url_hostname :: string
  url_port :: string
  url_pathname :: string
  url_rest :: string

record url_platform =
  up_parse :: "string \<Rightarrow> string option \<Rightarrow> url option"
  up_set_pathname :: "url \<Rightarrow> string \<Rightarrow> url"
  up_isIP :: "string \<Rightarrow> nat"
  up_domainToASCII :: "string \<Rightarrow> string"
  up_regex_test :: "string \<Rightarrow> string \<Rightarrow> bool"

record target_input =
  ti_path :: "string option"
  ti_url :: "string option"

record resolved_target =
  rt_destination :: destination_config
  rt_url :: url
  rt_methodPath :: string
  rt_tls :: tls_config

datatype target_error = Target_refused gateway_exception | Url_type_error

type_synonym 'a target_result = "target_error + 'a"

abbreviation refuse :: "gateway_error_code \<Rightarrow> string \<Rightarrow> 'a target_result" where
  "refuse code msg \<equiv> Inl (Target_refused (gateway_error code msg))"

section \<open>Hosts\<close>

definition normalizeHost :: "url_platform \<Rightarrow> string \<Rightarrow> string" where
  "normalizeHost P host =
     (let normalized = strip_trailing CHR ''.'' (to_lower host);
          ipCandidate = (if starts_with normalized ''['' \<and> ends_with normalized '']''
                         then butlast (tl normalized) else normalized)
      in if up_isIP P ipCandidate \<noteq> 0 then normalized
         else if up_domainToASCII P normalized \<noteq> [] then up_domainToASCII P normalized
         else normalized)"

definition matchesHost :: "url_platform \<Rightarrow> host_matcher_config \<Rightarrow> string \<Rightarrow> bool" where
  "matchesHost P matcher host =
     (let normalized = normalizeHost P host
      in case matcher of
           HM_exact value \<Rightarrow> normalized = value
         | HM_suffix value \<Rightarrow> normalized = value \<or> ends_with normalized (''.'' @ value)
         | HM_regex value \<Rightarrow> up_regex_test P value normalized)"

section \<open>Paths\<close>

fun normalize_segments :: "string list \<Rightarrow> string list \<Rightarrow> string list" where
  "normalize_segments segments [] = segments"
| "normalize_segments segments (segment # rest) =
     (if segment = [] \<or> segment = ''.'' then normalize_segments segments rest
      else if segment = ''..''
      then normalize_segments (if length segments > 0 then butlast segments else segments) rest
      else normalize_segments (segments @ [segment]) rest)"

definition normalizePath :: "string \<Rightarrow> string" where
  "normalizePath path = CHR ''/'' # js_join ''/'' (normalize_segments [] (js_split CHR ''/'' path))"

definition canonicalizeTargetPath :: "url_platform \<Rightarrow> url \<Rightarrow> url" where
  "canonicalizeTargetPath P u = up_set_pathname P u (normalizePath (url_pathname u))"

text \<open>
  \<open>rawAbsolutePath\<close>: the first group of
  \<^verbatim>\<open>/^[A-Za-z][A-Za-z0-9+.-]*:\/\/[^/?#]*(\/[^?#]*)?/\<close>, or \<open>/\<close> without a match or without the
  group. No character of the scheme class is a colon, so the match is the greedy one.
\<close>

definition is_scheme_char :: "char \<Rightarrow> bool" where
  "is_scheme_char c \<longleftrightarrow> is_alnum c \<or> c \<in> {CHR ''+'', CHR ''.'', CHR ''-''}"

definition rawAbsolutePath :: "string \<Rightarrow> string" where
  "rawAbsolutePath input =
     (case input of
        [] \<Rightarrow> ''/''
      | c # cs \<Rightarrow>
          (let after = dropWhile is_scheme_char cs
           in if is_alpha c \<and> starts_with after ''://''
              then (let path = takeWhile (\<lambda>d. d \<notin> {CHR ''?'', CHR ''#''})
                                 (dropWhile (\<lambda>d. d \<notin> {CHR ''/'', CHR ''?'', CHR ''#''}) (drop 3 after))
                    in if path = [] then ''/'' else path)
              else ''/''))"

definition is_unreserved :: "char \<Rightarrow> bool" where
  "is_unreserved c \<longleftrightarrow> is_alnum c \<or> c \<in> {CHR ''.'', CHR ''_'', CHR ''~'', CHR ''-''}"

text \<open>
  An escape that may stay in a path: two hexadecimal digits for a byte that is neither an
  unreserved character nor a slash, a backslash, a null or a percent sign.
\<close>

definition escape_allowed :: "char \<Rightarrow> char \<Rightarrow> bool" where
  "escape_allowed a b \<longleftrightarrow>
     is_hex_digit a \<and> is_hex_digit b \<and>
     (let byte = 16 * hex_value a + hex_value b
      in \<not> is_unreserved (char_of byte) \<and> byte \<notin> {0x2F, 0x5C, 0, 0x25})"

definition ambiguous_escape :: "unit target_result" where
  "ambiguous_escape =
     refuse Destination_not_allowed ''URL path contains an ambiguous percent escape.''"

fun assertUnambiguousPathEncoding :: "string \<Rightarrow> unit target_result" where
  "assertUnambiguousPathEncoding [] = Inr ()"
| "assertUnambiguousPathEncoding (c # cs) =
     (if c \<noteq> CHR ''%'' then assertUnambiguousPathEncoding cs
      else case cs of
        a # b # rest \<Rightarrow>
          (if escape_allowed a b then assertUnambiguousPathEncoding rest else ambiguous_escape)
      | _ \<Rightarrow> ambiguous_escape)"

section \<open>Targets\<close>

definition selectDestination :: "service_config \<Rightarrow> string option \<Rightarrow> destination_config target_result" where
  "selectDestination service destinationId =
     (case destinationId of
        Some d \<Rightarrow>
          (case find (\<lambda>c. dc_id c = d) (sc_destinations service) of
             None \<Rightarrow> refuse Unknown_destination (''Unknown destination: '' @ d)
           | Some destination \<Rightarrow> Inr destination)
      | None \<Rightarrow>
          (case sc_destinations service of
             [destination] \<Rightarrow> Inr destination
           | _ \<Rightarrow> refuse Unknown_destination
                    ''destination is required when a service has multiple destinations''))"

definition new_URL :: "url_platform \<Rightarrow> string \<Rightarrow> string option \<Rightarrow> url target_result" where
  "new_URL P input base =
     (case up_parse P input base of None \<Rightarrow> Inl Url_type_error | Some u \<Rightarrow> Inr u)"

definition resolveTargetUrl ::
  "url_platform \<Rightarrow> destination_config \<Rightarrow> target_input \<Rightarrow> url target_result" where
  "resolveTargetUrl P destination input =
     (case (ti_path input, ti_url input) of
        (None, Some u) \<Rightarrow>
          result_bind (assertUnambiguousPathEncoding (rawAbsolutePath u)) (\<lambda>_.
            result_map_value (canonicalizeTargetPath P) (new_URL P u None))
      | (Some path, None) \<Rightarrow>
          (if \<not> starts_with path ''/''
           then refuse Destination_not_allowed ''path must start with /''
           else result_bind
                  (assertUnambiguousPathEncoding
                    (takeWhile (\<lambda>c. c \<notin> {CHR ''?'', CHR ''#''}) path)) (\<lambda>_.
                  result_map_value (canonicalizeTargetPath P)
                    (new_URL P path (Some (dc_baseUrl destination)))))
      | _ \<Rightarrow> refuse Destination_not_allowed ''Provide exactly one of path or url.'')"

definition defaultPort :: "string \<Rightarrow> string" where
  "defaultPort protocol =
     (if protocol = ''https:'' then ''443'' else if protocol = ''http:'' then ''80'' else [])"

definition url_scheme :: "url \<Rightarrow> string" where
  "url_scheme u = strip_trailing CHR '':'' (url_protocol u)"

definition effective_port :: "url \<Rightarrow> nat" where
  "effective_port u =
     decimal_value (if url_port u \<noteq> [] then url_port u else defaultPort (url_protocol u))"

definition validateScheme :: "destination_config \<Rightarrow> url \<Rightarrow> unit target_result" where
  "validateScheme destination u =
     (if url_scheme u \<notin> set (dc_schemes destination)
      then refuse Scheme_not_allowed (''Scheme is not allowed: '' @ url_scheme u) else Inr ())"

definition validateHost :: "url_platform \<Rightarrow> destination_config \<Rightarrow> url \<Rightarrow> unit target_result" where
  "validateHost P destination u =
     (let host = normalizeHost P (url_hostname u)
      in if \<not> list_ex (\<lambda>matcher. matchesHost P matcher host) (dc_hosts destination)
         then refuse Host_not_allowed (''Host is not allowed: '' @ host) else Inr ())"

definition validatePort :: "destination_config \<Rightarrow> url \<Rightarrow> unit target_result" where
  "validatePort destination u =
     (if int (effective_port u) \<notin> set (dc_ports destination)
      then refuse Port_not_allowed (''Port is not allowed: '' @ nat_string (effective_port u))
      else Inr ())"

text \<open>The test of \<open>validateBaseUrl\<close>: the target is the base path or below it.\<close>

definition path_within :: "string \<Rightarrow> string \<Rightarrow> bool" where
  "path_within basePath targetPath \<longleftrightarrow>
     basePath = ''/'' \<or> targetPath = basePath \<or> starts_with targetPath (basePath @ ''/'')"

definition validateBaseUrl :: "url_platform \<Rightarrow> destination_config \<Rightarrow> url \<Rightarrow> unit target_result" where
  "validateBaseUrl P destination u =
     result_bind (new_URL P (dc_baseUrl destination) None) (\<lambda>base.
       (if \<not> path_within (normalizePath (url_pathname base)) (normalizePath (url_pathname u))
        then refuse Destination_not_allowed
               ''URL path is outside the configured destination base path.''
        else Inr ()))"

definition resolveDestinationTarget ::
  "url_platform \<Rightarrow> service_config \<Rightarrow> string option \<Rightarrow> target_input \<Rightarrow> resolved_target target_result"
where
  "resolveDestinationTarget P service destinationId input =
     result_bind (selectDestination service destinationId) (\<lambda>destination.
     result_bind (resolveTargetUrl P destination input) (\<lambda>u.
     result_bind (validateScheme destination u) (\<lambda>_.
     result_bind (validateHost P destination u) (\<lambda>_.
     result_bind (validatePort destination u) (\<lambda>_.
     result_bind (validateBaseUrl P destination u) (\<lambda>_.
       Inr \<lparr>rt_destination = destination, rt_url = u,
            rt_methodPath = normalizePath (url_pathname u), rt_tls = dc_tls destination\<rparr>))))))"

text \<open>\<open>resolveDestination\<close>: the service must exist and be visible to the subject.\<close>

definition resolveDestination ::
  "url_platform \<Rightarrow> gateway_config \<Rightarrow> auth_context \<Rightarrow> string \<Rightarrow> string option \<Rightarrow> target_input
    \<Rightarrow> resolved_target target_result" where
  "resolveDestination P config auth serviceId destinationId input =
     (case getService config serviceId (Some auth) of
        Inl e \<Rightarrow> Inl (Target_refused e)
      | Inr service \<Rightarrow> resolveDestinationTarget P service destinationId input)"

section \<open>Library lemmas\<close>

text \<open>A segment that normalisation keeps.\<close>

definition plain_segment :: "string \<Rightarrow> bool" where
  "plain_segment s \<longleftrightarrow> s \<noteq> [] \<and> s \<noteq> ''.'' \<and> s \<noteq> ''..'' \<and> CHR ''/'' \<notin> set s"

lemma plain_segmentI:
  "s \<noteq> [] \<Longrightarrow> s \<noteq> ''.'' \<Longrightarrow> s \<noteq> ''..'' \<Longrightarrow> CHR ''/'' \<notin> set s \<Longrightarrow> plain_segment s"
  by (simp add: plain_segment_def)

lemma normalize_segments_plain:
  "list_all plain_segment acc \<Longrightarrow> \<forall>s \<in> set ss. CHR ''/'' \<notin> set s \<Longrightarrow>
    list_all plain_segment (normalize_segments acc ss)"
proof (induction acc ss rule: normalize_segments.induct)
  case (2 acc s ss)
  have "list_all plain_segment (butlast acc)"
    using "2.prems"(1) by (auto simp: list_all_iff dest: in_set_butlastD)
  then show ?case using 2 by (auto intro: plain_segmentI)
qed simp

lemma normalize_segments_id:
  "list_all plain_segment ss \<Longrightarrow> normalize_segments acc ss = acc @ ss"
  by (induction ss arbitrary: acc) (auto simp: plain_segment_def)

lemma normalizePath_join:
  assumes "list_all plain_segment ss"
  shows "normalizePath (CHR ''/'' # js_join ''/'' ss) = CHR ''/'' # js_join ''/'' ss"
proof (cases "ss = []")
  case True
  then show ?thesis by (simp add: normalizePath_def)
next
  case False
  then have "js_split CHR ''/'' (CHR ''/'' # js_join ''/'' ss) = [] # ss"
    using assms by (simp add: js_split_join list_all_iff plain_segment_def)
  then show ?thesis using assms by (simp add: normalizePath_def normalize_segments_id)
qed

lemma normalizePath_segments:
  obtains ss where "normalizePath p = CHR ''/'' # js_join ''/'' ss" and "list_all plain_segment ss"
  using normalize_segments_plain [of "[]" "js_split CHR ''/'' p"] js_split_no_sep
  by (auto simp: normalizePath_def)

lemma normalizePath_idem [simp]: "normalizePath (normalizePath p) = normalizePath p"
  by (metis normalizePath_segments normalizePath_join)

lemma assert_encoding_Cons:
  "c \<noteq> CHR ''%'' \<Longrightarrow>
    assertUnambiguousPathEncoding (c # cs) = assertUnambiguousPathEncoding cs"
  by simp

lemma hex_not_percent: "is_hex_digit c \<Longrightarrow> c \<noteq> CHR ''%''"
  by (auto simp: is_hex_digit_def is_digit_def in_range_def char_code_def)

lemma escape_allowed_plain: "escape_allowed a b \<Longrightarrow> a \<noteq> CHR ''%'' \<and> b \<noteq> CHR ''%''"
  by (auto simp: escape_allowed_def hex_not_percent)

text \<open>Every percent sign of \<open>p\<close> starts an escape that may stay.\<close>

definition escapes_ok :: "string \<Rightarrow> bool" where
  "escapes_ok p \<longleftrightarrow>
     (\<forall>i < length p. p ! i = CHR ''%'' \<longrightarrow>
        i + 2 < length p \<and> escape_allowed (p ! (i + 1)) (p ! (i + 2)))"

lemma escapes_ok_Nil [simp]: "escapes_ok []"
  by (simp add: escapes_ok_def)

lemma escapes_ok_other: "c \<noteq> CHR ''%'' \<Longrightarrow> escapes_ok (c # cs) \<longleftrightarrow> escapes_ok cs"
  by (auto simp: escapes_ok_def All_less_Suc2)

lemma escapes_ok_percent:
  "escapes_ok (CHR ''%'' # cs) \<longleftrightarrow>
    (case cs of a # b # rest \<Rightarrow> escape_allowed a b \<and> escapes_ok rest | _ \<Rightarrow> False)"
proof (cases cs)
  case Nil
  then show ?thesis by (simp add: escapes_ok_def)
next
  case (Cons a cs')
  show ?thesis
  proof (cases cs')
    case Nil
    then show ?thesis using Cons by (auto simp: escapes_ok_def All_less_Suc2)
  next
    case (Cons b rest)
    have "escapes_ok (a # b # rest) \<longleftrightarrow> escapes_ok rest" if "escape_allowed a b"
      using escape_allowed_plain [OF that] by (simp add: escapes_ok_other)
    moreover have "escapes_ok (CHR ''%'' # a # b # rest) \<longleftrightarrow>
        escape_allowed a b \<and> escapes_ok (a # b # rest)"
      by (auto simp: escapes_ok_def All_less_Suc2)
    ultimately show ?thesis using Cons \<open>cs = a # cs'\<close> by auto
  qed
qed

lemma assert_encoding_iff: "assertUnambiguousPathEncoding p = Inr () \<longleftrightarrow> escapes_ok p"
proof (induction p rule: assertUnambiguousPathEncoding.induct)
  case (2 c cs)
  then show ?case
    by (cases "c = CHR ''%''")
      (auto simp: escapes_ok_other escapes_ok_percent ambiguous_escape_def split: list.splits)
qed simp

lemma assert_encoding_Inl:
  "assertUnambiguousPathEncoding p = Inl e \<Longrightarrow>
    e = Target_refused (gateway_error Destination_not_allowed
          ''URL path contains an ambiguous percent escape.'')"
  by (induction p rule: assertUnambiguousPathEncoding.induct)
    (auto simp: ambiguous_escape_def split: if_splits list.splits)

lemma selectDestination_Inr:
  "selectDestination service d = Inr x \<Longrightarrow>
    x \<in> set (sc_destinations service) \<and> (\<forall>i. d = Some i \<longrightarrow> dc_id x = i) \<and>
    (d = None \<longrightarrow> sc_destinations service = [x])"
  by (auto simp: selectDestination_def split: option.splits list.splits dest!: find_Some_iff')

lemma resolveTargetUrl_Inr:
  "resolveTargetUrl P d input = Inr u \<Longrightarrow>
    \<exists>i b v. up_parse P i b = Some v \<and> u = canonicalizeTargetPath P v"
  by (auto simp: resolveTargetUrl_def new_URL_def result_bind_Inr result_map_value_Inr
      split: option.splits if_splits)

section \<open>Properties\<close>

text \<open>
  \<open>normalizePath\<close> puts every path into one form: a slash followed by segments that are not
  empty, not \<open>.\<close>, not \<open>..\<close> and contain no slash. A path already in that form is left as it is,
  so normalising twice is normalising once, and no normalised path can climb out of a base path.
\<close>

theorem normalizePath_canonical:
  "(\<exists>segments. normalizePath path = CHR ''/'' # js_join ''/'' segments \<and>
      list_all plain_segment segments) \<and>
   normalizePath (normalizePath path) = normalizePath path"
  by (metis normalizePath_segments normalizePath_idem)

text \<open>
  The scan for ambiguous escapes accepts a path exactly when each of its percent signs is
  followed by two hexadecimal digits that encode neither an unreserved character nor a slash, a
  backslash, a null or a percent sign; every other path is refused with one error.
\<close>

theorem assertUnambiguousPathEncoding_exact:
  "assertUnambiguousPathEncoding path =
    (if escapes_ok path then Inr () else ambiguous_escape)"
  using assert_encoding_iff [of path] assert_encoding_Inl [of path]
  by (cases "assertUnambiguousPathEncoding path") (auto simp: ambiguous_escape_def)

text \<open>
  The documented behaviour of the platform's URLs that the paths rest on. The setter of \<open>pathname\<close> changes nothing
  else. The parser has percent-encoded the path of an \<open>http\<close> or \<open>https\<close> URL, and setting such a path again, with
  fewer slashes and segments, encodes nothing in it a second time. Of other schemes and other strings nothing is
  assumed: the setter may encode them or ignore them.
\<close>

definition url_paths_ok :: "url_platform \<Rightarrow> bool" where
  "url_paths_ok P \<longleftrightarrow>
     (\<forall>u p. \<exists>q. up_set_pathname P u p = u\<lparr>url_pathname := q\<rparr>) \<and>
     (\<forall>input base u. up_parse P input base = Some u \<longrightarrow> url_scheme u \<in> {''http'', ''https''} \<longrightarrow>
        url_pathname (up_set_pathname P u (normalizePath (url_pathname u))) = normalizePath (url_pathname u))"

lemma canonical_path:
  assumes "url_paths_ok P" and "up_parse P input base = Some u"
    and "url_scheme (canonicalizeTargetPath P u) \<in> {''http'', ''https''}"
  shows "url_pathname (canonicalizeTargetPath P u) = normalizePath (url_pathname u)"
proof -
  obtain q where "canonicalizeTargetPath P u = u\<lparr>url_pathname := q\<rparr>"
    using assms(1) unfolding url_paths_ok_def canonicalizeTargetPath_def by blast
  then have "url_scheme u \<in> {''http'', ''https''}" using assms(3) by (simp add: url_scheme_def)
  then show ?thesis using assms(1,2) unfolding url_paths_ok_def canonicalizeTargetPath_def by blast
qed

lemma resolved_target:
  assumes "resolveDestination P config auth serviceId destinationId input = Inr t"
    and "url_paths_ok P"
  shows "\<exists>service base. jmap_get (gc_services config) serviceId = Some service \<and>
      ac_subject auth \<in> set (access_users (sc_access service)) \<and>
      rt_destination t \<in> set (sc_destinations service) \<and>
      (case destinationId of
         Some i \<Rightarrow> dc_id (rt_destination t) = i
       | None \<Rightarrow> sc_destinations service = [rt_destination t]) \<and>
      url_scheme (rt_url t) \<in> set (dc_schemes (rt_destination t)) \<and>
      int (effective_port (rt_url t)) \<in> set (dc_ports (rt_destination t)) \<and>
      list_ex (\<lambda>m. matchesHost P m (normalizeHost P (url_hostname (rt_url t))))
        (dc_hosts (rt_destination t)) \<and>
      up_parse P (dc_baseUrl (rt_destination t)) None = Some base \<and>
      path_within (normalizePath (url_pathname base)) (rt_methodPath t) \<and>
      normalizePath (rt_methodPath t) = rt_methodPath t \<and>
      (url_scheme (rt_url t) \<in> {''http'', ''https''} \<longrightarrow> url_pathname (rt_url t) = rt_methodPath t)"
proof -
  obtain service where s: "jmap_get (gc_services config) serviceId = Some service"
    "canAccessService service auth"
    and r: "resolveDestinationTarget P service destinationId input = Inr t"
    using assms(1)
    by (cases "getService config serviceId (Some auth)") (auto simp: resolveDestination_def getService_Inr)
  obtain d u where d: "selectDestination service destinationId = Inr d"
    and u: "resolveTargetUrl P d input = Inr u"
    and v: "validateScheme d u = Inr ()" "validateHost P d u = Inr ()" "validatePort d u = Inr ()"
      "validateBaseUrl P d u = Inr ()"
    and t: "t = \<lparr>rt_destination = d, rt_url = u, rt_methodPath = normalizePath (url_pathname u),
      rt_tls = dc_tls d\<rparr>"
    using r by (auto simp: resolveDestinationTarget_def result_bind_Inr)
  obtain base where "up_parse P (dc_baseUrl d) None = Some base"
    "path_within (normalizePath (url_pathname base)) (normalizePath (url_pathname u))"
    using v(4) by (auto simp: validateBaseUrl_def new_URL_def result_bind_Inr
        split: option.splits if_splits)
  moreover have "url_scheme u \<in> set (dc_schemes d)" "int (effective_port u) \<in> set (dc_ports d)"
    "list_ex (\<lambda>m. matchesHost P m (normalizeHost P (url_hostname u))) (dc_hosts d)"
    using v(1-3) by (auto simp: validateScheme_def validatePort_def validateHost_def Let_def
        split: if_splits)
  moreover have "normalizePath (url_pathname u) = url_pathname u" if "url_scheme u \<in> {''http'', ''https''}"
    using resolveTargetUrl_Inr [OF u] canonical_path [OF assms(2)] that by fastforce
  ultimately show ?thesis
    using s selectDestination_Inr [OF d]
    by (auto simp: t canAccessService_def split: option.splits)
qed

text \<open>
  C8: A target that is resolved is one the configuration allows: the service is visible to the
  subject, the destination is one of the service's (the one asked for, or its only one), the
  scheme and the port are listed, some host matcher accepts the host, and the path that policy
  will judge is canonical and lies at or below the base path of the destination. When the scheme is \<open>http\<close> or
  \<open>https\<close> that path is the one of the URL that is requested; the platform's URLs behave as documented: the setter
  of the path leaves a path that the parser has encoded as it is.
\<close>

theorem resolveDestination_sound:
  assumes "resolveDestination P config auth serviceId destinationId input = Inr t"
    and "url_paths_ok P"
  shows "\<exists>service base. jmap_get (gc_services config) serviceId = Some service \<and>
      ac_subject auth \<in> set (access_users (sc_access service)) \<and>
      rt_destination t \<in> set (sc_destinations service) \<and>
      (case destinationId of
         Some i \<Rightarrow> dc_id (rt_destination t) = i
       | None \<Rightarrow> sc_destinations service = [rt_destination t]) \<and>
      url_scheme (rt_url t) \<in> set (dc_schemes (rt_destination t)) \<and>
      int (effective_port (rt_url t)) \<in> set (dc_ports (rt_destination t)) \<and>
      list_ex (\<lambda>m. matchesHost P m (normalizeHost P (url_hostname (rt_url t))))
        (dc_hosts (rt_destination t)) \<and>
      up_parse P (dc_baseUrl (rt_destination t)) None = Some base \<and>
      path_within (normalizePath (url_pathname base)) (rt_methodPath t) \<and>
      normalizePath (rt_methodPath t) = rt_methodPath t \<and>
      (url_scheme (rt_url t) \<in> {''http'', ''https''} \<longrightarrow> url_pathname (rt_url t) = rt_methodPath t)"
  using resolved_target [OF assms] .

text \<open>
  A platform for the witnesses: URLs of the form \<open>https://h...\<close>, leading spaces ignored, a query cut off, and the
  characters of the path that URLs encode encoded, by the parser and by the setter.
\<close>

definition sample_encode :: "string \<Rightarrow> string" where
  "sample_encode p =
     concat (map (\<lambda>c. case map_of [(CHR '' '', ''20''), (CHR 0x22, ''22''), (CHR ''#'', ''23''), (CHR ''<'', ''3C''),
       (CHR ''>'', ''3E''), (CHR ''?'', ''3F''), (CHR 0x60, ''60''), (CHR ''{'', ''7B''), (CHR ''}'', ''7D'')] c of
         None \<Rightarrow> [c] | Some digits \<Rightarrow> CHR ''%'' # digits) p)"

definition sample_parse :: "string \<Rightarrow> string option \<Rightarrow> url option" where
  "sample_parse input base =
     (let s = dropWhile (\<lambda>c. c = CHR '' '') input;
          path = (case base of None \<Rightarrow> rawAbsolutePath s | Some _ \<Rightarrow> takeWhile (\<lambda>c. c \<notin> {CHR ''?'', CHR ''#''}) s)
      in Some \<lparr>url_protocol = ''https:'', url_hostname = ''h'', url_port = [],
               url_pathname = sample_encode path, url_rest = dropWhile (\<lambda>c. c \<notin> {CHR ''?'', CHR ''#''}) s\<rparr>)"

definition sample_platform :: url_platform where
  "sample_platform =
     \<lparr>up_parse = sample_parse, up_set_pathname = (\<lambda>u p. u\<lparr>url_pathname := sample_encode p\<rparr>),
      up_isIP = (\<lambda>_. 0), up_domainToASCII = (\<lambda>s. s), up_regex_test = (\<lambda>_ _. False)\<rparr>"

definition sample_encoded :: "char set" where
  "sample_encoded = {CHR '' '', CHR 0x22, CHR ''#'', CHR ''<'', CHR ''>'', CHR ''?'', CHR 0x60, CHR ''{'', CHR ''}''}"

lemma sample_encode_clean: "set (sample_encode p) \<inter> sample_encoded = {}"
  by (induction p) (auto simp: sample_encode_def sample_encoded_def)

lemma sample_encode_id: "set p \<inter> sample_encoded = {} \<Longrightarrow> sample_encode p = p"
  by (induction p) (auto simp: sample_encode_def sample_encoded_def)

lemma js_join_set: "set (js_join sep ss) \<subseteq> set sep \<union> (\<Union>s \<in> set ss. set s)"
  by (induction sep ss rule: js_join.induct) auto

lemma js_split_set: "(\<Union>s \<in> set (js_split sep p). set s) \<subseteq> set p"
proof (induction p)
  case (Cons c p)
  then show ?case by (cases "js_split sep p") auto
qed simp

lemma normalize_segments_set: "set (normalize_segments acc ss) \<subseteq> set acc \<union> set ss"
proof (induction acc ss rule: normalize_segments.induct)
  case (2 acc s ss)
  have less: "set (butlast acc) \<subseteq> set acc" by (auto dest: in_set_butlastD)
  consider "s = [] \<or> s = ''.''" | "s = ''..''" "\<not> (s = [] \<or> s = ''.'')" | "s \<noteq> ''..''" "\<not> (s = [] \<or> s = ''.'')" by blast
  then show ?case
  proof cases
    case 1
    then show ?thesis using 2(1) by auto
  next
    case 2
    then show ?thesis using "2.IH"(2) less by (cases "acc = []") auto
  next
    case 3
    then show ?thesis using "2.IH"(3) by auto
  qed
qed simp

lemma normalizePath_set: "set (normalizePath p) \<subseteq> insert (CHR ''/'') (set p)"
proof -
  have "set (js_join ''/'' (normalize_segments [] (js_split CHR ''/'' p))) \<subseteq>
      {CHR ''/''} \<union> (\<Union>s \<in> set (js_split CHR ''/'' p). set s)"
    using js_join_set [of "''/''" "normalize_segments [] (js_split CHR ''/'' p)"]
      normalize_segments_set [of "[]" "js_split CHR ''/'' p"] by fastforce
  moreover have "(\<Union>s \<in> set (js_split CHR ''/'' p). set s) \<subseteq> set p" by (rule js_split_set)
  ultimately show ?thesis unfolding normalizePath_def by auto
qed

lemma sample_paths_ok: "url_paths_ok sample_platform"
proof -
  have clean: "CHR ''/'' \<notin> sample_encoded" by (simp add: sample_encoded_def)
  have "sample_encode (normalizePath (sample_encode p)) = normalizePath (sample_encode p)" for p
    using normalizePath_set [of "sample_encode p"] sample_encode_clean [of p] clean by (intro sample_encode_id) blast
  then show ?thesis by (auto simp: url_paths_ok_def sample_platform_def sample_parse_def Let_def)
qed

definition sample_destination :: destination_config where
  "sample_destination =
     \<lparr>dc_id = ''d'', dc_baseUrl = ''https://h/api'', dc_schemes = [''https''],
      dc_hosts = [HM_exact ''h''], dc_ports = [443], dc_tls = \<lparr>tls_verify = True\<rparr>\<rparr>"

definition sample_service :: service_config where
  "sample_service =
     \<lparr>sc_id = ''s'', sc_name = ''S'', sc_description = None, sc_apiDocsUrl = None,
      sc_destinations = [sample_destination], sc_tls = \<lparr>tls_verify = True\<rparr>,
      sc_credentials =
        [\<lparr>cr_id = ''key'',
           cr_usage = \<lparr>cu_kind = ''header'', cu_name = Some ''X-Key'', cu_prefix = None,
                       cu_suffix = None, cu_enforce = True\<rparr>,
           cr_source = Source_env ''KEY'', cr_secret = ''hunter2''\<rparr>],
      sc_access = \<lparr>access_users = [''alice'']\<rparr>,
      sc_policy = \<lparr>pc_mode = Deny, pc_rules = []\<rparr>\<rparr>"

definition sample_config :: "limits_config \<Rightarrow> gateway_config" where
  "sample_config limits =
     \<lparr>gc_tokens = \<lparr>tc_idleTtlMs = 10, tc_maxTtlMs = 25\<rparr>, gc_limits = limits,
      gc_services = [(''s'', sample_service)]\<rparr>"

theorem resolveDestination_sound_witness:
  "\<exists>t. resolveDestination sample_platform (sample_config undefined)
      \<lparr>ac_subject = ''alice'', ac_scopes = [], ac_mode = Mode_bearer\<rparr> ''s'' None
      \<lparr>ti_path = Some ''/api/./a b?q'', ti_url = None\<rparr> = Inr t \<and>
    rt_methodPath t = ''/api/a%20b'' \<and> url_pathname (rt_url t) = rt_methodPath t"
proof -
  let ?t = "\<lparr>rt_destination = sample_destination,
    rt_url = \<lparr>url_protocol = ''https:'', url_hostname = ''h'', url_port = [],
      url_pathname = ''/api/a%20b'', url_rest = ''?q''\<rparr>,
    rt_methodPath = ''/api/a%20b'', rt_tls = \<lparr>tls_verify = True\<rparr>\<rparr>"
  have "resolveDestination sample_platform (sample_config undefined)
      \<lparr>ac_subject = ''alice'', ac_scopes = [], ac_mode = Mode_bearer\<rparr> ''s'' None
      \<lparr>ti_path = Some ''/api/./a b?q'', ti_url = None\<rparr> = Inr ?t"
    by code_simp
  then show ?thesis
    using resolveDestination_sound [of sample_platform "sample_config undefined"
        "\<lparr>ac_subject = ''alice'', ac_scopes = [], ac_mode = Mode_bearer\<rparr>" "''s''" None
        "\<lparr>ti_path = Some ''/api/./a b?q'', ti_url = None\<rparr>" ?t] sample_paths_ok
    by auto
qed

text \<open>
  C36: The scan for ambiguous escapes does not cover every absolute URL: the raw path is read off
  the argument with a pattern that must match at its first character, while the platform's parser
  drops leading spaces. An absolute URL that is refused for its escapes is resolved, escapes and
  all, when the caller puts a space in front of it.
\<close>

theorem absolute_url_space_skips_escape_check:
  assumes "assertUnambiguousPathEncoding (rawAbsolutePath u) = Inl e"
    and "up_parse P (CHR '' '' # u) None = up_parse P u None"
    and "up_parse P u None = Some v"
  shows "resolveTargetUrl P d \<lparr>ti_path = None, ti_url = Some u\<rparr> = Inl e \<and>
    resolveTargetUrl P d \<lparr>ti_path = None, ti_url = Some (CHR '' '' # u)\<rparr> =
      Inr (canonicalizeTargetPath P v)"
proof -
  have "\<not> is_alpha CHR '' ''" by (simp add: is_alpha_def in_range_def char_code_def)
  then have "rawAbsolutePath (CHR '' '' # u) = ''/''"
    by (simp add: rawAbsolutePath_def)
  with assms show ?thesis by (simp add: resolveTargetUrl_def new_URL_def)
qed

theorem absolute_url_space_skips_escape_check_witness:
  "\<exists>e. resolveTargetUrl sample_platform sample_destination
         \<lparr>ti_path = None, ti_url = Some ''https://h/api/%2fadmin''\<rparr> = Inl e \<and>
       resolveTargetUrl sample_platform sample_destination
         \<lparr>ti_path = None, ti_url = Some '' https://h/api/%2fadmin''\<rparr> =
         Inr \<lparr>url_protocol = ''https:'', url_hostname = ''h'', url_port = [],
              url_pathname = ''/api/%2fadmin'', url_rest = []\<rparr>"
proof -
  let ?v = "\<lparr>url_protocol = ''https:'', url_hostname = ''h'', url_port = [],
              url_pathname = ''/api/%2fadmin'', url_rest = []\<rparr>"
  have "assertUnambiguousPathEncoding (rawAbsolutePath ''https://h/api/%2fadmin'') = ambiguous_escape"
    "up_parse sample_platform (CHR '' '' # ''https://h/api/%2fadmin'') None = Some ?v"
    "up_parse sample_platform ''https://h/api/%2fadmin'' None = Some ?v"
    "canonicalizeTargetPath sample_platform ?v = ?v"
    by code_simp+
  then show ?thesis
    using absolute_url_space_skips_escape_check
      [of "''https://h/api/%2fadmin''" _ sample_platform ?v sample_destination]
    by (auto simp: ambiguous_escape_def)
qed

end
