(* ===== verification/PolicyMatchers.thy ===== *)
theory PolicyMatchers
  imports UrlValidation "HOL-Library.Multiset"
begin

text \<open>
  \<^verbatim>\<open>src/policyMatchers.ts\<close>: normalisation of managed policy matchers and the matching of hosts and
  paths at evaluation time. A matcher is its \<open>kind\<close> and its \<open>value\<close>, both strings, because the
  code trusts the kind at run time; input of the normalisation is untyped JSON. Compilation of a
  regular expression with the flag \<open>u\<close> may fail with a \<open>SyntaxError\<close>: the engine is a parameter
  that gives no result then. \<open>localeCompare\<close> and \<open>isIP\<close>, \<open>domainToASCII\<close> are parameters too.
\<close>

record policy_matcher =
  mt_kind :: string
  mt_value :: string

datatype policy_matcher_error = Invalid_request | Unsafe_matcher | Regex_syntax_error

type_synonym 'a matcher_result = "policy_matcher_error + 'a"

record matcher_platform =
  mp_url :: url_platform
  mp_regex_u :: "string \<Rightarrow> (string \<Rightarrow> bool) option"
  mp_locale_le :: "string \<Rightarrow> string \<Rightarrow> bool"

section \<open>Host names\<close>

definition is_dns_char :: "char \<Rightarrow> bool" where
  "is_dns_char c \<longleftrightarrow> in_range CHR ''a'' CHR ''z'' c \<or> is_digit c \<or> c = CHR ''-''"

definition dns_label_bad :: "string \<Rightarrow> bool" where
  "dns_label_bad l \<longleftrightarrow> length l < 1 \<or> length l > 63 \<or> \<not> list_all is_dns_char l"

text \<open>\<open>replace(/^\[|\]$/g, "")\<close>\<close>

definition strip_brackets :: "string \<Rightarrow> string" where
  "strip_brackets s =
     strip_trailing CHR '']'' (case s of c # cs \<Rightarrow> if c = CHR ''['' then cs else s | [] \<Rightarrow> [])"

definition normalizeDnsOrIp :: "url_platform \<Rightarrow> string \<Rightarrow> string matcher_result" where
  "normalizeDnsOrIp P v =
     (if length v < 1 \<or> length v > 253 \<or> v \<noteq> js_trim v \<or> CHR 0x00 \<in> set v then Inl Invalid_request
      else let candidate = strip_brackets (strip_trailing CHR ''.'' (to_lower v))
           in if up_isIP P candidate \<noteq> 0 then Inr candidate
              else let ascii = up_domainToASCII P candidate
                   in if ascii = [] \<or> starts_with ascii ''.'' \<or> ends_with ascii ''.'' \<or>
                         list_ex dns_label_bad (js_split CHR ''.'' ascii)
                      then Inl Unsafe_matcher else Inr ascii)"

section \<open>Matching\<close>

definition regex_u_test :: "matcher_platform \<Rightarrow> string \<Rightarrow> string \<Rightarrow> bool matcher_result" where
  "regex_u_test M source subject =
     (case mp_regex_u M source of None \<Rightarrow> Inl Regex_syntax_error | Some test \<Rightarrow> Inr (test subject))"

definition matchesPolicyHost ::
  "matcher_platform \<Rightarrow> policy_matcher \<Rightarrow> string \<Rightarrow> bool matcher_result" where
  "matchesPolicyHost M matcher host =
     result_bind (normalizeDnsOrIp (mp_url M) host) (\<lambda>normalized.
       (if mt_kind matcher = ''exact'' then Inr (normalized = mt_value matcher)
        else if mt_kind matcher = ''suffix''
        then Inr (normalized = mt_value matcher \<or> ends_with normalized (''.'' @ mt_value matcher))
        else regex_u_test M (mt_value matcher) normalized))"

definition matchesPolicyPath ::
  "matcher_platform \<Rightarrow> policy_matcher \<Rightarrow> string \<Rightarrow> bool matcher_result" where
  "matchesPolicyPath M matcher pathname =
     (if mt_kind matcher = ''exact'' then Inr (pathname = mt_value matcher)
      else if mt_kind matcher = ''prefix''
      then Inr (mt_value matcher = ''/'' \<or> pathname = mt_value matcher \<or>
                starts_with pathname (mt_value matcher @ ''/''))
      else regex_u_test M (mt_value matcher) pathname)"

section \<open>The regular expressions managed policies may use\<close>

datatype regex_kind = Host_regex | Path_regex

definition class_char :: "char \<Rightarrow> bool" where
  "class_char c \<longleftrightarrow> is_alnum c \<or> c \<in> {CHR ''.'', CHR ''_'', CHR ''~'', CHR ''/'', CHR ''-''}"

definition allowed_literal :: "regex_kind \<Rightarrow> char \<Rightarrow> bool" where
  "allowed_literal kind c =
     (case kind of Host_regex \<Rightarrow> is_alnum c \<or> c = CHR ''-'' | Path_regex \<Rightarrow> class_char c)"

definition allowed_escape :: "regex_kind \<Rightarrow> char \<Rightarrow> bool" where
  "allowed_escape kind c \<longleftrightarrow>
     c = CHR ''.'' \<or> c = CHR ''-'' \<or> kind = Path_regex \<and> c = CHR ''/''"

definition class_ok :: "string \<Rightarrow> bool" where
  "class_ok s \<longleftrightarrow> 1 \<le> length s \<and> length s \<le> 64 \<and> list_all class_char s"

definition is_quantifier :: "char \<Rightarrow> bool" where
  "is_quantifier c \<longleftrightarrow> c \<in> {CHR ''+'', CHR ''*'', CHR ''?''}"

text \<open>
  The scan of \<open>assertAnchoredLinearRegex\<close> over what is between the anchors, with its two flags.
  \<open>indexOf("]")\<close> is the first bracket after the class opens.
\<close>

function scan_regex :: "regex_kind \<Rightarrow> bool \<Rightarrow> bool \<Rightarrow> string \<Rightarrow> bool" where
  "scan_regex kind previousWasAtom previousWasQuantifier [] =
     (previousWasAtom \<or> previousWasQuantifier)"
| "scan_regex kind previousWasAtom previousWasQuantifier (c # cs) =
     (if c = CHR 0x5C
      then (case cs of
              [] \<Rightarrow> False
            | e # rest \<Rightarrow> allowed_escape kind e \<and> scan_regex kind True False rest)
      else if c = CHR ''[''
      then (let characterClass = takeWhile (\<lambda>d. d \<noteq> CHR '']'') cs;
                rest = dropWhile (\<lambda>d. d \<noteq> CHR '']'') cs
            in rest \<noteq> [] \<and> class_ok characterClass \<and> scan_regex kind True False (tl rest))
      else if is_quantifier c
      then previousWasAtom \<and> \<not> previousWasQuantifier \<and> scan_regex kind False True cs
      else allowed_literal kind c \<and> scan_regex kind True False cs)"
  by pat_completeness auto
termination
  by (relation "measure (\<lambda>(k, a, q, s). length s)")
    (auto simp: less_Suc_eq_le intro!: le_trans [OF diff_le_self] length_dropWhile_le)

definition assertAnchoredLinearRegex ::
  "matcher_platform \<Rightarrow> string \<Rightarrow> regex_kind \<Rightarrow> unit matcher_result" where
  "assertAnchoredLinearRegex M v kind =
     (let maximum = (case kind of Host_regex \<Rightarrow> 256 | Path_regex \<Rightarrow> 2048)
      in if length v < 3 \<or> length v > maximum \<or> \<not> starts_with v ''^'' \<or> \<not> ends_with v ''$'' \<or>
            CHR ''%'' \<in> set v
         then Inl Unsafe_matcher
         else if \<not> scan_regex kind False False (butlast (tl v)) then Inl Unsafe_matcher
         else (case mp_regex_u M v of None \<Rightarrow> Inl Unsafe_matcher | Some _ \<Rightarrow> Inr ()))"

section \<open>Normalisation of managed matchers\<close>

definition is_method_char :: "char \<Rightarrow> bool" where
  "is_method_char c \<longleftrightarrow> is_alnum c \<or> c \<in> set ''!#$%&*+.^_`|~-'' \<or> c = CHR 0x27"

definition normalizeMethod :: "json \<Rightarrow> string matcher_result" where
  "normalizeMethod value =
     (case value of
        JString v \<Rightarrow>
          (if 1 \<le> length v \<and> length v \<le> 32 \<and> list_all is_method_char v
           then Inr (to_upper v) else Inl Invalid_request)
      | _ \<Rightarrow> Inl Invalid_request)"

text \<open>\<open>assertClosedMatcher\<close>: an object with the two own keys, the value a string.\<close>

definition closed_matcher :: "json \<Rightarrow> (json \<times> string) matcher_result" where
  "closed_matcher value =
     (case value of
        JObject fs \<Rightarrow>
          (if length fs \<noteq> 2 then Inl Invalid_request
           else case (jmap_get fs ''kind'', jmap_get fs ''value'') of
               (Some kind, Some (JString v)) \<Rightarrow> Inr (kind, v)
             | _ \<Rightarrow> Inl Invalid_request)
      | _ \<Rightarrow> Inl Invalid_request)"

definition normalizeHostMatcher :: "matcher_platform \<Rightarrow> json \<Rightarrow> policy_matcher matcher_result" where
  "normalizeHostMatcher M value =
     result_bind (closed_matcher value) (\<lambda>(kind, v).
       (if kind = JString ''exact''
        then result_bind (normalizeDnsOrIp (mp_url M) v) (\<lambda>n.
               Inr \<lparr>mt_kind = ''exact'', mt_value = n\<rparr>)
        else if kind = JString ''suffix''
        then result_bind
               (normalizeDnsOrIp (mp_url M)
                 (case v of c # cs \<Rightarrow> if c = CHR ''.'' then cs else v | [] \<Rightarrow> v)) (\<lambda>n.
               (if up_isIP (mp_url M) n \<noteq> 0 then Inl Unsafe_matcher
                else Inr \<lparr>mt_kind = ''suffix'', mt_value = n\<rparr>))
        else if kind = JString ''regex''
        then result_bind (assertAnchoredLinearRegex M v Host_regex) (\<lambda>_.
               Inr \<lparr>mt_kind = ''regex'', mt_value = v\<rparr>)
        else Inl Invalid_request))"

definition managed_escape_allowed :: "char \<Rightarrow> char \<Rightarrow> bool" where
  "managed_escape_allowed a b \<longleftrightarrow>
     escape_allowed a b \<and> \<not> in_range CHR ''a'' CHR ''f'' a \<and> \<not> in_range CHR ''a'' CHR ''f'' b"

fun assertUnambiguousPercentEncoding :: "string \<Rightarrow> unit matcher_result" where
  "assertUnambiguousPercentEncoding [] = Inr ()"
| "assertUnambiguousPercentEncoding (c # cs) =
     (if c \<noteq> CHR ''%'' then assertUnambiguousPercentEncoding cs
      else case cs of
        a # b # rest \<Rightarrow>
          (if managed_escape_allowed a b then assertUnambiguousPercentEncoding rest
           else Inl Unsafe_matcher)
      | _ \<Rightarrow> Inl Unsafe_matcher)"

text \<open>
  \<open>canonicalPath\<close>. Of the parsed URL the code reads the path and whether a query or a fragment is
  there (\<open>url_rest\<close>).
\<close>

definition canonicalPath :: "matcher_platform \<Rightarrow> string \<Rightarrow> string matcher_result" where
  "canonicalPath M v =
     (if length v < 1 \<or> length v > 2048 \<or> \<not> starts_with v ''/'' \<or> CHR ''?'' \<in> set v \<or>
         CHR ''#'' \<in> set v \<or> CHR 0x00 \<in> set v
      then Inl Invalid_request
      else result_bind (assertUnambiguousPercentEncoding v) (\<lambda>_.
        (case up_parse (mp_url M) v (Some ''https://example.org'') of
           None \<Rightarrow> Inl Invalid_request
         | Some parsed \<Rightarrow>
             (if url_pathname parsed \<noteq> v \<or> url_rest parsed \<noteq> [] then Inl Unsafe_matcher
              else Inr v))))"

text \<open>The kind of a path matcher that is not a regular expression is passed on unchecked.\<close>

definition normalizePathMatcher :: "matcher_platform \<Rightarrow> json \<Rightarrow> (json \<times> string) matcher_result" where
  "normalizePathMatcher M value =
     result_bind (closed_matcher value) (\<lambda>(kind, v).
       (if kind = JString ''regex''
        then result_bind (assertAnchoredLinearRegex M v Path_regex) (\<lambda>_. Inr (kind, v))
        else result_bind (canonicalPath M v) (\<lambda>canonical. Inr (kind, canonical))))"

text \<open>
  \<open>uniqueSorted\<close>: the number of values within the bounds, every value normalised, no two equal as
  JSON text, sorted by \<open>localeCompare\<close> of the JSON text. The sort is stable.
\<close>

fun insert_by :: "('a \<Rightarrow> 'a \<Rightarrow> bool) \<Rightarrow> 'a \<Rightarrow> 'a list \<Rightarrow> 'a list" where
  "insert_by le x [] = [x]"
| "insert_by le x (y # ys) = (if le x y then x # y # ys else y # insert_by le x ys)"

fun sort_by :: "('a \<Rightarrow> 'a \<Rightarrow> bool) \<Rightarrow> 'a list \<Rightarrow> 'a list" where
  "sort_by le [] = []"
| "sort_by le (x # xs) = insert_by le x (sort_by le xs)"

definition uniqueSorted ::
  "matcher_platform \<Rightarrow> ('b \<Rightarrow> string) \<Rightarrow> json option \<Rightarrow> (json \<Rightarrow> 'b matcher_result) \<Rightarrow> nat \<Rightarrow> nat
    \<Rightarrow> 'b list matcher_result" where
  "uniqueSorted M stringify values normalizer minimum maximum =
     (case values of
        Some (JArray vs) \<Rightarrow>
          (if length vs < minimum \<or> length vs > maximum then Inl Invalid_request
           else result_bind (result_map normalizer vs) (\<lambda>normalized.
             (let encoded = map stringify normalized
              in if length (js_unique encoded) \<noteq> length encoded then Inl Invalid_request
                 else Inr (sort_by (\<lambda>l r. mp_locale_le M (stringify l) (stringify r)) normalized))))
      | _ \<Rightarrow> Inl Invalid_request)"

definition host_matcher_json :: "policy_matcher \<Rightarrow> string" where
  "host_matcher_json m =
     json_stringify (JObject [(''kind'', JString (mt_kind m)), (''value'', JString (mt_value m))])"

definition path_matcher_json :: "json \<times> string \<Rightarrow> string" where
  "path_matcher_json m =
     json_stringify (JObject [(''kind'', fst m), (''value'', JString (snd m))])"

record normalized_matchers =
  nm_methods :: "string list"
  nm_hosts :: "policy_matcher list"
  nm_paths :: "(json \<times> string) list"

definition normalizeManagedPolicyMatchers ::
  "matcher_platform \<Rightarrow> json \<Rightarrow> normalized_matchers matcher_result" where
  "normalizeManagedPolicyMatchers M input =
     (case input of
        JObject fs \<Rightarrow>
          result_bind (uniqueSorted M json_quote (jmap_get fs ''methods'') normalizeMethod 0 64) (\<lambda>methods.
          result_bind (uniqueSorted M host_matcher_json (jmap_get fs ''hosts'')
                        (normalizeHostMatcher M) 0 64) (\<lambda>hosts.
          result_bind (uniqueSorted M path_matcher_json (jmap_get fs ''paths'')
                        (normalizePathMatcher M) 0 128) (\<lambda>paths.
            Inr \<lparr>nm_methods = methods, nm_hosts = hosts, nm_paths = paths\<rparr>)))
      | _ \<Rightarrow> Inl Invalid_request)"

section \<open>Library lemmas\<close>

text \<open>The language the scan accepts: single characters, escapes and classes, each with at most one
  quantifier, in sequence.\<close>

datatype regex_atom = Literal char | Escaped char | Character_class string

type_synonym regex_piece = "regex_atom \<times> char option"

fun atom_ok :: "regex_kind \<Rightarrow> regex_atom \<Rightarrow> bool" where
  "atom_ok kind (Literal c) = allowed_literal kind c"
| "atom_ok kind (Escaped c) = allowed_escape kind c"
| "atom_ok kind (Character_class s) = class_ok s"

fun piece_ok :: "regex_kind \<Rightarrow> regex_piece \<Rightarrow> bool" where
  "piece_ok kind (a, None) = atom_ok kind a"
| "piece_ok kind (a, Some q) = (atom_ok kind a \<and> is_quantifier q)"

fun atom_text :: "regex_atom \<Rightarrow> string" where
  "atom_text (Literal c) = [c]"
| "atom_text (Escaped c) = [CHR 0x5C, c]"
| "atom_text (Character_class s) = CHR ''['' # s @ [CHR '']'']"

fun piece_text :: "regex_piece \<Rightarrow> string" where
  "piece_text (a, None) = atom_text a"
| "piece_text (a, Some q) = atom_text a @ [q]"

definition pieces_text :: "regex_piece list \<Rightarrow> string" where
  "pieces_text ps = concat (map piece_text ps)"

lemma literal_plain: "allowed_literal kind c \<Longrightarrow> c \<noteq> CHR 0x5C \<and> c \<noteq> CHR ''['' \<and> \<not> is_quantifier c"
  by (cases kind)
    (auto simp: allowed_literal_def class_char_def is_quantifier_def is_alnum_def is_alpha_def
      is_digit_def in_range_def char_code_def)

lemma class_no_bracket: "class_ok s \<Longrightarrow> CHR '']'' \<notin> set s"
  by (auto simp: class_ok_def list_all_iff class_char_def is_alnum_def is_alpha_def is_digit_def
      in_range_def char_code_def)

lemma takeWhile_bracket:
  "CHR '']'' \<notin> set s \<Longrightarrow> takeWhile (\<lambda>d. d \<noteq> CHR '']'') (s @ CHR '']'' # t) = s \<and>
    dropWhile (\<lambda>d. d \<noteq> CHR '']'') (s @ CHR '']'' # t) = CHR '']'' # t"
  by (induction s) auto

lemma quantifier_plain: "is_quantifier q \<Longrightarrow> q \<noteq> CHR 0x5C \<and> q \<noteq> CHR ''[''"
  by (auto simp: is_quantifier_def)

lemma scan_atom: "atom_ok kind a \<Longrightarrow> scan_regex kind pa pq (atom_text a @ s) = scan_regex kind True False s"
  using takeWhile_bracket class_no_bracket
  by (cases a) (auto simp: literal_plain Let_def)

lemma scan_quantifier: "is_quantifier q \<Longrightarrow> scan_regex kind True False (q # s) = scan_regex kind False True s"
  by (auto simp: quantifier_plain)

declare scan_regex.simps(2) [simp del]

lemma scan_pieces:
  "list_all (piece_ok kind) ps \<Longrightarrow>
    scan_regex kind pa pq (pieces_text ps) = (pa \<or> pq \<or> ps \<noteq> [])"
proof (induction ps arbitrary: pa pq)
  case (Cons p ps)
  obtain a q where p: "p = (a, q)" by (cases p)
  show ?case
    using Cons by (cases q) (auto simp: p pieces_text_def scan_atom scan_quantifier)
qed (simp add: pieces_text_def)

lemma pieces_text_simps [simp]:
  "pieces_text [] = []" "pieces_text (p # ps) = piece_text p @ pieces_text ps"
  by (simp_all add: pieces_text_def)

text \<open>What is left to parse: after an atom, a quantifier may come first.\<close>

definition parses :: "regex_kind \<Rightarrow> bool \<Rightarrow> string \<Rightarrow> bool" where
  "parses kind afterAtom s \<longleftrightarrow>
     (\<exists>ps. list_all (piece_ok kind) ps \<and>
       (s = pieces_text ps \<or>
        afterAtom \<and> (\<exists>q. is_quantifier q \<and> s = q # pieces_text ps)))"

lemma parses_atom:
  assumes "atom_ok kind a" and "parses kind True s"
  shows "parses kind pa (atom_text a @ s)"
proof -
  obtain ps where ps: "list_all (piece_ok kind) ps"
    and s: "s = pieces_text ps \<or> (\<exists>q. is_quantifier q \<and> s = q # pieces_text ps)"
    using assms(2) by (auto simp: parses_def)
  from s show ?thesis
  proof
    assume "s = pieces_text ps"
    then have "list_all (piece_ok kind) ((a, None) # ps)"
      "atom_text a @ s = pieces_text ((a, None) # ps)" using ps assms(1) by simp_all
    then show ?thesis unfolding parses_def by blast
  next
    assume "\<exists>q. is_quantifier q \<and> s = q # pieces_text ps"
    then obtain q where "is_quantifier q" "s = q # pieces_text ps" by blast
    then have "list_all (piece_ok kind) ((a, Some q) # ps)"
      "atom_text a @ s = pieces_text ((a, Some q) # ps)" using ps assms(1) by simp_all
    then show ?thesis unfolding parses_def by blast
  qed
qed

lemma scan_parses: "scan_regex kind pa pq s \<Longrightarrow> \<not> (pa \<and> pq) \<Longrightarrow> parses kind pa s"
proof (induction kind pa pq s rule: scan_regex.induct)
  case (1 kind pa pq)
  have "list_all (piece_ok kind) [] \<and> [] = pieces_text []" by simp
  then show ?case unfolding parses_def by blast
next
  case (2 kind pa pq c cs)
  consider (esc) "c = CHR 0x5C" | (cls) "c \<noteq> CHR 0x5C" "c = CHR ''[''"
    | (quant) "c \<noteq> CHR 0x5C" "c \<noteq> CHR ''[''" "is_quantifier c"
    | (lit) "c \<noteq> CHR 0x5C" "c \<noteq> CHR ''[''" "\<not> is_quantifier c" by blast
  then show ?case
  proof cases
    case esc
    then obtain e rest where "cs = e # rest" "allowed_escape kind e" "scan_regex kind True False rest"
      using "2.prems" by (auto simp: scan_regex.simps(2) split: list.splits)
    then have "atom_ok kind (Escaped e)" "parses kind True rest" "c # cs = atom_text (Escaped e) @ rest"
      using "2.IH"(1) esc by auto
    then show ?thesis using parses_atom by metis
  next
    case cls
    let ?cl = "takeWhile (\<lambda>d. d \<noteq> CHR '']'') cs" and ?r = "dropWhile (\<lambda>d. d \<noteq> CHR '']'') cs"
    have r: "?r \<noteq> []" "class_ok ?cl" "scan_regex kind True False (tl ?r)"
      using "2.prems" cls by (auto simp: scan_regex.simps(2) Let_def)
    then have "hd ?r = CHR '']''" using hd_dropWhile by blast
    then have "?r = CHR '']'' # tl ?r" using r(1) by (metis list.collapse)
    then have "cs = ?cl @ CHR '']'' # tl ?r" by (metis takeWhile_dropWhile_id)
    then have "c # cs = atom_text (Character_class ?cl) @ tl ?r" using cls by simp
    moreover have "parses kind True (tl ?r)" using "2.IH"(2) cls r by simp
    moreover have "atom_ok kind (Character_class ?cl)" using r(2) by simp
    ultimately show ?thesis using parses_atom by metis
  next
    case quant
    then have "pa" "\<not> pq" "scan_regex kind False True cs"
      using "2.prems" by (auto simp: scan_regex.simps(2))
    then have "parses kind False cs" using "2.IH"(3) quant by simp
    then show ?thesis using \<open>pa\<close> quant by (auto simp: parses_def)
  next
    case lit
    then have "allowed_literal kind c" "scan_regex kind True False cs"
      using "2.prems" by (auto simp: scan_regex.simps(2))
    then have "atom_ok kind (Literal c)" "parses kind True cs" "c # cs = atom_text (Literal c) @ cs"
      using "2.IH"(4) lit by auto
    then show ?thesis using parses_atom by metis
  qed
qed

lemma scan_regex_language:
  "scan_regex kind False False s \<longleftrightarrow>
    (\<exists>ps. ps \<noteq> [] \<and> list_all (piece_ok kind) ps \<and> s = pieces_text ps)"
proof
  assume scan: "scan_regex kind False False s"
  then obtain ps where "list_all (piece_ok kind) ps" "s = pieces_text ps"
    using scan_parses [OF scan] by (auto simp: parses_def)
  then show "\<exists>ps. ps \<noteq> [] \<and> list_all (piece_ok kind) ps \<and> s = pieces_text ps"
    using scan by (auto simp: scan_pieces)
qed (auto simp: scan_pieces)

section \<open>Properties\<close>

text \<open>
  C25: A managed policy may use exactly the expressions that are anchored at both ends, within the
  length limit, accepted by the engine, without a percent sign, and between the anchors a nonempty
  sequence of allowed characters, escapes and classes, each with at most one quantifier: no
  groups, no alternation, no nested or stacked quantifiers.
\<close>

theorem assertAnchoredLinearRegex_language:
  "assertAnchoredLinearRegex M v kind = Inr () \<longleftrightarrow>
    (\<exists>pieces. v = CHR ''^'' # pieces_text pieces @ [CHR ''$''] \<and> pieces \<noteq> [] \<and>
      list_all (piece_ok kind) pieces \<and> CHR ''%'' \<notin> set v \<and>
      3 \<le> length v \<and> length v \<le> (case kind of Host_regex \<Rightarrow> 256 | Path_regex \<Rightarrow> 2048) \<and>
      mp_regex_u M v \<noteq> None)"
proof -
  have "starts_with v ''^'' \<and> ends_with v ''$'' \<and> 3 \<le> length v \<longleftrightarrow>
      v = CHR ''^'' # butlast (tl v) @ [CHR ''$''] \<and> 3 \<le> length v"
  proof (cases v)
    case (Cons c w)
    then show ?thesis by (cases w rule: rev_cases) (auto simp: prefix_def suffix_def)
  qed simp
  then show ?thesis
    using scan_regex_language [of kind "butlast (tl v)"]
    by (auto simp: assertAnchoredLinearRegex_def Let_def not_less split: option.splits if_splits)
qed

text \<open>
  Matchers respect boundaries. A suffix matcher accepts a host exactly when the labels of the
  host end in the labels of the matcher, so \<open>evil-example.org\<close> is no subdomain of
  \<open>example.org\<close>; a prefix matcher other than \<open>/\<close> accepts a path exactly when the segments of the
  path begin with the segments of the matcher.
\<close>

theorem matchers_respect_boundaries:
  assumes "normalizeDnsOrIp (mp_url M) host = Inr n"
  shows "matchesPolicyHost M \<lparr>mt_kind = ''suffix'', mt_value = v\<rparr> host =
      Inr (suffix (js_split CHR ''.'' v) (js_split CHR ''.'' n)) \<and>
    matchesPolicyPath M \<lparr>mt_kind = ''prefix'', mt_value = v\<rparr> pathname =
      Inr (v = ''/'' \<or> prefix (js_split CHR ''/'' v) (js_split CHR ''/'' pathname))"
  using assms by (simp add: matchesPolicyHost_def matchesPolicyPath_def js_split_suffix js_split_prefix)

theorem matchers_respect_boundaries_witness:
  "let M = \<lparr>mp_url = sample_platform, mp_regex_u = (\<lambda>_. None), mp_locale_le = (\<le>)\<rparr>
   in matchesPolicyHost M \<lparr>mt_kind = ''suffix'', mt_value = ''b.c''\<rparr> ''A.b.C.'' =
      Inr (suffix [''b'', ''c''] [''a'', ''b'', ''c''])"
proof -
  have "normalizeDnsOrIp sample_platform ''A.b.C.'' = Inr ''a.b.c''"
    "js_split CHR ''.'' ''b.c'' = [''b'', ''c'']" "js_split CHR ''.'' ''a.b.c'' = [''a'', ''b'', ''c'']"
    by code_simp+
  then show ?thesis
    using matchers_respect_boundaries
      [of "\<lparr>mp_url = sample_platform, mp_regex_u = (\<lambda>_. None), mp_locale_le = (\<le>)\<rparr>"
        "''A.b.C.''" "''a.b.c''" "''b.c''"]
    by (simp add: Let_def)
qed

end
