(* ===== verification/Policy.thy ===== *)
theory Policy
  imports PolicyMatchers
begin

text \<open>
  \<^verbatim>\<open>src/policy.ts\<close>: evaluation of the policy of a service and of its credentials for one
  request, with the explanation of every rule, and \<open>evaluatePolicy\<close>, the evaluation of a
  service configured in the gateway's file. A host matcher may throw (an invalid host, a regular
  expression the engine rejects), so the evaluation is a \<open>matcher_result\<close>.
\<close>

datatype boundary_kind = Service_boundary | Credential_boundary

datatype policy_principal_selector =
  Sel_all
| Sel_groups "string list"
| Sel_users "string list"
| Sel_principals "string list" "string list"

record policy_rule_snapshot =
  rs_id :: string
  rs_effect :: policy_effect
  rs_priority :: int
  rs_enabled :: bool
  rs_methods :: "string list"
  rs_hosts :: "policy_matcher list"
  rs_paths :: "policy_matcher list"
  rs_selector :: policy_principal_selector
  rs_reason :: "string option"

record policy_boundary_snapshot =
  bs_id :: string
  bs_kind :: boundary_kind
  bs_mode :: policy_effect
  bs_assignmentAllowed :: bool
  bs_rules :: "policy_rule_snapshot list"

record policy_evaluation_snapshot =
  es_subjectId :: string
  es_groupIds :: "string list"
  es_method :: string
  es_host :: string
  es_pathname :: string
  es_service :: policy_boundary_snapshot
  es_credentials :: "policy_boundary_snapshot list"

datatype policy_rule_reason_code =
  Rule_disabled | Principal_not_applicable | Method_not_matched | Host_not_matched
| Path_not_matched | Matched_lower_priority | Rule_selected_allow | Rule_selected_deny

record policy_rule_explanation =
  rx_ruleId :: string
  rx_applicable :: bool
  rx_requestMatched :: bool
  rx_selected :: bool
  rx_reasonCode :: policy_rule_reason_code
  rx_priority :: int
  rx_effect :: policy_effect

datatype boundary_reason_code =
  Assignment_denied | Default_allow | Default_deny | Selected_allow | Selected_deny | Deny_tie

record policy_boundary_explanation =
  bx_boundaryId :: string
  bx_kind :: boundary_kind
  bx_assignmentAllowed :: bool
  bx_allowed :: bool
  bx_mode :: policy_effect
  bx_selectedPriority :: "int option"
  bx_selectedRuleIds :: "string list"
  bx_decisiveRuleId :: "string option"
  bx_reasonCode :: boundary_reason_code
  bx_rules :: "policy_rule_explanation list"

datatype evaluation_reason_code = All_boundaries_allow | Boundary_denied

record policy_evaluation_explanation =
  px_allowed :: bool
  px_subjectId :: string
  px_groupIds :: "string list"
  px_method :: string
  px_host :: string
  px_pathname :: string
  px_boundaries :: "policy_boundary_explanation list"
  px_reasonCode :: evaluation_reason_code

record policy_decision =
  pd_allowed :: bool
  pd_matchedRule :: "string option"
  pd_policyMode :: policy_effect
  pd_reason :: string
  pd_suggestion :: "string option"

section \<open>Rules\<close>

definition selectorApplies :: "policy_principal_selector \<Rightarrow> string \<Rightarrow> string list \<Rightarrow> bool" where
  "selectorApplies selector subjectId groupIds =
     (case selector of
        Sel_all \<Rightarrow> True
      | Sel_groups gs \<Rightarrow> list_ex (\<lambda>g. g \<in> set groupIds) gs
      | Sel_users us \<Rightarrow> subjectId \<in> set us
      | Sel_principals gs us \<Rightarrow> subjectId \<in> set us \<or> list_ex (\<lambda>g. g \<in> set groupIds) gs)"

text \<open>\<open>items.some(f)\<close> where \<open>f\<close> may throw: it stops at the first hit or the first exception.\<close>

fun result_some :: "('a \<Rightarrow> 'e + bool) \<Rightarrow> 'a list \<Rightarrow> 'e + bool" where
  "result_some f [] = Inr False"
| "result_some f (x # xs) =
     (case f x of Inl e \<Rightarrow> Inl e | Inr b \<Rightarrow> if b then Inr True else result_some f xs)"

definition rule_explanation ::
  "policy_rule_snapshot \<Rightarrow> bool \<Rightarrow> bool \<Rightarrow> policy_rule_reason_code \<Rightarrow> policy_rule_explanation" where
  "rule_explanation rule applicable requestMatched reasonCode =
     \<lparr>rx_ruleId = rs_id rule, rx_applicable = applicable, rx_requestMatched = requestMatched,
      rx_selected = False, rx_reasonCode = reasonCode, rx_priority = rs_priority rule,
      rx_effect = rs_effect rule\<rparr>"

definition explainRule ::
  "matcher_platform \<Rightarrow> string \<Rightarrow> string list \<Rightarrow> string \<Rightarrow> string \<Rightarrow> string
    \<Rightarrow> policy_rule_snapshot \<Rightarrow> policy_rule_explanation matcher_result" where
  "explainRule M subjectId groupIds method host pathname rule =
     (if \<not> rs_enabled rule then Inr (rule_explanation rule False False Rule_disabled)
      else if \<not> selectorApplies (rs_selector rule) subjectId groupIds
      then Inr (rule_explanation rule False False Principal_not_applicable)
      else if length (rs_methods rule) > 0 \<and> method \<notin> set (rs_methods rule)
      then Inr (rule_explanation rule True False Method_not_matched)
      else result_bind
        (if length (rs_hosts rule) > 0
         then result_some (\<lambda>m. matchesPolicyHost M m host) (rs_hosts rule) else Inr True)
        (\<lambda>hostMatched.
           if \<not> hostMatched then Inr (rule_explanation rule True False Host_not_matched)
           else result_bind
             (if length (rs_paths rule) > 0
              then result_some (\<lambda>m. matchesPolicyPath M m pathname) (rs_paths rule) else Inr True)
             (\<lambda>pathMatched.
                if \<not> pathMatched then Inr (rule_explanation rule True False Path_not_matched)
                else Inr (rule_explanation rule True True
                       (if rs_effect rule = Deny then Rule_selected_deny
                        else Rule_selected_allow)))))"

section \<open>Boundaries\<close>

text \<open>\<open>Math.max(...xs)\<close> of a list that is not empty\<close>

fun list_max :: "int list \<Rightarrow> int" where
  "list_max [] = 0"
| "list_max [x] = x"
| "list_max (x # y # xs) = max x (list_max (y # xs))"

definition mark_rule :: "string list \<Rightarrow> policy_rule_explanation \<Rightarrow> policy_rule_explanation" where
  "mark_rule selectedRuleIds rule =
     (if \<not> rx_requestMatched rule then rule
      else if rx_ruleId rule \<notin> set selectedRuleIds
      then rule\<lparr>rx_reasonCode := Matched_lower_priority\<rparr>
      else rule\<lparr>rx_selected := True,
                rx_reasonCode := if rx_effect rule = Deny then Rule_selected_deny
                                 else Rule_selected_allow\<rparr>)"

text \<open>The part of \<open>evaluateBoundary\<close> after the rules have been explained.\<close>

definition decide_boundary ::
  "policy_boundary_snapshot \<Rightarrow> policy_rule_explanation list \<Rightarrow> policy_boundary_explanation" where
  "decide_boundary boundary initial =
     (let matches = filter rx_requestMatched initial
      in if length matches = 0
         then \<lparr>bx_boundaryId = bs_id boundary, bx_kind = bs_kind boundary,
               bx_assignmentAllowed = True, bx_allowed = (bs_mode boundary = Allow),
               bx_mode = bs_mode boundary, bx_selectedPriority = None, bx_selectedRuleIds = [],
               bx_decisiveRuleId = None,
               bx_reasonCode = (if bs_mode boundary = Allow then Default_allow else Default_deny),
               bx_rules = initial\<rparr>
         else
           (let selectedPriority = list_max (map rx_priority matches);
                selected = filter (\<lambda>r. rx_priority r = selectedPriority) matches;
                denies = filter (\<lambda>r. rx_effect r = Deny) selected;
                allowed = (length denies = 0);
                selectedRuleIds = js_sort (map rx_ruleId selected)
            in \<lparr>bx_boundaryId = bs_id boundary, bx_kind = bs_kind boundary,
                bx_assignmentAllowed = True, bx_allowed = allowed, bx_mode = bs_mode boundary,
                bx_selectedPriority = Some selectedPriority, bx_selectedRuleIds = selectedRuleIds,
                bx_decisiveRuleId =
                  Some (hd (js_sort (map rx_ruleId (if allowed then selected else denies)))),
                bx_reasonCode =
                  (if allowed then Selected_allow
                   else if list_ex (\<lambda>r. rx_effect r = Allow) selected then Deny_tie
                   else Selected_deny),
                bx_rules = map (mark_rule selectedRuleIds) initial\<rparr>))"

definition evaluateBoundary ::
  "matcher_platform \<Rightarrow> string \<Rightarrow> string list \<Rightarrow> string \<Rightarrow> string \<Rightarrow> string
    \<Rightarrow> policy_boundary_snapshot \<Rightarrow> policy_boundary_explanation matcher_result" where
  "evaluateBoundary M subjectId groupIds method host pathname boundary =
     result_bind (result_map (explainRule M subjectId groupIds method host pathname) (bs_rules boundary))
       (\<lambda>initial.
          if \<not> bs_assignmentAllowed boundary
          then Inr \<lparr>bx_boundaryId = bs_id boundary, bx_kind = bs_kind boundary,
                    bx_assignmentAllowed = False, bx_allowed = False, bx_mode = bs_mode boundary,
                    bx_selectedPriority = None, bx_selectedRuleIds = [], bx_decisiveRuleId = None,
                    bx_reasonCode = Assignment_denied, bx_rules = initial\<rparr>
          else Inr (decide_boundary boundary initial))"

section \<open>Requests\<close>

definition evaluatePolicySnapshot ::
  "matcher_platform \<Rightarrow> policy_evaluation_snapshot \<Rightarrow> policy_evaluation_explanation matcher_result" where
  "evaluatePolicySnapshot M snapshot =
     (let method = to_upper (es_method snapshot);
          host = normalizeHost (mp_url M) (es_host snapshot);
          groupIds = js_sort (js_unique (es_groupIds snapshot))
      in result_bind
           (result_map (evaluateBoundary M (es_subjectId snapshot) groupIds method host (es_pathname snapshot))
             (es_service snapshot # es_credentials snapshot))
           (\<lambda>boundaries.
              Inr \<lparr>px_allowed = list_all bx_allowed boundaries,
                   px_subjectId = es_subjectId snapshot, px_groupIds = groupIds,
                   px_method = method, px_host = host, px_pathname = es_pathname snapshot,
                   px_boundaries = boundaries,
                   px_reasonCode = (if list_all bx_allowed boundaries then All_boundaries_allow
                                    else Boundary_denied)\<rparr>))"

definition legacyRuleSnapshot :: "policy_rule_config \<Rightarrow> policy_rule_snapshot" where
  "legacyRuleSnapshot rule =
     \<lparr>rs_id = pr_id rule, rs_effect = pr_effect rule, rs_priority = pr_priority rule,
      rs_enabled = True, rs_methods = map to_upper (pr_methods rule),
      rs_hosts = map (\<lambda>v. \<lparr>mt_kind = ''regex'', mt_value = v\<rparr>) (pr_hosts rule),
      rs_paths = map (\<lambda>v. \<lparr>mt_kind = ''regex'', mt_value = v\<rparr>) (pr_paths rule),
      rs_selector = Sel_all, rs_reason = pr_reason rule\<rparr>"

definition legacy_snapshot ::
  "service_config \<Rightarrow> resolved_target \<Rightarrow> string \<Rightarrow> policy_evaluation_snapshot" where
  "legacy_snapshot service target method =
     \<lparr>es_subjectId = ''yaml-runtime-subject'', es_groupIds = [], es_method = method,
      es_host = url_hostname (rt_url target), es_pathname = rt_methodPath target,
      es_service =
        \<lparr>bs_id = sc_id service, bs_kind = Service_boundary, bs_mode = pc_mode (sc_policy service),
         bs_assignmentAllowed = True,
         bs_rules = map legacyRuleSnapshot (pc_rules (sc_policy service))\<rparr>,
      es_credentials = []\<rparr>"

definition denial_suggestion :: "bool \<Rightarrow> string option" where
  "denial_suggestion allowed =
     (if allowed then None
      else Some ''Use an allowed request or ask the user to update service policy.'')"

definition legacy_decision ::
  "service_config \<Rightarrow> policy_boundary_explanation \<Rightarrow> policy_decision" where
  "legacy_decision service boundary =
     (let allowed = bx_allowed boundary; mode = pc_mode (sc_policy service)
      in case bx_decisiveRuleId boundary of
           Some decisive \<Rightarrow>
             (let selected = the (find (\<lambda>rule. pr_id rule = decisive) (pc_rules (sc_policy service)))
              in \<lparr>pd_allowed = allowed, pd_matchedRule = Some (pr_id selected),
                  pd_policyMode = mode,
                  pd_reason =
                    (case pr_reason selected of
                       Some r \<Rightarrow> r
                     | None \<Rightarrow> (if allowed then ''Allowed'' else ''Denied'') @
                               '' by policy rule '' @ pr_id selected @ ''.''),
                  pd_suggestion = denial_suggestion allowed\<rparr>)
         | None \<Rightarrow>
             \<lparr>pd_allowed = allowed, pd_matchedRule = None, pd_policyMode = mode,
              pd_reason = (if allowed then ''Allowed by default policy mode.''
                           else ''Denied by default policy mode.''),
              pd_suggestion = denial_suggestion allowed\<rparr>)"

definition evaluatePolicy ::
  "matcher_platform \<Rightarrow> service_config \<Rightarrow> resolved_target \<Rightarrow> string \<Rightarrow> policy_decision matcher_result" where
  "evaluatePolicy M service target method =
     result_bind (evaluatePolicySnapshot M (legacy_snapshot service target method))
       (\<lambda>explanation. Inr (legacy_decision service (hd (px_boundaries explanation))))"

section \<open>What a policy promises\<close>

text \<open>
  The specification: which rules match a request, and when a boundary lets it through. It speaks
  of the set of matching rules only.
\<close>

definition rule_matches ::
  "matcher_platform \<Rightarrow> string \<Rightarrow> string list \<Rightarrow> string \<Rightarrow> string \<Rightarrow> string \<Rightarrow> policy_rule_snapshot \<Rightarrow> bool"
where
  "rule_matches M subjectId groupIds method host pathname r \<longleftrightarrow>
     rs_enabled r \<and> selectorApplies (rs_selector r) subjectId groupIds \<and>
     (rs_methods r = [] \<or> method \<in> set (rs_methods r)) \<and>
     (rs_hosts r = [] \<or> list_ex (\<lambda>m. matchesPolicyHost M m host = Inr True) (rs_hosts r)) \<and>
     (rs_paths r = [] \<or> list_ex (\<lambda>m. matchesPolicyPath M m pathname = Inr True) (rs_paths r))"

definition boundary_allows ::
  "(policy_rule_snapshot \<Rightarrow> bool) \<Rightarrow> policy_boundary_snapshot \<Rightarrow> bool" where
  "boundary_allows matches b \<longleftrightarrow>
     bs_assignmentAllowed b \<and>
     (if \<exists>r \<in> set (bs_rules b). matches r
      then \<forall>r \<in> set (bs_rules b). matches r \<and> rs_effect r = Deny \<longrightarrow>
             (\<exists>r' \<in> set (bs_rules b). matches r' \<and> rs_priority r < rs_priority r')
      else bs_mode b = Allow)"

section \<open>Library lemmas\<close>

lemma result_some_Inr: "result_some f xs = Inr b \<Longrightarrow> b \<longleftrightarrow> list_ex (\<lambda>x. f x = Inr True) xs"
  by (induction xs) (auto split: sum.splits if_splits)

lemma explainRule_Inr:
  assumes "explainRule M u gs m h p r = Inr x"
  shows "rx_requestMatched x = rule_matches M u gs m h p r" and "rx_ruleId x = rs_id r"
    and "rx_priority x = rs_priority r" and "rx_effect x = rs_effect r" and "\<not> rx_selected x"
  using assms
  by (auto simp: explainRule_def rule_explanation_def rule_matches_def result_bind_Inr
      split: if_splits dest: result_some_Inr)

lemma list_max_ge: "x \<in> set xs \<Longrightarrow> x \<le> list_max xs"
  by (induction xs rule: list_max.induct) auto

lemma list_max_in: "xs \<noteq> [] \<Longrightarrow> list_max xs \<in> set xs"
  by (induction xs rule: list_max.induct) (auto simp: max_def)

text \<open>The rules that decide: the matching ones no matching rule outranks.\<close>

definition top_rule :: "policy_rule_explanation list \<Rightarrow> policy_rule_explanation \<Rightarrow> bool" where
  "top_rule xs x \<longleftrightarrow>
     x \<in> set xs \<and> rx_requestMatched x \<and>
     (\<forall>y \<in> set xs. rx_requestMatched y \<longrightarrow> rx_priority y \<le> rx_priority x)"

lemma top_rule_iff:
  assumes "filter rx_requestMatched xs \<noteq> []"
  shows "x \<in> set xs \<and> rx_requestMatched x \<and>
      rx_priority x = list_max (map rx_priority (filter rx_requestMatched xs)) \<longleftrightarrow> top_rule xs x"
proof -
  let ?ps = "map rx_priority (filter rx_requestMatched xs)"
  have "list_max ?ps \<in> set ?ps" using assms by (intro list_max_in) simp
  then obtain y where "y \<in> set xs" "rx_requestMatched y" "rx_priority y = list_max ?ps" by auto
  moreover have "rx_priority z \<le> list_max ?ps" if "z \<in> set xs" "rx_requestMatched z" for z
    using that by (intro list_max_ge) auto
  ultimately show ?thesis by (force simp: top_rule_def)
qed

lemma decide_boundary_top:
  assumes "filter rx_requestMatched xs \<noteq> []"
  shows "bx_allowed (decide_boundary b xs) \<longleftrightarrow> (\<forall>x. top_rule xs x \<longrightarrow> rx_effect x \<noteq> Deny)"
    and "set (bx_selectedRuleIds (decide_boundary b xs)) = rx_ruleId ` {x. top_rule xs x}"
proof -
  let ?sel = "filter (\<lambda>r. rx_priority r = list_max (map rx_priority (filter rx_requestMatched xs)))
    (filter rx_requestMatched xs)"
  have sel: "set ?sel = {x. top_rule xs x}"
    using top_rule_iff [OF assms] by auto
  have "bx_allowed (decide_boundary b xs) = (filter (\<lambda>r. rx_effect r = Deny) ?sel = [])"
    using assms by (simp add: decide_boundary_def Let_def)
  also have "\<dots> \<longleftrightarrow> (\<forall>x. top_rule xs x \<longrightarrow> rx_effect x \<noteq> Deny)"
    using sel by (auto simp: filter_empty_conv simp del: set_filter filter_filter)
  finally show "bx_allowed (decide_boundary b xs) \<longleftrightarrow>
      (\<forall>x. top_rule xs x \<longrightarrow> rx_effect x \<noteq> Deny)" .
  have "bx_selectedRuleIds (decide_boundary b xs) = js_sort (map rx_ruleId ?sel)"
    using assms by (simp add: decide_boundary_def Let_def)
  then show "set (bx_selectedRuleIds (decide_boundary b xs)) = rx_ruleId ` {x. top_rule xs x}"
    using sel by (simp del: set_filter filter_filter)
qed

lemma decide_boundary_default:
  "filter rx_requestMatched xs = [] \<Longrightarrow>
    bx_allowed (decide_boundary b xs) = (bs_mode b = Allow) \<and>
    bx_decisiveRuleId (decide_boundary b xs) = None \<and>
    bx_rules (decide_boundary b xs) = xs"
  by (simp add: decide_boundary_def)

lemma decide_boundary_allowed:
  assumes "list_all2 (\<lambda>r x. explainRule M u gs m h p r = Inr x) (bs_rules b) xs"
    and "bs_assignmentAllowed b"
  shows "bx_allowed (decide_boundary b xs) =
    boundary_allows (rule_matches M u gs m h p) b"
proof -
  let ?P = "rule_matches M u gs m h p"
  let ?R = "\<lambda>r x. rx_requestMatched x = ?P r \<and> rx_priority x = rs_priority r \<and>
      rx_effect x = rs_effect r"
  have rel: "list_all2 ?R (bs_rules b) xs"
    using assms(1) by (rule list_all2_mono) (intro conjI explainRule_Inr)
  have to: "\<exists>x \<in> set xs. ?R r x" if "r \<in> set (bs_rules b)" for r
    using rel that by (rule list_all2_in1)
  have of': "\<exists>r \<in> set (bs_rules b). ?R r x" if "x \<in> set xs" for x
    using rel that by (rule list_all2_in2)
  show ?thesis
  proof (cases "filter rx_requestMatched xs = []")
    case True
    then have "\<not> (\<exists>r \<in> set (bs_rules b). ?P r)" using to by (fastforce simp: filter_empty_conv)
    with True show ?thesis
      using decide_boundary_default assms(2) by (auto simp: boundary_allows_def)
  next
    case False
    then have ex: "\<exists>r \<in> set (bs_rules b). ?P r" using of' by (fastforce simp: filter_empty_conv)
    have "(\<forall>x. top_rule xs x \<longrightarrow> rx_effect x \<noteq> Deny) \<longleftrightarrow>
        (\<forall>r \<in> set (bs_rules b). ?P r \<and> rs_effect r = Deny \<longrightarrow>
          (\<exists>r' \<in> set (bs_rules b). ?P r' \<and> rs_priority r < rs_priority r'))" (is "?L = ?R")
    proof
      assume L: ?L
      show ?R
      proof (intro ballI impI)
        fix r assume r: "r \<in> set (bs_rules b)" "?P r \<and> rs_effect r = Deny"
        obtain x where x: "x \<in> set xs" "rx_requestMatched x" "rx_priority x = rs_priority r"
          "rx_effect x = Deny" using to [OF r(1)] r(2) by auto
        then have "\<not> top_rule xs x" using L by auto
        then obtain y where "y \<in> set xs" "rx_requestMatched y" "rs_priority r < rx_priority y"
          using x by (auto simp: top_rule_def not_le)
        then show "\<exists>r' \<in> set (bs_rules b). ?P r' \<and> rs_priority r < rs_priority r'"
          using of' [of y] by auto
      qed
    next
      assume R: ?R
      show ?L
      proof (intro allI impI notI)
        fix x assume t: "top_rule xs x" and d: "rx_effect x = Deny"
        then have x: "x \<in> set xs" "rx_requestMatched x" by (simp_all add: top_rule_def)
        obtain r where r: "r \<in> set (bs_rules b)" "?P r" "rs_effect r = Deny"
          "rs_priority r = rx_priority x" using of' [OF x(1)] x(2) d by auto
        then obtain r' where "r' \<in> set (bs_rules b)" "?P r'" "rx_priority x < rs_priority r'"
          using R by fastforce
        then show False using to [of r'] t by (force simp: top_rule_def not_le)
      qed
    qed
    then show ?thesis
      using decide_boundary_top(1) [OF False] ex assms(2) by (simp add: boundary_allows_def)
  qed
qed

lemma evaluateBoundary_Inr:
  assumes "evaluateBoundary M u gs m h p b = Inr x"
  obtains xs where "list_all2 (\<lambda>r x. explainRule M u gs m h p r = Inr x) (bs_rules b) xs"
    and "bs_assignmentAllowed b \<Longrightarrow> x = decide_boundary b xs"
    and "\<not> bs_assignmentAllowed b \<Longrightarrow> \<not> bx_allowed x \<and> bx_decisiveRuleId x = None"
  using assms
  by (auto simp: evaluateBoundary_def result_bind_Inr result_map_Inr split: if_splits)

lemma evaluateBoundary_allowed:
  assumes "evaluateBoundary M u gs m h p b = Inr x"
  shows "bx_allowed x = boundary_allows (rule_matches M u gs m h p) b"
proof (cases "bs_assignmentAllowed b")
  case True
  obtain xs where "list_all2 (\<lambda>r x. explainRule M u gs m h p r = Inr x) (bs_rules b) xs"
    "x = decide_boundary b xs" using evaluateBoundary_Inr [OF assms] True by metis
  then show ?thesis using decide_boundary_allowed True by blast
next
  case False
  then show ?thesis
    using evaluateBoundary_Inr [OF assms] by (auto simp: boundary_allows_def)
qed

lemma rule_matches_groups:
  "set gs = set gs' \<Longrightarrow> rule_matches M u gs m h p = rule_matches M u gs' m h p"
  by (auto simp: rule_matches_def selectorApplies_def list_ex_iff fun_eq_iff
      split: policy_principal_selector.splits)

lemma evaluatePolicySnapshot_Inr:
  assumes "evaluatePolicySnapshot M s = Inr x"
  shows "list_all2 (\<lambda>b y. evaluateBoundary M (es_subjectId s) (js_sort (js_unique (es_groupIds s)))
      (to_upper (es_method s)) (normalizeHost (mp_url M) (es_host s)) (es_pathname s) b = Inr y)
      (es_service s # es_credentials s) (px_boundaries x)"
    and "px_allowed x = list_all bx_allowed (px_boundaries x)"
  using assms
  by (auto simp: evaluatePolicySnapshot_def Let_def result_bind_Inr result_map_Inr
      simp del: list_all2_Cons1 result_map.simps)

text \<open>The verdict of a boundary: everything it says except the list of explanations.\<close>

definition verdict :: "policy_boundary_explanation \<Rightarrow>
    bool \<times> int option \<times> string list \<times> string option \<times> boundary_reason_code" where
  "verdict x = (bx_allowed x, bx_selectedPriority x, bx_selectedRuleIds x, bx_decisiveRuleId x,
     bx_reasonCode x)"

lemma list_max_perm: "set xs = set ys \<Longrightarrow> xs \<noteq> [] \<Longrightarrow> list_max xs = list_max ys"
  by (metis antisym list_max_ge list_max_in set_empty)

lemma js_sort_perm: "mset xs = mset ys \<Longrightarrow> js_sort xs = js_sort ys"
  unfolding js_sort_def by (metis mset_sort properties_for_sort sorted_sort)

definition top_rules :: "policy_rule_explanation list \<Rightarrow> policy_rule_explanation list" where
  "top_rules xs =
     filter (\<lambda>r. rx_priority r = list_max (map rx_priority (filter rx_requestMatched xs)))
       (filter rx_requestMatched xs)"

definition top_denies :: "policy_rule_explanation list \<Rightarrow> policy_rule_explanation list" where
  "top_denies xs = filter (\<lambda>r. rx_effect r = Deny) (top_rules xs)"

lemma decide_boundary_verdict:
  assumes "filter rx_requestMatched xs \<noteq> []"
  shows "verdict (decide_boundary b xs) =
    (top_denies xs = [], Some (list_max (map rx_priority (filter rx_requestMatched xs))),
     js_sort (map rx_ruleId (top_rules xs)),
     Some (hd (js_sort (map rx_ruleId (if top_denies xs = [] then top_rules xs else top_denies xs)))),
     if top_denies xs = [] then Selected_allow
     else if list_ex (\<lambda>r. rx_effect r = Allow) (top_rules xs) then Deny_tie else Selected_deny)"
  using assms
  unfolding decide_boundary_def verdict_def Let_def top_denies_def top_rules_def
  by (simp del: filter_filter)

lemma decide_boundary_perm:
  assumes perm: "mset xs = mset ys"
  shows "verdict (decide_boundary b xs) = verdict (decide_boundary (b\<lparr>bs_rules := rs\<rparr>) ys)"
proof -
  let ?m = "filter rx_requestMatched"
  have m: "mset (?m xs) = mset (?m ys)" using perm by simp
  show ?thesis
  proof (cases "?m xs = []")
    case True
    then have "?m ys = []" using m by (metis mset_zero_iff)
    with True show ?thesis by (simp add: decide_boundary_def verdict_def)
  next
    case False
    then have ne: "?m ys \<noteq> []" using m by (metis mset_zero_iff)
    have mx: "list_max (map rx_priority (?m xs)) = list_max (map rx_priority (?m ys))"
      using mset_eq_setD [OF m] False
      by (intro list_max_perm) (simp_all only: set_map map_is_Nil_conv not_False_eq_True)
    have s: "mset (top_rules xs) = mset (top_rules ys)"
      unfolding top_rules_def mx using m by (metis mset_filter)
    have d: "mset (top_denies xs) = mset (top_denies ys)"
      unfolding top_denies_def using s by (metis mset_filter)
    have "js_sort (map rx_ruleId (top_rules xs)) = js_sort (map rx_ruleId (top_rules ys))"
      "js_sort (map rx_ruleId (top_denies xs)) = js_sort (map rx_ruleId (top_denies ys))"
      using s d by (simp_all add: js_sort_perm)
    moreover have "(top_denies xs = []) = (top_denies ys = [])" using d by (metis mset_zero_iff)
    moreover have "list_ex (\<lambda>r. rx_effect r = Allow) (top_rules xs) =
        list_ex (\<lambda>r. rx_effect r = Allow) (top_rules ys)"
      using mset_eq_setD [OF s] by (metis list_ex_iff)
    ultimately show ?thesis
      using False ne by (simp add: decide_boundary_verdict mx)
  qed
qed

lemma decide_boundary_rules:
  "filter rx_requestMatched xs \<noteq> [] \<Longrightarrow>
    bx_rules (decide_boundary b xs) = map (mark_rule (bx_selectedRuleIds (decide_boundary b xs))) xs"
  by (simp add: decide_boundary_def Let_def)

lemma mark_rule_simps [simp]:
  "rx_ruleId (mark_rule ids x) = rx_ruleId x"
  "rx_requestMatched (mark_rule ids x) = rx_requestMatched x"
  by (simp_all add: mark_rule_def)

lemma decide_boundary_selected:
  assumes "distinct (map rx_ruleId xs)" and "i < length xs" and "\<not> rx_selected (xs ! i)"
  shows "rx_selected (bx_rules (decide_boundary b xs) ! i) \<longleftrightarrow> top_rule xs (xs ! i)"
proof (cases "filter rx_requestMatched xs = []")
  case True
  then show ?thesis
    using assms by (auto simp: decide_boundary_default top_rule_def filter_empty_conv)
next
  case False
  have "rx_ruleId (xs ! i) \<in> rx_ruleId ` {x. top_rule xs x} \<longleftrightarrow> top_rule xs (xs ! i)"
  proof
    assume "rx_ruleId (xs ! i) \<in> rx_ruleId ` {x. top_rule xs x}"
    then obtain x where x: "top_rule xs x" "rx_ruleId x = rx_ruleId (xs ! i)" by auto
    then obtain j where j: "j < length xs" "x = xs ! j" by (auto simp: top_rule_def in_set_conv_nth)
    then have "map rx_ruleId xs ! j = map rx_ruleId xs ! i" using assms(2) x(2) by simp
    then have "j = i" using assms(1,2) j(1) by (simp only: nth_eq_iff_index_eq length_map)
    then show "top_rule xs (xs ! i)" using x j by simp
  qed auto
  then show ?thesis
    using False assms(2,3) decide_boundary_top(2) [OF False, of b]
    by (auto simp: decide_boundary_rules mark_rule_def top_rule_def)
qed

lemma decide_boundary_decisive:
  assumes "bx_decisiveRuleId (decide_boundary b xs) = Some i"
  shows "\<exists>x. top_rule xs x \<and> rx_ruleId x = i \<and>
    rx_effect x = (if bx_allowed (decide_boundary b xs) then Allow else Deny)"
proof -
  let ?sel = "filter (\<lambda>r. rx_priority r = list_max (map rx_priority (filter rx_requestMatched xs)))
    (filter rx_requestMatched xs)"
  let ?d = "filter (\<lambda>r. rx_effect r = Deny) ?sel"
  let ?c = "if ?d = [] then ?sel else ?d"
  have ne: "filter rx_requestMatched xs \<noteq> []"
    using assms decide_boundary_default [of xs b] by auto
  have sel: "set ?sel = {x. top_rule xs x}" using top_rule_iff [OF ne] by auto
  have "list_max (map rx_priority (filter rx_requestMatched xs))
      \<in> set (map rx_priority (filter rx_requestMatched xs))"
    using ne by (intro list_max_in) simp
  then have "?sel \<noteq> []" by (force simp: filter_empty_conv)
  then have c: "js_sort (map rx_ruleId ?c) \<noteq> []" by simp
  have al: "bx_allowed (decide_boundary b xs) = (?d = [])"
    and i: "i = hd (js_sort (map rx_ruleId ?c))"
    using assms ne by (simp_all add: decide_boundary_def Let_def del: filter_filter)
  have "i \<in> set (js_sort (map rx_ruleId ?c))" unfolding i using c by (rule hd_in_set)
  then obtain x where x: "x \<in> set ?c" "rx_ruleId x = i" by auto
  then have "x \<in> set ?sel" by (auto split: if_splits)
  then have "top_rule xs x" using sel by blast
  moreover have "rx_effect x = (if ?d = [] then Allow else Deny)"
  proof (cases "?d = []")
    case True
    then have "rx_effect x \<noteq> Deny" using \<open>x \<in> set ?sel\<close> by (auto simp: filter_empty_conv)
    then show ?thesis using True by (cases "rx_effect x") simp_all
  next
    case False
    then show ?thesis using x by auto
  qed
  ultimately show ?thesis using x(2) al by auto
qed

section \<open>Properties\<close>

text \<open>
  C7: The evaluator implements the policy rule: a request is allowed exactly when the service and
  every credential it uses let it through, and a boundary lets it through exactly when it is
  assigned to the subject and either no rule matches and its mode is allow, or some rule matches
  and every matching denial is outranked by a matching rule of a higher priority. A denial wins a
  tie.
\<close>

theorem evaluatePolicySnapshot_refines:
  assumes "evaluatePolicySnapshot M s = Inr x"
  shows "px_allowed x =
    list_all
      (boundary_allows
        (rule_matches M (es_subjectId s) (es_groupIds s) (to_upper (es_method s))
          (normalizeHost (mp_url M) (es_host s)) (es_pathname s)))
      (es_service s # es_credentials s)"
proof -
  let ?P = "rule_matches M (es_subjectId s) (es_groupIds s) (to_upper (es_method s))
    (normalizeHost (mp_url M) (es_host s)) (es_pathname s)"
  have P: "rule_matches M (es_subjectId s) (js_sort (js_unique (es_groupIds s)))
      (to_upper (es_method s)) (normalizeHost (mp_url M) (es_host s)) (es_pathname s) = ?P"
    by (rule rule_matches_groups) simp
  have "list_all2 (\<lambda>b y. bx_allowed y = boundary_allows ?P b)
      (es_service s # es_credentials s) (px_boundaries x)"
    using evaluatePolicySnapshot_Inr(1) [OF assms]
    by (rule list_all2_mono) (simp only: evaluateBoundary_allowed P)
  then have "list_all bx_allowed (px_boundaries x) =
      list_all (boundary_allows ?P) (es_service s # es_credentials s)"
    by (induction rule: list_all2_induct) simp_all
  then show ?thesis using evaluatePolicySnapshot_Inr(2) [OF assms] by simp
qed

text \<open>A platform for the witnesses: host names are taken as they are, the expression \<open>^(\<close> is
  rejected by the engine and every other expression matches everything.\<close>

definition sample_matchers :: matcher_platform where
  "sample_matchers =
     \<lparr>mp_url = sample_platform, mp_regex_u = (\<lambda>r. if r = ''^('' then None else Some (\<lambda>_. True)),
      mp_locale_le = (\<lambda>a b. a \<le> b)\<rparr>"

definition sample_rule :: "string \<Rightarrow> policy_effect \<Rightarrow> int \<Rightarrow> policy_rule_snapshot" where
  "sample_rule i e p =
     \<lparr>rs_id = i, rs_effect = e, rs_priority = p, rs_enabled = True, rs_methods = [''GET''],
      rs_hosts = [\<lparr>mt_kind = ''suffix'', mt_value = ''b''\<rparr>],
      rs_paths = [\<lparr>mt_kind = ''prefix'', mt_value = ''/x''\<rparr>], rs_selector = Sel_groups [''g''],
      rs_reason = None\<rparr>"

definition sample_boundary :: policy_boundary_snapshot where
  "sample_boundary =
     \<lparr>bs_id = ''s'', bs_kind = Service_boundary, bs_mode = Deny, bs_assignmentAllowed = True,
      bs_rules = [sample_rule ''low'' Deny 1, sample_rule ''high'' Allow 2]\<rparr>"

definition sample_snapshot :: policy_evaluation_snapshot where
  "sample_snapshot =
     \<lparr>es_subjectId = ''u'', es_groupIds = [''g'', ''g''], es_method = ''get'', es_host = ''a.B.'',
      es_pathname = ''/x/y'', es_service = sample_boundary, es_credentials = []\<rparr>"

theorem evaluatePolicySnapshot_refines_witness:
  "result_map_value px_allowed (evaluatePolicySnapshot sample_matchers sample_snapshot) = Inr True \<and>
   list_all (boundary_allows (rule_matches sample_matchers ''u'' [''g'', ''g''] ''GET'' ''a.b'' ''/x/y''))
     [sample_boundary]"
proof -
  have a: "result_map_value px_allowed (evaluatePolicySnapshot sample_matchers sample_snapshot) = Inr True"
    by code_simp
  then obtain x where x: "evaluatePolicySnapshot sample_matchers sample_snapshot = Inr x"
    "px_allowed x" by (auto simp: result_map_value_Inr)
  have "to_upper ''get'' = ''GET''" "normalizeHost (mp_url sample_matchers) ''a.B.'' = ''a.b''"
    by code_simp+
  then show ?thesis
    using a x evaluatePolicySnapshot_refines [OF x(1)] by (simp add: sample_snapshot_def)
qed

text \<open>
  The order in which the rules of a boundary are stored decides nothing: for any
  permutation of the rules the verdict, the selected priority, the selected rules, the decisive
  rule and the reason are the same.
\<close>

theorem evaluateBoundary_permutation:
  assumes "evaluateBoundary M u gs m h p b = Inr x" and "mset rules = mset (bs_rules b)"
  shows "\<exists>y. evaluateBoundary M u gs m h p (b\<lparr>bs_rules := rules\<rparr>) = Inr y \<and> verdict y = verdict x"
proof -
  let ?f = "explainRule M u gs m h p" and ?b = "b\<lparr>bs_rules := rules\<rparr>"
  obtain xs where xs: "result_map ?f (bs_rules b) = Inr xs"
    using assms(1) by (auto simp: evaluateBoundary_def result_bind_Inr)
  then have all: "\<forall>r \<in> set (bs_rules b). \<exists>y. ?f r = Inr y" and xs': "xs = map (\<lambda>r. projr (?f r)) (bs_rules b)"
    by (simp_all add: result_map_Inr_map)
  let ?ys = "map (\<lambda>r. projr (?f r)) rules"
  have ys: "result_map ?f rules = Inr ?ys"
    using all mset_eq_setD [OF assms(2)] by (simp add: result_map_Inr_map)
  have "mset xs = mset ?ys" using assms(2) by (simp add: xs')
  then have "verdict (decide_boundary ?b ?ys) = verdict (decide_boundary b xs)"
    using decide_boundary_perm by metis
  then show ?thesis
    using assms(1) xs ys by (auto simp: evaluateBoundary_def verdict_def split: if_splits)
qed

theorem evaluateBoundary_permutation_witness:
  "\<exists>y. evaluateBoundary sample_matchers ''u'' [''g''] ''GET'' ''a.b'' ''/x/y''
        (sample_boundary\<lparr>bs_rules := [sample_rule ''high'' Allow 2, sample_rule ''low'' Deny 1]\<rparr>) = Inr y \<and>
      bx_decisiveRuleId y = Some ''high''"
proof -
  have "result_map_value bx_decisiveRuleId
      (evaluateBoundary sample_matchers ''u'' [''g''] ''GET'' ''a.b'' ''/x/y'' sample_boundary) =
    Inr (Some ''high'')" by code_simp
  then obtain x where x: "evaluateBoundary sample_matchers ''u'' [''g''] ''GET'' ''a.b'' ''/x/y''
      sample_boundary = Inr x" "bx_decisiveRuleId x = Some ''high''"
    by (auto simp: result_map_value_Inr)
  have "mset [sample_rule ''high'' Allow 2, sample_rule ''low'' Deny 1] = mset (bs_rules sample_boundary)"
    by (simp add: sample_boundary_def)
  from evaluateBoundary_permutation [OF x(1) this] x(2) show ?thesis by (auto simp: verdict_def)
qed

text \<open>
  The explanation is truthful: for a boundary whose rules have different identifiers and which
  is assigned to the subject, there is one explanation per rule, in order, and it says
  \<open>selected\<close> for exactly the matching rules that no matching rule outranks.
\<close>

theorem evaluateBoundary_explains:
  assumes "evaluateBoundary M u gs m h p b = Inr x" and "bs_assignmentAllowed b"
    and "distinct (map rs_id (bs_rules b))"
  shows "map rx_ruleId (bx_rules x) = map rs_id (bs_rules b) \<and>
    map rx_requestMatched (bx_rules x) = map (rule_matches M u gs m h p) (bs_rules b) \<and>
    map rx_selected (bx_rules x) =
      map (\<lambda>r. rule_matches M u gs m h p r \<and>
             (\<forall>r' \<in> set (bs_rules b). rule_matches M u gs m h p r' \<longrightarrow> rs_priority r' \<le> rs_priority r))
        (bs_rules b)"
proof -
  let ?P = "rule_matches M u gs m h p"
  obtain xs where all2: "list_all2 (\<lambda>r x. explainRule M u gs m h p r = Inr x) (bs_rules b) xs"
    and x: "x = decide_boundary b xs"
    using evaluateBoundary_Inr [OF assms(1)] assms(2) by metis
  have len: "length xs = length (bs_rules b)" using list_all2_lengthD [OF all2] by simp
  have nth: "rx_requestMatched (xs ! i) = ?P (bs_rules b ! i)" "rx_ruleId (xs ! i) = rs_id (bs_rules b ! i)"
    "rx_priority (xs ! i) = rs_priority (bs_rules b ! i)" "\<not> rx_selected (xs ! i)"
    if "i < length (bs_rules b)" for i
    by (rule explainRule_Inr [OF list_all2_nthD [OF all2 that]])+
  have ids: "map rx_ruleId xs = map rs_id (bs_rules b)"
    using len nth(2) by (simp add: list_eq_iff_nth_eq)
  have rules: "map rx_ruleId (bx_rules x) = map rx_ruleId xs \<and>
      map rx_requestMatched (bx_rules x) = map rx_requestMatched xs"
  proof (cases "filter rx_requestMatched xs = []")
    case True
    then show ?thesis by (simp add: x decide_boundary_default)
  next
    case False
    then show ?thesis by (simp add: x decide_boundary_rules o_def)
  qed
  have "length (map rx_ruleId (bx_rules x)) = length (map rx_ruleId xs)" using rules by (simp only:)
  then have lenx: "length (bx_rules x) = length xs" by simp
  have matched: "map rx_requestMatched xs = map ?P (bs_rules b)"
    using len nth(1) by (simp add: list_eq_iff_nth_eq)
  have "rx_selected (bx_rules x ! i) \<longleftrightarrow> ?P (bs_rules b ! i) \<and>
      (\<forall>r' \<in> set (bs_rules b). ?P r' \<longrightarrow> rs_priority r' \<le> rs_priority (bs_rules b ! i))"
    if i: "i < length (bs_rules b)" for i
  proof -
    have "rx_selected (bx_rules x ! i) \<longleftrightarrow> top_rule xs (xs ! i)"
      using decide_boundary_selected [of xs i b] nth(4) [OF i] i assms(3) len by (simp add: x ids)
    also have "\<dots> \<longleftrightarrow> ?P (bs_rules b ! i) \<and>
        (\<forall>j < length (bs_rules b). ?P (bs_rules b ! j) \<longrightarrow>
          rs_priority (bs_rules b ! j) \<le> rs_priority (bs_rules b ! i))"
      using i nth(1,3) len by (simp add: top_rule_def all_set_conv_all_nth)
    finally show ?thesis by (simp add: all_set_conv_all_nth)
  qed
  then have "map rx_selected (bx_rules x) =
      map (\<lambda>r. ?P r \<and> (\<forall>r' \<in> set (bs_rules b). ?P r' \<longrightarrow> rs_priority r' \<le> rs_priority r)) (bs_rules b)"
    using lenx len by (intro nth_equalityI) simp_all
  then show ?thesis using rules matched ids by simp
qed

theorem evaluateBoundary_explains_witness:
  "\<exists>x. evaluateBoundary sample_matchers ''u'' [''g''] ''GET'' ''a.b'' ''/x/y'' sample_boundary = Inr x \<and>
     map rx_ruleId (bx_rules x) = [''low'', ''high'']"
proof -
  have "result_map_value bx_allowed
      (evaluateBoundary sample_matchers ''u'' [''g''] ''GET'' ''a.b'' ''/x/y'' sample_boundary) = Inr True"
    by code_simp
  then obtain x where x: "evaluateBoundary sample_matchers ''u'' [''g''] ''GET'' ''a.b'' ''/x/y''
      sample_boundary = Inr x" by (auto simp: result_map_value_Inr)
  from evaluateBoundary_explains [OF x] x show ?thesis
    by (simp add: sample_boundary_def sample_rule_def)
qed

text \<open>
  For a service of the configuration file the decision is that of the policy rule, and a
  decision that names a rule names one of the service's rules whose effect is the decision when
  the identifiers are different; a refusal, and only a refusal, comes with a suggestion.
\<close>

theorem evaluatePolicy_decision:
  assumes "evaluatePolicy M service target method = Inr d"
    and "distinct (map pr_id (pc_rules (sc_policy service)))"
  shows "pd_allowed d = boundary_allows
      (rule_matches M ''yaml-runtime-subject'' [] (to_upper method)
        (normalizeHost (mp_url M) (url_hostname (rt_url target))) (rt_methodPath target))
      (es_service (legacy_snapshot service target method)) \<and>
    (case pd_matchedRule d of
       None \<Rightarrow> pd_allowed d = (pc_mode (sc_policy service) = Allow)
     | Some i \<Rightarrow> \<exists>rule \<in> set (pc_rules (sc_policy service)).
         pr_id rule = i \<and> pr_effect rule = (if pd_allowed d then Allow else Deny)) \<and>
    (pd_suggestion d = None) = pd_allowed d"
proof -
  let ?s = "legacy_snapshot service target method"
  let ?P = "rule_matches M ''yaml-runtime-subject'' [] (to_upper method)
    (normalizeHost (mp_url M) (url_hostname (rt_url target))) (rt_methodPath target)"
  let ?rules = "pc_rules (sc_policy service)"
  obtain x where x: "evaluatePolicySnapshot M ?s = Inr x"
    and d: "d = legacy_decision service (hd (px_boundaries x))"
    using assms(1) by (auto simp: evaluatePolicy_def result_bind_Inr)
  have sort: "js_sort (js_unique []) = []" by simp
  obtain y where y: "px_boundaries x = [y]"
    and ev: "evaluateBoundary M ''yaml-runtime-subject'' [] (to_upper method)
      (normalizeHost (mp_url M) (url_hostname (rt_url target))) (rt_methodPath target)
      (es_service ?s) = Inr y"
    using evaluatePolicySnapshot_Inr(1) [OF x] by (auto simp: legacy_snapshot_def list_all2_Cons1)
  have asg: "bs_assignmentAllowed (es_service ?s)"
    and rs: "bs_rules (es_service ?s) = map legacyRuleSnapshot ?rules"
    and mode: "bs_mode (es_service ?s) = pc_mode (sc_policy service)"
    by (simp_all add: legacy_snapshot_def)
  obtain xs where all2: "list_all2 (\<lambda>r x. explainRule M ''yaml-runtime-subject'' [] (to_upper method)
      (normalizeHost (mp_url M) (url_hostname (rt_url target))) (rt_methodPath target) r = Inr x)
      (bs_rules (es_service ?s)) xs" and yd: "y = decide_boundary (es_service ?s) xs"
    using evaluateBoundary_Inr [OF ev] asg by metis
  have al: "pd_allowed d = bx_allowed y"
    by (simp add: d y legacy_decision_def Let_def split: option.split)
  have none: "bx_allowed y = (pc_mode (sc_policy service) = Allow)" if "bx_decisiveRuleId y = None"
    using that yd mode decide_boundary_default [of xs "es_service ?s"]
    by (cases "filter rx_requestMatched xs = []") (auto simp: decide_boundary_def Let_def)
  have some: "\<exists>rule \<in> set ?rules. find (\<lambda>r. pr_id r = i) ?rules = Some rule \<and> pr_id rule = i \<and>
      pr_effect rule = (if bx_allowed y then Allow else Deny)" if dec: "bx_decisiveRuleId y = Some i" for i
  proof -
    obtain z where z: "z \<in> set xs" "rx_ruleId z = i" "rx_effect z = (if bx_allowed y then Allow else Deny)"
      using decide_boundary_decisive [OF dec [unfolded yd]] unfolding yd top_rule_def by blast
    obtain r where r: "r \<in> set (bs_rules (es_service ?s))"
      and ex: "explainRule M ''yaml-runtime-subject'' [] (to_upper method)
        (normalizeHost (mp_url M) (url_hostname (rt_url target))) (rt_methodPath target) r = Inr z"
      using list_all2_in2 [OF all2 z(1)] by blast
    have "rx_ruleId z = rs_id r" "rx_effect z = rs_effect r"
      using explainRule_Inr(2,4) [OF ex] .
    with r obtain rule where "rule \<in> set ?rules" "pr_id rule = i"
      "pr_effect rule = (if bx_allowed y then Allow else Deny)"
      using z by (auto simp: rs legacyRuleSnapshot_def)
    then show ?thesis using find_unique [OF assms(2), of rule] by auto
  qed
  have verdict: "pd_allowed d = boundary_allows ?P (es_service ?s)"
    unfolding al by (rule evaluateBoundary_allowed [OF ev])
  have suggestion: "(pd_suggestion d = None) = pd_allowed d"
    by (simp add: d y legacy_decision_def Let_def denial_suggestion_def split: option.split)
  have rule: "case pd_matchedRule d of
       None \<Rightarrow> pd_allowed d = (pc_mode (sc_policy service) = Allow)
     | Some i \<Rightarrow> \<exists>rule \<in> set ?rules.
         pr_id rule = i \<and> pr_effect rule = (if pd_allowed d then Allow else Deny)"
  proof (cases "bx_decisiveRuleId y")
    case None
    then have "pd_matchedRule d = None" by (simp add: d y legacy_decision_def Let_def)
    then show ?thesis using none [OF None] al by simp
  next
    case (Some i)
    obtain rule where "rule \<in> set ?rules" "find (\<lambda>r. pr_id r = i) ?rules = Some rule" "pr_id rule = i"
      "pr_effect rule = (if bx_allowed y then Allow else Deny)" using some [OF Some] by blast
    moreover from this have "pd_matchedRule d = Some i"
      using Some by (simp add: d y legacy_decision_def Let_def)
    ultimately show ?thesis using al by auto
  qed
  show ?thesis using verdict suggestion rule by blast
qed

definition sample_target :: resolved_target where
  "sample_target =
     \<lparr>rt_destination = sample_destination,
      rt_url = \<lparr>url_protocol = ''https:'', url_hostname = ''h'', url_port = [],
                url_pathname = ''/api/a'', url_rest = []\<rparr>,
      rt_methodPath = ''/api/a'', rt_tls = \<lparr>tls_verify = True\<rparr>\<rparr>"

definition sample_rule_config :: "string \<Rightarrow> policy_rule_config" where
  "sample_rule_config path =
     \<lparr>pr_id = ''r'', pr_effect = Allow, pr_priority = 1, pr_methods = [], pr_hosts = [],
      pr_paths = [path], pr_reason = None, pr_secretlint = None,
      pr_binaryResponse = \<lparr>br_scan = True, br_maxBytes = None\<rparr>\<rparr>"

theorem evaluatePolicy_decision_witness:
  "\<exists>d. evaluatePolicy sample_matchers
      (sample_service\<lparr>sc_policy := \<lparr>pc_mode = Deny, pc_rules = [sample_rule_config ''^x$'']\<rparr>\<rparr>)
      sample_target ''get'' = Inr d \<and> pd_suggestion d = None"
proof -
  let ?s = "sample_service\<lparr>sc_policy := \<lparr>pc_mode = Deny, pc_rules = [sample_rule_config ''^x$'']\<rparr>\<rparr>"
  have "result_map_value pd_allowed (evaluatePolicy sample_matchers ?s sample_target ''get'') = Inr True"
    by code_simp
  then obtain d where d: "evaluatePolicy sample_matchers ?s sample_target ''get'' = Inr d" "pd_allowed d"
    by (auto simp: result_map_value_Inr)
  have "(pd_suggestion d = None) = pd_allowed d"
    using evaluatePolicy_decision [OF d(1)] by simp
  then show ?thesis using d by blast
qed

text \<open>
  A path expression that the engine accepts without the flag \<open>u\<close>, as the configuration loader
  tests it, but not with it, as the evaluator compiles it, breaks its service: a rule without
  method and host conditions whose first path expression is such makes every evaluation of the
  service throw instead of giving a decision.
\<close>

theorem evaluatePolicy_bad_regex:
  assumes "rule \<in> set (pc_rules (sc_policy service))" and "pr_methods rule = []"
    and "pr_hosts rule = []" and "pr_paths rule = path # paths" and "mp_regex_u M path = None"
  shows "\<exists>e. evaluatePolicy M service target method = Inl e"
proof -
  let ?s = "legacy_snapshot service target method"
  let ?f = "explainRule M (es_subjectId ?s) (js_sort (js_unique (es_groupIds ?s)))
    (to_upper (es_method ?s)) (normalizeHost (mp_url M) (es_host ?s)) (es_pathname ?s)"
  have "?f (legacyRuleSnapshot rule) = Inl Regex_syntax_error"
    using assms(2-5)
    by (simp add: explainRule_def legacyRuleSnapshot_def selectorApplies_def matchesPolicyPath_def
        regex_u_test_def)
  moreover have "legacyRuleSnapshot rule \<in> set (bs_rules (es_service ?s))"
    using assms(1) by (simp add: legacy_snapshot_def)
  ultimately have "\<not> (\<forall>r \<in> set (bs_rules (es_service ?s)). \<exists>y. ?f r = Inr y)" by fastforce
  then have "\<nexists>ys. result_map ?f (bs_rules (es_service ?s)) = Inr ys"
    by (simp only: result_map_Inr_map) simp
  then have "\<nexists>x. evaluatePolicySnapshot M ?s = Inr x"
    by (auto dest!: evaluatePolicySnapshot_Inr(1)
        simp: list_all2_Cons1 evaluateBoundary_def result_bind_Inr)
  then show ?thesis
    by (cases "evaluatePolicySnapshot M ?s") (simp_all add: evaluatePolicy_def)
qed

theorem evaluatePolicy_bad_regex_witness:
  "\<exists>e. evaluatePolicy sample_matchers
      (sample_service\<lparr>sc_policy := \<lparr>pc_mode = Allow, pc_rules = [sample_rule_config ''^('']\<rparr>\<rparr>)
      sample_target ''GET'' = Inl e"
  by (rule evaluatePolicy_bad_regex [where rule = "sample_rule_config ''^(''" and path = "''^(''"
        and paths = "[]"]) (simp_all add: sample_rule_config_def sample_matchers_def)

end
