(* ===== verification/UuidV7.thy ===== *)
theory UuidV7
  imports JsStrings
begin

text \<open>
  \<^verbatim>\<open>src/persistence/uuidV7.ts\<close>: the generator of time-ordered identifiers. The clock reading and
  the ten random bytes a call may draw are arguments of \<open>uuid_next\<close>; the sequence is a
  nonnegative integer below 2 to the 74 and the masks of the code are written as remainders.
\<close>

record uuid_generator =
  ug_lastTimestamp :: int
  ug_sequence :: nat

datatype uuid_error = Time_source_out_of_range | Uuid_space_exhausted | Random_wrong_length

definition max_timestamp :: int where
  "max_timestamp = 0xFFFFFFFFFFFF"

definition new_uuid_generator :: uuid_generator where
  "new_uuid_generator = \<lparr>ug_lastTimestamp = -1, ug_sequence = 0\<rparr>"

text \<open>The ten bytes, each below 256, read as a big-endian number, of which 74 bits are kept.\<close>

definition random74 :: "nat list \<Rightarrow> uuid_error + nat" where
  "random74 bytes =
     (if length bytes \<noteq> 10 then Inl Random_wrong_length
      else Inr (foldl (\<lambda>v byte. v * 256 + byte) 0 bytes mod 2 ^ 74))"

fun be_bytes :: "nat \<Rightarrow> nat \<Rightarrow> nat list" where
  "be_bytes 0 n = []"
| "be_bytes (Suc k) n = be_bytes k (n div 256) @ [n mod 256]"

definition hex_bytes :: "nat list \<Rightarrow> string" where
  "hex_bytes bytes = concat (map (\<lambda>b. [hex_digit (b div 16), hex_digit (b mod 16)]) bytes)"

definition uuid_bytes :: "nat \<Rightarrow> nat \<Rightarrow> nat list" where
  "uuid_bytes timestamp sequ =
     (let randA = sequ div 2 ^ 62 mod 2 ^ 12;
          randB = sequ mod 2 ^ 62
      in be_bytes 6 timestamp @
         [0x70 + randA div 256, randA mod 256, 0x80 + randB div 2 ^ 56 mod 2 ^ 6] @
         be_bytes 7 randB)"

definition formatUuid :: "nat \<Rightarrow> nat \<Rightarrow> string" where
  "formatUuid timestamp sequ =
     (let hex = hex_bytes (uuid_bytes timestamp sequ)
      in js_slice hex 0 8 @ ''-'' @ js_slice hex 8 12 @ ''-'' @ js_slice hex 12 16 @ ''-'' @
         js_slice hex 16 20 @ ''-'' @ drop 20 hex)"

definition uuid_next ::
  "uuid_generator \<Rightarrow> int \<Rightarrow> nat list \<Rightarrow> uuid_generator \<times> (uuid_error + string)" where
  "uuid_next g now random =
     (if now > 9007199254740991 \<or> now < 0 \<or> now > max_timestamp
      then (g, Inl Time_source_out_of_range)
      else if now > ug_lastTimestamp g
      then (case random74 random of
              Inl e \<Rightarrow> (g, Inl e)
            | Inr r \<Rightarrow> (\<lparr>ug_lastTimestamp = now, ug_sequence = r\<rparr>, Inr (formatUuid (nat now) r)))
      else
        (let timestamp = ug_lastTimestamp g;
             sequ = (ug_sequence g + 1) mod 2 ^ 74
         in if sequ = 0
            then (if timestamp + 1 > max_timestamp
                  then (g\<lparr>ug_sequence := sequ\<rparr>, Inl Uuid_space_exhausted)
                  else case random74 random of
                    Inl e \<Rightarrow> (g\<lparr>ug_sequence := sequ\<rparr>, Inl e)
                  | Inr r \<Rightarrow> (\<lparr>ug_lastTimestamp = timestamp + 1, ug_sequence = r\<rparr>,
                             Inr (formatUuid (nat (timestamp + 1)) r)))
            else (\<lparr>ug_lastTimestamp = timestamp, ug_sequence = sequ\<rparr>,
                  Inr (formatUuid (nat timestamp) sequ))))"

definition is_lower_hex :: "char \<Rightarrow> bool" where
  "is_lower_hex c \<longleftrightarrow> is_digit c \<or> in_range CHR ''a'' CHR ''f'' c"

text \<open>\<^verbatim>\<open>/^[0-9a-f]{8}-[0-9a-f]{4}-7[0-9a-f]{3}-[89ab][0-9a-f]{3}-[0-9a-f]{12}$/\<close>\<close>

definition isUuidV7 :: "string \<Rightarrow> bool" where
  "isUuidV7 v =
     (case js_split CHR ''-'' v of
        [a, b, c, d, e] \<Rightarrow>
          length a = 8 \<and> list_all is_lower_hex a \<and> length b = 4 \<and> list_all is_lower_hex b \<and>
          length c = 4 \<and> hd c = CHR ''7'' \<and> list_all is_lower_hex c \<and>
          length d = 4 \<and> hd d \<in> {CHR ''8'', CHR ''9'', CHR ''a'', CHR ''b''} \<and> list_all is_lower_hex d \<and>
          length e = 12 \<and> list_all is_lower_hex e
      | _ \<Rightarrow> False)"

section \<open>Library lemmas\<close>

text \<open>\<open>k\<close> hexadecimal digits of a number.\<close>

fun hexn :: "nat \<Rightarrow> nat \<Rightarrow> string" where
  "hexn 0 n = []"
| "hexn (Suc k) n = hexn k (n div 16) @ [hex_digit (n mod 16)]"

lemma length_hexn [simp]: "length (hexn k n) = k"
  by (induction k arbitrary: n) simp_all

lemma hex_bytes_append [simp]: "hex_bytes (xs @ ys) = hex_bytes xs @ hex_bytes ys"
  by (simp add: hex_bytes_def)

lemma hex_bytes_be: "hex_bytes (be_bytes k n) = hexn (2 * k) n"
proof (induction k arbitrary: n)
  case (Suc k)
  have "n div 256 = n div 16 div 16" by (simp add: div_mult2_eq [symmetric])
  moreover have "n mod 256 div 16 = n div 16 mod 16"
    using mod_mult2_eq [of n 16 16] by simp
  moreover have "n mod 256 mod 16 = n mod 16" by (simp add: mod_mod_cancel)
  ultimately show ?case using Suc by (simp add: hex_bytes_def)
qed (simp add: hex_bytes_def)

lemma hex_digit_code: "n < 16 \<Longrightarrow> char_code (hex_digit n) = (if n < 10 then n + 48 else n + 87)"
  by (simp add: hex_digit_def char_code_char_of)

lemma hex_digit_lower_hex: "n < 16 \<Longrightarrow> is_lower_hex (hex_digit n)"
proof -
  have "char_code CHR ''0'' = 48" "char_code CHR ''9'' = 57" "char_code CHR ''a'' = 97"
    "char_code CHR ''f'' = 102" by (simp_all add: char_code_def)
  then show "n < 16 \<Longrightarrow> is_lower_hex (hex_digit n)"
    by (simp add: is_lower_hex_def is_digit_def in_range_def hex_digit_code)
qed

lemma char_less_code: "c < d \<longleftrightarrow> char_code c < char_code d"
  by (simp add: less_char_def char_code_def)

lemma hex_digit_mono: "m < n \<Longrightarrow> n < 16 \<Longrightarrow> hex_digit m < hex_digit n"
  by (simp add: char_less_code hex_digit_code)

lemma less_append: "length xs = length ys \<Longrightarrow> xs < ys \<Longrightarrow> xs @ us < ys @ vs"
  for xs :: string
  by (induction xs ys rule: list_induct2) auto

lemma less_append_same: "xs @ us < xs @ vs \<longleftrightarrow> us < vs"
  for xs :: string
  by (induction xs) auto

lemma hexn_mono: "m < n \<Longrightarrow> n < 16 ^ k \<Longrightarrow> hexn k m < hexn k n"
proof (induction k arbitrary: m n)
  case (Suc k)
  show ?case
  proof (cases "m div 16 = n div 16")
    case True
    then have "m mod 16 < n mod 16"
      using Suc.prems(1) by (metis add_less_cancel_left mult_div_mod_eq)
    then show ?thesis using True by (simp add: less_append_same hex_digit_mono)
  next
    case False
    then have "m div 16 < n div 16" using Suc.prems(1) by (simp add: div_le_mono le_neq_implies_less)
    moreover have "n div 16 < 16 ^ k" using Suc.prems(2) by (simp add: less_mult_imp_div_less mult.commute)
    ultimately show ?thesis using Suc.IH by (simp add: less_append)
  qed
qed simp

lemma hexn_mod: "hexn k (n mod 16 ^ k) = hexn k n"
proof (induction k arbitrary: n)
  case (Suc k)
  have "n mod 16 ^ Suc k div 16 = n div 16 mod 16 ^ k"
    using mod_mult2_eq [of n 16 "16 ^ k"] by simp
  moreover have "n mod 16 ^ Suc k mod 16 = n mod 16" by (simp add: mod_mod_cancel)
  ultimately show ?case using Suc by simp
qed simp

lemma hexn_lower_hex: "list_all is_lower_hex (hexn k n)"
  by (induction k arbitrary: n) (simp_all add: hex_digit_lower_hex)

lemma lower_hex_no_dash: "list_all is_lower_hex s \<Longrightarrow> CHR ''-'' \<notin> set s"
  by (auto simp: list_all_iff is_lower_hex_def is_digit_def in_range_def char_code_def)

lemma hexn_append: "y < 16 ^ k \<Longrightarrow> hexn j x @ hexn k y = hexn (j + k) (x * 16 ^ k + y)"
proof (induction k arbitrary: y)
  case (Suc k)
  have e: "x * 16 ^ Suc k + y = 16 * (x * 16 ^ k) + y" by simp
  have "(x * 16 ^ Suc k + y) div 16 = x * 16 ^ k + y div 16"
    "(x * 16 ^ Suc k + y) mod 16 = y mod 16" unfolding e by simp_all
  moreover have "y div 16 < 16 ^ k" using Suc.prems by (simp add: less_mult_imp_div_less mult.commute)
  ultimately show ?case using Suc.IH [of "y div 16"] by simp
qed simp

text \<open>An identifier without its dashes is one number of 128 bits in hexadecimal.\<close>

definition uuid_number :: "nat \<Rightarrow> nat \<Rightarrow> nat" where
  "uuid_number ts sq =
     ts * 2 ^ 80 + (0x7000 + sq div 2 ^ 62 mod 2 ^ 12) * 2 ^ 64 + (2 ^ 63 + sq mod 2 ^ 62)"

lemma hexn_two: "b < 256 \<Longrightarrow> hexn 2 b = [hex_digit (b div 16), hex_digit (b mod 16)]"
  by (simp add: numeral_2_eq_2)

lemma hex_bytes_three:
  "a < 256 \<Longrightarrow> b < 256 \<Longrightarrow> c < 256 \<Longrightarrow> hex_bytes [a, b, c] = hexn 2 a @ hexn 2 b @ hexn 2 c"
  by (simp add: hex_bytes_def hexn_two)

lemma hex_bytes_parts:
  assumes "b < 256" and "r < 2 ^ 62" and "a + 0x70 < 256"
  shows "hex_bytes (be_bytes 6 ts @ [0x70 + a, b, 0x80 + r div 2 ^ 56] @ be_bytes 7 r) =
    hexn 32 (ts * 2 ^ 80 + (0x7000 + (a * 256 + b)) * 2 ^ 64 + (2 ^ 63 + r))"
proof -
  have c: "0x80 + r div 2 ^ 56 < 256" using assms(2) by (simp add: div_less_iff_less_mult)
  have "hexn 14 r = hexn 14 (r mod 2 ^ 56)" using hexn_mod [of 14 r] by simp
  then have "hexn 2 (0x80 + r div 2 ^ 56) @ hexn 14 r =
      hexn 16 ((0x80 + r div 2 ^ 56) * 2 ^ 56 + r mod 2 ^ 56)"
    using hexn_append [of "r mod 2 ^ 56" 14 2 "0x80 + r div 2 ^ 56"] by simp
  also have "(0x80 + r div 2 ^ 56) * 2 ^ 56 + r mod 2 ^ 56 = 2 ^ 63 + r"
    by (simp add: algebra_simps)
  finally have low: "hexn 2 (0x80 + r div 2 ^ 56) @ hexn 14 r = hexn 16 (2 ^ 63 + r)" .
  have r: "2 ^ 63 + r < (16 :: nat) ^ 16" using assms(2) by simp
  have ab: "hexn 2 (0x70 + a) @ hexn 2 b = hexn 4 (0x7000 + (a * 256 + b))"
    using hexn_append [of b 2 2 "0x70 + a"] assms(1) by (simp add: algebra_simps)
  have mid: "hexn 4 (0x7000 + (a * 256 + b)) @ hexn 16 (2 ^ 63 + r) =
      hexn 20 ((0x7000 + (a * 256 + b)) * 2 ^ 64 + (2 ^ 63 + r))"
    using hexn_append [OF r, of 4 "0x7000 + (a * 256 + b)"] by simp
  have "(0x7000 + (a * 256 + b)) * 2 ^ 64 + (2 ^ 63 + r) < (16 :: nat) ^ 20"
    using assms by simp
  from hexn_append [OF this, of 12 ts]
  have "hexn 12 ts @ hexn 20 ((0x7000 + (a * 256 + b)) * 2 ^ 64 + (2 ^ 63 + r)) =
      hexn 32 (ts * 2 ^ 80 + (0x7000 + (a * 256 + b)) * 2 ^ 64 + (2 ^ 63 + r))"
    by (simp add: add.assoc)
  then show ?thesis
    using hex_bytes_be [of 6 ts] hex_bytes_be [of 7 r] hex_bytes_three [OF _ assms(1) c, of "0x70 + a"]
      assms(3) low mid ab
    by (simp only: hex_bytes_append append_assoc [symmetric]) simp
qed

lemma uuid_hex: "hex_bytes (uuid_bytes ts sq) = hexn 32 (uuid_number ts sq)"
proof -
  let ?A = "sq div 2 ^ 62 mod 2 ^ 12" and ?r = "sq mod 2 ^ 62"
  have r: "?r < 2 ^ 62" by simp
  then have "?r div 2 ^ 56 < 2 ^ 6" by (simp add: div_less_iff_less_mult)
  then have c: "?r div 2 ^ 56 mod 2 ^ 6 = ?r div 2 ^ 56" by (rule mod_less)
  have A: "?A < 2 ^ 12" by simp
  then have "?A div 256 + 0x70 < 256" by simp
  from hex_bytes_parts [OF _ r this, of "?A mod 256" ts] show ?thesis
    unfolding uuid_bytes_def uuid_number_def Let_def c
    by (simp only: div_mult_mod_eq mod_less_divisor zero_less_numeral)
qed

definition dashed :: "string \<Rightarrow> string" where
  "dashed hex = js_slice hex 0 8 @ ''-'' @ js_slice hex 8 12 @ ''-'' @ js_slice hex 12 16 @ ''-'' @
     js_slice hex 16 20 @ ''-'' @ drop 20 hex"

lemma formatUuid_dashed: "formatUuid ts sq = dashed (hexn 32 (uuid_number ts sq))"
  by (simp add: formatUuid_def Let_def uuid_hex dashed_def)

text \<open>Dashes at fixed places keep the order.\<close>

definition cut :: "nat \<Rightarrow> (string \<Rightarrow> string) \<Rightarrow> string \<Rightarrow> string" where
  "cut n f s = take n s @ CHR ''-'' # f (drop n s)"

lemma dashed_cut: "dashed = cut 8 (cut 4 (cut 4 (cut 4 (\<lambda>s. s))))"
  by (simp add: fun_eq_iff dashed_def cut_def js_slice_def)

lemma cut_mono:
  assumes "length xs = length ys" and "xs < ys"
    and "\<And>us vs. length us = length vs \<Longrightarrow> us < vs \<Longrightarrow> f us < f vs"
  shows "cut n f xs < cut n f ys"
proof (cases "take n xs = take n ys")
  case True
  then have "take n xs @ drop n ys = ys" by (metis append_take_drop_id)
  then have "take n xs @ drop n xs < take n xs @ drop n ys" using assms(2) by simp
  then have "drop n xs < drop n ys" by (simp only: less_append_same)
  then have "f (drop n xs) < f (drop n ys)" using assms(1,3) by simp
  then show ?thesis using True by (simp add: cut_def less_append_same)
next
  case False
  then consider "take n xs < take n ys" | "take n ys < take n xs" by (metis less_linear)
  then show ?thesis
  proof cases
    case 1
    then show ?thesis using assms(1) by (simp add: cut_def less_append)
  next
    case 2
    then have "take n ys @ drop n ys < take n xs @ drop n xs"
      using assms(1) by (intro less_append) simp_all
    then show ?thesis using assms(2) by simp
  qed
qed

lemma dashed_mono: "length xs = length ys \<Longrightarrow> xs < ys \<Longrightarrow> dashed xs < dashed ys"
  unfolding dashed_cut by (intro cut_mono) simp_all

lemma uuid_number_mono:
  assumes "ts < ts' \<or> ts = ts' \<and> sq < sq'" and "sq < 2 ^ 74" and "sq' < 2 ^ 74"
  shows "uuid_number ts sq < uuid_number ts' sq'"
proof -
  have A: "sq div 2 ^ 62 mod 2 ^ 12 = sq div 2 ^ 62" "sq' div 2 ^ 62 mod 2 ^ 12 = sq' div 2 ^ 62"
    using assms(2,3) by (simp_all add: div_less_iff_less_mult)
  have lt: "sq div 2 ^ 62 < 2 ^ 12" using assms(2) by (simp add: div_less_iff_less_mult)
  show ?thesis
  proof (cases "ts < ts'")
    case True
    then have "(ts + 1) * 2 ^ 80 \<le> ts' * 2 ^ 80" by (intro mult_right_mono) simp_all
    moreover have "sq mod 2 ^ 62 < 2 ^ 62" by simp
    ultimately show ?thesis using lt unfolding uuid_number_def A by (simp add: algebra_simps)
  next
    case False
    then have t: "ts = ts'" and less: "sq < sq'" using assms(1) by auto
    show ?thesis
    proof (cases "sq div 2 ^ 62 = sq' div 2 ^ 62")
      case True
      then have "sq mod 2 ^ 62 < sq' mod 2 ^ 62"
        using less by (metis add_less_cancel_left mult_div_mod_eq)
      then show ?thesis using True t unfolding uuid_number_def A by simp
    next
      case False
      then have "sq div 2 ^ 62 < sq' div 2 ^ 62"
        using less by (simp add: div_le_mono le_neq_implies_less)
      then have "(sq div 2 ^ 62 + 1) * 2 ^ 64 \<le> sq' div 2 ^ 62 * 2 ^ 64" by (intro mult_right_mono) simp_all
      moreover have "sq mod 2 ^ 62 < 2 ^ 62" by simp
      ultimately show ?thesis using t unfolding uuid_number_def A by (simp add: algebra_simps)
    qed
  qed
qed

lemma uuid_number_bound: "ts < 2 ^ 48 \<Longrightarrow> uuid_number ts sq < 16 ^ 32"
proof -
  assume ts: "ts < 2 ^ 48"
  have "sq div 2 ^ 62 mod 2 ^ 12 < 2 ^ 12" "sq mod 2 ^ 62 < 2 ^ 62" by simp_all
  then show ?thesis using ts by (simp add: uuid_number_def)
qed

lemma formatUuid_mono:
  "ts < ts' \<or> ts = ts' \<and> sq < sq' \<Longrightarrow> sq < 2 ^ 74 \<Longrightarrow> sq' < 2 ^ 74 \<Longrightarrow> ts' < 2 ^ 48 \<Longrightarrow>
    formatUuid ts sq < formatUuid ts' sq'"
  unfolding formatUuid_dashed
  by (intro dashed_mono hexn_mono uuid_number_mono uuid_number_bound) simp_all

text \<open>A generator's state, and what a call that returns an identifier does to it.\<close>

definition uuid_ok :: "uuid_generator \<Rightarrow> bool" where
  "uuid_ok g \<longleftrightarrow> -1 \<le> ug_lastTimestamp g \<and> ug_lastTimestamp g \<le> max_timestamp \<and> ug_sequence g < 2 ^ 74 \<and>
     (ug_lastTimestamp g = -1 \<longrightarrow> ug_sequence g = 0)"

definition uuid_less :: "uuid_generator \<Rightarrow> uuid_generator \<Rightarrow> bool" where
  "uuid_less g g' \<longleftrightarrow> ug_lastTimestamp g < ug_lastTimestamp g' \<or>
     ug_lastTimestamp g = ug_lastTimestamp g' \<and> ug_sequence g < ug_sequence g'"

definition uuid_of :: "uuid_generator \<Rightarrow> string" where
  "uuid_of g = formatUuid (nat (ug_lastTimestamp g)) (ug_sequence g)"

lemma random74_Inr: "random74 bytes = Inr r \<Longrightarrow> r < 2 ^ 74"
  by (auto simp: random74_def split: if_splits)

lemma uuid_next_Inr:
  assumes "uuid_next g now random = (g', Inr v)" and "uuid_ok g"
  shows "uuid_ok g' \<and> uuid_less g g' \<and> v = uuid_of g' \<and> 0 \<le> ug_lastTimestamp g'"
proof -
  consider (later) r where "now > ug_lastTimestamp g" "0 \<le> now" "now \<le> max_timestamp" "random74 random = Inr r"
      "g' = \<lparr>ug_lastTimestamp = now, ug_sequence = r\<rparr>" "v = formatUuid (nat now) r"
    | (wrap) r where "0 \<le> ug_lastTimestamp g" "ug_lastTimestamp g + 1 \<le> max_timestamp" "random74 random = Inr r"
      "g' = \<lparr>ug_lastTimestamp = ug_lastTimestamp g + 1, ug_sequence = r\<rparr>"
      "v = formatUuid (nat (ug_lastTimestamp g + 1)) r"
    | (count) "0 \<le> ug_lastTimestamp g" "(ug_sequence g + 1) mod 2 ^ 74 \<noteq> 0"
      "g' = \<lparr>ug_lastTimestamp = ug_lastTimestamp g, ug_sequence = (ug_sequence g + 1) mod 2 ^ 74\<rparr>"
      "v = formatUuid (nat (ug_lastTimestamp g)) ((ug_sequence g + 1) mod 2 ^ 74)"
    using assms(1) by (auto simp: uuid_next_def Let_def split: if_splits sum.splits)
  then show ?thesis
  proof cases
    case later
    then show ?thesis
      using assms(2) random74_Inr by (simp add: uuid_ok_def uuid_less_def uuid_of_def)
  next
    case wrap
    then show ?thesis
      using assms(2) random74_Inr by (simp add: uuid_ok_def uuid_less_def uuid_of_def)
  next
    case count
    then have "(ug_sequence g + 1) mod 2 ^ 74 = ug_sequence g + 1"
      using assms(2) by (cases "ug_sequence g + 1 = 2 ^ 74") (simp_all add: uuid_ok_def)
    then show ?thesis
      using count assms(2) by (auto simp: uuid_ok_def uuid_less_def uuid_of_def)
  qed
qed

text \<open>An error leaves a well-formed state; unless the space is exhausted or the random source
  failed, it leaves the state it found.\<close>

lemma uuid_next_Inl:
  assumes "uuid_next g now random = (g', Inl e)" and "length random = 10"
    and "e \<noteq> Uuid_space_exhausted"
  shows "g' = g"
  using assms by (auto simp: uuid_next_def random74_def Let_def split: if_splits sum.splits)

fun uuid_results :: "uuid_generator \<Rightarrow> (int \<times> nat list) list \<Rightarrow> (uuid_error + string) list" where
  "uuid_results g [] = []"
| "uuid_results g ((now, random) # calls) =
     (case uuid_next g now random of (g', r) \<Rightarrow> r # uuid_results g' calls)"

fun successes :: "('e + 'a) list \<Rightarrow> 'a list" where
  "successes [] = []"
| "successes (Inl e # rs) = successes rs"
| "successes (Inr a # rs) = a # successes rs"

lemma uuid_of_less: "uuid_less g g' \<Longrightarrow> uuid_ok g \<Longrightarrow> uuid_ok g' \<Longrightarrow> 0 \<le> ug_lastTimestamp g \<Longrightarrow> uuid_of g < uuid_of g'"
  unfolding uuid_of_def
  by (rule formatUuid_mono) (auto simp: uuid_less_def uuid_ok_def max_timestamp_def)

lemma uuid_less_trans: "uuid_less g g' \<Longrightarrow> uuid_less g' g'' \<Longrightarrow> uuid_less g g''"
  by (auto simp: uuid_less_def)

lemma uuid_results_order:
  assumes "uuid_ok g" and "list_all (\<lambda>(now, random). length random = 10) calls"
    and "Inl Uuid_space_exhausted \<notin> set (uuid_results g calls)"
  shows "\<exists>gs. successes (uuid_results g calls) = map uuid_of gs \<and>
    list_all (\<lambda>g'. uuid_ok g' \<and> 0 \<le> ug_lastTimestamp g') gs \<and> sorted_wrt uuid_less (g # gs)"
  using assms
proof (induction g calls rule: uuid_results.induct)
  case (1 g)
  then show ?case by (intro exI [of _ "[]"]) simp
next
  case (2 g now random calls)
  obtain g' r where n: "uuid_next g now random = (g', r)" by (cases "uuid_next g now random")
  show ?case
  proof (cases r)
    case (Inl e)
    then have "g' = g" using 2 n by (intro uuid_next_Inl [of g now random g' e]) auto
    then show ?thesis using 2 n Inl by auto
  next
    case (Inr v)
    have g': "uuid_ok g'" "uuid_less g g'" "v = uuid_of g'" "0 \<le> ug_lastTimestamp g'"
      using uuid_next_Inr n Inr 2(2) by blast+
    then obtain gs where "successes (uuid_results g' calls) = map uuid_of gs"
      "list_all (\<lambda>g'. uuid_ok g' \<and> 0 \<le> ug_lastTimestamp g') gs" "sorted_wrt uuid_less (g' # gs)"
      using 2 n Inr by fastforce
    then show ?thesis
      using n Inr g' uuid_less_trans by (intro exI [of _ "g' # gs"]) auto
  qed
qed

lemma sorted_uuid_of:
  "list_all (\<lambda>g. uuid_ok g \<and> 0 \<le> ug_lastTimestamp g) gs \<Longrightarrow> sorted_wrt uuid_less gs \<Longrightarrow>
    sorted_wrt (<) (map uuid_of gs)"
  by (induction gs) (auto simp: list_all_iff intro: uuid_of_less)

lemma isUuidV7_groups:
  assumes "list_all is_lower_hex (a @ b @ c @ d @ e)" and "length a = 8" "length b = 4" "length c = 4"
    "length d = 4" "length e = 12"
  shows "isUuidV7 (a @ ''-'' @ b @ ''-'' @ c @ ''-'' @ d @ ''-'' @ e) \<longleftrightarrow>
    hd c = CHR ''7'' \<and> hd d \<in> {CHR ''8'', CHR ''9'', CHR ''a'', CHR ''b''}"
proof -
  have "js_split CHR ''-'' (a @ ''-'' @ b @ ''-'' @ c @ ''-'' @ d @ ''-'' @ e) = [a, b, c, d, e]"
    using assms(1) by (simp add: js_split_append js_split_single lower_hex_no_dash)
  then show ?thesis using assms by (simp add: isUuidV7_def)
qed

lemma hex_bytes_nibbles: "l < 16 \<Longrightarrow> hex_bytes [16 * h + l] = [hex_digit h, hex_digit l]"
  by (simp add: hex_bytes_def)

lemma variant_digit: "y < 4 \<Longrightarrow> hex_digit (8 + y) \<in> {CHR ''8'', CHR ''9'', CHR ''a'', CHR ''b''}"
proof -
  have "list_all (\<lambda>y. hex_digit (8 + y) \<in> {CHR ''8'', CHR ''9'', CHR ''a'', CHR ''b''}) [0, 1, 2, 3]"
    by code_simp
  moreover assume "y < 4"
  then have "y \<in> set [0, 1, 2, 3]" by auto
  ultimately show ?thesis unfolding list_all_iff by blast
qed

lemma isUuidV7_format: "isUuidV7 (formatUuid ts sq)"
proof -
  let ?A = "sq div 2 ^ 62 mod 2 ^ 12" and ?r = "sq mod 2 ^ 62"
  let ?hex = "hex_bytes (uuid_bytes ts sq)"
  have h: "list_all is_lower_hex ?hex" "length ?hex = 32" by (simp_all add: uuid_hex hexn_lower_hex)
  have A: "?A div 256 < 16" by (simp add: less_mult_imp_div_less)
  have r: "?r div 2 ^ 56 mod 2 ^ 6 < 64" by simp
  have b6: "hex_bytes [0x70 + ?A div 256] = hex_digit 7 # [hex_digit (?A div 256)]"
    using hex_bytes_nibbles [OF A, of 7] by simp
  have b8: "hex_bytes [0x80 + ?r div 2 ^ 56 mod 2 ^ 6] =
      hex_digit (8 + ?r div 2 ^ 56 mod 2 ^ 6 div 16) # [hex_digit (?r div 2 ^ 56 mod 2 ^ 6 mod 16)]"
  proof -
    have "16 * (8 + y div 16) + y mod 16 = 0x80 + y" for y :: nat by presburger
    then show ?thesis
      using hex_bytes_nibbles [of "?r div 2 ^ 56 mod 2 ^ 6 mod 16" "8 + ?r div 2 ^ 56 mod 2 ^ 6 div 16"]
      by (simp add: add.commute)
  qed
  have split: "uuid_bytes ts sq = be_bytes 6 ts @ [0x70 + ?A div 256] @ [?A mod 256] @
      [0x80 + ?r div 2 ^ 56 mod 2 ^ 6] @ be_bytes 7 ?r"
    by (simp add: uuid_bytes_def Let_def)
  have l: "length (hex_bytes [?A mod 256]) = 2" by (simp add: hex_bytes_def)
  have l12: "length (hex_bytes (be_bytes 6 ts)) = 12" by (simp add: hex_bytes_be)
  have "?hex ! 12 = hex_digit 7"
    unfolding split hex_bytes_append b6 using l12 by (simp add: nth_append)
  moreover have "?hex ! 16 = hex_digit (8 + ?r div 2 ^ 56 mod 2 ^ 6 div 16)"
    unfolding split hex_bytes_append b6 b8 using l12 l by (simp add: nth_append)
  moreover have "?r div 2 ^ 56 mod 2 ^ 6 div 16 < 4" using r by (simp add: less_mult_imp_div_less)
  then have "hex_digit (8 + ?r div 2 ^ 56 mod 2 ^ 6 div 16) \<in> {CHR ''8'', CHR ''9'', CHR ''a'', CHR ''b''}"
    by (rule variant_digit)
  moreover have "hex_digit 7 = CHR ''7''" by code_simp
  moreover have "hd (js_slice ?hex 12 16) = ?hex ! 12" "hd (js_slice ?hex 16 20) = ?hex ! 16"
    using h(2) by (simp_all add: js_slice_def hd_drop_conv_nth)
  moreover have "list_all is_lower_hex (js_slice ?hex 0 8 @ js_slice ?hex 8 12 @ js_slice ?hex 12 16 @
      js_slice ?hex 16 20 @ drop 20 ?hex)"
    using h(1) by (auto simp: list_all_iff js_slice_def dest: in_set_takeD in_set_dropD)
  ultimately show ?thesis
    unfolding formatUuid_def Let_def using h(2)
    by (subst isUuidV7_groups) (simp_all add: js_slice_def)
qed

section \<open>Properties\<close>

text \<open>
  C28: Identifiers come in the order of their text: whatever the clock does (it may stand still
  or run backwards), every identifier a generator returns is greater, as a string, than all it
  returned before, as long as the random source gives ten bytes and no call has failed because
  the space of identifiers is exhausted.
\<close>

theorem uuids_strictly_increasing:
  assumes "list_all (\<lambda>(now, random). length random = 10) calls"
    and "Inl Uuid_space_exhausted \<notin> set (uuid_results new_uuid_generator calls)"
  shows "sorted_wrt (<) (successes (uuid_results new_uuid_generator calls))"
proof -
  have "uuid_ok new_uuid_generator" by (simp add: uuid_ok_def new_uuid_generator_def max_timestamp_def)
  from uuid_results_order [OF this assms] show ?thesis
    using sorted_uuid_of by fastforce
qed

theorem uuids_strictly_increasing_witness:
  "let r = [1, 2, 3, 4, 5, 6, 7, 8, 9, 10]
   in sorted_wrt (<) (successes (uuid_results new_uuid_generator [(5, r), (5, r), (3, r), (-1, r)]))"
  unfolding Let_def
  by (rule uuids_strictly_increasing)
    (simp_all add: uuid_next_def random74_def max_timestamp_def new_uuid_generator_def)

text \<open>
  Every identifier the generator returns, for any time stamp and any sequence, is accepted by
  the recogniser the rest of the program validates identifiers with.
\<close>

theorem generated_uuids_recognised:
  "list_all isUuidV7 (successes (uuid_results g calls))"
proof (induction g calls rule: uuid_results.induct)
  case (2 g now random calls)
  obtain g' r where n: "uuid_next g now random = (g', r)" by (cases "uuid_next g now random")
  have "isUuidV7 v" if "r = Inr v" for v
    using n that by (auto simp: uuid_next_def Let_def isUuidV7_format split: if_splits sum.splits)
  then show ?case using 2 n by (cases r) auto
qed simp

end
