(* ===== verification/PrincipalSelectors.thy ===== *)
theory PrincipalSelectors
  imports UuidV7 "HOL-Library.Multiset"
begin

text \<open>
  \<^verbatim>\<open>src/principalSelectors.ts\<close>: the normal form of a principal selector and what a selector
  contributes to the access of one user. Input is untyped JSON, absent when the property was
  omitted; there is one exception, \<open>PrincipalSelectorError\<close>.
\<close>

datatype principal_selector_error = Principal_selector_error

datatype normalized_selector =
  Selector_all
| Selector_explicit (sel_groupIds: "string list") (sel_userIds: "string list")

datatype access_contribution = Contribution_all | Contribution_direct | Contribution_group string

type_synonym 'a selector_result = "principal_selector_error + 'a"

definition requireKeys :: "(string \<times> json) list \<Rightarrow> string list \<Rightarrow> unit selector_result" where
  "requireKeys value expected =
     (if js_sort (map fst value) \<noteq> js_sort expected then Inl Principal_selector_error else Inr ())"

definition uuid_item :: "json \<Rightarrow> string selector_result" where
  "uuid_item item =
     (case item of
        JString s \<Rightarrow> if isUuidV7 s then Inr s else Inl Principal_selector_error
      | _ \<Rightarrow> Inl Principal_selector_error)"

definition uuidArray :: "json option \<Rightarrow> bool \<Rightarrow> string list selector_result" where
  "uuidArray value allowEmpty =
     (case value of
        Some (JArray items) \<Rightarrow>
          (if length items > 1000 then Inl Principal_selector_error
           else if \<not> allowEmpty \<and> length items = 0 then Inl Principal_selector_error
           else result_bind (result_map uuid_item items) (\<lambda>ids.
             if length (js_unique ids) \<noteq> length ids then Inl Principal_selector_error
             else Inr (js_sort ids)))
      | _ \<Rightarrow> Inl Principal_selector_error)"

definition requireDirectConfirmation :: "json option \<Rightarrow> string list \<Rightarrow> unit selector_result" where
  "requireDirectConfirmation value userIds =
     (if length userIds > 0 \<and> value \<noteq> Some (JBool True) then Inl Principal_selector_error
      else if length userIds = 0 \<and> value \<noteq> Some (JBool False) then Inl Principal_selector_error
      else Inr ())"

definition explicitSelector :: "string list \<Rightarrow> string list \<Rightarrow> normalized_selector selector_result" where
  "explicitSelector groupIds userIds =
     (if length groupIds = 0 \<and> length userIds = 0 then Inl Principal_selector_error
      else Inr (Selector_explicit groupIds userIds))"

text \<open>The branches of \<open>normalizePrincipalSelector\<close> for the four kinds.\<close>

definition all_selector :: "(string \<times> json) list \<Rightarrow> normalized_selector selector_result" where
  "all_selector fs = result_bind (requireKeys fs [''kind'']) (\<lambda>_. Inr Selector_all)"

definition groups_selector :: "(string \<times> json) list \<Rightarrow> normalized_selector selector_result" where
  "groups_selector fs =
     result_bind (requireKeys fs [''kind'', ''group_ids'']) (\<lambda>_.
     result_bind (uuidArray (jmap_get fs ''group_ids'') False) (\<lambda>groups.
       explicitSelector groups []))"

definition users_selector :: "(string \<times> json) list \<Rightarrow> normalized_selector selector_result" where
  "users_selector fs =
     result_bind (requireKeys fs [''kind'', ''user_ids'', ''direct_assignment_confirmed'']) (\<lambda>_.
     result_bind (uuidArray (jmap_get fs ''user_ids'') False) (\<lambda>users.
     result_bind (requireDirectConfirmation (jmap_get fs ''direct_assignment_confirmed'') users) (\<lambda>_.
       explicitSelector [] users)))"

definition principals_selector :: "(string \<times> json) list \<Rightarrow> normalized_selector selector_result" where
  "principals_selector fs =
     result_bind (requireKeys fs
         [''kind'', ''group_ids'', ''user_ids'', ''direct_assignment_confirmed'']) (\<lambda>_.
     result_bind (uuidArray (jmap_get fs ''group_ids'') True) (\<lambda>groups.
     result_bind (uuidArray (jmap_get fs ''user_ids'') True) (\<lambda>users.
       if length groups = 0 \<and> length users = 0 then Inl Principal_selector_error
       else result_bind (requireDirectConfirmation (jmap_get fs ''direct_assignment_confirmed'') users) (\<lambda>_.
         explicitSelector groups users))))"

definition normalizePrincipalSelector ::
  "json option \<Rightarrow> bool \<Rightarrow> normalized_selector selector_result" where
  "normalizePrincipalSelector input omittedMeansAll =
     (case input of
        None \<Rightarrow> if omittedMeansAll then Inr Selector_all else Inl Principal_selector_error
      | Some (JObject fs) \<Rightarrow>
          (case jmap_get fs ''kind'' of
             Some (JString kind) \<Rightarrow>
               (if kind = ''all'' then all_selector fs
                else if kind = ''groups'' then groups_selector fs
                else if kind = ''users'' then users_selector fs
                else if kind = ''principals'' then principals_selector fs
                else Inl Principal_selector_error)
           | _ \<Rightarrow> Inl Principal_selector_error)
      | Some _ \<Rightarrow> Inl Principal_selector_error)"

definition selectorContributions ::
  "normalized_selector \<Rightarrow> string \<Rightarrow> string \<Rightarrow> string \<Rightarrow> string list \<Rightarrow> access_contribution list" where
  "selectorContributions selector userId role status activeGroupIds =
     (if \<not> isUuidV7 userId \<or> role \<noteq> ''user'' \<or> status \<noteq> ''active'' then []
      else case selector of
        Selector_all \<Rightarrow> [Contribution_all]
      | Selector_explicit groupIds userIds \<Rightarrow>
          (if userId \<in> set userIds then [Contribution_direct] else []) @
          map Contribution_group (filter (\<lambda>g. g \<in> set activeGroupIds) groupIds))"

section \<open>Library lemmas\<close>

definition canonical_ids :: "string list \<Rightarrow> bool" where
  "canonical_ids ids \<longleftrightarrow>
     sorted ids \<and> distinct ids \<and> list_all isUuidV7 ids \<and> length ids \<le> 1000"

lemma uuid_items: "result_map uuid_item items = Inr ids \<Longrightarrow>
    items = map JString ids \<and> list_all isUuidV7 ids"
proof (induction items arbitrary: ids)
  case (Cons x xs)
  then show ?case
    by (cases x) (auto simp: uuid_item_def split: sum.splits if_splits)
qed auto

lemma uuid_items_map: "list_all isUuidV7 ids \<Longrightarrow> result_map uuid_item (map JString ids) = Inr ids"
  by (induction ids) (auto simp: uuid_item_def)

lemma uuidArray_Inr:
  "uuidArray value e = Inr ids \<Longrightarrow> canonical_ids ids \<and> (e \<or> ids \<noteq> [])"
  by (auto simp: uuidArray_def canonical_ids_def result_bind_Inr js_unique_length list_all_iff
      split: option.splits json.splits if_splits dest!: uuid_items)

lemma canonical_sort: "canonical_ids ids \<Longrightarrow> mset ids' = mset ids \<Longrightarrow>
    js_sort ids' = ids \<and> distinct ids' \<and> list_all isUuidV7 ids' \<and> length ids' \<le> 1000"
  unfolding canonical_ids_def js_sort_def
  by (metis list_all_iff mset_eq_imp_distinct_iff mset_eq_length mset_eq_setD properties_for_sort)

lemma uuidArray_perm:
  assumes "canonical_ids ids" and "mset ids' = mset ids" and "e \<or> ids \<noteq> []"
  shows "uuidArray (Some (JArray (map JString ids'))) e = Inr ids"
  using canonical_sort [OF assms(1,2)] assms(2,3) mset_eq_length [OF assms(2)]
  by (auto simp: uuidArray_def uuid_items_map js_unique_length)

lemma all_selector_Inr: "all_selector fs = Inr sel \<Longrightarrow> sel = Selector_all \<and> map fst fs = [''kind'']"
proof -
  assume "all_selector fs = Inr sel"
  then have sel: "sel = Selector_all" and keys: "js_sort (map fst fs) = js_sort [''kind'']"
    by (auto simp: all_selector_def requireKeys_def result_bind_Inr split: if_splits)
  have "length (js_sort (map fst fs)) = length (js_sort [''kind''])"
    "set (js_sort (map fst fs)) = set (js_sort [''kind''])" by (simp_all only: keys)
  then have len: "length fs = 1" and ks: "fst ` set fs = {''kind''}" by simp_all
  obtain f where f: "fs = [f]" using len by (cases fs) simp_all
  then have "fst f = ''kind''" using ks by simp
  with f sel show ?thesis by simp
qed

text \<open>The normal form of a selector that names principals.\<close>

definition explicit_normal :: "normalized_selector \<Rightarrow> bool" where
  "explicit_normal s \<longleftrightarrow>
     (\<exists>gs us. s = Selector_explicit gs us \<and> canonical_ids gs \<and> canonical_ids us \<and> (gs \<noteq> [] \<or> us \<noteq> []))"

lemma canonical_ids_Nil [simp]: "canonical_ids []"
  by (simp add: canonical_ids_def)

lemma explicitSelector_normal:
  "explicitSelector gs us = Inr s \<Longrightarrow> canonical_ids gs \<Longrightarrow> canonical_ids us \<Longrightarrow> explicit_normal s"
  by (auto simp: explicitSelector_def explicit_normal_def split: if_splits)

lemma explicit_selectors_Inr:
  "groups_selector fs = Inr s \<Longrightarrow> explicit_normal s"
  "users_selector fs = Inr s \<Longrightarrow> explicit_normal s"
  "principals_selector fs = Inr s \<Longrightarrow> explicit_normal s"
proof -
  show "explicit_normal s" if sel: "groups_selector fs = Inr s"
  proof -
    obtain groups where "uuidArray (jmap_get fs ''group_ids'') False = Inr groups"
      "explicitSelector groups [] = Inr s"
      using sel by (auto simp: groups_selector_def result_bind_Inr)
    then show ?thesis using explicitSelector_normal uuidArray_Inr canonical_ids_Nil by blast
  qed
  show "explicit_normal s" if sel: "users_selector fs = Inr s"
  proof -
    obtain users where "uuidArray (jmap_get fs ''user_ids'') False = Inr users"
      "explicitSelector [] users = Inr s"
      using sel by (auto simp: users_selector_def result_bind_Inr)
    then show ?thesis using explicitSelector_normal uuidArray_Inr canonical_ids_Nil by blast
  qed
  show "explicit_normal s" if sel: "principals_selector fs = Inr s"
  proof -
    obtain groups users where "uuidArray (jmap_get fs ''group_ids'') True = Inr groups"
      "uuidArray (jmap_get fs ''user_ids'') True = Inr users" "explicitSelector groups users = Inr s"
      using sel by (auto simp: principals_selector_def result_bind_Inr split: if_splits)
    then show ?thesis using explicitSelector_normal uuidArray_Inr by blast
  qed
qed

section \<open>Properties\<close>

text \<open>
  A selector that is accepted is in normal form: it selects everybody only when it was
  omitted where omission means everybody, or is the object with the single property \<open>kind\<close> set to
  \<open>all\<close>; otherwise its identifiers are recognised ones, sorted, without duplicates, at most 1,000
  of each sort and at least one in total.
\<close>

theorem normalizePrincipalSelector_canonical:
  assumes "normalizePrincipalSelector input omittedMeansAll = Inr selector"
  shows "(case selector of
      Selector_all \<Rightarrow>
        input = None \<and> omittedMeansAll \<or>
        (\<exists>fs. input = Some (JObject fs) \<and> map fst fs = [''kind''] \<and>
          jmap_get fs ''kind'' = Some (JString ''all''))
    | Selector_explicit groupIds userIds \<Rightarrow>
        canonical_ids groupIds \<and> canonical_ids userIds \<and> (groupIds \<noteq> [] \<or> userIds \<noteq> []))"
proof (cases input)
  case None
  then show ?thesis using assms by (auto simp: normalizePrincipalSelector_def split: if_splits)
next
  case (Some v)
  then obtain fs kind where v: "input = Some (JObject fs)" "jmap_get fs ''kind'' = Some (JString kind)"
    using assms by (cases v) (auto simp: normalizePrincipalSelector_def split: option.splits json.splits)
  consider "kind = ''all''" "all_selector fs = Inr selector" | "groups_selector fs = Inr selector"
    | "users_selector fs = Inr selector" | "principals_selector fs = Inr selector"
    using assms v by (auto simp: normalizePrincipalSelector_def split: if_splits)
  then show ?thesis
  proof cases
    case 1
    then show ?thesis using all_selector_Inr [of fs selector] v by simp
  qed (use explicit_selectors_Inr [of fs selector] in \<open>auto simp: explicit_normal_def\<close>)
qed

definition sample_uuid :: string where
  "sample_uuid = ''01900000-0000-7000-8000-000000000001''"

lemma sample_uuid_ok: "isUuidV7 sample_uuid"
  by code_simp

theorem normalizePrincipalSelector_canonical_witness:
  "normalizePrincipalSelector (Some (JObject [(''group_ids'', JArray [JString sample_uuid]),
      (''kind'', JString ''groups'')])) False = Inr (Selector_explicit [sample_uuid] []) \<and>
   canonical_ids [sample_uuid]"
proof -
  have "normalizePrincipalSelector (Some (JObject [(''group_ids'', JArray [JString sample_uuid]),
      (''kind'', JString ''groups'')])) False = Inr (Selector_explicit [sample_uuid] [])"
    by code_simp
  from normalizePrincipalSelector_canonical [OF this] this show ?thesis by simp
qed

text \<open>
  Normalisation accepts every normal form in any spelling: an explicit selector written with
  its identifiers in any order, with the confirmation that names users exactly when there are any,
  is read back as the selector itself.
\<close>

theorem normalizePrincipalSelector_roundtrip:
  assumes "canonical_ids groupIds" and "canonical_ids userIds" and "groupIds \<noteq> [] \<or> userIds \<noteq> []"
    and "mset groups = mset groupIds" and "mset users = mset userIds"
  shows "normalizePrincipalSelector
      (Some (JObject [(''kind'', JString ''principals''), (''group_ids'', JArray (map JString groups)),
                      (''user_ids'', JArray (map JString users)),
                      (''direct_assignment_confirmed'', JBool (userIds \<noteq> []))])) omittedMeansAll =
    Inr (Selector_explicit groupIds userIds)"
  using assms uuidArray_perm [OF assms(1,4), of True] uuidArray_perm [OF assms(2,5), of True]
  by (auto simp: normalizePrincipalSelector_def principals_selector_def requireKeys_def
      requireDirectConfirmation_def explicitSelector_def)

theorem normalizePrincipalSelector_roundtrip_witness:
  "normalizePrincipalSelector
      (Some (JObject [(''kind'', JString ''principals''), (''group_ids'', JArray (map JString [])),
                      (''user_ids'', JArray (map JString [sample_uuid])),
                      (''direct_assignment_confirmed'', JBool ([sample_uuid] \<noteq> []))])) False =
    Inr (Selector_explicit [] [sample_uuid])"
  by (rule normalizePrincipalSelector_roundtrip)
    (simp_all add: canonical_ids_def sample_uuid_ok)

text \<open>
  A selector contributes to the access of a user exactly when the user is an active account of
  role \<open>user\<close> that the selector names, directly or through a group the user is an active member
  of; administrators and inactive accounts get nothing from any selector.
\<close>

theorem selectorContributions_exact:
  "set (selectorContributions selector userId role status activeGroupIds) =
    (if isUuidV7 userId \<and> role = ''user'' \<and> status = ''active''
     then (case selector of
             Selector_all \<Rightarrow> {Contribution_all}
           | Selector_explicit groupIds userIds \<Rightarrow>
               (if userId \<in> set userIds then {Contribution_direct} else {}) \<union>
               Contribution_group ` (set groupIds \<inter> set activeGroupIds))
     else {})"
  by (auto simp: selectorContributions_def split: normalized_selector.splits)

end
