(* ===== verification/Tokens.thy ===== *)
theory Tokens
  imports ServiceRegistry
begin

text \<open>
  \<^verbatim>\<open>src/tokens.ts\<close>: the broker of opaque references. It issues references to credentials
  (\<open>gref_...\<close>) and to secrets found in responses (\<open>sec_...\<close>), and redeems them for the subject,
  service and destination they are bound to until they expire.

  Records are objects that several maps and the callers share and that \<open>refresh\<close> mutates: they
  live in two stores, and the maps and the callers hold their addresses, so that the identity
  test of \<open>consumePreflighted...\<close> compares addresses. Parameters of the model are the hash and
  the keyed hash (each a function of the text hashed), the rendering of dates and the audit sink
  (which may throw). An operation takes one clock reading; random draws are arguments.
\<close>

section \<open>Data\<close>

datatype token_kind = Kind_credential | Kind_service

text \<open>The properties \<open>isExpired\<close> and \<open>refresh\<close> work on, common to both sorts of records.\<close>

record lifetime =
  lt_issuedAt :: int
  lt_lastUsedAt :: int
  lt_idleExpiresAt :: int
  lt_maxExpiresAt :: int

record token_record =
  tr_id :: string
  tr_tokenHash :: string
  tr_subject :: string
  tr_service :: string
  tr_destination :: string
  tr_accessId :: string
  tr_kind :: token_kind
  tr_credentialId :: "string option"
  tr_serviceId :: "string option"
  tr_destinationId :: "string option"
  tr_snapshotId :: "string option"
  tr_publicationGeneration :: "int option"
  tr_serviceAuthorizationGeneration :: "int option"
  tr_credentialAuthorizationGeneration :: "int option"
  tr_subjectSecurityEpoch :: "int option"
  tr_globalReferenceEpoch :: "int option"
  tr_reason :: string
  tr_life :: lifetime

record runtime_bindings =
  rb_serviceId :: string
  rb_destination :: string
  rb_destinationId :: string
  rb_snapshotId :: string
  rb_publicationGeneration :: int
  rb_serviceAuthorizationGeneration :: int
  rb_subjectSecurityEpoch :: int
  rb_globalReferenceEpoch :: int

text \<open>
  A response secret record carries either all the properties of \<open>RuntimeReferenceBindings\<close> or none:
  they are spread into it together.
\<close>

record response_secret_record =
  sr_id :: string
  sr_tokenHash :: string
  sr_subject :: string
  sr_service :: string
  sr_bindings :: "runtime_bindings option"
  sr_secret :: string
  sr_life :: lifetime

record token_broker =
  tb_records :: "token_record list"
  tb_secrets :: "response_secret_record list"
  tb_recordsByHash :: "(string, nat) jmap"
  tb_responseSecretsByHash :: "(string, nat) jmap"
  tb_responseSecretIdsByIndex :: "(string, string) jmap"
  tb_responseSecretsById :: "(string, nat) jmap"
  tb_tokenValuesById :: "(string, string) jmap"

definition new_token_broker :: token_broker where
  "new_token_broker =
     \<lparr>tb_records = [], tb_secrets = [], tb_recordsByHash = [], tb_responseSecretsByHash = [],
      tb_responseSecretIdsByIndex = [], tb_responseSecretsById = [], tb_tokenValuesById = []\<rparr>"

record token_request_input =
  ri_service :: string
  ri_destination :: "string option"
  ri_access_ids :: "string list"
  ri_reason :: string

record token_use_target =
  ut_service :: string
  ut_destination :: "string option"

record issued_token =
  it_credential_id :: string
  it_token :: string
  it_usage_hint :: string
  it_expires_at :: string

record reference_issued_event =
  ev_subject :: string
  ev_service :: string
  ev_destination :: string
  ev_access_ids :: "string list"
  ev_internal_reference_ids :: "string list"
  ev_reason :: string
  ev_timestamp :: string

record token_issue_result =
  ir_tokens :: "issued_token list"
  ir_audit :: reference_issued_event

record response_secret_issue_result =
  si_token :: string
  si_record :: nat
  si_reused :: bool

record configured_token_match =
  cm_token :: string
  cm_record :: nat

datatype inspection_reason = Unknown_token | Expired_token | Wrong_subject | Wrong_service

datatype token_inspection = Token_valid | Token_invalid inspection_reason

record reference_filter =
  rf_subject :: "string option"
  rf_serviceId :: "string option"
  rf_credentialId :: "string option"

text \<open>\<open>RuntimeReferenceGrant\<close> of \<^verbatim>\<open>src/runtimeAuthority.ts\<close>.\<close>

record runtime_access =
  ra_id :: string
  ra_kind :: token_kind
  ra_usageHint :: string
  ra_credentialId :: "string option"
  ra_credentialAuthorizationGeneration :: "int option"

record runtime_grant =
  rg_service :: string
  rg_bindings :: runtime_bindings
  rg_accesses :: "runtime_access list"

text \<open>What \<open>AsyncLocalStorage\<close> holds while \<open>withRuntimeSecrets\<close> runs its callback.\<close>

record runtime_secrets =
  rs_subject :: string
  rs_service :: string
  rs_secrets :: "(string, string) jmap"
  rs_bindings :: "runtime_bindings option"

record broker_env =
  be_config :: gateway_config
  be_hash :: "string \<Rightarrow> string"
  be_hmac :: "string \<Rightarrow> string"
  be_iso :: "int \<Rightarrow> string"
  be_audit :: "reference_issued_event \<Rightarrow> reference_issued_event option"

text \<open>Issuing may fail with a \<open>GatewayError\<close> or with the exception of the audit sink.\<close>

datatype issue_error = Issue_refused gateway_exception | Audit_persistence_failed

type_synonym 'a issue_result = "issue_error + 'a"

abbreviation invalid_reference :: "string \<Rightarrow> 'a gateway_result" where
  "invalid_reference msg \<equiv> Inl (gateway_error Reference_invalid msg)"

section \<open>Lifetimes and small helpers\<close>

definition life_expired :: "int \<Rightarrow> lifetime \<Rightarrow> bool" where
  "life_expired now l \<longleftrightarrow> lt_idleExpiresAt l \<le> now \<or> lt_maxExpiresAt l \<le> now"

definition life_refreshed :: "broker_env \<Rightarrow> int \<Rightarrow> lifetime \<Rightarrow> lifetime" where
  "life_refreshed E now l =
     l\<lparr>lt_lastUsedAt := now,
       lt_idleExpiresAt := min (now + tc_idleTtlMs (gc_tokens (be_config E))) (lt_maxExpiresAt l)\<rparr>"

definition new_lifetime :: "broker_env \<Rightarrow> int \<Rightarrow> lifetime" where
  "new_lifetime E now =
     \<lparr>lt_issuedAt = now, lt_lastUsedAt = now,
      lt_idleExpiresAt = now + tc_idleTtlMs (gc_tokens (be_config E)),
      lt_maxExpiresAt = now + tc_maxTtlMs (gc_tokens (be_config E))\<rparr>"

definition refresh_record :: "broker_env \<Rightarrow> int \<Rightarrow> nat \<Rightarrow> token_broker \<Rightarrow> token_broker" where
  "refresh_record E now r b =
     b\<lparr>tb_records := (tb_records b)
         [r := (tb_records b ! r)\<lparr>tr_life := life_refreshed E now (tr_life (tb_records b ! r))\<rparr>]\<rparr>"

definition refresh_secret :: "broker_env \<Rightarrow> int \<Rightarrow> nat \<Rightarrow> token_broker \<Rightarrow> token_broker" where
  "refresh_secret E now r b =
     b\<lparr>tb_secrets := (tb_secrets b)
         [r := (tb_secrets b ! r)\<lparr>sr_life := life_refreshed E now (sr_life (tb_secrets b ! r))\<rparr>]\<rparr>"

definition responseSecretIndex :: "broker_env \<Rightarrow> string \<Rightarrow> string \<Rightarrow> string \<Rightarrow> string" where
  "responseSecretIndex E subject service secret =
     be_hmac E (subject @ [CHR 0x00] @ service @ [CHR 0x00] @ secret)"

definition secret_index :: "broker_env \<Rightarrow> response_secret_record \<Rightarrow> string" where
  "secret_index E s = responseSecretIndex E (sr_subject s) (sr_service s) (sr_secret s)"

definition deleteConfiguredToken :: "string \<Rightarrow> string \<Rightarrow> token_broker \<Rightarrow> token_broker" where
  "deleteConfiguredToken hash i b =
     b\<lparr>tb_recordsByHash := jmap_delete (tb_recordsByHash b) hash,
       tb_tokenValuesById := jmap_delete (tb_tokenValuesById b) i\<rparr>"

definition deleteResponseSecret :: "string \<Rightarrow> string \<Rightarrow> token_broker \<Rightarrow> token_broker" where
  "deleteResponseSecret i index b =
     b\<lparr>tb_responseSecretsByHash :=
         (case jmap_get (tb_responseSecretsById b) i of
            None \<Rightarrow> tb_responseSecretsByHash b
          | Some r \<Rightarrow> jmap_delete (tb_responseSecretsByHash b) (sr_tokenHash (tb_secrets b ! r))),
       tb_responseSecretsById := jmap_delete (tb_responseSecretsById b) i,
       tb_responseSecretIdsByIndex := jmap_delete (tb_responseSecretIdsByIndex b) index,
       tb_tokenValuesById := jmap_delete (tb_tokenValuesById b) i\<rparr>"

text \<open>
  The two loops that drop records: over the live map of hashes, and over a copy of the values of
  the map of identifiers. They count what they drop, which \<open>invalidate\<close> returns.
\<close>

fun drop_records_loop ::
  "(token_record \<Rightarrow> bool) \<Rightarrow> (string \<times> nat) list \<Rightarrow> token_broker \<times> nat \<Rightarrow> token_broker \<times> nat" where
  "drop_records_loop P [] (b, n) = (b, n)"
| "drop_records_loop P ((hash, r) # es) (b, n) =
     (if P (tb_records b ! r)
      then drop_records_loop P es (deleteConfiguredToken hash (tr_id (tb_records b ! r)) b, n + 1)
      else drop_records_loop P es (b, n))"

fun drop_secrets_loop ::
  "broker_env \<Rightarrow> (response_secret_record \<Rightarrow> bool) \<Rightarrow> nat list \<Rightarrow> token_broker \<times> nat \<Rightarrow> token_broker \<times> nat"
where
  "drop_secrets_loop E P [] (b, n) = (b, n)"
| "drop_secrets_loop E P (r # rs) (b, n) =
     (if P (tb_secrets b ! r)
      then drop_secrets_loop E P rs
             (deleteResponseSecret (sr_id (tb_secrets b ! r)) (secret_index E (tb_secrets b ! r)) b, n + 1)
      else drop_secrets_loop E P rs (b, n))"

definition drop_records :: "(token_record \<Rightarrow> bool) \<Rightarrow> token_broker \<times> nat \<Rightarrow> token_broker \<times> nat" where
  "drop_records P bn = drop_records_loop P (tb_recordsByHash (fst bn)) bn"

definition drop_secrets ::
  "broker_env \<Rightarrow> (response_secret_record \<Rightarrow> bool) \<Rightarrow> token_broker \<times> nat \<Rightarrow> token_broker \<times> nat" where
  "drop_secrets E P bn = drop_secrets_loop E P (map snd (tb_responseSecretsById (fst bn))) bn"

definition sweepExpired :: "broker_env \<Rightarrow> int \<Rightarrow> token_broker \<Rightarrow> token_broker" where
  "sweepExpired E now b =
     fst (drop_secrets E (\<lambda>s. life_expired now (sr_life s))
           (drop_records (\<lambda>r. life_expired now (tr_life r)) (b, 0)))"

definition count_subject :: "string \<Rightarrow> token_broker \<Rightarrow> nat" where
  "count_subject subject b =
     length (filter (\<lambda>(h, r). tr_subject (tb_records b ! r) = subject) (tb_recordsByHash b)) +
     length (filter (\<lambda>(i, r). sr_subject (tb_secrets b ! r) = subject) (tb_responseSecretsById b))"

definition ensureCapacity :: "broker_env \<Rightarrow> string \<Rightarrow> nat \<Rightarrow> token_broker \<Rightarrow> unit gateway_result" where
  "ensureCapacity E subject additional b =
     (if additional = 0 then Inr ()
      else let total = length (tb_recordsByHash b) + length (tb_responseSecretsById b);
               limits = gc_limits (be_config E)
           in if total + additional > lc_maxTokenRecords limits \<or>
                 count_subject subject b + additional > lc_maxTokenRecordsPerSubject limits
              then Inl (gateway_error Capacity_exceeded ''Opaque reference capacity is exhausted.'')
              else Inr ())"

section \<open>Issuing references\<close>

definition resolveTokenDestination :: "string list \<Rightarrow> string option \<Rightarrow> string gateway_result" where
  "resolveTokenDestination destinationIds requested =
     (case requested of
        Some d \<Rightarrow>
          (if d \<notin> set destinationIds
           then Inl (gateway_error Unknown_destination (''Unknown destination: '' @ d)) else Inr d)
      | None \<Rightarrow>
          (case destinationIds of
             [d] \<Rightarrow> Inr d
           | _ \<Rightarrow> Inl (gateway_error Unknown_destination
                     ''destination is required when a service has multiple destinations'')))"

definition resolve_access :: "service_config \<Rightarrow> string \<Rightarrow> runtime_access gateway_result" where
  "resolve_access service accessId =
     (if length (sc_credentials service) = 0
      then (if accessId \<noteq> gateway_access_id
            then Inl (gateway_error Unknown_access (''Unknown access id: '' @ accessId))
            else Inr \<lparr>ra_id = accessId, ra_kind = Kind_service,
                      ra_usageHint = gateway_access_usage_hint, ra_credentialId = None,
                      ra_credentialAuthorizationGeneration = None\<rparr>)
      else result_bind (getCredential service accessId) (\<lambda>credential.
             Inr \<lparr>ra_id = accessId, ra_kind = Kind_credential,
                  ra_usageHint = credentialUsageHint (cr_usage credential),
                  ra_credentialId = Some (cr_id credential),
                  ra_credentialAuthorizationGeneration = None\<rparr>))"

text \<open>\<open>gref_\<close> or \<open>sec_\<close> followed by the random text drawn; the record identifiers likewise.\<close>

definition gref_token :: "string \<Rightarrow> string" where
  "gref_token random = ''gref_'' @ random"

definition sec_token :: "string \<Rightarrow> string" where
  "sec_token random = ''sec_'' @ random"

definition gref_id :: "string \<Rightarrow> string" where
  "gref_id uuid = ''grefrec_'' @ uuid"

definition sec_id :: "string \<Rightarrow> string" where
  "sec_id uuid = ''secrec_'' @ uuid"

definition store_record :: "string \<Rightarrow> token_record \<Rightarrow> token_broker \<Rightarrow> token_broker" where
  "store_record token rec b =
     b\<lparr>tb_records := tb_records b @ [rec],
       tb_recordsByHash := jmap_set (tb_recordsByHash b) (tr_tokenHash rec) (length (tb_records b)),
       tb_tokenValuesById := jmap_set (tb_tokenValuesById b) (tr_id rec) token\<rparr>"

text \<open>
  The loop that makes one record per access. \<open>template\<close> gives the record of an access, except
  for its identifier and its hash; \<open>draws i\<close> is the random text and the identifier drawn in
  round \<open>i\<close>.
\<close>

fun issue_loop ::
  "broker_env \<Rightarrow> (runtime_access \<Rightarrow> token_record) \<Rightarrow> (nat \<Rightarrow> string \<times> string) \<Rightarrow> nat
    \<Rightarrow> runtime_access list \<Rightarrow> token_broker \<Rightarrow> token_broker \<times> issued_token list \<times> string list" where
  "issue_loop E template draws i [] b = (b, [], [])"
| "issue_loop E template draws i (access # accesses) b =
     (let token = gref_token (fst (draws i));
          rid = gref_id (snd (draws i));
          rec = (template access)\<lparr>tr_id := rid, tr_tokenHash := be_hash E token\<rparr>
      in case issue_loop E template draws (Suc i) accesses (store_record token rec b) of
           (b', issued, ids) \<Rightarrow>
             (b', \<lparr>it_credential_id = ra_id access, it_token = token,
                   it_usage_hint = ra_usageHint access,
                   it_expires_at = be_iso E (lt_maxExpiresAt (tr_life rec))\<rparr> # issued,
              rid # ids))"

definition config_template ::
  "broker_env \<Rightarrow> int \<Rightarrow> auth_context \<Rightarrow> token_request_input \<Rightarrow> service_config \<Rightarrow> string
    \<Rightarrow> runtime_access \<Rightarrow> token_record" where
  "config_template E now auth input service destination access =
     \<lparr>tr_id = [], tr_tokenHash = [], tr_subject = ac_subject auth, tr_service = sc_id service,
      tr_destination = destination, tr_accessId = ra_id access, tr_kind = ra_kind access,
      tr_credentialId = (if ra_kind access = Kind_credential then ra_credentialId access else None),
      tr_serviceId = None, tr_destinationId = None, tr_snapshotId = None,
      tr_publicationGeneration = None, tr_serviceAuthorizationGeneration = None,
      tr_credentialAuthorizationGeneration = None, tr_subjectSecurityEpoch = None,
      tr_globalReferenceEpoch = None, tr_reason = ri_reason input, tr_life = new_lifetime E now\<rparr>"

definition runtime_template ::
  "broker_env \<Rightarrow> int \<Rightarrow> auth_context \<Rightarrow> token_request_input \<Rightarrow> runtime_grant
    \<Rightarrow> runtime_access \<Rightarrow> token_record" where
  "runtime_template E now auth input grant access =
     (let rb = rg_bindings grant
      in \<lparr>tr_id = [], tr_tokenHash = [], tr_subject = ac_subject auth, tr_service = rg_service grant,
          tr_destination = rb_destination rb, tr_accessId = ra_id access, tr_kind = ra_kind access,
          tr_credentialId = ra_credentialId access, tr_serviceId = Some (rb_serviceId rb),
          tr_destinationId = Some (rb_destinationId rb), tr_snapshotId = Some (rb_snapshotId rb),
          tr_publicationGeneration = Some (rb_publicationGeneration rb),
          tr_serviceAuthorizationGeneration = Some (rb_serviceAuthorizationGeneration rb),
          tr_credentialAuthorizationGeneration = ra_credentialAuthorizationGeneration access,
          tr_subjectSecurityEpoch = Some (rb_subjectSecurityEpoch rb),
          tr_globalReferenceEpoch = Some (rb_globalReferenceEpoch rb),
          tr_reason = ri_reason input, tr_life = new_lifetime E now\<rparr>)"

text \<open>The end of both issuing operations: the audit event, then the result.\<close>

definition finish_issue ::
  "broker_env \<Rightarrow> (string list \<Rightarrow> reference_issued_event) \<Rightarrow>
    token_broker \<times> issued_token list \<times> string list \<Rightarrow> token_broker \<times> token_issue_result issue_result"
where
  "finish_issue E event r =
     (case r of (b, issued, ids) \<Rightarrow>
        (b, case be_audit E (event ids) of
              None \<Rightarrow> Inl Audit_persistence_failed
            | Some ev \<Rightarrow> Inr \<lparr>ir_tokens = issued, ir_audit = ev\<rparr>))"

text \<open>The checks of \<open>issueTokens\<close> after the sweep, in their order.\<close>

definition issue_plan ::
  "broker_env \<Rightarrow> auth_context \<Rightarrow> token_request_input \<Rightarrow> token_broker
    \<Rightarrow> (service_config \<times> string \<times> runtime_access list) gateway_result" where
  "issue_plan E auth input b =
     (if js_trim (ri_reason input) = [] then invalid_reference ''Reference request reason is required.''
      else if length (ri_access_ids input) = 0
      then Inl (gateway_error Unknown_access ''At least one access id is required.'')
      else result_bind (getService (be_config E) (ri_service input) (Some auth)) (\<lambda>service.
           result_bind (resolveTokenDestination (map dc_id (sc_destinations service)) (ri_destination input)) (\<lambda>destination.
           result_bind (result_map (resolve_access service) (ri_access_ids input)) (\<lambda>accesses.
           result_bind (ensureCapacity E (ac_subject auth) (length accesses) b) (\<lambda>_.
             Inr (service, destination, accesses))))))"

definition issueTokens ::
  "broker_env \<Rightarrow> int \<Rightarrow> (nat \<Rightarrow> string \<times> string) \<Rightarrow> auth_context \<Rightarrow> token_request_input \<Rightarrow> token_broker
    \<Rightarrow> token_broker \<times> token_issue_result issue_result" where
  "issueTokens E now draws auth input b0 =
     (let b = sweepExpired E now b0
      in case issue_plan E auth input b of
           Inl e \<Rightarrow> (b, Inl (Issue_refused e))
         | Inr (service, destination, accesses) \<Rightarrow>
             finish_issue E
               (\<lambda>ids. \<lparr>ev_subject = ac_subject auth, ev_service = sc_id service,
                      ev_destination = destination, ev_access_ids = ri_access_ids input,
                      ev_internal_reference_ids = ids, ev_reason = ri_reason input,
                      ev_timestamp = be_iso E now\<rparr>)
               (issue_loop E (config_template E now auth input service destination) draws 0 accesses b))"

definition issueRuntimeTokens ::
  "broker_env \<Rightarrow> int \<Rightarrow> (nat \<Rightarrow> string \<times> string) \<Rightarrow> auth_context \<Rightarrow> token_request_input \<Rightarrow> runtime_grant
    \<Rightarrow> token_broker \<Rightarrow> token_broker \<times> token_issue_result issue_result" where
  "issueRuntimeTokens E now draws auth input grant b0 =
     (let b = sweepExpired E now b0
      in case ensureCapacity E (ac_subject auth) (length (rg_accesses grant)) b of
           Inl e \<Rightarrow> (b, Inl (Issue_refused e))
         | Inr _ \<Rightarrow>
             finish_issue E
               (\<lambda>ids. \<lparr>ev_subject = ac_subject auth, ev_service = rb_serviceId (rg_bindings grant),
                      ev_destination = rb_destinationId (rg_bindings grant),
                      ev_access_ids = map ra_id (rg_accesses grant),
                      ev_internal_reference_ids = ids, ev_reason = ri_reason input,
                      ev_timestamp = be_iso E now\<rparr>)
               (issue_loop E (runtime_template E now auth input grant) draws 0 (rg_accesses grant) b))"

section \<open>Using references\<close>

text \<open>
  The record of an expired reference is dropped from \<open>recordsByHash\<close>; its entry in
  \<open>tokenValuesById\<close> stays, unlike in the other operations that find an expired record.
\<close>

definition preflightTokenUse ::
  "broker_env \<Rightarrow> int \<Rightarrow> auth_context \<Rightarrow> token_use_target \<Rightarrow> string \<Rightarrow> token_broker
    \<Rightarrow> token_broker \<times> nat gateway_result" where
  "preflightTokenUse E now auth target tokenValue b =
     (let hash = be_hash E tokenValue
      in case jmap_get (tb_recordsByHash b) hash of
           None \<Rightarrow> (b, invalid_reference ''Unknown gateway reference.'')
         | Some r \<Rightarrow>
             (let rec = tb_records b ! r
              in if life_expired now (tr_life rec)
                 then (b\<lparr>tb_recordsByHash := jmap_delete (tb_recordsByHash b) hash\<rparr>,
                       Inl (gateway_error Reference_expired ''Gateway reference has expired.''))
                 else if tr_subject rec \<noteq> ac_subject auth
                 then (b, invalid_reference ''Gateway reference is not bound to this subject.'')
                 else if tr_service rec \<noteq> ut_service target
                 then (b, invalid_reference ''Gateway reference is not bound to this service.'')
                 else if ut_destination target \<noteq> None \<and> ut_destination target \<noteq> Some (tr_destination rec)
                 then (b, invalid_reference ''Gateway reference is not bound to this destination.'')
                 else (b, Inr r)))"

definition validateTokenUse ::
  "broker_env \<Rightarrow> int \<Rightarrow> auth_context \<Rightarrow> token_use_target \<Rightarrow> string \<Rightarrow> token_broker
    \<Rightarrow> token_broker \<times> nat gateway_result" where
  "validateTokenUse E now auth target tokenValue b =
     (case preflightTokenUse E now auth target tokenValue b of
        (b', Inl e) \<Rightarrow> (b', Inl e)
      | (b', Inr r) \<Rightarrow> (refresh_record E now r b', Inr r))"

definition consumePreflightedToken ::
  "broker_env \<Rightarrow> int \<Rightarrow> nat \<Rightarrow> token_broker \<Rightarrow> token_broker \<times> unit gateway_result" where
  "consumePreflightedToken E now r b =
     (if jmap_get (tb_recordsByHash b) (tr_tokenHash (tb_records b ! r)) \<noteq> Some r \<or>
         life_expired now (tr_life (tb_records b ! r))
      then (b, Inl (gateway_error Reference_expired ''Gateway reference has expired.''))
      else (refresh_record E now r b, Inr ()))"

definition validateServiceReferenceUse ::
  "broker_env \<Rightarrow> int \<Rightarrow> auth_context \<Rightarrow> token_use_target \<Rightarrow> string \<Rightarrow> token_broker
    \<Rightarrow> token_broker \<times> nat gateway_result" where
  "validateServiceReferenceUse E now auth target tokenValue b =
     (case validateTokenUse E now auth target tokenValue b of
        (b', Inl e) \<Rightarrow> (b', Inl e)
      | (b', Inr r) \<Rightarrow>
          (if tr_kind (tb_records b' ! r) \<noteq> Kind_service
           then (b', invalid_reference ''Gateway reference is not a service reference.'')
           else (b', Inr r)))"

section \<open>Response secrets\<close>

definition responseBindingsMatch :: "response_secret_record \<Rightarrow> runtime_bindings option \<Rightarrow> bool" where
  "responseBindingsMatch s bindings \<longleftrightarrow> sr_bindings s = bindings"

text \<open>The bindings of the running callback, when it runs for this subject and service.\<close>

definition runtime_bindings_for ::
  "runtime_secrets option \<Rightarrow> string \<Rightarrow> string \<Rightarrow> runtime_bindings option" where
  "runtime_bindings_for runtime subject service =
     (case runtime of
        Some r \<Rightarrow> if rs_subject r = subject \<and> rs_service r = service then rs_bindings r else None
      | None \<Rightarrow> None)"

definition store_secret ::
  "broker_env \<Rightarrow> string \<Rightarrow> response_secret_record \<Rightarrow> token_broker \<Rightarrow> token_broker" where
  "store_secret E token s b =
     b\<lparr>tb_secrets := tb_secrets b @ [s],
       tb_responseSecretsByHash := jmap_set (tb_responseSecretsByHash b) (sr_tokenHash s) (length (tb_secrets b)),
       tb_responseSecretsById := jmap_set (tb_responseSecretsById b) (sr_id s) (length (tb_secrets b)),
       tb_responseSecretIdsByIndex := jmap_set (tb_responseSecretIdsByIndex b) (secret_index E s) (sr_id s),
       tb_tokenValuesById := jmap_set (tb_tokenValuesById b) (sr_id s) token\<rparr>"

text \<open>The end of \<open>issueOrReuseResponseSecret\<close>, when no stored secret can be reused.\<close>

definition issue_secret ::
  "broker_env \<Rightarrow> int \<Rightarrow> string \<times> string \<Rightarrow> runtime_bindings option \<Rightarrow> auth_context \<Rightarrow> string \<Rightarrow> string
    \<Rightarrow> token_broker \<Rightarrow> token_broker \<times> response_secret_issue_result gateway_result" where
  "issue_secret E now draw bindings auth service secret b =
     (case ensureCapacity E (ac_subject auth) 1 b of
        Inl e \<Rightarrow> (b, Inl e)
      | Inr _ \<Rightarrow>
          (let token = sec_token (fst draw);
               s = \<lparr>sr_id = sec_id (snd draw), sr_tokenHash = be_hash E token,
                    sr_subject = ac_subject auth, sr_service = service, sr_bindings = bindings,
                    sr_secret = secret, sr_life = new_lifetime E now\<rparr>
           in (store_secret E token s b,
               Inr \<lparr>si_token = token, si_record = length (tb_secrets b), si_reused = False\<rparr>)))"

text \<open>
  The record to reuse: stored under the index, with its token value (the empty one does not
  count), not expired and with the same bindings.
\<close>

definition reusable_secret ::
  "int \<Rightarrow> runtime_bindings option \<Rightarrow> string \<Rightarrow> token_broker \<Rightarrow> (nat \<times> string) option" where
  "reusable_secret now bindings existingId b =
     (case (jmap_get (tb_responseSecretsById b) existingId, jmap_get (tb_tokenValuesById b) existingId) of
        (Some r, Some token) \<Rightarrow>
          (if token \<noteq> [] \<and> \<not> life_expired now (sr_life (tb_secrets b ! r)) \<and>
              responseBindingsMatch (tb_secrets b ! r) bindings
           then Some (r, token) else None)
      | _ \<Rightarrow> None)"

definition issueOrReuseResponseSecret ::
  "broker_env \<Rightarrow> int \<Rightarrow> string \<times> string \<Rightarrow> runtime_secrets option \<Rightarrow> auth_context \<Rightarrow> string \<Rightarrow> string
    \<Rightarrow> token_broker \<Rightarrow> token_broker \<times> response_secret_issue_result gateway_result" where
  "issueOrReuseResponseSecret E now draw runtime auth service secret b0 =
     (let b = sweepExpired E now b0
      in if secret = [] then (b, invalid_reference ''Response secret must not be empty.'')
         else
           (let bindings = runtime_bindings_for runtime (ac_subject auth) service;
                index = responseSecretIndex E (ac_subject auth) service secret
            in case jmap_get (tb_responseSecretIdsByIndex b) index of
                 None \<Rightarrow> issue_secret E now draw bindings auth service secret b
               | Some existingId \<Rightarrow>
                   (case reusable_secret now bindings existingId b of
                      Some (r, token) \<Rightarrow>
                        (refresh_secret E now r b,
                         Inr \<lparr>si_token = token, si_record = r, si_reused = True\<rparr>)
                    | None \<Rightarrow>
                        issue_secret E now draw bindings auth service secret
                          (deleteResponseSecret existingId index b))))"

definition preflightResponseSecretUse ::
  "broker_env \<Rightarrow> int \<Rightarrow> auth_context \<Rightarrow> string \<Rightarrow> string \<Rightarrow> token_broker
    \<Rightarrow> token_broker \<times> nat gateway_result" where
  "preflightResponseSecretUse E now auth service tokenValue b =
     (case jmap_get (tb_responseSecretsByHash b) (be_hash E tokenValue) of
        None \<Rightarrow> (b, invalid_reference ''Unknown response secret reference.'')
      | Some r \<Rightarrow>
          (let s = tb_secrets b ! r
           in if life_expired now (sr_life s)
              then (deleteResponseSecret (sr_id s) (secret_index E s) b,
                    Inl (gateway_error Reference_expired ''Response secret reference has expired.''))
              else if sr_subject s \<noteq> ac_subject auth
              then (b, invalid_reference ''Response secret reference is not bound to this subject.'')
              else if sr_service s \<noteq> service
              then (b, invalid_reference ''Response secret reference is not bound to this service.'')
              else (b, Inr r)))"

definition validateResponseSecretUse ::
  "broker_env \<Rightarrow> int \<Rightarrow> auth_context \<Rightarrow> string \<Rightarrow> string \<Rightarrow> token_broker
    \<Rightarrow> token_broker \<times> nat gateway_result" where
  "validateResponseSecretUse E now auth service tokenValue b =
     (case preflightResponseSecretUse E now auth service tokenValue b of
        (b', Inl e) \<Rightarrow> (b', Inl e)
      | (b', Inr r) \<Rightarrow> (refresh_secret E now r b', Inr r))"

definition consumePreflightedResponseSecret ::
  "broker_env \<Rightarrow> int \<Rightarrow> nat \<Rightarrow> token_broker \<Rightarrow> token_broker \<times> unit gateway_result" where
  "consumePreflightedResponseSecret E now r b =
     (if jmap_get (tb_responseSecretsByHash b) (sr_tokenHash (tb_secrets b ! r)) \<noteq> Some r \<or>
         life_expired now (sr_life (tb_secrets b ! r))
      then (b, Inl (gateway_error Reference_expired ''Response secret reference has expired.''))
      else (refresh_secret E now r b, Inr ()))"

section \<open>Secrets the gateway already has references for\<close>

text \<open>
  \<open>latestConfiguredToken\<close>: the loop drops expired records and collects the matching ones in map
  order; the stable sort by last use, then by issue, both descending, puts the match first.
\<close>

definition record_matches :: "string \<Rightarrow> string \<Rightarrow> string list \<Rightarrow> token_record \<Rightarrow> bool" where
  "record_matches subject service credentialIds rec \<longleftrightarrow>
     tr_subject rec = subject \<and> tr_service rec = service \<and> tr_kind rec = Kind_credential \<and>
     (case tr_credentialId rec of Some c \<Rightarrow> c \<in> set credentialIds | None \<Rightarrow> False)"

definition latest_first :: "token_record \<Rightarrow> int \<times> int" where
  "latest_first rec = (- lt_lastUsedAt (tr_life rec), - lt_issuedAt (tr_life rec))"

definition latestConfiguredToken ::
  "broker_env \<Rightarrow> int \<Rightarrow> string \<Rightarrow> string \<Rightarrow> string list \<Rightarrow> token_broker
    \<Rightarrow> token_broker \<times> configured_token_match option" where
  "latestConfiguredToken E now subject service credentialIds b0 =
     (let b = fst (drop_records (\<lambda>r. life_expired now (tr_life r)) (b0, 0));
          matches = filter (\<lambda>r. record_matches subject service credentialIds (tb_records b ! r))
                      (map snd (tb_recordsByHash b))
      in case sort_key (\<lambda>r. latest_first (tb_records b ! r)) matches of
           [] \<Rightarrow> (b, None)
         | r # _ \<Rightarrow>
             (case jmap_get (tb_tokenValuesById b) (tr_id (tb_records b ! r)) of
                None \<Rightarrow> (b, None)
              | Some token \<Rightarrow>
                  (if token = [] then (b, None)
                   else (refresh_record E now r b, Some \<lparr>cm_token = token, cm_record = r\<rparr>))))"

definition configured_match ::
  "broker_env \<Rightarrow> int \<Rightarrow> auth_context \<Rightarrow> string \<Rightarrow> string \<Rightarrow> token_broker
    \<Rightarrow> token_broker \<times> configured_token_match option" where
  "configured_match E now auth service secret b =
     (case jmap_get (gc_services (be_config E)) service of
        None \<Rightarrow> (b, None)
      | Some configured \<Rightarrow>
          (let credentialIds = map cr_id (filter (\<lambda>c. cr_secret c = secret) (sc_credentials configured))
           in if credentialIds = [] then (b, None)
              else latestConfiguredToken E now (ac_subject auth) service credentialIds b))"

definition findConfiguredTokenForSecret ::
  "broker_env \<Rightarrow> int \<Rightarrow> runtime_secrets option \<Rightarrow> auth_context \<Rightarrow> string \<Rightarrow> string \<Rightarrow> token_broker
    \<Rightarrow> token_broker \<times> configured_token_match option" where
  "findConfiguredTokenForSecret E now runtime auth service secret b =
     (case runtime of
        Some rt \<Rightarrow>
          (if rs_subject rt = ac_subject auth \<and> rs_service rt = service
           then (let credentialIds = map fst (filter (\<lambda>(i, candidate). candidate = secret) (rs_secrets rt))
                 in case latestConfiguredToken E now (ac_subject auth) service credentialIds b of
                      (b', Some m) \<Rightarrow> (b', Some m)
                    | (b', None) \<Rightarrow> configured_match E now auth service secret b')
           else configured_match E now auth service secret b)
      | None \<Rightarrow> configured_match E now auth service secret b)"

text \<open>\<open>withRuntimeSecrets\<close> runs the callback with the store set; here the callback takes it.\<close>

definition withRuntimeSecrets ::
  "auth_context \<Rightarrow> string \<Rightarrow> (string, string) jmap \<Rightarrow> (runtime_secrets option \<Rightarrow> 'a)
    \<Rightarrow> runtime_bindings option \<Rightarrow> 'a" where
  "withRuntimeSecrets auth service secrets callback bindings =
     callback (Some \<lparr>rs_subject = ac_subject auth, rs_service = service, rs_secrets = secrets,
                     rs_bindings = bindings\<rparr>)"

definition inspectResponseToken ::
  "broker_env \<Rightarrow> int \<Rightarrow> auth_context \<Rightarrow> string \<Rightarrow> string \<Rightarrow> token_broker
    \<Rightarrow> token_broker \<times> token_inspection" where
  "inspectResponseToken E now auth service tokenValue b =
     (let hash = be_hash E tokenValue
      in case jmap_get (tb_recordsByHash b) hash of
           Some r \<Rightarrow>
             (let rec = tb_records b ! r
              in if life_expired now (tr_life rec)
                 then (deleteConfiguredToken hash (tr_id rec) b, Token_invalid Expired_token)
                 else if tr_subject rec \<noteq> ac_subject auth then (b, Token_invalid Wrong_subject)
                 else if tr_service rec \<noteq> service then (b, Token_invalid Wrong_service)
                 else (refresh_record E now r b, Token_valid))
         | None \<Rightarrow>
             (case jmap_get (tb_responseSecretsByHash b) hash of
                Some r \<Rightarrow>
                  (let s = tb_secrets b ! r
                   in if life_expired now (sr_life s)
                      then (deleteResponseSecret (sr_id s) (secret_index E s) b, Token_invalid Expired_token)
                      else if sr_subject s \<noteq> ac_subject auth then (b, Token_invalid Wrong_subject)
                      else if sr_service s \<noteq> service then (b, Token_invalid Wrong_service)
                      else (refresh_secret E now r b, Token_valid))
              | None \<Rightarrow> (b, Token_invalid Unknown_token)))"

section \<open>Aggregates, invalidation, capacity\<close>

definition filter_agrees :: "'a option \<Rightarrow> 'a option \<Rightarrow> bool" where
  "filter_agrees wanted actual \<longleftrightarrow> wanted = None \<or> actual = wanted"

definition referenceMatches :: "string \<Rightarrow> string option \<Rightarrow> string option \<Rightarrow> reference_filter \<Rightarrow> bool" where
  "referenceMatches subject serviceId credentialId input \<longleftrightarrow>
     filter_agrees (rf_subject input) (Some subject) \<and>
     filter_agrees (rf_serviceId input) serviceId \<and>
     filter_agrees (rf_credentialId input) credentialId"

definition record_selected :: "reference_filter \<Rightarrow> token_record \<Rightarrow> bool" where
  "record_selected input rec =
     referenceMatches (tr_subject rec) (tr_serviceId rec) (tr_credentialId rec) input"

definition secret_selected :: "reference_filter \<Rightarrow> response_secret_record \<Rightarrow> bool" where
  "secret_selected input s \<longleftrightarrow>
     rf_credentialId input = None \<and>
     referenceMatches (sr_subject s) (map_option rb_serviceId (sr_bindings s)) None input"

record aggregate_counts =
  ag_gref_active :: nat
  ag_gref_expired :: nat
  ag_gref_invalid :: nat
  ag_sec_active :: nat
  ag_sec_expired :: nat
  ag_sec_invalid :: nat

definition referenceAggregates ::
  "broker_env \<Rightarrow> int \<Rightarrow> reference_filter \<Rightarrow> token_broker \<Rightarrow> token_broker \<times> aggregate_counts" where
  "referenceAggregates E now input b0 =
     (let b = sweepExpired E now b0
      in (b, \<lparr>ag_gref_active =
                length (filter (\<lambda>(h, r). record_selected input (tb_records b ! r)) (tb_recordsByHash b)),
              ag_gref_expired = 0, ag_gref_invalid = 0,
              ag_sec_active =
                length (filter (\<lambda>(i, r). secret_selected input (tb_secrets b ! r)) (tb_responseSecretsById b)),
              ag_sec_expired = 0, ag_sec_invalid = 0\<rparr>))"

definition invalidate ::
  "broker_env \<Rightarrow> int \<Rightarrow> reference_filter \<Rightarrow> token_broker \<Rightarrow> token_broker \<times> nat" where
  "invalidate E now input b =
     drop_secrets E (secret_selected input)
       (drop_records (record_selected input) (sweepExpired E now b, 0))"

record broker_counts =
  st_configured :: nat
  st_responseSecrets :: nat
  st_tokenValues :: nat

definition broker_stats :: "token_broker \<Rightarrow> broker_counts" where
  "broker_stats b =
     \<lparr>st_configured = length (tb_recordsByHash b), st_responseSecrets = length (tb_responseSecretsById b),
      st_tokenValues = length (tb_tokenValuesById b)\<rparr>"

fun new_indexes ::
  "broker_env \<Rightarrow> int \<Rightarrow> runtime_secrets option \<Rightarrow> auth_context \<Rightarrow> string \<Rightarrow> string list \<Rightarrow> string list
    \<Rightarrow> token_broker \<Rightarrow> token_broker \<times> string list" where
  "new_indexes E now runtime auth service [] indexes b = (b, indexes)"
| "new_indexes E now runtime auth service (secret # secrets) indexes b =
     (case findConfiguredTokenForSecret E now runtime auth service secret b of
        (b', Some _) \<Rightarrow> new_indexes E now runtime auth service secrets indexes b'
      | (b', None) \<Rightarrow>
          (let index = responseSecretIndex E (ac_subject auth) service secret;
               existing = (case jmap_get (tb_responseSecretIdsByIndex b') index of
                             None \<Rightarrow> None
                           | Some i \<Rightarrow> jmap_get (tb_responseSecretsById b') i)
           in case existing of
                Some r \<Rightarrow>
                  (if \<not> life_expired now (sr_life (tb_secrets b' ! r))
                   then new_indexes E now runtime auth service secrets indexes b'
                   else new_indexes E now runtime auth service secrets (List.insert index indexes) b')
              | None \<Rightarrow> new_indexes E now runtime auth service secrets (List.insert index indexes) b'))"

definition assertResponseSecretCapacity ::
  "broker_env \<Rightarrow> int \<Rightarrow> runtime_secrets option \<Rightarrow> auth_context \<Rightarrow> string \<Rightarrow> string list
    \<Rightarrow> token_broker \<Rightarrow> token_broker \<times> unit gateway_result" where
  "assertResponseSecretCapacity E now runtime auth service secrets b =
     (case new_indexes E now runtime auth service secrets [] (sweepExpired E now b) of
        (b', indexes) \<Rightarrow> (b', ensureCapacity E (ac_subject auth) (length indexes) b'))"

end
