(* ===== verification/TokenInvariants.thy ===== *)
theory TokenInvariants
  imports Tokens
begin

text \<open>
  The invariant of the token broker and the proof that every step the operations are made of
  keeps it: the maps are consistent with the records, every stored record has its token value,
  lifetimes respect the maximum, and the stores respect the limits.
\<close>

section \<open>The invariant\<close>

definition gref_entry :: "broker_env \<Rightarrow> token_broker \<Rightarrow> string \<Rightarrow> nat \<Rightarrow> bool" where
  "gref_entry E b h r \<longleftrightarrow>
     r < length (tb_records b) \<and> tr_tokenHash (tb_records b ! r) = h \<and>
     (\<exists>u. tr_id (tb_records b ! r) = gref_id u) \<and>
     (\<exists>t. jmap_get (tb_tokenValuesById b) (tr_id (tb_records b ! r)) = Some t \<and> t \<noteq> [] \<and> be_hash E t = h)"

definition gref_ok :: "broker_env \<Rightarrow> token_broker \<Rightarrow> bool" where
  "gref_ok E b \<longleftrightarrow>
     jmap_ok (tb_recordsByHash b) \<and> jmap_ok (tb_tokenValuesById b) \<and>
     (\<forall>h r. jmap_get (tb_recordsByHash b) h = Some r \<longrightarrow> gref_entry E b h r)"

definition sec_entry :: "broker_env \<Rightarrow> token_broker \<Rightarrow> string \<Rightarrow> nat \<Rightarrow> bool" where
  "sec_entry E b i r \<longleftrightarrow>
     r < length (tb_secrets b) \<and> sr_id (tb_secrets b ! r) = i \<and> (\<exists>u. i = sec_id u) \<and>
     jmap_get (tb_responseSecretsByHash b) (sr_tokenHash (tb_secrets b ! r)) = Some r \<and>
     jmap_get (tb_responseSecretIdsByIndex b) (secret_index E (tb_secrets b ! r)) = Some i \<and>
     (\<exists>t. jmap_get (tb_tokenValuesById b) i = Some t \<and> t \<noteq> [] \<and>
        be_hash E t = sr_tokenHash (tb_secrets b ! r))"

definition sec_ok :: "broker_env \<Rightarrow> token_broker \<Rightarrow> bool" where
  "sec_ok E b \<longleftrightarrow>
     jmap_ok (tb_responseSecretsByHash b) \<and> jmap_ok (tb_responseSecretsById b) \<and>
     jmap_ok (tb_responseSecretIdsByIndex b) \<and>
     (\<forall>i r. jmap_get (tb_responseSecretsById b) i = Some r \<longrightarrow> sec_entry E b i r) \<and>
     (\<forall>h r. jmap_get (tb_responseSecretsByHash b) h = Some r \<longrightarrow>
        jmap_get (tb_responseSecretsById b) (sr_id (tb_secrets b ! r)) = Some r \<and>
        sr_tokenHash (tb_secrets b ! r) = h) \<and>
     (\<forall>x i. jmap_get (tb_responseSecretIdsByIndex b) x = Some i \<longrightarrow>
        (\<exists>r. jmap_get (tb_responseSecretsById b) i = Some r \<and> secret_index E (tb_secrets b ! r) = x))"

definition life_ok :: "broker_env \<Rightarrow> lifetime \<Rightarrow> bool" where
  "life_ok E l \<longleftrightarrow>
     lt_idleExpiresAt l \<le> lt_maxExpiresAt l \<and>
     lt_maxExpiresAt l = lt_issuedAt l + tc_maxTtlMs (gc_tokens (be_config E))"

definition lives_ok :: "broker_env \<Rightarrow> token_broker \<Rightarrow> bool" where
  "lives_ok E b \<longleftrightarrow>
     list_all (\<lambda>r. life_ok E (tr_life r)) (tb_records b) \<and>
     list_all (\<lambda>s. life_ok E (sr_life s)) (tb_secrets b)"

definition capacity_ok :: "broker_env \<Rightarrow> token_broker \<Rightarrow> bool" where
  "capacity_ok E b \<longleftrightarrow>
     length (tb_recordsByHash b) + length (tb_responseSecretsById b)
       \<le> lc_maxTokenRecords (gc_limits (be_config E)) \<and>
     (\<forall>u. count_subject u b \<le> lc_maxTokenRecordsPerSubject (gc_limits (be_config E)))"

text \<open>What the configuration loader guarantees of the lifetimes.\<close>

definition ttls_ok :: "broker_env \<Rightarrow> bool" where
  "ttls_ok E \<longleftrightarrow> 0 < tc_idleTtlMs (gc_tokens (be_config E)) \<and>
     tc_idleTtlMs (gc_tokens (be_config E)) \<le> tc_maxTtlMs (gc_tokens (be_config E))"

definition broker_ok :: "broker_env \<Rightarrow> token_broker \<Rightarrow> bool" where
  "broker_ok E b \<longleftrightarrow> gref_ok E b \<and> sec_ok E b \<and> lives_ok E b \<and> capacity_ok E b"

lemma broker_okI [intro]:
  "gref_ok E b \<Longrightarrow> sec_ok E b \<Longrightarrow> lives_ok E b \<Longrightarrow> capacity_ok E b \<Longrightarrow> broker_ok E b"
  by (simp add: broker_ok_def)

lemma broker_okD:
  assumes "broker_ok E b"
  shows "gref_ok E b" "sec_ok E b" "lives_ok E b" "capacity_ok E b"
  using assms by (simp_all add: broker_ok_def)

lemma broker_ok_new [inv_intros]: "broker_ok E new_token_broker"
  by (simp add: broker_ok_def gref_ok_def sec_ok_def lives_ok_def capacity_ok_def new_token_broker_def
      count_subject_def)

section \<open>Consequences\<close>

lemma ids_differ [simp]: "gref_id u \<noteq> sec_id v" "sec_id v \<noteq> gref_id u"
  by (simp_all add: gref_id_def sec_id_def)

lemma gref_okD:
  "gref_ok E b \<Longrightarrow> jmap_get (tb_recordsByHash b) h = Some r \<Longrightarrow> gref_entry E b h r"
  by (simp add: gref_ok_def)

lemma gref_same_id:
  assumes "gref_ok E b" and "jmap_get (tb_recordsByHash b) h = Some r"
    and "jmap_get (tb_recordsByHash b) h' = Some r'"
    and "tr_id (tb_records b ! r) = tr_id (tb_records b ! r')"
  shows "h = h'"
  using gref_okD [OF assms(1,2)] gref_okD [OF assms(1,3)] assms(4) by (auto simp: gref_entry_def)

lemma sec_okD:
  "sec_ok E b \<Longrightarrow> jmap_get (tb_responseSecretsById b) i = Some r \<Longrightarrow> sec_entry E b i r"
  by (simp add: sec_ok_def)

lemma sec_ok_hash:
  "sec_ok E b \<Longrightarrow> jmap_get (tb_responseSecretsByHash b) h = Some r \<Longrightarrow>
    jmap_get (tb_responseSecretsById b) (sr_id (tb_secrets b ! r)) = Some r \<and>
    sr_tokenHash (tb_secrets b ! r) = h"
  by (simp add: sec_ok_def)

lemma sec_ok_index:
  "sec_ok E b \<Longrightarrow> jmap_get (tb_responseSecretIdsByIndex b) x = Some i \<Longrightarrow>
    \<exists>r. jmap_get (tb_responseSecretsById b) i = Some r \<and> secret_index E (tb_secrets b ! r) = x"
  by (simp add: sec_ok_def)

section \<open>Deleting a configured reference\<close>

lemma gref_ok_delete:
  assumes ok: "gref_ok E b" and h: "jmap_get (tb_recordsByHash b) h = Some r"
    and i: "i = tr_id (tb_records b ! r)"
  shows "gref_ok E (deleteConfiguredToken h i b)"
proof -
  have "gref_entry E (deleteConfiguredToken h i b) h' r'"
    if "jmap_get (tb_recordsByHash b) h' = Some r'" "h' \<noteq> h" for h' r'
  proof -
    have "tr_id (tb_records b ! r') \<noteq> i" using gref_same_id [OF ok that(1) h] that(2) i by auto
    then show ?thesis
      using gref_okD [OF ok that(1)] by (simp add: gref_entry_def deleteConfiguredToken_def)
  qed
  then show ?thesis using ok by (simp add: gref_ok_def deleteConfiguredToken_def)
qed

lemma sec_ok_values:
  assumes "sec_ok E b" and "\<And>u. jmap_get vs (sec_id u) = jmap_get (tb_tokenValuesById b) (sec_id u)"
  shows "sec_ok E (b\<lparr>tb_tokenValuesById := vs\<rparr>)"
proof -
  have e: "sec_entry E (b\<lparr>tb_tokenValuesById := vs\<rparr>) i r = sec_entry E b i r" for i r
    using assms(2) by (auto simp: sec_entry_def secret_index_def)
  show ?thesis using assms(1) by (simp add: sec_ok_def e)
qed

lemma sec_ok_records [simp]:
  "sec_ok E (b\<lparr>tb_records := rs\<rparr>) = sec_ok E b"
  "sec_ok E (b\<lparr>tb_recordsByHash := m\<rparr>) = sec_ok E b"
  by (simp_all add: sec_ok_def sec_entry_def)

lemma sec_ok_delete_gref:
  assumes "sec_ok E b" and "i = gref_id u"
  shows "sec_ok E (deleteConfiguredToken h i b)"
proof -
  have "sec_ok E (b\<lparr>tb_tokenValuesById := jmap_delete (tb_tokenValuesById b) i\<rparr>)"
    using assms by (intro sec_ok_values) simp_all
  then show ?thesis by (simp add: deleteConfiguredToken_def sec_ok_def sec_entry_def)
qed

text \<open>Dropping records, from either store, keeps lifetimes and limits.\<close>

lemma capacity_ok_less:
  assumes "capacity_ok E b" and "tb_records b' = tb_records b" and "tb_secrets b' = tb_secrets b"
    and "tb_recordsByHash b' = tb_recordsByHash b \<or> tb_recordsByHash b' = jmap_delete (tb_recordsByHash b) h"
    and "tb_responseSecretsById b' = tb_responseSecretsById b \<or>
      tb_responseSecretsById b' = jmap_delete (tb_responseSecretsById b) i"
  shows "capacity_ok E b'"
proof -
  have "length (tb_recordsByHash b') \<le> length (tb_recordsByHash b)"
    "length (tb_responseSecretsById b') \<le> length (tb_responseSecretsById b)"
    using assms(4,5) jmap_size_delete_le by auto
  moreover have "count_subject u b' \<le> count_subject u b" for u
    unfolding count_subject_def assms(2,3)
    using assms(4,5) length_filter_delete by (intro add_mono) auto
  ultimately show ?thesis
    using assms(1) by (auto simp: capacity_ok_def intro: le_trans)
qed

lemma capacity_ok_delete_gref: "capacity_ok E b \<Longrightarrow> capacity_ok E (deleteConfiguredToken h i b)"
  by (rule capacity_ok_less [where b = b and h = h]) (simp_all add: deleteConfiguredToken_def)

lemma lives_ok_delete_gref [simp]: "lives_ok E (deleteConfiguredToken h i b) = lives_ok E b"
  by (simp add: lives_ok_def deleteConfiguredToken_def)

lemma broker_ok_delete_gref [inv_intros]:
  assumes "broker_ok E b" and "jmap_get (tb_recordsByHash b) h = Some r"
    and "i = tr_id (tb_records b ! r)"
  shows "broker_ok E (deleteConfiguredToken h i b)"
proof -
  note ok = broker_okD [OF assms(1)]
  obtain u where "i = gref_id u" using gref_okD [OF ok(1) assms(2)] assms(3) by (auto simp: gref_entry_def)
  then show ?thesis
    using ok gref_ok_delete [OF ok(1) assms(2,3)] sec_ok_delete_gref capacity_ok_delete_gref
    by (intro broker_okI) simp_all
qed

lemma broker_ok_forget_hash [inv_intros]:
  assumes "broker_ok E b"
  shows "broker_ok E (b\<lparr>tb_recordsByHash := jmap_delete (tb_recordsByHash b) h\<rparr>)"
proof -
  note ok = broker_okD [OF assms]
  have "gref_ok E (b\<lparr>tb_recordsByHash := jmap_delete (tb_recordsByHash b) h\<rparr>)"
    using ok(1) by (simp add: gref_ok_def gref_entry_def)
  moreover have "capacity_ok E (b\<lparr>tb_recordsByHash := jmap_delete (tb_recordsByHash b) h\<rparr>)"
    using ok(4) by (rule capacity_ok_less [where h = h]) simp_all
  ultimately show ?thesis using ok(2,3) by (intro broker_okI) (simp_all add: lives_ok_def)
qed

section \<open>Deleting a response secret\<close>

lemma delete_secret_maps:
  assumes "jmap_get (tb_responseSecretsById b) i = Some r"
  shows "deleteResponseSecret i x b =
    b\<lparr>tb_responseSecretsByHash := jmap_delete (tb_responseSecretsByHash b) (sr_tokenHash (tb_secrets b ! r)),
      tb_responseSecretsById := jmap_delete (tb_responseSecretsById b) i,
      tb_responseSecretIdsByIndex := jmap_delete (tb_responseSecretIdsByIndex b) x,
      tb_tokenValuesById := jmap_delete (tb_tokenValuesById b) i\<rparr>"
  using assms by (simp add: deleteResponseSecret_def)

lemma gref_ok_delete_sec:
  assumes "gref_ok E b" and "i = sec_id u"
  shows "gref_ok E (deleteResponseSecret i x b)"
proof -
  have "gref_entry E (deleteResponseSecret i x b) h r" if "gref_entry E b h r" for h r
    using that assms(2) by (auto simp: gref_entry_def deleteResponseSecret_def)
  then show ?thesis using assms(1) by (simp add: gref_ok_def deleteResponseSecret_def)
qed

lemma sec_ok_delete:
  assumes ok: "sec_ok E b" and i: "jmap_get (tb_responseSecretsById b) i = Some r"
    and x: "x = secret_index E (tb_secrets b ! r)"
  shows "sec_ok E (deleteResponseSecret i x b)"
proof -
  let ?b = "deleteResponseSecret i x b"
  note eq = delete_secret_maps [OF i, of x]
  have r: "sr_id (tb_secrets b ! r) = i"
    "jmap_get (tb_responseSecretsByHash b) (sr_tokenHash (tb_secrets b ! r)) = Some r"
    "jmap_get (tb_responseSecretIdsByIndex b) x = Some i"
    using sec_okD [OF ok i] by (simp_all add: sec_entry_def x)
  have "sec_entry E ?b i' r'" if r': "jmap_get (tb_responseSecretsById b) i' = Some r'" and ne: "i' \<noteq> i" for i' r'
  proof -
    have e: "sr_id (tb_secrets b ! r') = i'"
      "jmap_get (tb_responseSecretsByHash b) (sr_tokenHash (tb_secrets b ! r')) = Some r'"
      "jmap_get (tb_responseSecretIdsByIndex b) (secret_index E (tb_secrets b ! r')) = Some i'"
      using sec_okD [OF ok r'] by (simp_all add: sec_entry_def)
    have "sr_tokenHash (tb_secrets b ! r') \<noteq> sr_tokenHash (tb_secrets b ! r)"
      using e(1,2) r(1,2) ne by (metis option.inject)
    moreover have "secret_index E (tb_secrets b ! r') \<noteq> x"
      using e(3) r(3) ne by (metis option.inject)
    ultimately show ?thesis using sec_okD [OF ok r'] ne by (simp add: sec_entry_def eq)
  qed
  moreover have "sr_id (tb_secrets b ! r') \<noteq> i"
    if h': "jmap_get (tb_responseSecretsByHash b) h' = Some r'" "h' \<noteq> sr_tokenHash (tb_secrets b ! r)" for h' r'
    using sec_ok_hash [OF ok h'(1)] h'(2) i by auto
  moreover have "i' \<noteq> i" if x': "jmap_get (tb_responseSecretIdsByIndex b) x' = Some i'" "x' \<noteq> x" for x' i'
    using sec_ok_index [OF ok x'(1)] x'(2) i x by auto
  moreover have "jmap_ok (tb_responseSecretsByHash b)" "jmap_ok (tb_responseSecretsById b)"
    "jmap_ok (tb_responseSecretIdsByIndex b)" using ok by (simp_all add: sec_ok_def)
  ultimately show ?thesis
    using sec_ok_hash [OF ok] sec_ok_index [OF ok] unfolding sec_ok_def
    by (intro conjI allI impI) (auto simp: eq split: if_splits)
qed

lemma broker_ok_delete_sec [inv_intros]:
  assumes "broker_ok E b" and "jmap_get (tb_responseSecretsById b) i = Some r"
    and "x = secret_index E (tb_secrets b ! r)"
  shows "broker_ok E (deleteResponseSecret i x b)"
proof -
  note ok = broker_okD [OF assms(1)]
  obtain u where "i = sec_id u" using sec_okD [OF ok(2) assms(2)] by (auto simp: sec_entry_def)
  moreover have "capacity_ok E (deleteResponseSecret i x b)"
    using ok(4) by (rule capacity_ok_less [where i = i]) (simp_all add: deleteResponseSecret_def)
  moreover have "lives_ok E (deleteResponseSecret i x b) = lives_ok E b"
    by (simp add: lives_ok_def deleteResponseSecret_def)
  ultimately show ?thesis
    using ok gref_ok_delete_sec [OF ok(1)] sec_ok_delete [OF ok(2) assms(2,3)] by (intro broker_okI) simp_all
qed

section \<open>Refreshing\<close>

lemma life_ok_refreshed [simp]: "life_ok E l \<Longrightarrow> life_ok E (life_refreshed E now l)"
  by (simp add: life_ok_def life_refreshed_def)

lemma refresh_record_nth:
  "tb_records (refresh_record E now r b) ! q =
    (if q = r \<and> r < length (tb_records b)
     then (tb_records b ! r)\<lparr>tr_life := life_refreshed E now (tr_life (tb_records b ! r))\<rparr>
     else tb_records b ! q)"
  by (auto simp: refresh_record_def nth_update_if)

lemma refresh_record_fields [simp]:
  "tb_secrets (refresh_record E now r b) = tb_secrets b"
  "tb_recordsByHash (refresh_record E now r b) = tb_recordsByHash b"
  "tb_responseSecretsByHash (refresh_record E now r b) = tb_responseSecretsByHash b"
  "tb_responseSecretIdsByIndex (refresh_record E now r b) = tb_responseSecretIdsByIndex b"
  "tb_responseSecretsById (refresh_record E now r b) = tb_responseSecretsById b"
  "tb_tokenValuesById (refresh_record E now r b) = tb_tokenValuesById b"
  "length (tb_records (refresh_record E now r b)) = length (tb_records b)"
  "tr_id (tb_records (refresh_record E now r b) ! q) = tr_id (tb_records b ! q)"
  "tr_tokenHash (tb_records (refresh_record E now r b) ! q) = tr_tokenHash (tb_records b ! q)"
  "tr_subject (tb_records (refresh_record E now r b) ! q) = tr_subject (tb_records b ! q)"
  "tr_service (tb_records (refresh_record E now r b) ! q) = tr_service (tb_records b ! q)"
  "tr_destination (tb_records (refresh_record E now r b) ! q) = tr_destination (tb_records b ! q)"
  "tr_kind (tb_records (refresh_record E now r b) ! q) = tr_kind (tb_records b ! q)"
  "tr_credentialId (tb_records (refresh_record E now r b) ! q) = tr_credentialId (tb_records b ! q)"
  by (auto simp: refresh_record_def nth_update_if)

lemma broker_ok_refresh_record [inv_intros]:
  assumes "broker_ok E b"
  shows "broker_ok E (refresh_record E now r b)"
proof -
  note ok = broker_okD [OF assms]
  have "gref_ok E (refresh_record E now r b)" using ok(1) by (simp add: gref_ok_def gref_entry_def)
  moreover have "sec_ok E (refresh_record E now r b)" using ok(2) by (simp add: refresh_record_def)
  moreover have "lives_ok E (refresh_record E now r b)"
    using ok(3) unfolding lives_ok_def refresh_record_def
    by (simp add: list_all_update_self [where f = "\<lambda>x. x\<lparr>tr_life := life_refreshed E now (tr_life x)\<rparr>"])
  moreover have "capacity_ok E (refresh_record E now r b)"
    using ok(4) by (simp add: capacity_ok_def count_subject_def)
  ultimately show ?thesis ..
qed

lemma refresh_secret_nth:
  "tb_secrets (refresh_secret E now r b) ! q =
    (if q = r \<and> r < length (tb_secrets b)
     then (tb_secrets b ! r)\<lparr>sr_life := life_refreshed E now (sr_life (tb_secrets b ! r))\<rparr>
     else tb_secrets b ! q)"
  by (auto simp: refresh_secret_def nth_update_if)

lemma refresh_secret_fields [simp]:
  "tb_records (refresh_secret E now r b) = tb_records b"
  "tb_recordsByHash (refresh_secret E now r b) = tb_recordsByHash b"
  "tb_responseSecretsByHash (refresh_secret E now r b) = tb_responseSecretsByHash b"
  "tb_responseSecretIdsByIndex (refresh_secret E now r b) = tb_responseSecretIdsByIndex b"
  "tb_responseSecretsById (refresh_secret E now r b) = tb_responseSecretsById b"
  "tb_tokenValuesById (refresh_secret E now r b) = tb_tokenValuesById b"
  "length (tb_secrets (refresh_secret E now r b)) = length (tb_secrets b)"
  "sr_id (tb_secrets (refresh_secret E now r b) ! q) = sr_id (tb_secrets b ! q)"
  "sr_tokenHash (tb_secrets (refresh_secret E now r b) ! q) = sr_tokenHash (tb_secrets b ! q)"
  "sr_subject (tb_secrets (refresh_secret E now r b) ! q) = sr_subject (tb_secrets b ! q)"
  "sr_service (tb_secrets (refresh_secret E now r b) ! q) = sr_service (tb_secrets b ! q)"
  "sr_secret (tb_secrets (refresh_secret E now r b) ! q) = sr_secret (tb_secrets b ! q)"
  "sr_bindings (tb_secrets (refresh_secret E now r b) ! q) = sr_bindings (tb_secrets b ! q)"
  "secret_index E' (tb_secrets (refresh_secret E now r b) ! q) = secret_index E' (tb_secrets b ! q)"
  by (auto simp: refresh_secret_def nth_update_if secret_index_def)

lemma broker_ok_refresh_secret [inv_intros]:
  assumes "broker_ok E b"
  shows "broker_ok E (refresh_secret E now r b)"
proof -
  note ok = broker_okD [OF assms]
  have "gref_ok E (refresh_secret E now r b)" using ok(1) by (simp add: gref_ok_def gref_entry_def)
  moreover have "sec_ok E (refresh_secret E now r b)" using ok(2) by (simp add: sec_ok_def sec_entry_def)
  moreover have "lives_ok E (refresh_secret E now r b)"
    using ok(3) unfolding lives_ok_def refresh_secret_def
    by (simp add: list_all_update_self [where f = "\<lambda>x. x\<lparr>sr_life := life_refreshed E now (sr_life x)\<rparr>"])
  moreover have "capacity_ok E (refresh_secret E now r b)"
    using ok(4) by (simp add: capacity_ok_def count_subject_def)
  ultimately show ?thesis ..
qed

end
