(* ===== verification/TokenSteps.thy ===== *)
theory TokenSteps
  imports TokenInvariants
begin

text \<open>
  The loops and the operations of the token broker, over the invariant: what the sweep and the
  invalidation drop, what issuing adds, and that every operation keeps the invariant.
\<close>

section \<open>Loops that drop references\<close>

lemma delete_gref_fields [simp]:
  "tb_records (deleteConfiguredToken h i b) = tb_records b"
  "tb_secrets (deleteConfiguredToken h i b) = tb_secrets b"
  "tb_recordsByHash (deleteConfiguredToken h i b) = jmap_delete (tb_recordsByHash b) h"
  "tb_responseSecretsByHash (deleteConfiguredToken h i b) = tb_responseSecretsByHash b"
  "tb_responseSecretIdsByIndex (deleteConfiguredToken h i b) = tb_responseSecretIdsByIndex b"
  "tb_responseSecretsById (deleteConfiguredToken h i b) = tb_responseSecretsById b"
  "tb_tokenValuesById (deleteConfiguredToken h i b) = jmap_delete (tb_tokenValuesById b) i"
  by (simp_all add: deleteConfiguredToken_def)

lemma delete_sec_fields [simp]:
  "tb_records (deleteResponseSecret i x b) = tb_records b"
  "tb_secrets (deleteResponseSecret i x b) = tb_secrets b"
  "tb_recordsByHash (deleteResponseSecret i x b) = tb_recordsByHash b"
  "tb_responseSecretsById (deleteResponseSecret i x b) = jmap_delete (tb_responseSecretsById b) i"
  "tb_responseSecretIdsByIndex (deleteResponseSecret i x b) = jmap_delete (tb_responseSecretIdsByIndex b) x"
  "tb_tokenValuesById (deleteResponseSecret i x b) = jmap_delete (tb_tokenValuesById b) i"
  by (simp_all add: deleteResponseSecret_def)

text \<open>What a dropping loop leaves alone: the records themselves; the maps only lose keys.\<close>

definition same_stores :: "token_broker \<Rightarrow> token_broker \<Rightarrow> bool" where
  "same_stores b b' \<longleftrightarrow> tb_records b' = tb_records b \<and> tb_secrets b' = tb_secrets b \<and>
     fst ` set (tb_tokenValuesById b') \<subseteq> fst ` set (tb_tokenValuesById b) \<and>
     fst ` set (tb_recordsByHash b') \<subseteq> fst ` set (tb_recordsByHash b) \<and>
     fst ` set (tb_responseSecretsByHash b') \<subseteq> fst ` set (tb_responseSecretsByHash b)"

lemma same_stores_refl [simp]: "same_stores b b"
  by (simp add: same_stores_def)

lemma same_stores_trans: "same_stores b b' \<Longrightarrow> same_stores b' b'' \<Longrightarrow> same_stores b b''"
  unfolding same_stores_def by (elim conjE, intro conjI) (simp, simp, (erule (1) subset_trans)+)

lemma same_storesD:
  assumes "same_stores b b'"
  shows "tb_records b' = tb_records b" and "tb_secrets b' = tb_secrets b"
  using assms by (simp_all add: same_stores_def)

lemma delete_keys_subset: "fst ` set (jmap_delete m k) \<subseteq> fst ` set m"
  by (auto simp: AList.delete_eq)

lemma same_stores_delete_gref: "same_stores b (deleteConfiguredToken h i b)"
  by (simp add: same_stores_def delete_keys_subset)

lemma same_stores_delete_sec: "same_stores b (deleteResponseSecret i x b)"
  by (simp add: same_stores_def deleteResponseSecret_def delete_keys_subset split: option.split)

lemma drop_records_loop_spec:
  assumes "broker_ok E b" and "jmap_ok es" and "set es \<subseteq> set (tb_recordsByHash b)"
    and "drop_records_loop P es (b, n) = (b', n')"
  shows "broker_ok E b' \<and> same_stores b b' \<and>
    tb_responseSecretsById b' = tb_responseSecretsById b \<and>
    tb_recordsByHash b' = jmap_delete_loop (\<lambda>r. P (tb_records b ! r)) es (tb_recordsByHash b) \<and>
    n' = n + length (filter (\<lambda>(h, r). P (tb_records b ! r)) es) \<and>
    (\<forall>i. jmap_get (tb_tokenValuesById b') i =
      (if \<exists>(h, r) \<in> set es. P (tb_records b ! r) \<and> tr_id (tb_records b ! r) = i then None
       else jmap_get (tb_tokenValuesById b) i))"
  using assms
proof (induction es arbitrary: b n)
  case Nil
  then show ?case by simp
next
  case (Cons e es)
  obtain h r where e: "e = (h, r)" by (cases e)
  have h: "h \<notin> fst ` set es" and es: "jmap_ok es" using Cons.prems(2) by (auto simp: e jmap_ok_Cons)
  show ?case
  proof (cases "P (tb_records b ! r)")
    case False
    then show ?thesis using Cons.IH [of b n] Cons.prems es by (simp add: e)
  next
    case True
    let ?b = "deleteConfiguredToken h (tr_id (tb_records b ! r)) b"
    have "jmap_get (tb_recordsByHash b) h = Some r"
      using Cons.prems(1,3) by (simp add: e broker_ok_def gref_ok_def jmap_ok_def)
    then have "broker_ok E ?b" using Cons.prems(1) broker_ok_delete_gref by blast
    moreover have "set es \<subseteq> set (tb_recordsByHash ?b)"
      using Cons.prems(3) h by (force simp: e jmap_set_delete)
    moreover have "drop_records_loop P es (?b, n + 1) = (b', n')" using Cons.prems(4) True by (simp add: e)
    ultimately show ?thesis
      using Cons.IH [of ?b "n + 1"] es True same_stores_trans [OF same_stores_delete_gref]
      by (auto simp: e)
  qed
qed

lemma drop_records_spec:
  assumes "broker_ok E b" and "drop_records P (b, n) = (b', n')"
  shows "broker_ok E b'" and "same_stores b b'"
    and "tb_responseSecretsById b' = tb_responseSecretsById b"
    and "tb_recordsByHash b' = filter (\<lambda>(h, r). \<not> P (tb_records b ! r)) (tb_recordsByHash b)"
    and "n' = n + length (filter (\<lambda>(h, r). P (tb_records b ! r)) (tb_recordsByHash b))"
    and "jmap_get (tb_tokenValuesById b') i =
      (if \<exists>(h, r) \<in> set (tb_recordsByHash b). P (tb_records b ! r) \<and> tr_id (tb_records b ! r) = i
       then None else jmap_get (tb_tokenValuesById b) i)"
proof -
  have m: "jmap_ok (tb_recordsByHash b)" using assms(1) by (simp add: broker_ok_def gref_ok_def)
  note spec = drop_records_loop_spec [OF assms(1) m subset_refl, of P n b' n']
  have "jmap_delete_loop (\<lambda>r. P (tb_records b ! r)) (tb_recordsByHash b) (tb_recordsByHash b) =
      filter (\<lambda>(h, r). \<not> P (tb_records b ! r)) (tb_recordsByHash b)"
    using jmap_delete_where_eq [OF m, of "\<lambda>r. P (tb_records b ! r)"] by (simp add: jmap_delete_where_def)
  then show "broker_ok E b'" "same_stores b b'" "tb_responseSecretsById b' = tb_responseSecretsById b"
    "tb_recordsByHash b' = filter (\<lambda>(h, r). \<not> P (tb_records b ! r)) (tb_recordsByHash b)"
    "n' = n + length (filter (\<lambda>(h, r). P (tb_records b ! r)) (tb_recordsByHash b))"
    "jmap_get (tb_tokenValuesById b') i =
      (if \<exists>(h, r) \<in> set (tb_recordsByHash b). P (tb_records b ! r) \<and> tr_id (tb_records b ! r) = i
       then None else jmap_get (tb_tokenValuesById b) i)"
    using spec assms(2) by (simp_all add: drop_records_def)
qed

lemma sec_ok_refs:
  assumes "sec_ok E b"
  shows "distinct (map snd (tb_responseSecretsById b))"
    and "(i, r) \<in> set (tb_responseSecretsById b) \<Longrightarrow> sr_id (tb_secrets b ! r) = i"
proof -
  have ok: "jmap_ok (tb_responseSecretsById b)" using assms by (simp add: sec_ok_def)
  show id: "sr_id (tb_secrets b ! r) = i" if "(i, r) \<in> set (tb_responseSecretsById b)" for i r
    using sec_okD [OF assms] that ok by (simp add: jmap_get_iff sec_entry_def)
  show "distinct (map snd (tb_responseSecretsById b))"
  proof (simp add: distinct_map inj_on_def, intro conjI ballI impI)
    show "distinct (tb_responseSecretsById b)" using ok by (auto simp: jmap_ok_def distinct_map)
    fix p q assume "p \<in> set (tb_responseSecretsById b)" "q \<in> set (tb_responseSecretsById b)" "snd p = snd q"
    then show "p = q" using id by (metis prod.collapse)
  qed
qed

lemma drop_secrets_loop_spec:
  assumes "broker_ok E b" and "distinct rs" and "set rs \<subseteq> snd ` set (tb_responseSecretsById b)"
    and "drop_secrets_loop E P rs (b, n) = (b', n')"
  shows "broker_ok E b' \<and> same_stores b b' \<and> tb_recordsByHash b' = tb_recordsByHash b \<and>
    tb_responseSecretsById b' =
      filter (\<lambda>(i, r). \<not> (r \<in> set rs \<and> P (tb_secrets b ! r))) (tb_responseSecretsById b) \<and>
    n' = n + length (filter (\<lambda>r. P (tb_secrets b ! r)) rs) \<and>
    (\<forall>i. jmap_get (tb_tokenValuesById b') i =
      (if \<exists>r \<in> set rs. P (tb_secrets b ! r) \<and> sr_id (tb_secrets b ! r) = i then None
       else jmap_get (tb_tokenValuesById b) i))"
  using assms
proof (induction rs arbitrary: b n)
  case Nil
  then show ?case by simp
next
  case (Cons r rs)
  show ?case
  proof (cases "P (tb_secrets b ! r)")
    case False
    have "filter (\<lambda>(i, q). \<not> (q \<in> set rs \<and> P (tb_secrets b ! q))) (tb_responseSecretsById b) =
        filter (\<lambda>(i, q). \<not> (q \<in> set (r # rs) \<and> P (tb_secrets b ! q))) (tb_responseSecretsById b)"
      using False by (intro filter_cong) auto
    then show ?thesis using Cons.IH [of b n] Cons.prems False by simp
  next
    case True
    let ?i = "sr_id (tb_secrets b ! r)"
    let ?b = "deleteResponseSecret ?i (secret_index E (tb_secrets b ! r)) b"
    have sec: "sec_ok E b" using Cons.prems(1) by (simp add: broker_ok_def)
    have mem: "(i, q) \<in> set (tb_responseSecretsById b) \<Longrightarrow> sr_id (tb_secrets b ! q) = i" for i q
      using sec_ok_refs(2) [OF sec] .
    obtain i where "(i, r) \<in> set (tb_responseSecretsById b)" using Cons.prems(3) by auto
    then have ir: "(?i, r) \<in> set (tb_responseSecretsById b)" using mem by blast
    have okm: "jmap_ok (tb_responseSecretsById b)" using sec unfolding sec_ok_def by blast
    have get: "jmap_get (tb_responseSecretsById b) ?i = Some r"
      by (rule jmap_get_iff [THEN iffD2, OF okm ir])
    have "j \<noteq> ?i \<longleftrightarrow> q \<noteq> r" if jq: "(j, q) \<in> set (tb_responseSecretsById b)" for j q
    proof -
      have "jmap_get (tb_responseSecretsById b) j = Some q" using jq okm by (simp add: jmap_get_iff)
      then show ?thesis using get mem [OF jq] by (metis option.inject)
    qed
    then have del: "tb_responseSecretsById ?b = filter (\<lambda>(i, q). q \<noteq> r) (tb_responseSecretsById b)"
      unfolding delete_sec_fields AList.delete_eq by (intro filter_cong) auto
    have "broker_ok E ?b" using Cons.prems(1) get by (rule broker_ok_delete_sec) simp
    moreover have "set rs \<subseteq> snd ` set (tb_responseSecretsById ?b)"
      using Cons.prems(2,3) unfolding del by force
    moreover have "drop_secrets_loop E P rs (?b, n + 1) = (b', n')" using Cons.prems(4) True by simp
    ultimately have IH: "broker_ok E b' \<and> same_stores ?b b' \<and> tb_recordsByHash b' = tb_recordsByHash ?b \<and>
        tb_responseSecretsById b' =
          filter (\<lambda>(i, r). \<not> (r \<in> set rs \<and> P (tb_secrets ?b ! r))) (tb_responseSecretsById ?b) \<and>
        n' = n + 1 + length (filter (\<lambda>r. P (tb_secrets ?b ! r)) rs) \<and>
        (\<forall>i. jmap_get (tb_tokenValuesById b') i =
          (if \<exists>r \<in> set rs. P (tb_secrets ?b ! r) \<and> sr_id (tb_secrets ?b ! r) = i then None
           else jmap_get (tb_tokenValuesById ?b) i))"
      using Cons.IH [of ?b "n + 1"] Cons.prems(2) by simp
    have "filter (\<lambda>(i, q). \<not> (q \<in> set rs \<and> P (tb_secrets b ! q)))
          (filter (\<lambda>(i, q). q \<noteq> r) (tb_responseSecretsById b)) =
        filter (\<lambda>(i, q). \<not> (q \<in> set (r # rs) \<and> P (tb_secrets b ! q))) (tb_responseSecretsById b)"
      unfolding filter_filter using True by (intro filter_cong) auto
    moreover have "same_stores b b'" using IH same_stores_trans [OF same_stores_delete_sec] by blast
    moreover have "\<forall>j. jmap_get (tb_tokenValuesById b') j =
        (if \<exists>q \<in> set (r # rs). P (tb_secrets b ! q) \<and> sr_id (tb_secrets b ! q) = j then None
         else jmap_get (tb_tokenValuesById b) j)"
    proof
      fix j
      have "jmap_get (tb_tokenValuesById b') j =
          (if \<exists>q \<in> set rs. P (tb_secrets b ! q) \<and> sr_id (tb_secrets b ! q) = j then None
           else if j = ?i then None else jmap_get (tb_tokenValuesById b) j)"
        using IH unfolding delete_sec_fields jmap_get_delete by blast
      then show "jmap_get (tb_tokenValuesById b') j =
          (if \<exists>q \<in> set (r # rs). P (tb_secrets b ! q) \<and> sr_id (tb_secrets b ! q) = j then None
           else jmap_get (tb_tokenValuesById b) j)"
        using True by auto
    qed
    ultimately show ?thesis using IH True unfolding del by simp
  qed
qed

lemma drop_secrets_spec:
  assumes "broker_ok E b" and "drop_secrets E P (b, n) = (b', n')"
  shows "broker_ok E b'" and "same_stores b b'" and "tb_recordsByHash b' = tb_recordsByHash b"
    and "tb_responseSecretsById b' = filter (\<lambda>(i, r). \<not> P (tb_secrets b ! r)) (tb_responseSecretsById b)"
    and "n' = n + length (filter (\<lambda>(i, r). P (tb_secrets b ! r)) (tb_responseSecretsById b))"
    and "jmap_get (tb_tokenValuesById b') j =
      (if \<exists>(i, r) \<in> set (tb_responseSecretsById b). P (tb_secrets b ! r) \<and> sr_id (tb_secrets b ! r) = j
       then None else jmap_get (tb_tokenValuesById b) j)"
proof -
  have "sec_ok E b" using assms(1) by (simp add: broker_ok_def)
  note spec = drop_secrets_loop_spec [OF assms(1) sec_ok_refs(1) [OF this], of P n b' n']
  have "filter (\<lambda>(i, r). \<not> (r \<in> set (map snd (tb_responseSecretsById b)) \<and> P (tb_secrets b ! r)))
      (tb_responseSecretsById b) = filter (\<lambda>(i, r). \<not> P (tb_secrets b ! r)) (tb_responseSecretsById b)"
    by (intro filter_cong) force+
  moreover have "length (filter (\<lambda>r. P (tb_secrets b ! r)) (map snd (tb_responseSecretsById b))) =
      length (filter (\<lambda>(i, r). P (tb_secrets b ! r)) (tb_responseSecretsById b))"
    by (simp add: filter_map o_def case_prod_unfold)
  moreover have "(\<exists>r \<in> set (map snd (tb_responseSecretsById b)). P (tb_secrets b ! r) \<and> sr_id (tb_secrets b ! r) = j) =
      (\<exists>(i, r) \<in> set (tb_responseSecretsById b). P (tb_secrets b ! r) \<and> sr_id (tb_secrets b ! r) = j)"
    by force
  moreover have "drop_secrets_loop E P (map snd (tb_responseSecretsById b)) (b, n) = (b', n')"
    using assms(2) by (simp add: drop_secrets_def)
  moreover have "set (map snd (tb_responseSecretsById b)) \<subseteq> snd ` set (tb_responseSecretsById b)" by simp
  ultimately have "broker_ok E b' \<and> same_stores b b' \<and> tb_recordsByHash b' = tb_recordsByHash b \<and>
      tb_responseSecretsById b' =
        filter (\<lambda>(i, r). \<not> P (tb_secrets b ! r)) (tb_responseSecretsById b) \<and>
      n' = n + length (filter (\<lambda>(i, r). P (tb_secrets b ! r)) (tb_responseSecretsById b)) \<and>
      jmap_get (tb_tokenValuesById b') j =
        (if \<exists>(i, r) \<in> set (tb_responseSecretsById b). P (tb_secrets b ! r) \<and> sr_id (tb_secrets b ! r) = j
         then None else jmap_get (tb_tokenValuesById b) j)"
    using spec by presburger
  then show "broker_ok E b'" "same_stores b b'" "tb_recordsByHash b' = tb_recordsByHash b"
    "tb_responseSecretsById b' = filter (\<lambda>(i, r). \<not> P (tb_secrets b ! r)) (tb_responseSecretsById b)"
    "n' = n + length (filter (\<lambda>(i, r). P (tb_secrets b ! r)) (tb_responseSecretsById b))"
    "jmap_get (tb_tokenValuesById b') j =
      (if \<exists>(i, r) \<in> set (tb_responseSecretsById b). P (tb_secrets b ! r) \<and> sr_id (tb_secrets b ! r) = j
       then None else jmap_get (tb_tokenValuesById b) j)"
    by blast+
qed

section \<open>The sweep\<close>

lemma gref_id_form:
  assumes "broker_ok E b" and "(h, r) \<in> set (tb_recordsByHash b)"
  shows "tr_id (tb_records b ! r) \<noteq> sec_id u"
proof -
  have ok: "gref_ok E b" using assms(1) by (simp add: broker_ok_def)
  then have "jmap_ok (tb_recordsByHash b)" unfolding gref_ok_def by blast
  then have "jmap_get (tb_recordsByHash b) h = Some r" using assms(2) by (rule jmap_get_iff [THEN iffD2])
  from gref_okD [OF ok this] show ?thesis by (auto simp: gref_entry_def)
qed

lemma sec_id_form:
  assumes "broker_ok E b" and "(i, r) \<in> set (tb_responseSecretsById b)"
  shows "sr_id (tb_secrets b ! r) \<noteq> gref_id u"
proof -
  have ok: "sec_ok E b" using assms(1) by (simp add: broker_ok_def)
  then have "jmap_ok (tb_responseSecretsById b)" unfolding sec_ok_def by blast
  then have "jmap_get (tb_responseSecretsById b) i = Some r" using assms(2) by (rule jmap_get_iff [THEN iffD2])
  from sec_okD [OF ok this] show ?thesis by (auto simp: sec_entry_def)
qed

lemma sweepExpired_spec:
  assumes "broker_ok E b"
  shows "broker_ok E (sweepExpired E now b)" and "same_stores b (sweepExpired E now b)"
    and "tb_recordsByHash (sweepExpired E now b) =
      filter (\<lambda>(h, r). \<not> life_expired now (tr_life (tb_records b ! r))) (tb_recordsByHash b)"
    and "tb_responseSecretsById (sweepExpired E now b) =
      filter (\<lambda>(i, r). \<not> life_expired now (sr_life (tb_secrets b ! r))) (tb_responseSecretsById b)"
    and "jmap_get (tb_tokenValuesById (sweepExpired E now b)) (gref_id u) =
      (if \<exists>(h, r) \<in> set (tb_recordsByHash b). life_expired now (tr_life (tb_records b ! r)) \<and>
            tr_id (tb_records b ! r) = gref_id u
       then None else jmap_get (tb_tokenValuesById b) (gref_id u))"
    and "jmap_get (tb_tokenValuesById (sweepExpired E now b)) (sec_id u) =
      (if \<exists>(i, r) \<in> set (tb_responseSecretsById b). life_expired now (sr_life (tb_secrets b ! r)) \<and>
            sr_id (tb_secrets b ! r) = sec_id u
       then None else jmap_get (tb_tokenValuesById b) (sec_id u))"
proof -
  obtain b1 n1 where 1: "drop_records (\<lambda>r. life_expired now (tr_life r)) (b, 0) = (b1, n1)"
    by (cases "drop_records (\<lambda>r. life_expired now (tr_life r)) (b, 0)")
  obtain b2 n2 where 2: "drop_secrets E (\<lambda>s. life_expired now (sr_life s)) (b1, n1) = (b2, n2)"
    by (cases "drop_secrets E (\<lambda>s. life_expired now (sr_life s)) (b1, n1)")
  have s: "sweepExpired E now b = b2" by (simp add: sweepExpired_def 1 2)
  note d1 = drop_records_spec [OF assms 1]
  note d2 = drop_secrets_spec [OF d1(1) 2]
  show "broker_ok E (sweepExpired E now b)" using d2(1) s by simp
  show "same_stores b (sweepExpired E now b)" using same_stores_trans [OF d1(2) d2(2)] s by simp
  show "tb_recordsByHash (sweepExpired E now b) =
      filter (\<lambda>(h, r). \<not> life_expired now (tr_life (tb_records b ! r))) (tb_recordsByHash b)"
    using d1(4) d2(3) s by simp
  show "tb_responseSecretsById (sweepExpired E now b) =
      filter (\<lambda>(i, r). \<not> life_expired now (sr_life (tb_secrets b ! r))) (tb_responseSecretsById b)"
    using d1(3) d2(4) s same_storesD [OF d1(2)] by simp
  have no_gref: "\<not> (\<exists>(h, r) \<in> set (tb_recordsByHash b). life_expired now (tr_life (tb_records b ! r)) \<and>
      tr_id (tb_records b ! r) = sec_id u)"
    using assms gref_id_form by fastforce
  have no_sec: "\<not> (\<exists>(i, r) \<in> set (tb_responseSecretsById b1). life_expired now (sr_life (tb_secrets b1 ! r)) \<and>
      sr_id (tb_secrets b1 ! r) = gref_id u)"
    using d1(1) sec_id_form by fastforce
  show "jmap_get (tb_tokenValuesById (sweepExpired E now b)) (gref_id u) =
      (if \<exists>(h, r) \<in> set (tb_recordsByHash b). life_expired now (tr_life (tb_records b ! r)) \<and>
            tr_id (tb_records b ! r) = gref_id u
       then None else jmap_get (tb_tokenValuesById b) (gref_id u))"
    unfolding s d2(6) if_not_P [OF no_sec] by (rule d1(6))
  show "jmap_get (tb_tokenValuesById (sweepExpired E now b)) (sec_id u) =
      (if \<exists>(i, r) \<in> set (tb_responseSecretsById b). life_expired now (sr_life (tb_secrets b ! r)) \<and>
            sr_id (tb_secrets b ! r) = sec_id u
       then None else jmap_get (tb_tokenValuesById b) (sec_id u))"
    unfolding s d2(6) d1(6) [of "sec_id u"] if_not_P [OF no_gref] d1(3) same_storesD [OF d1(2)] ..
qed

section \<open>Storing new records\<close>

definition room :: "broker_env \<Rightarrow> string \<Rightarrow> nat \<Rightarrow> token_broker \<Rightarrow> bool" where
  "room E u n b \<longleftrightarrow>
     length (tb_recordsByHash b) + length (tb_responseSecretsById b) + n
       \<le> lc_maxTokenRecords (gc_limits (be_config E)) \<and>
     count_subject u b + n \<le> lc_maxTokenRecordsPerSubject (gc_limits (be_config E))"

lemma ensureCapacity_room: "ensureCapacity E u n b = Inr () \<Longrightarrow> n = 0 \<or> room E u n b"
  by (auto simp: ensureCapacity_def room_def Let_def split: if_splits)

lemma life_ok_new: "ttls_ok E \<Longrightarrow> life_ok E (new_lifetime E now)"
  by (simp add: life_ok_def new_lifetime_def ttls_ok_def)

lemma gref_refs_bound:
  assumes "gref_ok E b" and "(h, r) \<in> set (tb_recordsByHash b)"
  shows "r < length (tb_records b)"
proof -
  have "jmap_ok (tb_recordsByHash b)" using assms(1) by (simp add: gref_ok_def)
  then have "jmap_get (tb_recordsByHash b) h = Some r" using assms(2) by (simp add: jmap_get_iff)
  then show ?thesis using gref_okD [OF assms(1)] by (simp add: gref_entry_def)
qed

lemma sec_refs_bound:
  assumes "sec_ok E b" and "(i, r) \<in> set (tb_responseSecretsById b)"
  shows "r < length (tb_secrets b)"
proof -
  have "jmap_ok (tb_responseSecretsById b)" using assms(1) by (simp add: sec_ok_def)
  then have "jmap_get (tb_responseSecretsById b) i = Some r" using assms(2) by (simp add: jmap_get_iff)
  then show ?thesis using sec_okD [OF assms(1)] by (simp add: sec_entry_def)
qed

lemma store_record_fields [simp]:
  "tb_records (store_record t rec b) = tb_records b @ [rec]"
  "tb_secrets (store_record t rec b) = tb_secrets b"
  "tb_recordsByHash (store_record t rec b) =
     jmap_set (tb_recordsByHash b) (tr_tokenHash rec) (length (tb_records b))"
  "tb_responseSecretsByHash (store_record t rec b) = tb_responseSecretsByHash b"
  "tb_responseSecretIdsByIndex (store_record t rec b) = tb_responseSecretIdsByIndex b"
  "tb_responseSecretsById (store_record t rec b) = tb_responseSecretsById b"
  "tb_tokenValuesById (store_record t rec b) = jmap_set (tb_tokenValuesById b) (tr_id rec) t"
  by (simp_all add: store_record_def)

lemma count_store_record:
  assumes "gref_ok E b" and "tr_tokenHash rec \<notin> fst ` set (tb_recordsByHash b)"
  shows "count_subject u (store_record t rec b) =
    count_subject u b + (if tr_subject rec = u then 1 else 0)"
proof -
  have "filter (\<lambda>(h, r). tr_subject ((tb_records b @ [rec]) ! r) = u) (tb_recordsByHash b) =
      filter (\<lambda>(h, r). tr_subject (tb_records b ! r) = u) (tb_recordsByHash b)"
    using gref_refs_bound [OF assms(1)] by (intro filter_cong) (auto simp: nth_append)
  then show ?thesis using assms(2) by (simp add: count_subject_def jmap_set_new)
qed

lemma store_record_ok:
  assumes ok: "broker_ok E b" and room: "room E (tr_subject rec) (Suc n) b"
    and i: "tr_id rec = gref_id u" "gref_id u \<notin> fst ` set (tb_tokenValuesById b)"
    and h: "tr_tokenHash rec = be_hash E t" "be_hash E t \<notin> fst ` set (tb_recordsByHash b)"
    and t: "t \<noteq> []" and life: "life_ok E (tr_life rec)"
  shows "broker_ok E (store_record t rec b)" and "room E (tr_subject rec) n (store_record t rec b)"
proof -
  note oks = broker_okD [OF ok]
  let ?b = "store_record t rec b"
  have hn: "tr_tokenHash rec \<notin> fst ` set (tb_recordsByHash b)" using h by simp
  have "gref_entry E ?b h' r" if r: "jmap_get (tb_recordsByHash b) h' = Some r" for h' r
  proof -
    have e: "gref_entry E b h' r" using oks(1) r by (rule gref_okD)
    then have "tr_id (tb_records b ! r) \<noteq> gref_id u"
      using i(2) by (auto simp: gref_entry_def jmap_has_iff)
    then show ?thesis using e i(1) by (auto simp: gref_entry_def nth_append)
  qed
  moreover have "gref_entry E ?b (tr_tokenHash rec) (length (tb_records b))"
    using i(1) h(1) t by (auto simp: gref_entry_def)
  ultimately have "gref_ok E ?b" using oks(1) by (auto simp: gref_ok_def)
  moreover have "sec_ok E ?b"
  proof -
    have "sec_ok E (b\<lparr>tb_tokenValuesById := jmap_set (tb_tokenValuesById b) (tr_id rec) t\<rparr>)"
      using oks(2) i(1) by (intro sec_ok_values) simp_all
    then show ?thesis by (simp add: store_record_def sec_ok_def sec_entry_def)
  qed
  moreover have "lives_ok E ?b" using oks(3) life by (simp add: lives_ok_def)
  moreover have len: "length (tb_recordsByHash ?b) = Suc (length (tb_recordsByHash b))"
    using hn by (simp add: jmap_set_new)
  have "capacity_ok E ?b"
    using oks(4) room len count_store_record [OF oks(1) hn, of _ t] by (auto simp: capacity_ok_def room_def)
  ultimately show "broker_ok E ?b" by (intro broker_okI)
  show "room E (tr_subject rec) n ?b"
    using room len count_store_record [OF oks(1) hn, of _ t] by (simp add: room_def)
qed

text \<open>
  The identifiers and the hashes of the tokens drawn for rounds \<open>i\<close> to \<open>i + n - 1\<close> are not in
  use and differ from each other.
\<close>

definition draws_fresh :: "broker_env \<Rightarrow> (nat \<Rightarrow> string \<times> string) \<Rightarrow> nat \<Rightarrow> nat \<Rightarrow> token_broker \<Rightarrow> bool" where
  "draws_fresh E draws i n b \<longleftrightarrow>
     list_all (\<lambda>k. gref_id (snd (draws k)) \<notin> fst ` set (tb_tokenValuesById b) \<and>
                   be_hash E (gref_token (fst (draws k))) \<notin> fst ` set (tb_recordsByHash b)) [i..<i + n] \<and>
     distinct (map (\<lambda>k. gref_id (snd (draws k))) [i..<i + n]) \<and>
     distinct (map (\<lambda>k. be_hash E (gref_token (fst (draws k)))) [i..<i + n])"

lemma draws_fresh_Suc:
  assumes "draws_fresh E draws i (Suc n) b"
  shows "gref_id (snd (draws i)) \<notin> fst ` set (tb_tokenValuesById b)"
    and "be_hash E (gref_token (fst (draws i))) \<notin> fst ` set (tb_recordsByHash b)"
    and "tr_id rec = gref_id (snd (draws i)) \<Longrightarrow> tr_tokenHash rec = be_hash E (gref_token (fst (draws i))) \<Longrightarrow>
      draws_fresh E draws (Suc i) n (store_record t rec b)"
proof -
  let ?ks = "[Suc i..<Suc i + n]" and ?id = "\<lambda>k. gref_id (snd (draws k))"
    and ?hash = "\<lambda>k. be_hash E (gref_token (fst (draws k)))"
  have up: "[i..<i + Suc n] = i # ?ks" by (simp add: upt_conv_Cons del: upt_Suc)
  have all: "\<forall>k \<in> set (i # ?ks). ?id k \<notin> fst ` set (tb_tokenValuesById b) \<and>
      ?hash k \<notin> fst ` set (tb_recordsByHash b)"
    and di: "distinct (map ?id (i # ?ks))" and dh: "distinct (map ?hash (i # ?ks))"
    using assms unfolding draws_fresh_def up list_all_iff by blast+
  show "?id i \<notin> fst ` set (tb_tokenValuesById b)" "?hash i \<notin> fst ` set (tb_recordsByHash b)"
    using all by simp_all
  show "draws_fresh E draws (Suc i) n (store_record t rec b)" if e: "tr_id rec = ?id i" "tr_tokenHash rec = ?hash i"
  proof -
    have ni: "?id i \<notin> set (map ?id ?ks)" "distinct (map ?id ?ks)"
      and nh: "?hash i \<notin> set (map ?hash ?ks)" "distinct (map ?hash ?ks)"
      using di dh by (simp_all only: list.map distinct.simps simp_thms)
    have "?id k \<notin> insert (?id i) (fst ` set (tb_tokenValuesById b)) \<and>
        ?hash k \<notin> insert (?hash i) (fst ` set (tb_recordsByHash b))" if k: "k \<in> set ?ks" for k
    proof -
      have "?id k \<in> set (map ?id ?ks)" "?hash k \<in> set (map ?hash ?ks)" "k \<in> set (i # ?ks)"
        using k by (auto simp del: set_upt)
      then show ?thesis using ni(1) nh(1) all by (metis insert_iff)
    qed
    then show ?thesis
      unfolding draws_fresh_def store_record_fields jmap_keys_set e list_all_iff
      using ni(2) nh(2) by blast
  qed
qed

lemma issue_loop_ok:
  assumes "broker_ok E b" and "accesses = [] \<or> room E u (length accesses) b"
    and "\<And>a. tr_subject (template a) = u \<and> life_ok E (tr_life (template a))"
    and "draws_fresh E draws i (length accesses) b"
    and "issue_loop E template draws i accesses b = (b', issued, ids)"
  shows "broker_ok E b'"
  using assms
proof (induction accesses arbitrary: i b b' issued ids)
  case (Cons a as)
  let ?t = "gref_token (fst (draws i))"
  let ?rec = "(template a)\<lparr>tr_id := gref_id (snd (draws i)), tr_tokenHash := be_hash E ?t\<rparr>"
  let ?b = "store_record ?t ?rec b"
  obtain b1 is1 ids1 where rec: "issue_loop E template draws (Suc i) as ?b = (b1, is1, ids1)"
    by (cases "issue_loop E template draws (Suc i) as ?b") auto
  have fresh: "draws_fresh E draws i (Suc (length as)) b" using Cons.prems(4) by simp
  note f = draws_fresh_Suc [OF fresh]
  have r: "tr_subject ?rec = u" "life_ok E (tr_life ?rec)" using Cons.prems(3) by simp_all
  have room: "room E (tr_subject ?rec) (Suc (length as)) b" using Cons.prems(2,3) by simp
  have "?t \<noteq> []" by (simp add: gref_token_def)
  then have "broker_ok E ?b" "room E u (length as) ?b"
    using store_record_ok [OF Cons.prems(1) room, of "snd (draws i)" ?t] f r by simp_all
  then have "broker_ok E b1"
    using Cons.IH [of ?b "Suc i" b1 is1 ids1] Cons.prems(3) f(3) [of ?rec ?t] rec by simp
  then show ?case using Cons.prems(5) rec by (simp add: Let_def)
qed simp

lemma issue_loop_grows:
  "issue_loop E template draws i accesses b = (b', issued, ids) \<Longrightarrow>
    length issued = length accesses \<and> length ids = length accesses"
proof (induction accesses arbitrary: i b b' issued ids)
  case (Cons a as)
  let ?b = "store_record (gref_token (fst (draws i)))
    ((template a)\<lparr>tr_id := gref_id (snd (draws i)), tr_tokenHash := be_hash E (gref_token (fst (draws i)))\<rparr>) b"
  obtain b1 is1 ids1 where "issue_loop E template draws (Suc i) as ?b = (b1, is1, ids1)"
    by (cases "issue_loop E template draws (Suc i) as ?b") auto
  then show ?case using Cons.prems Cons.IH by (auto simp: Let_def)
qed simp

section \<open>Every operation keeps the invariant\<close>

lemma draws_fresh_shrink:
  assumes "same_stores b b'" and "draws_fresh E draws i n b"
  shows "draws_fresh E draws i n b'"
proof -
  have "x \<notin> fst ` set (tb_tokenValuesById b) \<Longrightarrow> x \<notin> fst ` set (tb_tokenValuesById b')"
    "x \<notin> fst ` set (tb_recordsByHash b) \<Longrightarrow> x \<notin> fst ` set (tb_recordsByHash b')" for x
    using assms(1) unfolding same_stores_def by blast+
  then show ?thesis
    using assms(2) unfolding draws_fresh_def by (auto elim!: list.pred_mono_strong)
qed

lemma fst_finish_issue [simp]: "fst (finish_issue E event r) = fst r"
  by (simp add: finish_issue_def split: prod.split)

lemma issue_plan_Inr:
  assumes "issue_plan E auth input b = Inr (service, destination, accesses)"
  shows "accesses = [] \<or> room E (ac_subject auth) (length accesses) b"
    and "jmap_get (gc_services (be_config E)) (ri_service input) = Some service"
    and "canAccessService service auth"
    and "resolveTokenDestination (map dc_id (sc_destinations service)) (ri_destination input) = Inr destination"
    and "result_map (resolve_access service) (ri_access_ids input) = Inr accesses"
    and "js_trim (ri_reason input) \<noteq> []" and "ri_access_ids input \<noteq> []"
  using assms
  by (auto simp: issue_plan_def result_bind_Inr getService_Inr split: if_splits dest: ensureCapacity_room)

lemma issueTokens_ok [inv_intros]:
  assumes ok: "broker_ok E b" and ttl: "ttls_ok E"
    and fresh: "draws_fresh E draws 0 (length (ri_access_ids input)) b"
  shows "broker_ok E (fst (issueTokens E now draws auth input b))"
proof (cases "issue_plan E auth input (sweepExpired E now b)")
  case (Inl e)
  then show ?thesis using sweepExpired_spec(1) [OF ok] by (simp add: issueTokens_def Let_def)
next
  case (Inr p)
  obtain service destination accesses where p: "p = (service, destination, accesses)" by (cases p)
  let ?b = "sweepExpired E now b" and ?t = "config_template E now auth input service destination"
  note plan = issue_plan_Inr [OF Inr [unfolded p]]
  have len: "length accesses = length (ri_access_ids input)" using plan(5) by (rule result_map_length)
  obtain b1 i1 d1 where loop: "issue_loop E ?t draws 0 accesses ?b = (b1, i1, d1)"
    by (cases "issue_loop E ?t draws 0 accesses ?b") auto
  have "broker_ok E b1"
  proof (rule issue_loop_ok [OF sweepExpired_spec(1) [OF ok] plan(1) _ _ loop])
    show "tr_subject (?t a) = ac_subject auth \<and> life_ok E (tr_life (?t a))" for a
      using ttl by (simp add: config_template_def life_ok_new)
    show "draws_fresh E draws 0 (length accesses) ?b"
      using draws_fresh_shrink [OF sweepExpired_spec(2) [OF ok] fresh] len by simp
  qed
  then show ?thesis using Inr p loop by (simp add: issueTokens_def Let_def)
qed

lemma issueRuntimeTokens_ok [inv_intros]:
  assumes ok: "broker_ok E b" and ttl: "ttls_ok E"
    and fresh: "draws_fresh E draws 0 (length (rg_accesses grant)) b"
  shows "broker_ok E (fst (issueRuntimeTokens E now draws auth input grant b))"
proof (cases "ensureCapacity E (ac_subject auth) (length (rg_accesses grant)) (sweepExpired E now b)")
  case (Inl e)
  then show ?thesis using sweepExpired_spec(1) [OF ok] by (simp add: issueRuntimeTokens_def Let_def)
next
  case (Inr u)
  let ?b = "sweepExpired E now b" and ?t = "runtime_template E now auth input grant"
  obtain b1 i1 d1 where loop: "issue_loop E ?t draws 0 (rg_accesses grant) ?b = (b1, i1, d1)"
    by (cases "issue_loop E ?t draws 0 (rg_accesses grant) ?b") auto
  have room: "rg_accesses grant = [] \<or> room E (ac_subject auth) (length (rg_accesses grant)) ?b"
    using ensureCapacity_room Inr by fastforce
  have "broker_ok E b1"
  proof (rule issue_loop_ok [OF sweepExpired_spec(1) [OF ok] room _ _ loop])
    show "tr_subject (?t a) = ac_subject auth \<and> life_ok E (tr_life (?t a))" for a
      using ttl by (simp add: runtime_template_def Let_def life_ok_new)
    show "draws_fresh E draws 0 (length (rg_accesses grant)) ?b"
      using draws_fresh_shrink [OF sweepExpired_spec(2) [OF ok] fresh] .
  qed
  then show ?thesis using Inr loop by (simp add: issueRuntimeTokens_def Let_def)
qed

lemma preflightTokenUse_ok [inv_intros]:
  "broker_ok E b \<Longrightarrow> broker_ok E (fst (preflightTokenUse E now auth target v b))"
  by (auto simp: preflightTokenUse_def Let_def broker_ok_forget_hash split: option.split)

lemma validateTokenUse_ok [inv_intros]:
  assumes "broker_ok E b"
  shows "broker_ok E (fst (validateTokenUse E now auth target v b))"
  using preflightTokenUse_ok [OF assms, of now auth target v]
  by (auto simp: validateTokenUse_def broker_ok_refresh_record split: prod.split sum.split)

lemma consumePreflightedToken_ok [inv_intros]:
  "broker_ok E b \<Longrightarrow> broker_ok E (fst (consumePreflightedToken E now r b))"
  by (simp add: consumePreflightedToken_def broker_ok_refresh_record)

lemma validateServiceReferenceUse_ok [inv_intros]:
  assumes "broker_ok E b"
  shows "broker_ok E (fst (validateServiceReferenceUse E now auth target v b))"
  using validateTokenUse_ok [OF assms, of now auth target v]
  by (auto simp: validateServiceReferenceUse_def split: prod.split sum.split)

section \<open>Response secrets keep the invariant\<close>

lemma store_secret_fields [simp]:
  "tb_records (store_secret E t s b) = tb_records b"
  "tb_secrets (store_secret E t s b) = tb_secrets b @ [s]"
  "tb_recordsByHash (store_secret E t s b) = tb_recordsByHash b"
  "tb_responseSecretsByHash (store_secret E t s b) =
     jmap_set (tb_responseSecretsByHash b) (sr_tokenHash s) (length (tb_secrets b))"
  "tb_responseSecretIdsByIndex (store_secret E t s b) =
     jmap_set (tb_responseSecretIdsByIndex b) (secret_index E s) (sr_id s)"
  "tb_responseSecretsById (store_secret E t s b) =
     jmap_set (tb_responseSecretsById b) (sr_id s) (length (tb_secrets b))"
  "tb_tokenValuesById (store_secret E t s b) = jmap_set (tb_tokenValuesById b) (sr_id s) t"
  by (simp_all add: store_secret_def)

lemma sec_id_fresh:
  assumes "sec_ok E b" and "i \<notin> fst ` set (tb_tokenValuesById b)"
  shows "i \<notin> fst ` set (tb_responseSecretsById b)"
proof
  assume "i \<in> fst ` set (tb_responseSecretsById b)"
  then obtain r where "jmap_get (tb_responseSecretsById b) i = Some r" by (auto simp: jmap_has_iff)
  then have "\<exists>t. jmap_get (tb_tokenValuesById b) i = Some t"
    using sec_okD [OF assms(1)] by (auto simp: sec_entry_def)
  then show False using assms(2) by (simp add: jmap_has_iff)
qed

lemma store_secret_sec_ok:
  assumes ok: "sec_ok E b"
    and i: "sr_id s = sec_id u" "sec_id u \<notin> fst ` set (tb_tokenValuesById b)"
    and h: "sr_tokenHash s = be_hash E t" "be_hash E t \<notin> fst ` set (tb_responseSecretsByHash b)"
    and x: "secret_index E s \<notin> fst ` set (tb_responseSecretIdsByIndex b)" and t: "t \<noteq> []"
  shows "sec_ok E (store_secret E t s b)"
proof -
  let ?b = "store_secret E t s b" and ?n = "length (tb_secrets b)"
  have hn: "jmap_get (tb_responseSecretsByHash b) (be_hash E t) = None"
    and xn: "jmap_get (tb_responseSecretIdsByIndex b) (secret_index E s) = None"
    using h(2) x by (simp_all add: jmap_get_None)
  have inn: "jmap_get (tb_responseSecretsById b) (sec_id u) = None"
    using sec_id_fresh [OF ok i(2)] by (simp add: jmap_get_None)
  have old: "sec_entry E ?b i' r" "r < ?n" "sr_id (tb_secrets b ! r) \<noteq> sec_id u"
    if r: "jmap_get (tb_responseSecretsById b) i' = Some r" for i' r
  proof -
    have e: "sec_entry E b i' r" using ok r by (rule sec_okD)
    then show len: "r < ?n" by (simp add: sec_entry_def)
    have "i' \<noteq> sec_id u" using r inn by auto
    moreover have "sr_tokenHash (tb_secrets b ! r) \<noteq> be_hash E t"
      "secret_index E (tb_secrets b ! r) \<noteq> secret_index E s"
      using e hn xn by (auto simp: sec_entry_def)
    ultimately show "sec_entry E ?b i' r" using e len i(1) h(1) by (simp add: sec_entry_def nth_append)
    show "sr_id (tb_secrets b ! r) \<noteq> sec_id u" using e \<open>i' \<noteq> sec_id u\<close> by (simp add: sec_entry_def)
  qed
  have new: "sec_entry E ?b (sec_id u) ?n" using i(1) h(1) t by (auto simp: sec_entry_def)
  show ?thesis
    unfolding sec_ok_def
  proof (intro conjI allI impI)
    show "jmap_ok (tb_responseSecretsByHash ?b)" "jmap_ok (tb_responseSecretsById ?b)"
      "jmap_ok (tb_responseSecretIdsByIndex ?b)" using ok by (simp_all add: sec_ok_def)
    show "sec_entry E ?b i' r" if "jmap_get (tb_responseSecretsById ?b) i' = Some r" for i' r
      using that old(1) new i(1) by (auto split: if_splits)
    fix h' r assume g: "jmap_get (tb_responseSecretsByHash ?b) h' = Some r"
    have "jmap_get (tb_responseSecretsById ?b) (sr_id (tb_secrets ?b ! r)) = Some r \<and>
        sr_tokenHash (tb_secrets ?b ! r) = h'"
    proof (cases "h' = be_hash E t")
      case True
      then show ?thesis using g h(1) by (auto simp: nth_append)
    next
      case False
      then have "jmap_get (tb_responseSecretsById b) (sr_id (tb_secrets b ! r)) = Some r \<and>
          sr_tokenHash (tb_secrets b ! r) = h'" using sec_ok_hash [OF ok] g h(1) by simp
      then show ?thesis using old(2,3) i(1) by (auto simp: nth_append)
    qed
    then show "jmap_get (tb_responseSecretsById ?b) (sr_id (tb_secrets ?b ! r)) = Some r"
      "sr_tokenHash (tb_secrets ?b ! r) = h'" by blast+
  next
    fix x' i' assume g: "jmap_get (tb_responseSecretIdsByIndex ?b) x' = Some i'"
    show "\<exists>r. jmap_get (tb_responseSecretsById ?b) i' = Some r \<and> secret_index E (tb_secrets ?b ! r) = x'"
    proof (cases "x' = secret_index E s")
      case True
      then show ?thesis using g by simp
    next
      case False
      then obtain r where r: "jmap_get (tb_responseSecretsById b) i' = Some r"
        "secret_index E (tb_secrets b ! r) = x'" using sec_ok_index [OF ok] g by auto
      then show ?thesis using old(2) [OF r(1)] inn i(1) by (auto simp: nth_append)
    qed
  qed
qed

lemma store_secret_ok:
  assumes ok: "broker_ok E b" and room: "room E (sr_subject s) 1 b"
    and i: "sr_id s = sec_id u" "sec_id u \<notin> fst ` set (tb_tokenValuesById b)"
    and h: "sr_tokenHash s = be_hash E t" "be_hash E t \<notin> fst ` set (tb_responseSecretsByHash b)"
    and x: "secret_index E s \<notin> fst ` set (tb_responseSecretIdsByIndex b)" and t: "t \<noteq> []"
    and life: "life_ok E (sr_life s)"
  shows "broker_ok E (store_secret E t s b)"
proof -
  note oks = broker_okD [OF ok]
  let ?b = "store_secret E t s b"
  have new: "sr_id s \<notin> fst ` set (tb_responseSecretsById b)" using sec_id_fresh [OF oks(2) i(2)] i(1) by simp
  have "gref_ok E ?b" using oks(1) i(1) by (simp add: gref_ok_def gref_entry_def) (metis ids_differ(1))
  moreover have "sec_ok E ?b" using store_secret_sec_ok [OF oks(2) i h x t] .
  moreover have "lives_ok E ?b" using oks(3) life by (simp add: lives_ok_def)
  moreover have "filter (\<lambda>(i, r). sr_subject ((tb_secrets b @ [s]) ! r) = v) (tb_responseSecretsById b) =
      filter (\<lambda>(i, r). sr_subject (tb_secrets b ! r) = v) (tb_responseSecretsById b)" for v
    using sec_refs_bound [OF oks(2)] by (intro filter_cong) (auto simp: nth_append)
  then have "count_subject v ?b = count_subject v b + (if sr_subject s = v then 1 else 0)" for v
    using new by (simp add: count_subject_def jmap_set_new)
  then have "capacity_ok E ?b"
    using oks(4) room new by (auto simp: capacity_ok_def room_def jmap_set_new)
  ultimately show ?thesis by (intro broker_okI)
qed

text \<open>The identifier and the hash of the token drawn for a response secret are not in use.\<close>

definition sec_draw_fresh :: "broker_env \<Rightarrow> string \<times> string \<Rightarrow> token_broker \<Rightarrow> bool" where
  "sec_draw_fresh E draw b \<longleftrightarrow>
     sec_id (snd draw) \<notin> fst ` set (tb_tokenValuesById b) \<and>
     be_hash E (sec_token (fst draw)) \<notin> fst ` set (tb_responseSecretsByHash b)"

lemma sec_draw_fresh_shrink: "same_stores b b' \<Longrightarrow> sec_draw_fresh E d b \<Longrightarrow> sec_draw_fresh E d b'"
  unfolding sec_draw_fresh_def same_stores_def by blast

lemma issue_secret_ok:
  assumes "broker_ok E b" and "ttls_ok E" and "sec_draw_fresh E draw b"
    and "responseSecretIndex E (ac_subject auth) service secret \<notin> fst ` set (tb_responseSecretIdsByIndex b)"
  shows "broker_ok E (fst (issue_secret E now draw bindings auth service secret b))"
proof (cases "ensureCapacity E (ac_subject auth) 1 b")
  case (Inl e)
  then show ?thesis using assms(1) by (simp add: issue_secret_def)
next
  case (Inr u)
  then have "room E (ac_subject auth) 1 b" using ensureCapacity_room [of E "ac_subject auth" 1 b] by simp
  moreover have "sec_token (fst draw) \<noteq> []" by (simp add: sec_token_def)
  ultimately show ?thesis
    using assms Inr
    by (simp add: issue_secret_def Let_def)
      (rule store_secret_ok [where u = "snd draw"], simp_all add: sec_draw_fresh_def secret_index_def life_ok_new)
qed

lemma issueOrReuseResponseSecret_ok [inv_intros]:
  assumes ok: "broker_ok E b" and ttl: "ttls_ok E" and fresh: "sec_draw_fresh E draw b"
  shows "broker_ok E (fst (issueOrReuseResponseSecret E now draw runtime auth service secret b))"
proof -
  let ?b = "sweepExpired E now b" and ?x = "responseSecretIndex E (ac_subject auth) service secret"
  let ?rb = "runtime_bindings_for runtime (ac_subject auth) service"
  have okb: "broker_ok E ?b" and same: "same_stores b ?b" using sweepExpired_spec [OF ok] by simp_all
  have freshb: "sec_draw_fresh E draw ?b" using same fresh by (rule sec_draw_fresh_shrink)
  show ?thesis
  proof (cases "secret = []")
    case True
    then show ?thesis using okb by (simp add: issueOrReuseResponseSecret_def Let_def)
  next
    case False
    show ?thesis
    proof (cases "jmap_get (tb_responseSecretIdsByIndex ?b) ?x")
      case None
      then have "?x \<notin> fst ` set (tb_responseSecretIdsByIndex ?b)" by (simp add: jmap_get_None)
      then have "broker_ok E (fst (issue_secret E now draw ?rb auth service secret ?b))"
        using okb ttl freshb by (intro issue_secret_ok)
      then show ?thesis using False None by (simp add: issueOrReuseResponseSecret_def Let_def)
    next
      case (Some i)
      show ?thesis
      proof (cases "reusable_secret now ?rb i ?b")
        case None
        have sec: "sec_ok E ?b" using okb by (simp add: broker_ok_def)
        obtain r where r: "jmap_get (tb_responseSecretsById ?b) i = Some r"
          "secret_index E (tb_secrets ?b ! r) = ?x" using sec_ok_index [OF sec Some] by blast
        let ?d = "deleteResponseSecret i ?x ?b"
        have "broker_ok E ?d" using okb r(1) r(2) [symmetric] by (rule broker_ok_delete_sec)
        moreover have "sec_draw_fresh E draw ?d"
          using same_stores_delete_sec freshb by (rule sec_draw_fresh_shrink)
        moreover have "?x \<notin> fst ` set (tb_responseSecretIdsByIndex ?d)"
          by (simp flip: jmap_get_None)
        ultimately have "broker_ok E (fst (issue_secret E now draw ?rb auth service secret ?d))"
          using ttl by (intro issue_secret_ok)
        then show ?thesis using False Some None by (simp add: issueOrReuseResponseSecret_def Let_def)
      next
        case (Some p)
        then show ?thesis
          using okb False \<open>jmap_get (tb_responseSecretIdsByIndex ?b) ?x = Some i\<close>
          by (auto simp: issueOrReuseResponseSecret_def Let_def broker_ok_refresh_secret split: prod.split)
      qed
    qed
  qed
qed

lemma preflightResponseSecretUse_ok [inv_intros]:
  assumes "broker_ok E b"
  shows "broker_ok E (fst (preflightResponseSecretUse E now auth service v b))"
proof (cases "jmap_get (tb_responseSecretsByHash b) (be_hash E v)")
  case None
  then show ?thesis using assms by (simp add: preflightResponseSecretUse_def)
next
  case (Some r)
  have sec: "sec_ok E b" using assms by (simp add: broker_ok_def)
  have "broker_ok E (deleteResponseSecret (sr_id (tb_secrets b ! r)) (secret_index E (tb_secrets b ! r)) b)"
    using assms sec_ok_hash [OF sec Some] by (intro broker_ok_delete_sec) simp_all
  then show ?thesis using Some assms by (simp add: preflightResponseSecretUse_def Let_def)
qed

lemma validateResponseSecretUse_ok [inv_intros]:
  assumes "broker_ok E b"
  shows "broker_ok E (fst (validateResponseSecretUse E now auth service v b))"
  using preflightResponseSecretUse_ok [OF assms, of now auth service v]
  by (auto simp: validateResponseSecretUse_def broker_ok_refresh_secret split: prod.split sum.split)

lemma consumePreflightedResponseSecret_ok [inv_intros]:
  "broker_ok E b \<Longrightarrow> broker_ok E (fst (consumePreflightedResponseSecret E now r b))"
  by (simp add: consumePreflightedResponseSecret_def broker_ok_refresh_secret)

lemma drop_records_ok: "broker_ok E b \<Longrightarrow> broker_ok E (fst (drop_records P (b, n)))"
  using drop_records_spec(1) by (cases "drop_records P (b, n)") fastforce

lemma drop_secrets_ok: "broker_ok E b \<Longrightarrow> broker_ok E (fst (drop_secrets E P (b, n)))"
  using drop_secrets_spec(1) by (cases "drop_secrets E P (b, n)") fastforce

lemma latestConfiguredToken_ok [inv_intros]:
  assumes "broker_ok E b"
  shows "broker_ok E (fst (latestConfiguredToken E now u s ids b))"
  using drop_records_ok [OF assms]
  by (auto simp: latestConfiguredToken_def Let_def broker_ok_refresh_record split: list.split option.split)

lemma configured_match_ok [inv_intros]:
  "broker_ok E b \<Longrightarrow> broker_ok E (fst (configured_match E now auth service secret b))"
  by (auto simp: configured_match_def Let_def latestConfiguredToken_ok split: option.split)

lemma findConfiguredTokenForSecret_ok [inv_intros]:
  assumes "broker_ok E b"
  shows "broker_ok E (fst (findConfiguredTokenForSecret E now runtime auth service secret b))"
proof (cases runtime)
  case None
  then show ?thesis using assms by (simp add: findConfiguredTokenForSecret_def configured_match_ok)
next
  case (Some rt)
  let ?l = "latestConfiguredToken E now (ac_subject auth) service
    (map fst (filter (\<lambda>(i, candidate). candidate = secret) (rs_secrets rt))) b"
  have "broker_ok E (fst ?l)" using assms by (rule latestConfiguredToken_ok)
  then show ?thesis
    using Some assms
    by (cases ?l) (auto simp: findConfiguredTokenForSecret_def Let_def configured_match_ok split: option.split)
qed

lemma inspectResponseToken_ok [inv_intros]:
  assumes "broker_ok E b"
  shows "broker_ok E (fst (inspectResponseToken E now auth service v b))"
proof -
  have sec: "sec_ok E b" using assms by (simp add: broker_ok_def)
  have "broker_ok E (deleteResponseSecret (sr_id (tb_secrets b ! r)) (secret_index E (tb_secrets b ! r)) b)"
    if "jmap_get (tb_responseSecretsByHash b) h = Some r" for h r
    using assms sec_ok_hash [OF sec that] by (intro broker_ok_delete_sec) simp_all
  moreover have "broker_ok E (deleteConfiguredToken h (tr_id (tb_records b ! r)) b)"
    if "jmap_get (tb_recordsByHash b) h = Some r" for h r
    using assms that by (rule broker_ok_delete_gref) simp
  ultimately show ?thesis
    using assms
    by (auto simp: inspectResponseToken_def Let_def broker_ok_refresh_record broker_ok_refresh_secret
        split: option.split)
qed

lemma referenceAggregates_ok [inv_intros]:
  "broker_ok E b \<Longrightarrow> broker_ok E (fst (referenceAggregates E now input b))"
  using sweepExpired_spec(1) by (simp add: referenceAggregates_def Let_def)

lemma invalidate_ok [inv_intros]:
  assumes "broker_ok E b"
  shows "broker_ok E (fst (invalidate E now input b))"
proof -
  let ?d = "drop_records (record_selected input) (sweepExpired E now b, 0)"
  have "broker_ok E (fst ?d)" using drop_records_ok sweepExpired_spec(1) [OF assms] by blast
  then show ?thesis
    using drop_secrets_ok [of E "fst ?d" "secret_selected input" "snd ?d"] by (simp add: invalidate_def)
qed

lemma new_indexes_ok:
  "broker_ok E b \<Longrightarrow> broker_ok E (fst (new_indexes E now runtime auth service secrets indexes b))"
proof (induction secrets arbitrary: indexes b)
  case (Cons secret secrets)
  have "broker_ok E (fst (findConfiguredTokenForSecret E now runtime auth service secret b))"
    using Cons.prems by (rule findConfiguredTokenForSecret_ok)
  then show ?case
    using Cons.IH
    by (cases "findConfiguredTokenForSecret E now runtime auth service secret b")
      (auto simp: Let_def split: option.split)
qed simp

lemma assertResponseSecretCapacity_ok [inv_intros]:
  assumes "broker_ok E b"
  shows "broker_ok E (fst (assertResponseSecretCapacity E now runtime auth service secrets b))"
proof -
  have "broker_ok E (fst (new_indexes E now runtime auth service secrets [] (sweepExpired E now b)))"
    using sweepExpired_spec(1) [OF assms] by (rule new_indexes_ok)
  then show ?thesis by (simp add: assertResponseSecretCapacity_def case_prod_unfold)
qed

section \<open>Reachable brokers\<close>

text \<open>
  The brokers an environment can bring about from a new one: any operation, at any time, with
  any arguments, as long as the random draws do not repeat what is in use.
\<close>

inductive reachable :: "broker_env \<Rightarrow> token_broker \<Rightarrow> bool" for E where
  reach_new: "reachable E new_token_broker"
| reach_issue: "reachable E b \<Longrightarrow> draws_fresh E draws 0 (length (ri_access_ids input)) b \<Longrightarrow>
    reachable E (fst (issueTokens E now draws auth input b))"
| reach_issueRuntime: "reachable E b \<Longrightarrow> draws_fresh E draws 0 (length (rg_accesses grant)) b \<Longrightarrow>
    reachable E (fst (issueRuntimeTokens E now draws auth input grant b))"
| reach_preflight: "reachable E b \<Longrightarrow> reachable E (fst (preflightTokenUse E now auth target v b))"
| reach_validate: "reachable E b \<Longrightarrow> reachable E (fst (validateTokenUse E now auth target v b))"
| reach_consume: "reachable E b \<Longrightarrow> reachable E (fst (consumePreflightedToken E now r b))"
| reach_service: "reachable E b \<Longrightarrow> reachable E (fst (validateServiceReferenceUse E now auth target v b))"
| reach_secret: "reachable E b \<Longrightarrow> sec_draw_fresh E draw b \<Longrightarrow>
    reachable E (fst (issueOrReuseResponseSecret E now draw runtime auth service secret b))"
| reach_preflightSecret: "reachable E b \<Longrightarrow>
    reachable E (fst (preflightResponseSecretUse E now auth service v b))"
| reach_validateSecret: "reachable E b \<Longrightarrow>
    reachable E (fst (validateResponseSecretUse E now auth service v b))"
| reach_consumeSecret: "reachable E b \<Longrightarrow>
    reachable E (fst (consumePreflightedResponseSecret E now r b))"
| reach_find: "reachable E b \<Longrightarrow>
    reachable E (fst (findConfiguredTokenForSecret E now runtime auth service secret b))"
| reach_inspect: "reachable E b \<Longrightarrow> reachable E (fst (inspectResponseToken E now auth service v b))"
| reach_sweep: "reachable E b \<Longrightarrow> reachable E (sweepExpired E now b)"
| reach_aggregates: "reachable E b \<Longrightarrow> reachable E (fst (referenceAggregates E now filt b))"
| reach_invalidate: "reachable E b \<Longrightarrow> reachable E (fst (invalidate E now filt b))"
| reach_assertCapacity: "reachable E b \<Longrightarrow>
    reachable E (fst (assertResponseSecretCapacity E now runtime auth service secrets b))"

lemma reachable_ok: "reachable E b \<Longrightarrow> ttls_ok E \<Longrightarrow> broker_ok E b"
  by (induction rule: reachable.induct) (simp_all add: inv_intros sweepExpired_spec(1))

end
