(* ===== verification/TokenProperties.thy ===== *)
theory TokenProperties
  imports TokenSteps UrlValidation
begin

text \<open>
  What the token broker promises: consistency and limits in every reachable state, exact checks
  at redemption, lifetimes that end, round trips of issued references, exact invalidation, and
  the entry a preflight of an expired reference leaves behind.
\<close>

section \<open>Library lemmas\<close>

lemma preflight_Inr:
  "preflightTokenUse E now auth target v b = (b', Inr r) \<longleftrightarrow>
    b' = b \<and> jmap_get (tb_recordsByHash b) (be_hash E v) = Some r \<and>
    \<not> life_expired now (tr_life (tb_records b ! r)) \<and>
    tr_subject (tb_records b ! r) = ac_subject auth \<and> tr_service (tb_records b ! r) = ut_service target \<and>
    (ut_destination target = None \<or> ut_destination target = Some (tr_destination (tb_records b ! r)))"
  by (auto simp: preflightTokenUse_def Let_def split: option.splits if_splits)

lemma validate_Inr:
  "validateTokenUse E now auth target v b = (b', Inr r) \<longleftrightarrow>
    preflightTokenUse E now auth target v b = (b, Inr r) \<and> b' = refresh_record E now r b"
  by (cases "preflightTokenUse E now auth target v b")
    (auto simp: validateTokenUse_def preflight_Inr split: sum.splits)

lemma life_ok_record:
  assumes "broker_ok E b" and "jmap_get (tb_recordsByHash b) h = Some r"
  shows "life_ok E (tr_life (tb_records b ! r))" and "r < length (tb_records b)"
proof -
  show "r < length (tb_records b)"
    using assms gref_okD by (auto simp: broker_ok_def gref_entry_def)
  then show "life_ok E (tr_life (tb_records b ! r))"
    using assms(1) by (simp add: broker_ok_def lives_ok_def list_all_length)
qed

text \<open>What the issuing loop stores: the record of every access, under the hash of its token.\<close>

lemma issue_loop_keeps:
  assumes "draws_fresh E draws i (length accesses) b"
    and "issue_loop E template draws i accesses b = (b', issued, ids)"
    and "jmap_get (tb_recordsByHash b) h = Some r" and "r < length (tb_records b)"
  shows "jmap_get (tb_recordsByHash b') h = Some r \<and> tb_records b' ! r = tb_records b ! r \<and>
    r < length (tb_records b')"
  using assms
proof (induction accesses arbitrary: i b b' issued ids)
  case (Cons a as)
  let ?t = "gref_token (fst (draws i))"
  let ?rec = "(template a)\<lparr>tr_id := gref_id (snd (draws i)), tr_tokenHash := be_hash E ?t\<rparr>"
  let ?b = "store_record ?t ?rec b"
  obtain b1 is1 ids1 where rec: "issue_loop E template draws (Suc i) as ?b = (b1, is1, ids1)"
    by (cases "issue_loop E template draws (Suc i) as ?b") auto
  have b1: "b1 = b'" using Cons.prems(2) rec by (simp add: Let_def)
  have fresh: "draws_fresh E draws i (Suc (length as)) b" using Cons.prems(1) by simp
  have "h \<noteq> be_hash E ?t" using draws_fresh_Suc(2) [OF fresh] Cons.prems(3) by (auto simp: jmap_has_iff)
  then have "jmap_get (tb_recordsByHash ?b) h = Some r" "r < length (tb_records ?b)"
    "tb_records ?b ! r = tb_records b ! r"
    using Cons.prems(3,4) by (simp_all add: nth_append)
  then show ?case
    using Cons.IH [OF draws_fresh_Suc(3) [OF fresh, of ?rec ?t] rec] b1 by simp
qed simp

lemma issue_loop_stores:
  assumes "draws_fresh E draws i (length accesses) b"
    and "issue_loop E template draws i accesses b = (b', issued, ids)" and "it \<in> set issued"
  shows "\<exists>a \<in> set accesses. \<exists>r u. it_credential_id it = ra_id a \<and>
    jmap_get (tb_recordsByHash b') (be_hash E (it_token it)) = Some r \<and>
    tb_records b' ! r = (template a)\<lparr>tr_id := gref_id u, tr_tokenHash := be_hash E (it_token it)\<rparr>"
  using assms
proof (induction accesses arbitrary: i b b' issued ids)
  case (Cons a as)
  let ?t = "gref_token (fst (draws i))"
  let ?rec = "(template a)\<lparr>tr_id := gref_id (snd (draws i)), tr_tokenHash := be_hash E ?t\<rparr>"
  let ?b = "store_record ?t ?rec b"
  obtain b1 is1 ids1 where rec: "issue_loop E template draws (Suc i) as ?b = (b1, is1, ids1)"
    by (cases "issue_loop E template draws (Suc i) as ?b") auto
  have out: "b1 = b'" "issued = \<lparr>it_credential_id = ra_id a, it_token = ?t, it_usage_hint = ra_usageHint a,
      it_expires_at = be_iso E (lt_maxExpiresAt (tr_life ?rec))\<rparr> # is1"
    using Cons.prems(2) rec by (simp_all add: Let_def)
  have fresh: "draws_fresh E draws i (Suc (length as)) b" using Cons.prems(1) by simp
  note fresh' = draws_fresh_Suc(3) [OF fresh, of ?rec ?t]
  show ?case
  proof (cases "it \<in> set is1")
    case True
    then show ?thesis using Cons.IH [OF fresh' rec True] out by simp
  next
    case False
    then have it: "it_credential_id it = ra_id a" "it_token it = ?t" using Cons.prems(3) out by simp_all
    have "jmap_get (tb_recordsByHash b1) (be_hash E ?t) = Some (length (tb_records b)) \<and>
        tb_records b1 ! length (tb_records b) = ?rec"
      using issue_loop_keeps [OF fresh' rec, of "be_hash E ?t" "length (tb_records b)"] by simp
    then show ?thesis using it out(1) by auto
  qed
qed simp

section \<open>Properties of reachable brokers\<close>

text \<open>An environment for the witnesses: hashes keep the text, two records per subject at most.\<close>

definition sample_limits :: limits_config where
  "sample_limits =
     \<lparr>lc_maxInboundBodyBytes = 1, lc_inboundBodyTimeoutMs = 1, lc_maxUnauthenticatedInflight = 1,
      lc_maxUnauthenticatedInflightPerSource = 1, lc_maxPasswordVerifications = 1,
      lc_maxPasswordVerificationsPerSource = 1, lc_loginGlobalAttempts = 1,
      lc_loginGlobalWindowMs = 1, lc_maxDenialRecords = 1, lc_denialTtlMs = 1,
      lc_stateSweepIntervalMs = 1, lc_maxTokenRecords = 3, lc_maxTokenRecordsPerSubject = 2,
      lc_maxAuthorizationCodes = 1, lc_maxRefreshTokenRecords = 1,
      lc_maxOAuthClientMetadataInflight = 1, lc_maxOAuthClientMetadataInflightPerOrigin = 1,
      lc_maxServiceRequestsInflight = 1, lc_maxServiceRequestsInflightPerSubject = 1,
      lc_maxServiceRequestsInflightPerService = 1, lc_maxRequestBodyBytes = 1,
      lc_maxResponseBodyBytes = 1, lc_timeoutMs = 1\<rparr>"

definition sample_env :: broker_env where
  "sample_env =
     \<lparr>be_config = sample_config sample_limits, be_hash = (\<lambda>t. t), be_hmac = (\<lambda>t. t),
      be_iso = (\<lambda>_. []), be_audit = Some\<rparr>"

definition sample_auth :: auth_context where
  "sample_auth = \<lparr>ac_subject = ''alice'', ac_scopes = [], ac_mode = Mode_bearer\<rparr>"

definition sample_request :: token_request_input where
  "sample_request =
     \<lparr>ri_service = ''s'', ri_destination = None, ri_access_ids = [''key''], ri_reason = ''test''\<rparr>"

definition sample_draws :: "nat \<Rightarrow> string \<times> string" where
  "sample_draws i = (''R'', ''U'')"

definition sample_target_use :: token_use_target where
  "sample_target_use = \<lparr>ut_service = ''s'', ut_destination = Some ''d''\<rparr>"

definition sample_broker :: token_broker where
  "sample_broker = fst (issueTokens sample_env 100 sample_draws sample_auth sample_request new_token_broker)"

lemma sample_ttls: "ttls_ok sample_env"
  by (simp add: ttls_ok_def sample_env_def sample_config_def)

lemma sample_fresh: "draws_fresh sample_env sample_draws 0 (length (ri_access_ids sample_request)) new_token_broker"
  by (simp add: draws_fresh_def new_token_broker_def sample_request_def)

lemma sample_reachable: "reachable sample_env sample_broker"
  unfolding sample_broker_def by (intro reach_issue reach_new sample_fresh)

text \<open>
  C6: In every state the broker can reach, through any sequence of its operations with any
  arguments and clock readings, its five maps agree: every hash leads to a record with that hash,
  every record has the value of its token on file and that value hashes to the record's hash, the
  three maps of response secrets describe the same records, every lifetime ends at its maximum,
  and no store exceeds its limits.
\<close>

theorem reachable_consistent:
  assumes "reachable E b" and "ttls_ok E"
  shows "broker_ok E b"
  using assms by (rule reachable_ok)

theorem reachable_consistent_witness: "broker_ok sample_env sample_broker"
  using sample_reachable sample_ttls by (rule reachable_consistent)

text \<open>
  No sequence of operations makes the broker hold more references, configured ones and
  response secrets together, than the configured total, nor more for one subject than the limit
  per subject.
\<close>

theorem reachable_capacity:
  assumes "reachable E b" and "ttls_ok E"
  shows "st_configured (broker_stats b) + st_responseSecrets (broker_stats b)
      \<le> lc_maxTokenRecords (gc_limits (be_config E)) \<and>
    count_subject u b \<le> lc_maxTokenRecordsPerSubject (gc_limits (be_config E))"
  using reachable_ok [OF assms] by (simp add: broker_ok_def capacity_ok_def broker_stats_def)

theorem reachable_capacity_witness:
  "st_configured (broker_stats sample_broker) + st_responseSecrets (broker_stats sample_broker) \<le> 3"
  using reachable_capacity [OF sample_reachable sample_ttls]
  by (simp add: sample_env_def sample_config_def sample_limits_def)

text \<open>
  C5: A reference is honoured exactly when a record is stored under its hash, neither its idle
  time nor its maximum lifetime has ended, and it is bound to the authenticated subject, to the
  service of the request and, when the request names one, to its destination.
\<close>

theorem validateTokenUse_exact:
  "snd (validateTokenUse E now auth target v b) = Inr r \<longleftrightarrow>
    jmap_get (tb_recordsByHash b) (be_hash E v) = Some r \<and>
    now < lt_idleExpiresAt (tr_life (tb_records b ! r)) \<and>
    now < lt_maxExpiresAt (tr_life (tb_records b ! r)) \<and>
    tr_subject (tb_records b ! r) = ac_subject auth \<and>
    tr_service (tb_records b ! r) = ut_service target \<and>
    ut_destination target \<in> {None, Some (tr_destination (tb_records b ! r))}"
proof -
  have "snd (validateTokenUse E now auth target v b) = Inr r \<longleftrightarrow>
      (\<exists>b'. validateTokenUse E now auth target v b = (b', Inr r))"
    by (cases "validateTokenUse E now auth target v b") auto
  then show ?thesis by (auto simp: validate_Inr preflight_Inr life_expired_def not_le)
qed

text \<open>
  No use prolongs a reference beyond its maximum lifetime: whenever a reference is redeemed
  in a reachable state, less than the configured maximum has passed since it was issued, and
  after the redemption its end is still that maximum and its idle time does not go past it.
\<close>

theorem redeemed_within_max_lifetime:
  assumes "reachable E b" and "ttls_ok E"
    and "validateTokenUse E now auth target v b = (b', Inr r)"
  shows "now < lt_issuedAt (tr_life (tb_records b ! r)) + tc_maxTtlMs (gc_tokens (be_config E)) \<and>
    lt_issuedAt (tr_life (tb_records b' ! r)) = lt_issuedAt (tr_life (tb_records b ! r)) \<and>
    lt_maxExpiresAt (tr_life (tb_records b' ! r)) =
      lt_issuedAt (tr_life (tb_records b ! r)) + tc_maxTtlMs (gc_tokens (be_config E)) \<and>
    lt_idleExpiresAt (tr_life (tb_records b' ! r)) \<le> lt_maxExpiresAt (tr_life (tb_records b' ! r))"
proof -
  have p: "preflightTokenUse E now auth target v b = (b, Inr r)" "b' = refresh_record E now r b"
    using assms(3) by (simp_all add: validate_Inr)
  then have r: "jmap_get (tb_recordsByHash b) (be_hash E v) = Some r"
    "\<not> life_expired now (tr_life (tb_records b ! r))" by (simp_all add: preflight_Inr)
  note l = life_ok_record [OF reachable_ok [OF assms(1,2)] r(1)]
  show ?thesis
    using l r(2) by (simp add: p(2) refresh_record_nth life_ok_def life_expired_def life_refreshed_def)
qed

theorem redeemed_within_max_lifetime_witness:
  "105 < (100 :: int) + 25 \<and>
   snd (validateTokenUse sample_env 105 sample_auth sample_target_use ''gref_R'' sample_broker) = Inr 0"
proof -
  have v: "snd (validateTokenUse sample_env 105 sample_auth sample_target_use ''gref_R'' sample_broker) = Inr 0"
    "lt_issuedAt (tr_life (tb_records sample_broker ! 0)) = 100"
    "tc_maxTtlMs (gc_tokens (be_config sample_env)) = 25" by code_simp+
  let ?x = "validateTokenUse sample_env 105 sample_auth sample_target_use ''gref_R'' sample_broker"
  have "?x = (fst ?x, Inr 0)" using v(1) by (metis prod.collapse)
  from redeemed_within_max_lifetime [OF sample_reachable sample_ttls this] v show ?thesis by simp
qed

text \<open>
  C15: A reference that was issued works: after a successful request, each reference returned
  is accepted for the same subject, the service and the destination of the request at every time
  before its idle time ends, and its record stands for the access method it was listed with.
\<close>

theorem issued_reference_redeemable:
  assumes "reachable E b" and "ttls_ok E"
    and "draws_fresh E draws 0 (length (ri_access_ids input)) b"
    and "issueTokens E now draws auth input b = (b', Inr result)" and "it \<in> set (ir_tokens result)"
    and "jmap_get (gc_services (be_config E)) (ri_service input) = Some service"
    and "t < now + tc_idleTtlMs (gc_tokens (be_config E))"
  shows "\<exists>r. snd (validateTokenUse E t auth \<lparr>ut_service = sc_id service, ut_destination = ri_destination input\<rparr>
        (it_token it) b') = Inr r \<and>
      tr_subject (tb_records b' ! r) = ac_subject auth \<and>
      tr_accessId (tb_records b' ! r) = it_credential_id it \<and> it_credential_id it \<in> set (ri_access_ids input)"
proof -
  let ?b = "sweepExpired E now b"
  have ok: "broker_ok E b" using assms(1,2) by (rule reachable_ok)
  obtain destination accesses where plan: "issue_plan E auth input ?b = Inr (service, destination, accesses)"
  proof (cases "issue_plan E auth input ?b")
    case (Inl e)
    then show ?thesis using assms(4) by (simp add: issueTokens_def Let_def)
  next
    case (Inr p)
    then show ?thesis using issue_plan_Inr(2) assms(6) that by (cases p) fastforce
  qed
  note pl = issue_plan_Inr [OF plan]
  have len: "length accesses = length (ri_access_ids input)" using pl(5) by (rule result_map_length)
  let ?tm = "config_template E now auth input service destination"
  obtain b1 issued ids where loop: "issue_loop E ?tm draws 0 accesses ?b = (b1, issued, ids)"
    by (cases "issue_loop E ?tm draws 0 accesses ?b") auto
  have b1: "b1 = b'" "ir_tokens result = issued"
    using assms(4) plan loop by (auto simp: issueTokens_def Let_def finish_issue_def split: option.splits)
  have fresh: "draws_fresh E draws 0 (length accesses) ?b"
    using draws_fresh_shrink [OF sweepExpired_spec(2) [OF ok] assms(3)] len by simp
  have it: "it \<in> set issued" using assms(5) b1(2) by simp
  obtain a r u where a: "a \<in> set accesses" "it_credential_id it = ra_id a"
    and r: "jmap_get (tb_recordsByHash b') (be_hash E (it_token it)) = Some r"
      "tb_records b' ! r = (?tm a)\<lparr>tr_id := gref_id u, tr_tokenHash := be_hash E (it_token it)\<rparr>"
    using issue_loop_stores [OF fresh loop it] b1(1) by blast
  have "list_all2 (\<lambda>i a. resolve_access service i = Inr a) (ri_access_ids input) accesses"
    using pl(5) by (simp add: result_map_Inr)
  from list_all2_in2 [OF this a(1)]
  obtain i where "i \<in> set (ri_access_ids input)" "resolve_access service i = Inr a" by blast
  then have ids: "ra_id a \<in> set (ri_access_ids input)"
    by (auto simp: resolve_access_def result_bind_Inr split: if_splits)
  have dest: "ri_destination input \<in> {None, Some destination}"
    using pl(4) by (auto simp: resolveTokenDestination_def split: option.splits if_splits)
  have "t < now + tc_maxTtlMs (gc_tokens (be_config E))" using assms(2,7) by (simp add: ttls_ok_def)
  then have "snd (validateTokenUse E t auth \<lparr>ut_service = sc_id service, ut_destination = ri_destination input\<rparr>
        (it_token it) b') = Inr r"
    unfolding validateTokenUse_exact r(2) using r(1) dest assms(7)
    by (simp add: config_template_def new_lifetime_def)
  moreover have "tr_subject (tb_records b' ! r) = ac_subject auth"
    "tr_accessId (tb_records b' ! r) = ra_id a"
    unfolding r(2) by (simp_all add: config_template_def)
  ultimately show ?thesis using a(2) ids by auto
qed

theorem issued_reference_redeemable_witness:
  "\<exists>r. snd (validateTokenUse sample_env 109 sample_auth \<lparr>ut_service = ''s'', ut_destination = None\<rparr>
      ''gref_R'' sample_broker) = Inr r \<and> tr_accessId (tb_records sample_broker ! r) = ''key''"
proof -
  let ?x = "issueTokens sample_env 100 sample_draws sample_auth sample_request new_token_broker"
  let ?it = "\<lparr>it_credential_id = ''key'', it_token = ''gref_R'', it_usage_hint = ''Use reference as X-Key header'',
    it_expires_at = []\<rparr>"
  have x: "result_map_value ir_tokens (snd ?x) = Inr [?it]"
    "jmap_get (gc_services (be_config sample_env)) (ri_service sample_request) = Some sample_service"
    "tc_idleTtlMs (gc_tokens (be_config sample_env)) = 10" "sc_id sample_service = ''s''"
    "ri_destination sample_request = None" by code_simp+
  obtain result where r: "snd ?x = Inr result" "ir_tokens result = [?it]"
    using x(1) by (auto simp: result_map_value_Inr)
  have "?x = (sample_broker, Inr result)" using r(1) by (metis prod.collapse sample_broker_def)
  from issued_reference_redeemable [OF reach_new sample_ttls sample_fresh this, of ?it sample_service 109] x r
  show ?thesis by auto
qed

end
