(* ===== verification/TokenLifecycle.thy ===== *)
theory TokenLifecycle
  imports TokenProperties
begin

text \<open>
  The rest of what the broker promises: response secrets come back and are reused, invalidation
  is exact and also stops uses that were already preflighted, the reference chosen for a known
  secret is the latest one. The last section is about the entry that the preflight of an expired
  reference leaves behind.
\<close>

section \<open>Library lemmas\<close>

lemma sec_by_hash:
  assumes "sec_ok E b"
  shows "jmap_get (tb_responseSecretsByHash b) h = Some r \<longleftrightarrow>
    (\<exists>i. (i, r) \<in> set (tb_responseSecretsById b)) \<and> sr_tokenHash (tb_secrets b ! r) = h"
proof -
  have ok: "jmap_ok (tb_responseSecretsById b)" using assms by (simp add: sec_ok_def)
  show ?thesis
  proof
    assume "jmap_get (tb_responseSecretsByHash b) h = Some r"
    then have "jmap_get (tb_responseSecretsById b) (sr_id (tb_secrets b ! r)) = Some r \<and>
        sr_tokenHash (tb_secrets b ! r) = h" using assms sec_ok_hash by blast
    then show "(\<exists>i. (i, r) \<in> set (tb_responseSecretsById b)) \<and> sr_tokenHash (tb_secrets b ! r) = h"
      using jmap_get_iff [THEN iffD1, OF ok] by blast
  next
    assume a: "(\<exists>i. (i, r) \<in> set (tb_responseSecretsById b)) \<and> sr_tokenHash (tb_secrets b ! r) = h"
    then obtain i where "(i, r) \<in> set (tb_responseSecretsById b)" by blast
    then have "jmap_get (tb_responseSecretsById b) i = Some r" by (rule jmap_get_iff [THEN iffD2, OF ok])
    from sec_okD [OF assms this] a show "jmap_get (tb_responseSecretsByHash b) h = Some r"
      unfolding sec_entry_def by blast
  qed
qed

lemma validateSecret_exact:
  "snd (validateResponseSecretUse E now auth service v b) = Inr r \<longleftrightarrow>
    jmap_get (tb_responseSecretsByHash b) (be_hash E v) = Some r \<and>
    \<not> life_expired now (sr_life (tb_secrets b ! r)) \<and>
    sr_subject (tb_secrets b ! r) = ac_subject auth \<and> sr_service (tb_secrets b ! r) = service"
  by (auto simp: validateResponseSecretUse_def preflightResponseSecretUse_def Let_def
      split: option.splits)

lemma validate_use_exact:
  "snd (validateTokenUse E now auth target v b) = Inr r \<longleftrightarrow>
    jmap_get (tb_recordsByHash b) (be_hash E v) = Some r \<and>
    \<not> life_expired now (tr_life (tb_records b ! r)) \<and>
    tr_subject (tb_records b ! r) = ac_subject auth \<and> tr_service (tb_records b ! r) = ut_service target \<and>
    (ut_destination target = None \<or> ut_destination target = Some (tr_destination (tb_records b ! r)))"
proof -
  have "snd (validateTokenUse E now auth target v b) = Inr r \<longleftrightarrow>
      (\<exists>b'. validateTokenUse E now auth target v b = (b', Inr r))"
    by (cases "validateTokenUse E now auth target v b") auto
  then show ?thesis by (auto simp: validate_Inr preflight_Inr)
qed

lemma life_expired_mono: "life_expired now l \<Longrightarrow> now \<le> t \<Longrightarrow> life_expired t l"
  by (auto simp: life_expired_def)

section \<open>Invalidation\<close>

lemma invalidate_spec:
  assumes "broker_ok E b" and "invalidate E now input b = (b', n)"
  shows "broker_ok E b'" and "same_stores b b'"
    and "tb_recordsByHash b' = filter (\<lambda>(h, r). \<not> life_expired now (tr_life (tb_records b ! r)) \<and>
      \<not> record_selected input (tb_records b ! r)) (tb_recordsByHash b)"
    and "tb_responseSecretsById b' = filter (\<lambda>(i, r). \<not> life_expired now (sr_life (tb_secrets b ! r)) \<and>
      \<not> secret_selected input (tb_secrets b ! r)) (tb_responseSecretsById b)"
    and "n = ag_gref_active (snd (referenceAggregates E now input b)) +
      ag_sec_active (snd (referenceAggregates E now input b))"
proof -
  let ?s = "sweepExpired E now b"
  obtain b1 n1 where 1: "drop_records (record_selected input) (?s, 0) = (b1, n1)"
    by (cases "drop_records (record_selected input) (?s, 0)")
  have 2: "drop_secrets E (secret_selected input) (b1, n1) = (b', n)"
    using assms(2) 1 by (simp add: invalidate_def)
  note s = sweepExpired_spec [OF assms(1), of now]
  note d1 = drop_records_spec [OF s(1) 1]
  note d2 = drop_secrets_spec [OF d1(1) 2]
  have stores: "tb_records ?s = tb_records b" "tb_secrets ?s = tb_secrets b" "tb_secrets b1 = tb_secrets b"
    using same_storesD [OF s(2)] same_storesD [OF d1(2)] by simp_all
  show "broker_ok E b'" by (rule d2(1))
  show "same_stores b b'" using same_stores_trans [OF same_stores_trans [OF s(2) d1(2)] d2(2)] .
  show "tb_recordsByHash b' = filter (\<lambda>(h, r). \<not> life_expired now (tr_life (tb_records b ! r)) \<and>
      \<not> record_selected input (tb_records b ! r)) (tb_recordsByHash b)"
    unfolding d2(3) d1(4) s(3) stores filter_filter by (intro filter_cong) auto
  show "tb_responseSecretsById b' = filter (\<lambda>(i, r). \<not> life_expired now (sr_life (tb_secrets b ! r)) \<and>
      \<not> secret_selected input (tb_secrets b ! r)) (tb_responseSecretsById b)"
    unfolding d2(4) d1(3) s(4) stores filter_filter by (intro filter_cong) auto
  show "n = ag_gref_active (snd (referenceAggregates E now input b)) +
      ag_sec_active (snd (referenceAggregates E now input b))"
    unfolding d2(5) d1(5) d1(3) stores(3) by (simp add: referenceAggregates_def Let_def stores)
qed

lemma invalidate_by_hash:
  assumes "broker_ok E b" and "invalidate E now input b = (b', n)"
  shows "jmap_get (tb_recordsByHash b') h = Some r \<longleftrightarrow> jmap_get (tb_recordsByHash b) h = Some r \<and>
      \<not> life_expired now (tr_life (tb_records b ! r)) \<and> \<not> record_selected input (tb_records b ! r)"
    and "jmap_get (tb_responseSecretsByHash b') h = Some r \<longleftrightarrow>
      jmap_get (tb_responseSecretsByHash b) h = Some r \<and>
      \<not> life_expired now (sr_life (tb_secrets b ! r)) \<and> \<not> secret_selected input (tb_secrets b ! r)"
proof -
  note i = invalidate_spec [OF assms]
  note st = same_storesD [OF i(2)]
  have "jmap_ok (tb_recordsByHash b)" using assms(1) by (simp add: broker_ok_def gref_ok_def)
  then show "jmap_get (tb_recordsByHash b') h = Some r \<longleftrightarrow> jmap_get (tb_recordsByHash b) h = Some r \<and>
      \<not> life_expired now (tr_life (tb_records b ! r)) \<and> \<not> record_selected input (tb_records b ! r)"
    unfolding i(3) by (auto simp: jmap_get_filter split: option.splits)
  have "sec_ok E b" "sec_ok E b'" using assms(1) i(1) by (simp_all add: broker_ok_def)
  then show "jmap_get (tb_responseSecretsByHash b') h = Some r \<longleftrightarrow>
      jmap_get (tb_responseSecretsByHash b) h = Some r \<and>
      \<not> life_expired now (sr_life (tb_secrets b ! r)) \<and> \<not> secret_selected input (tb_secrets b ! r)"
    unfolding sec_by_hash [OF \<open>sec_ok E b\<close>] sec_by_hash [OF \<open>sec_ok E b'\<close>] i(4) using st by auto
qed

text \<open>
  C9: Invalidation is exact: it reports as many references as the aggregates counted just before;
  afterwards the aggregates count none; and from then on a reference or a response secret
  reference is honoured precisely when it would have been honoured without the invalidation and
  is not selected by the filter.
\<close>

theorem invalidate_exact:
  assumes "reachable E b" and "ttls_ok E" and "invalidate E now input b = (b', n)" and "now \<le> t"
  shows "n = ag_gref_active (snd (referenceAggregates E now input b)) +
      ag_sec_active (snd (referenceAggregates E now input b)) \<and>
    ag_gref_active (snd (referenceAggregates E t input b')) = 0 \<and>
    ag_sec_active (snd (referenceAggregates E t input b')) = 0 \<and>
    (snd (validateTokenUse E t auth target v b') = Inr r \<longleftrightarrow>
      snd (validateTokenUse E t auth target v b) = Inr r \<and> \<not> record_selected input (tb_records b ! r)) \<and>
    (snd (validateResponseSecretUse E t auth service v b') = Inr q \<longleftrightarrow>
      snd (validateResponseSecretUse E t auth service v b) = Inr q \<and>
      \<not> secret_selected input (tb_secrets b ! q))"
proof (intro conjI)
  have ok: "broker_ok E b" using assms(1,2) by (rule reachable_ok)
  note i = invalidate_spec [OF ok assms(3)]
  note st = same_storesD [OF i(2)]
  note h = invalidate_by_hash [OF ok assms(3)]
  note s = sweepExpired_spec [OF i(1), of t]
  have stores: "tb_records (sweepExpired E t b') = tb_records b"
    "tb_secrets (sweepExpired E t b') = tb_secrets b"
    using same_storesD [OF s(2)] st by simp_all
  show "n = ag_gref_active (snd (referenceAggregates E now input b)) +
      ag_sec_active (snd (referenceAggregates E now input b))" by (rule i(5))
  show "ag_gref_active (snd (referenceAggregates E t input b')) = 0"
    "ag_sec_active (snd (referenceAggregates E t input b')) = 0"
    unfolding referenceAggregates_def Let_def stores s(3) s(4) i(3) i(4)
    by (auto simp: filter_empty_conv)
  show "snd (validateTokenUse E t auth target v b') = Inr r \<longleftrightarrow>
      snd (validateTokenUse E t auth target v b) = Inr r \<and> \<not> record_selected input (tb_records b ! r)"
    unfolding validate_use_exact h(1) using st life_expired_mono [OF _ assms(4)] by auto
  show "snd (validateResponseSecretUse E t auth service v b') = Inr q \<longleftrightarrow>
      snd (validateResponseSecretUse E t auth service v b) = Inr q \<and>
      \<not> secret_selected input (tb_secrets b ! q)"
    unfolding validateSecret_exact h(2) using st life_expired_mono [OF _ assms(4)] by auto
qed

definition sample_filter :: reference_filter where
  "sample_filter = \<lparr>rf_subject = Some ''alice'', rf_serviceId = None, rf_credentialId = None\<rparr>"

theorem invalidate_exact_witness:
  "snd (invalidate sample_env 104 sample_filter sample_broker) = 1 \<and>
   snd (validateTokenUse sample_env 105 sample_auth sample_target_use ''gref_R''
     (fst (invalidate sample_env 104 sample_filter sample_broker))) \<noteq> Inr 0"
proof -
  let ?x = "invalidate sample_env 104 sample_filter sample_broker"
  have x: "?x = (fst ?x, snd ?x)" by simp
  have "record_selected sample_filter (tb_records sample_broker ! 0)"
    "ag_gref_active (snd (referenceAggregates sample_env 104 sample_filter sample_broker)) +
      ag_sec_active (snd (referenceAggregates sample_env 104 sample_filter sample_broker)) = 1"
    by code_simp+
  then show ?thesis
    using invalidate_exact [OF sample_reachable sample_ttls x, of 105 sample_auth sample_target_use "''gref_R''" 0]
    by simp
qed

text \<open>
  A use that was preflighted is still refused when the reference is revoked or expires before
  it is consumed: after an invalidation between preflight and consumption, consuming succeeds
  exactly when the filter did not select the reference and it had expired neither at the
  invalidation nor at the consumption.
\<close>

theorem preflight_then_invalidate:
  assumes "reachable E b" and "ttls_ok E"
    and "preflightTokenUse E t0 auth target v b = (b1, Inr r)"
  shows "snd (consumePreflightedToken E t r (fst (invalidate E now input b1))) = Inr () \<longleftrightarrow>
    \<not> record_selected input (tb_records b ! r) \<and>
    \<not> life_expired now (tr_life (tb_records b ! r)) \<and> \<not> life_expired t (tr_life (tb_records b ! r))"
proof -
  have ok: "broker_ok E b" using assms(1,2) by (rule reachable_ok)
  have p: "b1 = b" "jmap_get (tb_recordsByHash b) (be_hash E v) = Some r"
    using assms(3) by (simp_all add: preflight_Inr)
  have x: "invalidate E now input b = (fst (invalidate E now input b), snd (invalidate E now input b))" by simp
  note st = same_storesD [OF invalidate_spec(2) [OF ok x]]
  have "gref_entry E b (be_hash E v) r" using ok p(2) by (intro gref_okD) (simp_all add: broker_ok_def)
  then have "tr_tokenHash (tb_records b ! r) = be_hash E v" by (simp add: gref_entry_def)
  then show ?thesis
    using p st invalidate_by_hash(1) [OF ok x, of "be_hash E v" r]
    by (simp add: consumePreflightedToken_def)
qed

theorem preflight_then_invalidate_witness:
  "snd (consumePreflightedToken sample_env 105 0
     (fst (invalidate sample_env 104 sample_filter sample_broker))) \<noteq> Inr ()"
proof -
  let ?x = "preflightTokenUse sample_env 103 sample_auth sample_target_use ''gref_R'' sample_broker"
  have "snd ?x = Inr 0" "record_selected sample_filter (tb_records sample_broker ! 0)" by code_simp+
  moreover from this have "?x = (fst ?x, Inr 0)" by (metis prod.collapse)
  moreover from this have "fst ?x = sample_broker" by (simp add: preflight_Inr)
  ultimately show ?thesis
    using preflight_then_invalidate [OF sample_reachable sample_ttls,
      of 103 sample_auth sample_target_use "''gref_R''" sample_broker 0 105 104 sample_filter] by simp
qed

section \<open>Response secrets\<close>

text \<open>What a successful request for a response secret leaves in the maps.\<close>

lemma issueOrReuse_Inr:
  assumes ok: "broker_ok E b" and ttl: "ttls_ok E"
    and issue: "issueOrReuseResponseSecret E now draw runtime auth service secret b = (b', Inr res)"
  shows "\<exists>i. jmap_get (tb_responseSecretsById b') i = Some (si_record res) \<and>
    jmap_get (tb_responseSecretIdsByIndex b') (responseSecretIndex E (ac_subject auth) service secret) = Some i \<and>
    jmap_get (tb_tokenValuesById b') i = Some (si_token res) \<and> si_token res \<noteq> [] \<and>
    sr_bindings (tb_secrets b' ! si_record res) = runtime_bindings_for runtime (ac_subject auth) service \<and>
    (si_reused res \<longrightarrow> si_record res < length (tb_secrets b) \<and>
      sr_secret (tb_secrets b' ! si_record res) = sr_secret (tb_secrets b ! si_record res) \<and>
      sr_subject (tb_secrets b' ! si_record res) = sr_subject (tb_secrets b ! si_record res) \<and>
      sr_service (tb_secrets b' ! si_record res) = sr_service (tb_secrets b ! si_record res) \<and>
      secret_index E (tb_secrets b ! si_record res) = responseSecretIndex E (ac_subject auth) service secret) \<and>
    (\<not> si_reused res \<longrightarrow> sr_secret (tb_secrets b' ! si_record res) = secret \<and>
      sr_subject (tb_secrets b' ! si_record res) = ac_subject auth \<and>
      sr_service (tb_secrets b' ! si_record res) = service) \<and> secret \<noteq> []"
    (is "\<exists>i. ?P b' res i")
proof -
  let ?b = "sweepExpired E now b" and ?x = "responseSecretIndex E (ac_subject auth) service secret"
  let ?rb = "runtime_bindings_for runtime (ac_subject auth) service"
  note s = sweepExpired_spec [OF ok, of now]
  note st = same_storesD [OF s(2)]
  have ne: "secret \<noteq> []" using issue by (auto simp: issueOrReuseResponseSecret_def Let_def)
  have new: "\<exists>i. ?P b' res i" if "issue_secret E now draw ?rb auth service secret c = (b', Inr res)" for c
  proof -
    have "b' = store_secret E (sec_token (fst draw)) \<lparr>sr_id = sec_id (snd draw),
          sr_tokenHash = be_hash E (sec_token (fst draw)), sr_subject = ac_subject auth,
          sr_service = service, sr_bindings = ?rb, sr_secret = secret, sr_life = new_lifetime E now\<rparr> c"
      "res = \<lparr>si_token = sec_token (fst draw), si_record = length (tb_secrets c), si_reused = False\<rparr>"
      using that by (auto simp: issue_secret_def Let_def split: sum.splits)
    then show ?thesis using ne by (simp add: secret_index_def sec_token_def)
  qed
  show ?thesis
  proof (cases "jmap_get (tb_responseSecretIdsByIndex ?b) ?x")
    case None
    then show ?thesis using issue ne new by (simp add: issueOrReuseResponseSecret_def Let_def)
  next
    case (Some i)
    show ?thesis
    proof (cases "reusable_secret now ?rb i ?b")
      case None
      then show ?thesis using issue ne new Some by (simp add: issueOrReuseResponseSecret_def Let_def)
    next
      case (Some p)
      obtain r token where p: "p = (r, token)" by (cases p)
      have out: "b' = refresh_secret E now r ?b"
        "res = \<lparr>si_token = token, si_record = r, si_reused = True\<rparr>"
        using issue ne Some p \<open>jmap_get (tb_responseSecretIdsByIndex ?b) ?x = Some i\<close>
        by (simp_all add: issueOrReuseResponseSecret_def Let_def)
      have r: "jmap_get (tb_responseSecretsById ?b) i = Some r" "jmap_get (tb_tokenValuesById ?b) i = Some token"
        "token \<noteq> []" "sr_bindings (tb_secrets ?b ! r) = ?rb"
        using Some p by (auto simp: reusable_secret_def responseBindingsMatch_def split: option.splits if_splits)
      have sec: "sec_ok E ?b" using s(1) by (simp add: broker_ok_def)
      have e: "r < length (tb_secrets ?b)" using sec_okD [OF sec r(1)] unfolding sec_entry_def by blast
      have "secret_index E (tb_secrets ?b ! r) = ?x"
        using sec_ok_index [OF sec \<open>jmap_get (tb_responseSecretIdsByIndex ?b) ?x = Some i\<close>] r(1) by auto
      then have "?P b' res i"
        using r e ne st \<open>jmap_get (tb_responseSecretIdsByIndex ?b) ?x = Some i\<close>
        by (simp add: out refresh_secret_nth)
      then show ?thesis ..
    qed
  qed
qed

text \<open>
  C16: A response secret comes back as it went in: when the keyed hash does not confuse the secret
  with another one on file, the reference returned for it is accepted for the same subject and
  service until its idle time ends, and the record found holds exactly this secret.
\<close>

theorem response_secret_roundtrip:
  assumes "reachable E b" and "ttls_ok E" and "sec_draw_fresh E draw b"
    and "\<forall>s \<in> set (tb_secrets b).
      secret_index E s = responseSecretIndex E (ac_subject auth) service secret \<longrightarrow>
      sr_subject s = ac_subject auth \<and> sr_service s = service \<and> sr_secret s = secret"
    and "issueOrReuseResponseSecret E now draw runtime auth service secret b = (b', Inr res)"
    and "t < lt_idleExpiresAt (sr_life (tb_secrets b' ! si_record res))"
  shows "snd (validateResponseSecretUse E t auth service (si_token res) b') = Inr (si_record res) \<and>
    sr_secret (tb_secrets b' ! si_record res) = secret"
proof -
  have ok: "broker_ok E b" using assms(1,2) by (rule reachable_ok)
  have ok': "broker_ok E b'"
    using issueOrReuseResponseSecret_ok [OF ok assms(2,3), of now runtime auth service secret] assms(5) by simp
  then have sec: "sec_ok E b'" and lives: "lives_ok E b'" by (simp_all add: broker_ok_def)
  let ?r = "si_record res"
  obtain i where i: "jmap_get (tb_responseSecretsById b') i = Some ?r"
      "jmap_get (tb_tokenValuesById b') i = Some (si_token res)"
    and old: "si_reused res \<Longrightarrow> ?r < length (tb_secrets b) \<and>
      sr_secret (tb_secrets b' ! ?r) = sr_secret (tb_secrets b ! ?r) \<and>
      sr_subject (tb_secrets b' ! ?r) = sr_subject (tb_secrets b ! ?r) \<and>
      sr_service (tb_secrets b' ! ?r) = sr_service (tb_secrets b ! ?r) \<and>
      secret_index E (tb_secrets b ! ?r) = responseSecretIndex E (ac_subject auth) service secret"
    and new: "\<not> si_reused res \<Longrightarrow> sr_secret (tb_secrets b' ! ?r) = secret \<and>
      sr_subject (tb_secrets b' ! ?r) = ac_subject auth \<and> sr_service (tb_secrets b' ! ?r) = service"
    using issueOrReuse_Inr [OF ok assms(2,5)] by blast
  have e: "?r < length (tb_secrets b')"
    "jmap_get (tb_responseSecretsByHash b') (be_hash E (si_token res)) = Some ?r"
    using sec_okD [OF sec i(1)] i(2) by (auto simp: sec_entry_def)
  have b: "sr_secret (tb_secrets b' ! ?r) = secret \<and> sr_subject (tb_secrets b' ! ?r) = ac_subject auth \<and>
      sr_service (tb_secrets b' ! ?r) = service"
  proof (cases "si_reused res")
    case True
    then have "tb_secrets b ! ?r \<in> set (tb_secrets b)" using old by simp
    then show ?thesis using old [OF True] assms(4) by auto
  next
    case False
    then show ?thesis using new by simp
  qed
  have "life_ok E (sr_life (tb_secrets b' ! ?r))" using lives e(1) by (simp add: lives_ok_def list_all_length)
  then show ?thesis
    using b e(2) assms(6) by (simp add: validateSecret_exact life_expired_def life_ok_def)
qed

definition sample_secret_broker :: token_broker where
  "sample_secret_broker =
     fst (issueOrReuseResponseSecret sample_env 104 (''R2'', ''U2'') None sample_auth ''s'' ''hunter2'' sample_broker)"

theorem response_secret_roundtrip_witness:
  "snd (validateResponseSecretUse sample_env 109 sample_auth ''s'' ''sec_R2'' sample_secret_broker) = Inr 0 \<and>
   sr_secret (tb_secrets sample_secret_broker ! 0) = ''hunter2''"
proof -
  let ?x = "issueOrReuseResponseSecret sample_env 104 (''R2'', ''U2'') None sample_auth ''s'' ''hunter2'' sample_broker"
  let ?res = "\<lparr>si_token = ''sec_R2'', si_record = 0, si_reused = False\<rparr>"
  have "snd ?x = Inr ?res" by code_simp
  then have x: "?x = (sample_secret_broker, Inr ?res)" by (metis prod.collapse sample_secret_broker_def)
  have "sec_draw_fresh sample_env (''R2'', ''U2'') sample_broker" "tb_secrets sample_broker = []"
    "109 < lt_idleExpiresAt (sr_life (tb_secrets sample_secret_broker ! 0))"
    unfolding sec_draw_fresh_def by code_simp+
  then show ?thesis
    using response_secret_roundtrip [OF sample_reachable sample_ttls _ _ x, of 109] by simp
qed

text \<open>
  The same secret keeps its reference: asking again, for the same subject and service and with
  the same runtime bindings, before the reference has idled out returns the token and the record
  of the first request, marked as reused, without drawing a new one.
\<close>

theorem response_secret_reused:
  assumes "reachable E b" and "ttls_ok E" and "sec_draw_fresh E draw b"
    and "issueOrReuseResponseSecret E now draw runtime auth service secret b = (b', Inr res)"
    and "t < lt_idleExpiresAt (sr_life (tb_secrets b' ! si_record res))"
  shows "snd (issueOrReuseResponseSecret E t draw' runtime auth service secret b') =
    Inr (res\<lparr>si_reused := True\<rparr>)"
proof -
  have ok: "broker_ok E b" using assms(1,2) by (rule reachable_ok)
  have ok': "broker_ok E b'"
    using issueOrReuseResponseSecret_ok [OF ok assms(2,3), of now runtime auth service secret] assms(4) by simp
  then have sec: "sec_ok E b'" and lives: "lives_ok E b'" by (simp_all add: broker_ok_def)
  let ?r = "si_record res" and ?s = "sweepExpired E t b'"
  let ?x = "responseSecretIndex E (ac_subject auth) service secret"
  obtain i where i: "jmap_get (tb_responseSecretsById b') i = Some ?r"
      "jmap_get (tb_responseSecretIdsByIndex b') ?x = Some i"
      "jmap_get (tb_tokenValuesById b') i = Some (si_token res)" "si_token res \<noteq> []" "secret \<noteq> []"
      "sr_bindings (tb_secrets b' ! ?r) = runtime_bindings_for runtime (ac_subject auth) service"
    using issueOrReuse_Inr [OF ok assms(2,4)] by blast
  obtain u where e: "?r < length (tb_secrets b')" "sr_id (tb_secrets b' ! ?r) = i" "i = sec_id u"
    using sec_okD [OF sec i(1)] by (auto simp: sec_entry_def)
  have x: "secret_index E (tb_secrets b' ! ?r) = ?x" using sec_ok_index [OF sec i(2)] i(1) by auto
  have "life_ok E (sr_life (tb_secrets b' ! ?r))" using lives e(1) by (simp add: lives_ok_def list_all_length)
  then have live: "\<not> life_expired t (sr_life (tb_secrets b' ! ?r))"
    using assms(5) by (simp add: life_expired_def life_ok_def)
  note s = sweepExpired_spec [OF ok', of t]
  note st = same_storesD [OF s(2)]
  have okm: "jmap_ok (tb_responseSecretsById b')" using sec by (simp add: sec_ok_def)
  have get: "jmap_get (tb_responseSecretsById ?s) i = Some ?r"
    unfolding s(4) using i(1) live by (simp add: jmap_get_filter [OF okm])
  have "sec_ok E ?s" using s(1) by (simp add: broker_ok_def)
  from sec_okD [OF this get] have idx: "jmap_get (tb_responseSecretIdsByIndex ?s) ?x = Some i"
    using st x by (simp add: sec_entry_def)
  have "\<not> (\<exists>(j, r) \<in> set (tb_responseSecretsById b'). life_expired t (sr_life (tb_secrets b' ! r)) \<and>
      sr_id (tb_secrets b' ! r) = sec_id u)"
  proof
    assume "\<exists>(j, r) \<in> set (tb_responseSecretsById b'). life_expired t (sr_life (tb_secrets b' ! r)) \<and>
      sr_id (tb_secrets b' ! r) = sec_id u"
    then obtain j r where j: "(j, r) \<in> set (tb_responseSecretsById b')"
      "life_expired t (sr_life (tb_secrets b' ! r))" "sr_id (tb_secrets b' ! r) = i" using e(3) by auto
    have "jmap_get (tb_responseSecretsById b') j = Some r" using j(1) by (rule jmap_get_iff [THEN iffD2, OF okm])
    then have "r = ?r" using sec_ok_refs(2) [OF sec j(1)] j(3) i(1) by simp
    then show False using live j(2) by simp
  qed
  then have "jmap_get (tb_tokenValuesById ?s) i = Some (si_token res)"
    using s(6) [of u] i(3) e(3) by simp
  then have "reusable_secret t (runtime_bindings_for runtime (ac_subject auth) service) i ?s =
      Some (?r, si_token res)"
    using get i(4,6) live st by (simp add: reusable_secret_def responseBindingsMatch_def)
  then show ?thesis using i(5) idx by (simp add: issueOrReuseResponseSecret_def Let_def)
qed

theorem response_secret_reused_witness:
  "snd (issueOrReuseResponseSecret sample_env 110 (''R3'', ''U3'') None sample_auth ''s'' ''hunter2''
     sample_secret_broker) = Inr \<lparr>si_token = ''sec_R2'', si_record = 0, si_reused = True\<rparr>"
proof -
  let ?x = "issueOrReuseResponseSecret sample_env 104 (''R2'', ''U2'') None sample_auth ''s'' ''hunter2'' sample_broker"
  let ?res = "\<lparr>si_token = ''sec_R2'', si_record = 0, si_reused = False\<rparr>"
  have "snd ?x = Inr ?res" by code_simp
  then have x: "?x = (sample_secret_broker, Inr ?res)" by (metis prod.collapse sample_secret_broker_def)
  have "sec_draw_fresh sample_env (''R2'', ''U2'') sample_broker"
    "110 < lt_idleExpiresAt (sr_life (tb_secrets sample_secret_broker ! 0))"
    unfolding sec_draw_fresh_def by code_simp+
  then show ?thesis
    using response_secret_reused [OF sample_reachable sample_ttls _ x, of 110 "(''R3'', ''U3'')"] by simp
qed

section \<open>The reference for a known secret\<close>

lemma snd_image_iff: "v \<in> snd ` S \<longleftrightarrow> (\<exists>k. (k, v) \<in> S)"
  by force

lemma sort_key_first:
  "sort_key f xs = y # ys \<Longrightarrow> y \<in> set xs \<and> (\<forall>x \<in> set xs. f y \<le> f x)"
proof -
  assume a: "sort_key f xs = y # ys"
  have "set (y # ys) = set xs" "sorted (map f (y # ys))" using a sorted_sort_key [of f xs] set_sort [of f xs] by simp_all
  then show ?thesis by auto
qed

text \<open>
  When a secret of the subject already has references, the one handed out is right: it is the
  value on file of a record that is live, bound to the subject, the service and one of the
  credentials asked for, no other such record was used later, or used then and issued later; and
  none is handed out exactly when no such record exists.
\<close>

theorem latestConfiguredToken_latest:
  assumes "reachable E b" and "ttls_ok E"
    and "latestConfiguredToken E now subject service ids b = (b', result)"
  shows "case result of
      None \<Rightarrow> \<forall>h r. jmap_get (tb_recordsByHash b) h = Some r \<and>
          \<not> life_expired now (tr_life (tb_records b ! r)) \<longrightarrow>
          \<not> record_matches subject service ids (tb_records b ! r)
    | Some m \<Rightarrow>
        jmap_get (tb_recordsByHash b) (be_hash E (cm_token m)) = Some (cm_record m) \<and>
        \<not> life_expired now (tr_life (tb_records b ! cm_record m)) \<and>
        record_matches subject service ids (tb_records b ! cm_record m) \<and>
        (\<forall>h r. jmap_get (tb_recordsByHash b) h = Some r \<and>
            \<not> life_expired now (tr_life (tb_records b ! r)) \<and>
            record_matches subject service ids (tb_records b ! r) \<longrightarrow>
            latest_first (tb_records b ! cm_record m) \<le> latest_first (tb_records b ! r))"
proof -
  let ?live = "\<lambda>r. life_expired now (tr_life r)"
  have ok: "broker_ok E b" using assms(1,2) by (rule reachable_ok)
  obtain b1 n where d: "drop_records ?live (b, 0) = (b1, n)" by (cases "drop_records ?live (b, 0)")
  note d1 = drop_records_spec [OF ok d]
  note st = same_storesD [OF d1(2)]
  have okm: "jmap_ok (tb_recordsByHash b)" and g1: "gref_ok E b1"
    using ok d1(1) by (simp_all add: broker_ok_def gref_ok_def)
  have okm1: "jmap_ok (tb_recordsByHash b1)" using g1 by (simp add: gref_ok_def)
  have in1: "jmap_get (tb_recordsByHash b1) h = Some r \<longleftrightarrow>
      jmap_get (tb_recordsByHash b) h = Some r \<and> \<not> ?live (tb_records b ! r)" for h r
    unfolding d1(4) by (auto simp: jmap_get_filter [OF okm] split: option.splits)
  let ?m = "\<lambda>r. record_matches subject service ids (tb_records b ! r)"
  let ?ms = "filter ?m (map snd (tb_recordsByHash b1))"
  have ms: "r \<in> set ?ms \<longleftrightarrow> (\<exists>h. jmap_get (tb_recordsByHash b) h = Some r \<and> \<not> ?live (tb_records b ! r)) \<and> ?m r" for r
    unfolding set_filter set_map mem_Collect_eq snd_image_iff jmap_get_iff [OF okm1, symmetric] in1
    by (rule refl)
  have run: "latestConfiguredToken E now subject service ids b =
      (case sort_key (\<lambda>r. latest_first (tb_records b ! r)) ?ms of
         [] \<Rightarrow> (b1, None)
       | r # _ \<Rightarrow>
           (case jmap_get (tb_tokenValuesById b1) (tr_id (tb_records b ! r)) of
              None \<Rightarrow> (b1, None)
            | Some token \<Rightarrow>
                (if token = [] then (b1, None)
                 else (refresh_record E now r b1, Some \<lparr>cm_token = token, cm_record = r\<rparr>))))"
    unfolding latestConfiguredToken_def d fst_conv Let_def st ..
  show ?thesis
  proof (cases "sort_key (\<lambda>r. latest_first (tb_records b ! r)) ?ms")
    case Nil
    then have "set ?ms = {}" by (metis set_sort set_empty)
    then show ?thesis using Nil run assms(3) ms by auto
  next
    case (Cons r rs)
    note first = sort_key_first [OF Cons]
    obtain h where h: "jmap_get (tb_recordsByHash b) h = Some r" "\<not> ?live (tb_records b ! r)" "?m r"
      using first ms by blast
    then have "gref_entry E b1 h r" using g1 in1 by (intro gref_okD) simp_all
    then obtain token where token: "jmap_get (tb_tokenValuesById b1) (tr_id (tb_records b ! r)) = Some token"
      "token \<noteq> []" "be_hash E token = h" using st by (auto simp: gref_entry_def)
    then have "result = Some \<lparr>cm_token = token, cm_record = r\<rparr>" using run Cons assms(3) by simp
    then show ?thesis using h token(3) first ms by auto
  qed
qed

theorem latestConfiguredToken_latest_witness:
  "\<exists>m. snd (latestConfiguredToken sample_env 105 ''alice'' ''s'' [''key''] sample_broker) = Some m \<and>
    \<not> life_expired 105 (tr_life (tb_records sample_broker ! cm_record m))"
proof -
  let ?x = "latestConfiguredToken sample_env 105 ''alice'' ''s'' [''key''] sample_broker"
  have "snd ?x = Some \<lparr>cm_token = ''gref_R'', cm_record = 0\<rparr>" by code_simp
  moreover have "?x = (fst ?x, snd ?x)" by simp
  ultimately show ?thesis
    using latestConfiguredToken_latest [OF sample_reachable sample_ttls, of 105 "''alice''" "''s''" "[''key'']" "fst ?x"]
    by force
qed

section \<open>What the preflight of an expired reference leaves behind\<close>

text \<open>
  The preflight of an expired reference forgets its record but not the value of its token:
  that value stays on file, and no later sweep, at any time, removes it, since sweeps only visit
  records. The inspection of the same expired reference does remove it.
\<close>

theorem expired_preflight_keeps_token:
  assumes "reachable E b" and "ttls_ok E"
    and "jmap_get (tb_recordsByHash b) (be_hash E v) = Some r"
    and "life_expired now (tr_life (tb_records b ! r))"
  shows "jmap_get (tb_tokenValuesById (sweepExpired E t (fst (preflightTokenUse E now auth target v b))))
      (tr_id (tb_records b ! r)) \<noteq> None \<and>
    jmap_get (tb_tokenValuesById (fst (inspectResponseToken E now auth service v b)))
      (tr_id (tb_records b ! r)) = None"
proof -
  have ok: "broker_ok E b" using assms(1,2) by (rule reachable_ok)
  then have gref: "gref_ok E b" by (simp add: broker_ok_def)
  let ?b = "fst (preflightTokenUse E now auth target v b)"
  have b: "?b = b\<lparr>tb_recordsByHash := jmap_delete (tb_recordsByHash b) (be_hash E v)\<rparr>"
    using assms(3,4) by (simp add: preflightTokenUse_def Let_def)
  have okb: "broker_ok E ?b" using ok by (rule preflightTokenUse_ok)
  then have gb: "jmap_ok (tb_recordsByHash ?b)" by (simp add: broker_ok_def gref_ok_def)
  obtain u where u: "tr_id (tb_records b ! r) = gref_id u"
    "jmap_get (tb_tokenValuesById b) (gref_id u) \<noteq> None"
    using gref_okD [OF gref assms(3)] by (auto simp: gref_entry_def)
  have "tr_id (tb_records b ! q) \<noteq> gref_id u" if q: "(h, q) \<in> set (tb_recordsByHash ?b)" for h q
  proof -
    have "jmap_get (tb_recordsByHash ?b) h = Some q" using q by (rule jmap_get_iff [THEN iffD2, OF gb])
    then have h: "jmap_get (tb_recordsByHash b) h = Some q" "h \<noteq> be_hash E v"
      unfolding b by (auto split: if_splits)
    then show ?thesis using gref_same_id [OF gref h(1) assms(3)] u(1) by auto
  qed
  then have "\<not> (\<exists>(h, q) \<in> set (tb_recordsByHash ?b). life_expired t (tr_life (tb_records ?b ! q)) \<and>
      tr_id (tb_records ?b ! q) = gref_id u)"
    unfolding b by auto
  then have "jmap_get (tb_tokenValuesById (sweepExpired E t ?b)) (gref_id u) =
      jmap_get (tb_tokenValuesById ?b) (gref_id u)"
    using sweepExpired_spec(5) [OF okb, of t u] by argo
  then show ?thesis
    using u assms(3,4) by (simp add: b inspectResponseToken_def Let_def)
qed

theorem expired_preflight_keeps_token_witness:
  "jmap_get (tb_tokenValuesById (sweepExpired sample_env 1000
      (fst (preflightTokenUse sample_env 200 sample_auth sample_target_use ''gref_R'' sample_broker))))
    ''grefrec_U'' \<noteq> None"
proof -
  have "jmap_get (tb_recordsByHash sample_broker) (be_hash sample_env ''gref_R'') = Some 0"
    "life_expired 200 (tr_life (tb_records sample_broker ! 0))"
    "tr_id (tb_records sample_broker ! 0) = ''grefrec_U''" by code_simp+
  then show ?thesis
    using expired_preflight_keeps_token [OF sample_reachable sample_ttls,
      of "''gref_R''" 0 200 1000 sample_auth sample_target_use] by metis
qed

end
