(* ===== verification/ControlPermissions.thy ===== *)
theory ControlPermissions
  imports JsStrings
begin

text \<open>
  \<^verbatim>\<open>src/control/permissions.ts\<close>: the permission matrix of the control API, one row per capability with
  the outcome for each role, and the tests on outcomes that the route registry uses.
\<close>

datatype control_role =
  Role_user | Role_admin | Role_superadmin | Role_service | Role_all_services | Role_system

datatype control_capability =
  Cap_use_mcp | Cap_manage_own_security | Cap_view_own_grants | Cap_view_service_configuration
  | Cap_configure_service | Cap_manage_credentials_policies | Cap_create_service
  | Cap_archive_service | Cap_permanently_delete_service | Cap_assign_service_admin
  | Cap_manage_service_groups | Cap_manage_service_membership | Cap_invite_ordinary_user
  | Cap_view_ordinary_users | Cap_edit_ordinary_user_profile | Cap_reset_ordinary_user_password
  | Cap_reset_ordinary_user_totp | Cap_suspend_reactivate_user | Cap_deactivate_user
  | Cap_permanently_delete_user | Cap_manage_admin_accounts | Cap_change_account_role
  | Cap_affect_superadmin | Cap_manage_global_settings | Cap_global_authenticator_event
  | Cap_manage_api_keys | Cap_create_portable_backup | Cap_backup_with_credentials
  | Cap_backup_without_credentials | Cap_restore | Cap_self_api_key_approval
  | Cap_vault_key_operation | Cap_view_administrative_audit | Cap_view_runtime_audit
  | Cap_export_audit | Cap_manage_audit_retention | Cap_view_activity_dashboard
  | Cap_view_status_dashboard | Cap_view_security_dashboard | Cap_manage_dashboard_remediations
  | Cap_rebuild_activity_dashboard

datatype permission_outcome =
  Out_deny | Out_allow | Out_eligible | Out_self | Out_self_permitted | Out_no_account
  | Out_service_names_only | Out_assigned_services | Out_assigned_services_step_up
  | Out_all_services | Out_all_services_step_up | Out_scoped_service | Out_related_users
  | Out_related_users_not_self | Out_related_users_step_up | Out_all_ordinary_users
  | Out_all_ordinary_users_step_up | Out_ordinary_users_without_assignment
  | Out_permitted_settings | Out_step_up | Out_last_superadmin_rules

definition control_roles :: "control_role list" where
  "control_roles =
     [Role_user, Role_admin, Role_superadmin, Role_service, Role_all_services, Role_system]"

record permission_row =
  pr_user :: permission_outcome
  pr_admin :: permission_outcome
  pr_superadmin :: permission_outcome
  pr_service :: permission_outcome
  pr_all_services :: permission_outcome
  pr_system :: permission_outcome

definition row ::
  "permission_outcome \<Rightarrow> permission_outcome \<Rightarrow> permission_outcome \<Rightarrow> permission_outcome \<Rightarrow> permission_outcome
    \<Rightarrow> permission_outcome \<Rightarrow> permission_row" where
  "row user admin superadmin service allServices system =
     \<lparr>pr_user = user, pr_admin = admin, pr_superadmin = superadmin, pr_service = service,
      pr_all_services = allServices, pr_system = system\<rparr>"

fun control_permission_matrix :: "control_capability \<Rightarrow> permission_row" where
  "control_permission_matrix Cap_use_mcp =
     row Out_eligible Out_deny Out_deny Out_deny Out_deny Out_deny"
| "control_permission_matrix Cap_manage_own_security =
     row Out_self Out_self Out_self Out_no_account Out_no_account Out_no_account"
| "control_permission_matrix Cap_view_own_grants =
     row Out_self Out_self Out_self Out_no_account Out_no_account Out_no_account"
| "control_permission_matrix Cap_view_service_configuration =
     row Out_service_names_only Out_assigned_services Out_all_services Out_scoped_service Out_all_services Out_deny"
| "control_permission_matrix Cap_configure_service =
     row Out_deny Out_assigned_services Out_all_services Out_scoped_service Out_all_services Out_deny"
| "control_permission_matrix Cap_manage_credentials_policies =
     row Out_deny Out_assigned_services Out_all_services Out_scoped_service Out_all_services Out_deny"
| "control_permission_matrix Cap_create_service =
     row Out_deny Out_deny Out_allow Out_deny Out_allow Out_deny"
| "control_permission_matrix Cap_archive_service =
     row Out_deny Out_deny Out_allow Out_deny Out_allow Out_deny"
| "control_permission_matrix Cap_permanently_delete_service =
     row Out_deny Out_deny Out_step_up Out_deny Out_deny Out_deny"
| "control_permission_matrix Cap_assign_service_admin =
     row Out_deny Out_deny Out_allow Out_deny Out_deny Out_deny"
| "control_permission_matrix Cap_manage_service_groups =
     row Out_deny Out_assigned_services Out_all_services Out_scoped_service Out_all_services Out_deny"
| "control_permission_matrix Cap_manage_service_membership =
     row Out_deny Out_assigned_services Out_all_services Out_scoped_service Out_all_services Out_deny"
| "control_permission_matrix Cap_invite_ordinary_user =
     row Out_deny Out_assigned_services Out_all_services Out_scoped_service Out_allow Out_ordinary_users_without_assignment"
| "control_permission_matrix Cap_view_ordinary_users =
     row Out_self Out_related_users Out_all_ordinary_users Out_related_users Out_all_ordinary_users Out_all_ordinary_users"
| "control_permission_matrix Cap_edit_ordinary_user_profile =
     row Out_self_permitted Out_related_users_not_self Out_all_ordinary_users Out_deny Out_deny Out_all_ordinary_users"
| "control_permission_matrix Cap_reset_ordinary_user_password =
     row Out_deny Out_related_users_step_up Out_all_ordinary_users_step_up Out_related_users Out_all_ordinary_users Out_all_ordinary_users"
| "control_permission_matrix Cap_reset_ordinary_user_totp =
     row Out_deny Out_related_users_step_up Out_all_ordinary_users_step_up Out_related_users Out_all_ordinary_users Out_all_ordinary_users"
| "control_permission_matrix Cap_suspend_reactivate_user =
     row Out_deny Out_related_users_step_up Out_all_ordinary_users_step_up Out_deny Out_deny Out_all_ordinary_users"
| "control_permission_matrix Cap_deactivate_user =
     row Out_deny Out_related_users_step_up Out_all_ordinary_users_step_up Out_deny Out_deny Out_all_ordinary_users"
| "control_permission_matrix Cap_permanently_delete_user =
     row Out_deny Out_deny Out_all_ordinary_users_step_up Out_deny Out_deny Out_all_ordinary_users"
| "control_permission_matrix Cap_manage_admin_accounts =
     row Out_deny Out_deny Out_allow Out_deny Out_deny Out_allow"
| "control_permission_matrix Cap_change_account_role =
     row Out_deny Out_deny Out_step_up Out_deny Out_deny Out_allow"
| "control_permission_matrix Cap_affect_superadmin =
     row Out_deny Out_deny Out_last_superadmin_rules Out_deny Out_deny Out_deny"
| "control_permission_matrix Cap_manage_global_settings =
     row Out_deny Out_deny Out_allow Out_deny Out_deny Out_permitted_settings"
| "control_permission_matrix Cap_global_authenticator_event =
     row Out_deny Out_deny Out_step_up Out_deny Out_deny Out_deny"
| "control_permission_matrix Cap_manage_api_keys =
     row Out_deny Out_assigned_services_step_up Out_all_services_step_up Out_deny Out_deny Out_deny"
| "control_permission_matrix Cap_create_portable_backup =
     row Out_deny Out_deny Out_step_up Out_deny Out_deny Out_allow"
| "control_permission_matrix Cap_backup_with_credentials =
     row Out_deny Out_deny Out_step_up Out_deny Out_deny Out_deny"
| "control_permission_matrix Cap_backup_without_credentials =
     row Out_deny Out_deny Out_allow Out_deny Out_deny Out_allow"
| "control_permission_matrix Cap_restore =
     row Out_deny Out_deny Out_step_up Out_deny Out_deny Out_deny"
| "control_permission_matrix Cap_self_api_key_approval =
     row Out_deny Out_deny Out_step_up Out_deny Out_deny Out_deny"
| "control_permission_matrix Cap_vault_key_operation =
     row Out_deny Out_deny Out_step_up Out_deny Out_deny Out_deny"
| "control_permission_matrix Cap_view_administrative_audit =
     row Out_deny Out_allow Out_allow Out_deny Out_deny Out_deny"
| "control_permission_matrix Cap_view_runtime_audit =
     row Out_deny Out_allow Out_allow Out_deny Out_deny Out_deny"
| "control_permission_matrix Cap_export_audit =
     row Out_deny Out_allow Out_allow Out_deny Out_deny Out_deny"
| "control_permission_matrix Cap_manage_audit_retention =
     row Out_deny Out_deny Out_step_up Out_deny Out_deny Out_deny"
| "control_permission_matrix Cap_view_activity_dashboard =
     row Out_deny Out_assigned_services Out_all_services Out_deny Out_deny Out_deny"
| "control_permission_matrix Cap_view_status_dashboard =
     row Out_deny Out_assigned_services Out_all_services Out_deny Out_deny Out_deny"
| "control_permission_matrix Cap_view_security_dashboard =
     row Out_deny Out_assigned_services Out_all_services Out_deny Out_deny Out_deny"
| "control_permission_matrix Cap_manage_dashboard_remediations =
     row Out_deny Out_assigned_services_step_up Out_all_services_step_up Out_deny Out_deny Out_deny"
| "control_permission_matrix Cap_rebuild_activity_dashboard =
     row Out_deny Out_deny Out_step_up Out_deny Out_deny Out_deny"

fun row_outcome :: "permission_row \<Rightarrow> control_role \<Rightarrow> permission_outcome" where
  "row_outcome r Role_user = pr_user r"
| "row_outcome r Role_admin = pr_admin r"
| "row_outcome r Role_superadmin = pr_superadmin r"
| "row_outcome r Role_service = pr_service r"
| "row_outcome r Role_all_services = pr_all_services r"
| "row_outcome r Role_system = pr_system r"

definition permissionOutcome :: "control_role \<Rightarrow> control_capability \<Rightarrow> permission_outcome" where
  "permissionOutcome role capability = row_outcome (control_permission_matrix capability) role"

text \<open>The strings the outcomes are in the code; one test looks at how they end.\<close>

fun outcome_name :: "permission_outcome \<Rightarrow> string" where
  "outcome_name Out_deny = ''deny''"
| "outcome_name Out_allow = ''allow''"
| "outcome_name Out_eligible = ''eligible''"
| "outcome_name Out_self = ''self''"
| "outcome_name Out_self_permitted = ''self_permitted''"
| "outcome_name Out_no_account = ''no_account''"
| "outcome_name Out_service_names_only = ''service_names_only''"
| "outcome_name Out_assigned_services = ''assigned_services''"
| "outcome_name Out_assigned_services_step_up = ''assigned_services_step_up''"
| "outcome_name Out_all_services = ''all_services''"
| "outcome_name Out_all_services_step_up = ''all_services_step_up''"
| "outcome_name Out_scoped_service = ''scoped_service''"
| "outcome_name Out_related_users = ''related_users''"
| "outcome_name Out_related_users_not_self = ''related_users_not_self''"
| "outcome_name Out_related_users_step_up = ''related_users_step_up''"
| "outcome_name Out_all_ordinary_users = ''all_ordinary_users''"
| "outcome_name Out_all_ordinary_users_step_up = ''all_ordinary_users_step_up''"
| "outcome_name Out_ordinary_users_without_assignment = ''ordinary_users_without_assignment''"
| "outcome_name Out_permitted_settings = ''permitted_settings''"
| "outcome_name Out_step_up = ''step_up''"
| "outcome_name Out_last_superadmin_rules = ''last_superadmin_rules''"

definition permissionNeedsScope :: "permission_outcome \<Rightarrow> bool" where
  "permissionNeedsScope outcome \<longleftrightarrow> outcome \<notin> {Out_allow, Out_deny, Out_step_up, Out_no_account}"

definition permissionNeedsHumanStepUp :: "permission_outcome \<Rightarrow> bool" where
  "permissionNeedsHumanStepUp outcome \<longleftrightarrow>
     outcome = Out_step_up \<or> ends_with (outcome_name outcome) ''_step_up''"

definition permissionCanAppearInNavigation :: "permission_outcome \<Rightarrow> bool" where
  "permissionCanAppearInNavigation outcome \<longleftrightarrow> outcome \<noteq> Out_deny \<and> outcome \<noteq> Out_no_account"

section \<open>Library lemmas\<close>

lemma step_up_outcomes:
  "permissionNeedsHumanStepUp outcome \<longleftrightarrow> outcome \<in>
    {Out_step_up, Out_assigned_services_step_up, Out_all_services_step_up, Out_related_users_step_up,
     Out_all_ordinary_users_step_up}"
  by (cases outcome) (simp_all add: permissionNeedsHumanStepUp_def suffix_to_prefix)

section \<open>Properties\<close>

definition machine_role :: "control_role \<Rightarrow> bool" where
  "machine_role role \<longleftrightarrow> role \<in> {Role_service, Role_all_services, Role_system}"

text \<open>
  The permission matrix is coherent for every capability: a role of API keys never gets an
  outcome that asks for a human step-up, which no key could pass; what an administrator is
  permitted, a superadministrator is permitted too; where the superadministrator must step up, the
  administrator is refused or must step up as well; and ordinary users, who are permitted only their own
  affairs, never get an outcome that ranges over services or other users.
\<close>

theorem permission_matrix_coherent:
  "(if machine_role role then \<not> permissionNeedsHumanStepUp (permissionOutcome role c) else True) \<and>
   (if permissionCanAppearInNavigation (permissionOutcome Role_admin c)
    then permissionCanAppearInNavigation (permissionOutcome Role_superadmin c) else True) \<and>
   (if permissionNeedsHumanStepUp (permissionOutcome Role_superadmin c)
    then permissionOutcome Role_admin c = Out_deny \<or>
      permissionNeedsHumanStepUp (permissionOutcome Role_admin c) else True) \<and>
   permissionOutcome Role_user c \<in>
     {Out_deny, Out_eligible, Out_self, Out_self_permitted, Out_service_names_only}"
  unfolding step_up_outcomes machine_role_def permissionCanAppearInNavigation_def permissionOutcome_def
  by (cases c; cases role; simp add: row_def)

end
