(* ===== verification/MaintenanceGate.thy ===== *)
theory MaintenanceGate
  imports Prelude
begin

text \<open>
  \<^verbatim>\<open>src/restoreMaintenance.ts\<close>: the gate that lets ordinary work run in parallel and a restore run
  alone. The closures the gate hands out are numbered: \<open>mg_leases\<close> has the flag \<open>released\<close> of every
  ordinary lease, \<open>mg_attempts\<close> how far every call of \<open>acquireExclusive\<close> has come. Such a call is
  cut at its \<open>await\<close>s: waiting for the drain, the drain over (its promise settled, the
  continuation still to run), running \<open>markMaintenance\<close>, holding the exclusive lease, over. Calls,
  timers and continuations may interleave in any order.
\<close>

section \<open>Model\<close>

datatype maintenance_error = Gate_maintenance | Gate_conflict | Gate_timeout

datatype gate_phase = Gate_open | Gate_draining | Gate_exclusive

datatype attempt =
  Waiting | Drained | Timed_out | Marking | Holding | Attempt_over

record gate =
  mg_phase :: gate_phase
  mg_active :: int
  mg_drained :: "nat list"
  mg_leases :: "bool list"
  mg_attempts :: "attempt list"

definition new_gate :: gate where
  "new_gate = \<lparr>mg_phase = Gate_open, mg_active = 0, mg_drained = [], mg_leases = [], mg_attempts = []\<rparr>"

definition acquireOrdinary :: "gate \<Rightarrow> gate \<times> (maintenance_error + nat)" where
  "acquireOrdinary g =
     (if mg_phase g \<noteq> Gate_open then (g, Inl Gate_maintenance)
      else (g\<lparr>mg_active := mg_active g + 1, mg_leases := mg_leases g @ [False]\<rparr>,
            Inr (length (mg_leases g))))"

text \<open>\<open>for (const resolve of this.#drained) resolve()\<close>, then \<open>clear()\<close>.\<close>

fun resolve_all :: "nat list \<Rightarrow> attempt list \<Rightarrow> attempt list" where
  "resolve_all [] as = as"
| "resolve_all (k # ks) as = resolve_all ks (as[k := Drained])"

definition releaseOrdinary :: "nat \<Rightarrow> gate \<Rightarrow> gate" where
  "releaseOrdinary i g =
     (if mg_leases g ! i then g
      else let g' = g\<lparr>mg_leases := (mg_leases g)[i := True], mg_active := mg_active g - 1\<rparr>
           in if mg_active g' = 0
              then g'\<lparr>mg_attempts := resolve_all (mg_drained g') (mg_attempts g'), mg_drained := []\<rparr>
              else g')"

text \<open>The part of \<open>acquireExclusive\<close> that runs at the call; the rest are the four steps below.\<close>

definition acquireExclusive :: "int \<Rightarrow> gate \<Rightarrow> gate \<times> (maintenance_error + nat)" where
  "acquireExclusive timeoutMs g =
     (if timeoutMs < 1 \<or> timeoutMs > 30000 then (g, Inl Gate_conflict)
      else if mg_phase g \<noteq> Gate_open then (g, Inl Gate_conflict)
      else let k = length (mg_attempts g)
           in (if mg_active g \<noteq> 0
               then g\<lparr>mg_phase := Gate_draining, mg_attempts := mg_attempts g @ [Waiting],
                      mg_drained := mg_drained g @ [k]\<rparr>
               else g\<lparr>mg_phase := Gate_draining, mg_attempts := mg_attempts g @ [Marking]\<rparr>,
               Inr k))"

definition drain_timeout :: "nat \<Rightarrow> gate \<Rightarrow> gate" where
  "drain_timeout k g =
     (if mg_attempts g ! k \<noteq> Waiting then g
      else g\<lparr>mg_attempts := (mg_attempts g)[k := Timed_out],
             mg_drained := filter (\<lambda>j. j \<noteq> k) (mg_drained g)\<rparr>)"

definition drain_resume :: "nat \<Rightarrow> gate \<Rightarrow> gate" where
  "drain_resume k g =
     (case mg_attempts g ! k of
        Drained \<Rightarrow> g\<lparr>mg_attempts := (mg_attempts g)[k := Marking]\<rparr>
      | Timed_out \<Rightarrow> g\<lparr>mg_phase := Gate_open, mg_attempts := (mg_attempts g)[k := Attempt_over]\<rparr>
      | _ \<Rightarrow> g)"

definition mark_settled :: "bool \<Rightarrow> nat \<Rightarrow> gate \<Rightarrow> gate" where
  "mark_settled ok k g =
     (if mg_attempts g ! k \<noteq> Marking then g
      else if ok then g\<lparr>mg_phase := Gate_exclusive, mg_attempts := (mg_attempts g)[k := Holding]\<rparr>
      else g\<lparr>mg_phase := Gate_open, mg_attempts := (mg_attempts g)[k := Attempt_over]\<rparr>)"

definition releaseExclusive :: "nat \<Rightarrow> gate \<Rightarrow> gate" where
  "releaseExclusive k g =
     (if mg_attempts g ! k \<noteq> Holding then g
      else g\<lparr>mg_phase := Gate_open, mg_attempts := (mg_attempts g)[k := Attempt_over]\<rparr>)"

text \<open>\<open>runOrdinary\<close>: the lease is released however the work ends; the work may change the gate.\<close>

definition runOrdinary ::
  "(gate \<Rightarrow> gate \<times> (maintenance_error + 'a)) \<Rightarrow> gate \<Rightarrow> gate \<times> (maintenance_error + 'a)" where
  "runOrdinary work g =
     (case acquireOrdinary g of
        (g1, Inl e) \<Rightarrow> (g1, Inl e)
      | (g1, Inr i) \<Rightarrow> (case work g1 of (g2, r) \<Rightarrow> (releaseOrdinary i g2, r)))"

section \<open>Interleavings\<close>

inductive gate_step :: "gate \<Rightarrow> gate \<Rightarrow> bool" where
  step_acquire: "gate_step g (fst (acquireOrdinary g))"
| step_release: "i < length (mg_leases g) \<Longrightarrow> gate_step g (releaseOrdinary i g)"
| step_exclusive: "gate_step g (fst (acquireExclusive timeoutMs g))"
| step_timeout: "k < length (mg_attempts g) \<Longrightarrow> gate_step g (drain_timeout k g)"
| step_resume: "k < length (mg_attempts g) \<Longrightarrow> gate_step g (drain_resume k g)"
| step_marked: "k < length (mg_attempts g) \<Longrightarrow> gate_step g (mark_settled ok k g)"
| step_unlock: "k < length (mg_attempts g) \<Longrightarrow> gate_step g (releaseExclusive k g)"

inductive gate_reachable :: "gate \<Rightarrow> bool" where
  gate_init: "gate_reachable new_gate"
| gate_next: "gate_reachable g \<Longrightarrow> gate_step g g' \<Longrightarrow> gate_reachable g'"

text \<open>
  Ordinary leases not yet released. A new call of \<open>acquireExclusive\<close> starts only when all before
  it are over, so at most the last one is alive, and it determines the phase.
\<close>

definition unreleased :: "gate \<Rightarrow> nat" where
  "unreleased g = length (filter (\<lambda>r. \<not> r) (mg_leases g))"

definition idle_gate :: "gate \<Rightarrow> bool" where
  "idle_gate g \<longleftrightarrow> mg_phase g = Gate_open \<and> mg_drained g = [] \<and>
     mg_attempts g = replicate (length (mg_attempts g)) Attempt_over"

definition busy_gate :: "gate \<Rightarrow> attempt \<Rightarrow> bool" where
  "busy_gate g a \<longleftrightarrow> (\<exists>n. mg_attempts g = replicate n Attempt_over @ [a] \<and> a \<noteq> Attempt_over \<and>
     mg_phase g = (if a = Holding then Gate_exclusive else Gate_draining) \<and>
     mg_drained g = (if a = Waiting then [n] else []) \<and>
     (a = Waiting \<longrightarrow> mg_active g \<noteq> 0) \<and> (a \<in> {Drained, Marking, Holding} \<longrightarrow> mg_active g = 0))"

definition gate_ok :: "gate \<Rightarrow> bool" where
  "gate_ok g \<longleftrightarrow> mg_active g = int (unreleased g) \<and> (idle_gate g \<or> (\<exists>a. busy_gate g a))"

lemma busyI:
  assumes "mg_attempts g = replicate n Attempt_over @ [a]" "a \<noteq> Attempt_over"
    "mg_phase g = (if a = Holding then Gate_exclusive else Gate_draining)"
    "mg_drained g = (if a = Waiting then [n] else [])"
    "a = Waiting \<Longrightarrow> mg_active g \<noteq> 0" "a \<in> {Drained, Marking, Holding} \<Longrightarrow> mg_active g = 0"
  shows "busy_gate g a"
  unfolding busy_gate_def using assms by blast

lemma busyE:
  assumes "busy_gate g a"
  obtains n where "mg_attempts g = replicate n Attempt_over @ [a]" "a \<noteq> Attempt_over"
    "mg_phase g = (if a = Holding then Gate_exclusive else Gate_draining)"
    "mg_drained g = (if a = Waiting then [n] else [])"
    "a = Waiting \<Longrightarrow> mg_active g \<noteq> 0" "a \<in> {Drained, Marking, Holding} \<Longrightarrow> mg_active g = 0"
  using assms unfolding busy_gate_def by blast

lemma attempt_nth:
  "k < length (replicate n Attempt_over @ [a]) \<Longrightarrow>
    (replicate n Attempt_over @ [a]) ! k = (if k = n then a else Attempt_over)"
  by (auto simp: nth_append)

lemma attempt_last [simp]: "(replicate n x @ [a]) ! n = a"
  by (metis length_replicate nth_append_length)

lemma attempt_update [simp]: "(replicate n Attempt_over @ [a])[n := b] = replicate n Attempt_over @ [b]"
  by (simp add: list_update_append)

lemma over_snoc: "replicate n Attempt_over @ [Attempt_over] = replicate (Suc n) Attempt_over"
  by (simp flip: replicate_append_same)

lemma unreleased_release:
  assumes "i < length ls" and "\<not> ls ! i"
  shows "length (filter (\<lambda>r. \<not> r) (ls[i := True])) + 1 = length (filter (\<lambda>r. \<not> r) ls)"
  using length_filter_update [OF assms(1), of "\<lambda>r. \<not> r" True] assms(2) by simp

lemma gate_ok_new: "gate_ok new_gate"
  by (simp add: gate_ok_def idle_gate_def new_gate_def unreleased_def)

lemma busy_not_open: "busy_gate g a \<Longrightarrow> mg_phase g \<noteq> Gate_open"
  by (auto elim!: busyE split: if_splits)

lemma gate_ok_acquire: "gate_ok g \<Longrightarrow> gate_ok (fst (acquireOrdinary g))"
proof (cases "mg_phase g = Gate_open")
  case True
  assume "gate_ok g"
  then have "mg_active g = int (unreleased g)" "idle_gate g"
    using True busy_not_open by (auto simp: gate_ok_def)
  then show ?thesis using True by (simp add: gate_ok_def acquireOrdinary_def idle_gate_def unreleased_def)
qed (simp add: acquireOrdinary_def)

lemma gate_ok_release:
  assumes ok: "gate_ok g" and i: "i < length (mg_leases g)"
  shows "gate_ok (releaseOrdinary i g)"
proof (cases "mg_leases g ! i")
  case True
  then show ?thesis using ok by (simp add: releaseOrdinary_def)
next
  case False
  let ?g = "g\<lparr>mg_leases := (mg_leases g)[i := True], mg_active := mg_active g - 1\<rparr>"
  have active: "mg_active ?g = int (unreleased ?g)"
    using ok unreleased_release [OF i False] by (simp add: gate_ok_def unreleased_def)
  have pos: "mg_active g \<noteq> 0"
    using ok unreleased_release [OF i False] unfolding gate_ok_def unreleased_def by linarith
  show ?thesis
  proof (cases "idle_gate g")
    case True
    then show ?thesis
      using active False by (simp add: gate_ok_def releaseOrdinary_def Let_def idle_gate_def unreleased_def)
  next
    case no: False
    then obtain a where "busy_gate g a" using ok by (auto simp: gate_ok_def)
    then obtain n where n: "mg_attempts g = replicate n Attempt_over @ [a]"
      "mg_phase g = (if a = Holding then Gate_exclusive else Gate_draining)"
      "mg_drained g = (if a = Waiting then [n] else [])" "a \<in> {Waiting, Timed_out}"
      using pos by (cases a) (auto elim!: busyE)
    show ?thesis
    proof (cases "mg_active ?g = 0 \<and> a = Waiting")
      case True
      then have "busy_gate (releaseOrdinary i g) Drained"
        using n False by (intro busyI [where n = n]) (simp_all add: releaseOrdinary_def Let_def attempt_update)
      then show ?thesis
        using active True False by (auto simp: gate_ok_def releaseOrdinary_def Let_def unreleased_def)
    next
      case False
      then have "busy_gate (releaseOrdinary i g) a"
        using n \<open>\<not> mg_leases g ! i\<close> by (intro busyI [where n = n]) (auto simp: releaseOrdinary_def Let_def)
      then show ?thesis
        using active \<open>\<not> mg_leases g ! i\<close> by (auto simp: gate_ok_def releaseOrdinary_def Let_def unreleased_def)
    qed
  qed
qed

lemma gate_ok_exclusive: "gate_ok g \<Longrightarrow> gate_ok (fst (acquireExclusive timeoutMs g))"
proof (cases "timeoutMs < 1 \<or> timeoutMs > 30000 \<or> mg_phase g \<noteq> Gate_open")
  case False
  assume ok: "gate_ok g"
  then have idle: "idle_gate g" using False by (auto simp: gate_ok_def elim!: busyE split: if_splits)
  let ?n = "length (mg_attempts g)" and ?a = "if mg_active g \<noteq> 0 then Waiting else Marking"
  have "busy_gate (fst (acquireExclusive timeoutMs g)) ?a"
    using idle False
    by (intro busyI [where n = ?n]) (auto simp: acquireExclusive_def Let_def idle_gate_def split: if_splits)
  then show ?thesis using ok by (auto simp: gate_ok_def acquireExclusive_def Let_def unreleased_def)
qed (auto simp: acquireExclusive_def)

text \<open>The steps of the live call: it changes to \<open>b\<close>, or it is over and the gate opens.\<close>

lemma gate_ok_advance:
  assumes "gate_ok g" and "mg_attempts g = replicate n Attempt_over @ [a]"
    and "mg_attempts g' = replicate n Attempt_over @ [b]" and "b \<in> {Timed_out, Marking, Holding}"
    and "mg_phase g' = (if b = Holding then Gate_exclusive else Gate_draining)" and "mg_drained g' = []"
    and "mg_active g' = mg_active g" and "mg_leases g' = mg_leases g" and "b = Timed_out \<or> mg_active g = 0"
  shows "gate_ok g'"
proof -
  have "busy_gate g' b" using assms(3-9) by (intro busyI [where n = n]) auto
  then show ?thesis using assms(1,7,8) by (auto simp: gate_ok_def unreleased_def)
qed

lemma gate_ok_over:
  assumes "gate_ok g" and "mg_attempts g' = replicate n Attempt_over @ [Attempt_over]"
    and "mg_phase g' = Gate_open" and "mg_drained g' = []" and "mg_active g' = mg_active g"
    and "mg_leases g' = mg_leases g"
  shows "gate_ok g'"
  using assms unfolding over_snoc by (simp add: gate_ok_def idle_gate_def unreleased_def)

lemma live_attempt:
  assumes "gate_ok g" and "k < length (mg_attempts g)" and "mg_attempts g ! k \<noteq> Attempt_over"
  shows "mg_attempts g = replicate k Attempt_over @ [mg_attempts g ! k] \<and> busy_gate g (mg_attempts g ! k)"
proof -
  have "\<not> idle_gate g"
  proof
    assume "idle_gate g"
    then have "mg_attempts g = replicate (length (mg_attempts g)) Attempt_over" by (simp add: idle_gate_def)
    then have "mg_attempts g ! k = Attempt_over" using assms(2) by (metis nth_replicate)
    then show False using assms(3) by simp
  qed
  then obtain a where a: "busy_gate g a" using assms(1) by (auto simp: gate_ok_def)
  then obtain n where n: "mg_attempts g = replicate n Attempt_over @ [a]" by (auto elim: busyE)
  then have "k = n" using assms(2,3) attempt_nth [of k n a] by (auto split: if_splits)
  then show ?thesis using n a attempt_nth [of k n a] by simp
qed

lemma live_parts:
  assumes "gate_ok g" and "k < length (mg_attempts g)" and "mg_attempts g ! k = a" and "a \<noteq> Attempt_over"
  shows "mg_attempts g = replicate k Attempt_over @ [a]"
    "mg_phase g = (if a = Holding then Gate_exclusive else Gate_draining)"
    "mg_drained g = (if a = Waiting then [k] else [])" "a \<in> {Drained, Marking, Holding} \<Longrightarrow> mg_active g = 0"
proof -
  show k: "mg_attempts g = replicate k Attempt_over @ [a]" using live_attempt assms by blast
  have "busy_gate g a" using live_attempt assms by blast
  then obtain n where "mg_attempts g = replicate n Attempt_over @ [a]"
    and n: "mg_phase g = (if a = Holding then Gate_exclusive else Gate_draining)"
      "mg_drained g = (if a = Waiting then [n] else [])" "a \<in> {Drained, Marking, Holding} \<longrightarrow> mg_active g = 0"
    unfolding busy_gate_def by blast
  then have "n = k" using k by (metis length_append length_replicate add_right_cancel)
  then show "mg_phase g = (if a = Holding then Gate_exclusive else Gate_draining)"
    "mg_drained g = (if a = Waiting then [k] else [])" "a \<in> {Drained, Marking, Holding} \<Longrightarrow> mg_active g = 0"
    using n by simp_all
qed

lemma gate_ok_timeout: "gate_ok g \<Longrightarrow> k < length (mg_attempts g) \<Longrightarrow> gate_ok (drain_timeout k g)"
proof (cases "mg_attempts g ! k = Waiting")
  case True
  assume g: "gate_ok g" "k < length (mg_attempts g)"
  note l = live_parts [OF g True]
  show ?thesis
    by (rule gate_ok_advance [OF g(1) l(1), where b = Timed_out]) (simp_all add: drain_timeout_def l)
qed (simp add: drain_timeout_def)

lemma gate_ok_resume: "gate_ok g \<Longrightarrow> k < length (mg_attempts g) \<Longrightarrow> gate_ok (drain_resume k g)"
proof (cases "mg_attempts g ! k")
  case Drained
  assume g: "gate_ok g" "k < length (mg_attempts g)"
  note l = live_parts [OF g Drained]
  show ?thesis
    by (rule gate_ok_advance [OF g(1) l(1), where b = Marking]) (simp_all add: drain_resume_def l)
next
  case Timed_out
  assume g: "gate_ok g" "k < length (mg_attempts g)"
  note l = live_parts [OF g Timed_out]
  show ?thesis
    by (rule gate_ok_over [OF g(1), where n = k]) (simp_all add: drain_resume_def l)
qed (simp_all add: drain_resume_def)

lemma gate_ok_marked: "gate_ok g \<Longrightarrow> k < length (mg_attempts g) \<Longrightarrow> gate_ok (mark_settled ok k g)"
proof (cases "mg_attempts g ! k = Marking")
  case True
  assume g: "gate_ok g" "k < length (mg_attempts g)"
  note l = live_parts [OF g True]
  show ?thesis
  proof (cases ok)
    case True
    show ?thesis
      by (rule gate_ok_advance [OF g(1) l(1), where b = Holding]) (simp_all add: mark_settled_def True l)
  next
    case False
    show ?thesis
      by (rule gate_ok_over [OF g(1), where n = k]) (simp_all add: mark_settled_def False l)
  qed
qed (simp add: mark_settled_def)

lemma gate_ok_unlock: "gate_ok g \<Longrightarrow> k < length (mg_attempts g) \<Longrightarrow> gate_ok (releaseExclusive k g)"
proof (cases "mg_attempts g ! k = Holding")
  case True
  assume g: "gate_ok g" "k < length (mg_attempts g)"
  note l = live_parts [OF g True]
  show ?thesis
    by (rule gate_ok_over [OF g(1), where n = k]) (simp_all add: releaseExclusive_def l)
qed (simp add: releaseExclusive_def)

lemma gate_reachable_ok: "gate_reachable g \<Longrightarrow> gate_ok g"
proof (induction rule: gate_reachable.induct)
  case gate_init
  show ?case by (rule gate_ok_new)
next
  case (gate_next g g')
  from gate_next(2,3) show ?case
    by (cases rule: gate_step.cases)
      (simp_all add: gate_ok_acquire gate_ok_release gate_ok_exclusive gate_ok_timeout gate_ok_resume
        gate_ok_marked gate_ok_unlock)
qed

lemma holder_phase: "gate_ok g \<Longrightarrow> Holding \<in> set (mg_attempts g) \<longleftrightarrow> mg_phase g = Gate_exclusive"
proof (cases "idle_gate g")
  case True
  then have "set (mg_attempts g) \<subseteq> {Attempt_over}" "mg_phase g = Gate_open"
    unfolding idle_gate_def by (metis set_replicate_conv_if empty_subsetI order_refl, blast)
  then show ?thesis by auto
next
  case False
  moreover assume "gate_ok g"
  ultimately show ?thesis by (auto simp: gate_ok_def elim!: busyE split: if_splits)
qed

lemma releaseOrdinary_fields [simp]:
  "mg_phase (releaseOrdinary i g) = mg_phase g"
  "mg_leases (releaseOrdinary i g) = (if mg_leases g ! i then mg_leases g else (mg_leases g)[i := True])"
  by (simp_all add: releaseOrdinary_def Let_def)

section \<open>Properties\<close>

text \<open>The abstract lock: any number of readers, or one writer.\<close>

record rw_lock =
  rw_readers :: nat
  rw_writer :: bool

inductive rw_step :: "rw_lock \<Rightarrow> rw_lock \<Rightarrow> bool" where
  rw_enter: "\<not> w \<Longrightarrow> rw_step \<lparr>rw_readers = n, rw_writer = w\<rparr> \<lparr>rw_readers = Suc n, rw_writer = w\<rparr>"
| rw_leave: "rw_step \<lparr>rw_readers = Suc n, rw_writer = w\<rparr> \<lparr>rw_readers = n, rw_writer = w\<rparr>"
| rw_lock_step: "rw_step \<lparr>rw_readers = 0, rw_writer = False\<rparr> \<lparr>rw_readers = 0, rw_writer = True\<rparr>"
| rw_unlock: "rw_step \<lparr>rw_readers = n, rw_writer = True\<rparr> \<lparr>rw_readers = n, rw_writer = False\<rparr>"
| rw_stutter: "rw_step l l"

definition gate_lock :: "gate \<Rightarrow> rw_lock" where
  "gate_lock g = \<lparr>rw_readers = unreleased g, rw_writer = Holding \<in> set (mg_attempts g)\<rparr>"

lemma gate_lock_phase:
  "gate_ok g \<Longrightarrow> gate_lock g = \<lparr>rw_readers = unreleased g, rw_writer = (mg_phase g = Gate_exclusive)\<rparr>"
  by (simp add: gate_lock_def holder_phase)

text \<open>
  C24: A restore runs alone and the gate never gets stuck: in every state that interleavings of
  acquisitions, releases, timeouts and continuations can reach, the counter of active work is the
  number of unreleased ordinary leases; while a call of \<open>acquireExclusive\<close> holds the gate there is none of
  them and no second holder; and the gate is open exactly when every call has come to its end.
\<close>

theorem gate_mutual_exclusion:
  assumes "gate_reachable g"
  shows "mg_active g = int (unreleased g) \<and>
    (Holding \<in> set (mg_attempts g) \<longrightarrow> unreleased g = 0 \<and> count_list (mg_attempts g) Holding = 1) \<and>
    (mg_phase g = Gate_open \<longleftrightarrow> set (mg_attempts g) \<subseteq> {Attempt_over})"
  using gate_reachable_ok [OF assms]
proof (cases "idle_gate g")
  case True
  then have "set (mg_attempts g) \<subseteq> {Attempt_over}" "mg_phase g = Gate_open"
    unfolding idle_gate_def by (metis set_replicate_conv_if empty_subsetI order_refl, blast)
  then show ?thesis using gate_reachable_ok [OF assms] by (auto simp: gate_ok_def)
next
  case False
  then obtain a where "busy_gate g a" and act: "mg_active g = int (unreleased g)"
    using gate_reachable_ok [OF assms] by (auto simp: gate_ok_def)
  then show ?thesis by (auto elim!: busyE split: if_splits)
qed

text \<open>
  The gate implements the abstract lock that admits any number of readers or a single writer:
  every step of the gate, a refused call, a timeout or a continuation included, is a step of
  the lock or leaves it as it is.
\<close>

theorem gate_refines_lock:
  assumes "gate_reachable g" and "gate_step g g'"
  shows "rw_step (gate_lock g) (gate_lock g')"
proof -
  have ok: "gate_ok g" and ok': "gate_ok g'"
    using gate_reachable_ok gate_next assms by blast+
  note locks = gate_lock_phase [OF ok] gate_lock_phase [OF ok']
  from assms(2) show ?thesis
  proof (cases rule: gate_step.cases)
    case step_acquire
    then show ?thesis
      unfolding locks by (auto simp: acquireOrdinary_def unreleased_def intro: rw_step.intros)
  next
    case (step_release i)
    show ?thesis
    proof (cases "mg_leases g ! i")
      case True
      then show ?thesis unfolding locks by (simp add: step_release(1) unreleased_def rw_stutter)
    next
      case False
      then have "unreleased g = Suc (unreleased g')"
        using unreleased_release [OF step_release(2)] by (simp add: step_release(1) unreleased_def)
      then show ?thesis unfolding locks by (simp add: step_release(1) rw_leave)
    qed
  next
    case (step_exclusive t)
    then show ?thesis
      unfolding locks by (auto simp: acquireExclusive_def Let_def unreleased_def intro: rw_stutter)
  next
    case (step_timeout k)
    then show ?thesis
      unfolding locks by (auto simp: drain_timeout_def unreleased_def intro: rw_stutter)
  next
    case (step_resume k)
    then show ?thesis
      using live_parts(2) [OF ok step_resume(2) refl]
      unfolding locks by (auto simp: drain_resume_def unreleased_def intro: rw_stutter split: attempt.splits)
  next
    case (step_marked k ok)
    then show ?thesis
      using live_parts(2,4) [OF \<open>gate_ok g\<close> step_marked(2)] \<open>gate_ok g\<close>
      unfolding locks
      by (auto simp: mark_settled_def unreleased_def gate_ok_def intro: rw_stutter rw_lock_step)
  next
    case (step_unlock k)
    then show ?thesis
      using live_parts(2) [OF ok step_unlock(2)]
      unfolding locks by (auto simp: releaseExclusive_def unreleased_def intro: rw_unlock rw_stutter)
  qed
qed

text \<open>A gate with one ordinary lease out and a restore that waits for it.\<close>

definition sample_gate :: gate where
  "sample_gate = fst (acquireExclusive 1000 (fst (acquireOrdinary new_gate)))"

lemma sample_gate_reachable: "gate_reachable sample_gate"
  unfolding sample_gate_def
  by (intro gate_next [OF gate_next [OF gate_init step_acquire] step_exclusive])

theorem gate_mutual_exclusion_witness: "mg_active sample_gate = int (unreleased sample_gate)"
  using gate_mutual_exclusion [OF sample_gate_reachable] by blast

theorem gate_refines_lock_witness:
  "rw_step (gate_lock sample_gate) (gate_lock (releaseOrdinary 0 sample_gate))"
proof (rule gate_refines_lock [OF sample_gate_reachable step_release])
  show "0 < length (mg_leases sample_gate)" by code_simp
qed

end
