(* ===== verification/ControlRoutes.thy ===== *)
theory ControlRoutes
  imports ControlPermissions MaintenanceGate ControlRateLimiter UuidV7
begin

text \<open>
  \<^verbatim>\<open>src/control/routeRegistry.ts\<close>, with \<open>parseExpectedVersion\<close> and \<open>parseIdempotencyKey\<close> of
  \<^verbatim>\<open>src/control/contracts.ts\<close>: the declarative routes of the control API, their registration and
  the handler that every request to a route goes through. The schemas of a route are the
  parsing functions they are used as; the handler of a route, the authorisation seam, the
  digest of a body and the activity recorder are parameters too. The handler may use the
  maintenance gate, so it takes and returns it.
\<close>

section \<open>Data\<close>

datatype authentication_method = Browser_session | Restricted_session | Api_key | Local_cli

record api_key_identity =
  ak_nickname :: string
  ak_lastFour :: string
  ak_serviceId :: "string option"

record control_authentication =
  ca_method :: authentication_method
  ca_principalId :: string
  ca_role :: control_role
  ca_apiKey :: "api_key_identity option"

datatype http_method = GET | POST | PUT | PATCH | DELETE

fun http_method_name :: "http_method \<Rightarrow> string" where
  "http_method_name GET = ''GET''"
| "http_method_name POST = ''POST''"
| "http_method_name PUT = ''PUT''"
| "http_method_name PATCH = ''PATCH''"
| "http_method_name DELETE = ''DELETE''"

datatype step_up_rule = Step_none | Step_five_minutes | Step_always

datatype route_permission =
  Permission_null | Permission_authenticated | Permission_capability control_capability

datatype route_authentication = Auth_public | Auth_methods "authentication_method list"

text \<open>Bodies and results are JSON values or buffers.\<close>

datatype payload = Payload_json json | Payload_bytes "nat list"

record contract_error =
  ce_statusCode :: int
  ce_code :: string
  ce_message :: string
  ce_details :: "(string \<times> string) list"

datatype control_exception = Contract_error contract_error | Internal_error string

type_synonym 'a control_result = "control_exception + 'a"

definition contract :: "int \<Rightarrow> string \<Rightarrow> string \<Rightarrow> 'a control_result" where
  "contract status code message =
     Inl (Contract_error \<lparr>ce_statusCode = status, ce_code = code, ce_message = message, ce_details = []\<rparr>)"

text \<open>The first issue of a failed \<open>safeParse\<close>, when there is one: its path and its code.\<close>

record schema_issue =
  si_path :: "string list"
  si_code :: "string option"

type_synonym schema = "payload option \<Rightarrow> schema_issue option + payload option"

record route_schemas =
  rs_body :: "schema option"
  rs_query :: "schema option"
  rs_params :: "schema option"
  rs_response :: schema

record binary_response =
  br_contentType :: string
  br_filename :: string
  br_maxBytes :: int

record binary_request =
  bq_contentType :: string
  bq_maxBytes :: int

datatype route_cache = Cache_no_store | Cache_private

record route_definition =
  rd_id :: string
  rd_method :: http_method
  rd_path :: string
  rd_summary :: string
  rd_tags :: "string list"
  rd_authentication :: route_authentication
  rd_expandApiKeyAuthentication :: "bool option"
  rd_permission :: route_permission
  rd_stepUp :: step_up_rule
  rd_schemas :: route_schemas
  rd_rateLimit :: control_rate_limit_class
  rd_auditAction :: "string option"
  rd_secretFields :: "string list"
  rd_cache :: route_cache
  rd_if_match :: bool
  rd_idempotent :: bool
  rd_rawResponse :: bool
  rd_binaryResponse :: "binary_response option"
  rd_binaryRequest :: "binary_request option"
  rd_redirectResponse :: bool
  rd_successStatuses :: "int list option"

record step_up_operation =
  so_method :: http_method
  so_routeId :: string
  so_targets :: "string list"
  so_expectedVersion :: "int option"
  so_idempotencyKey :: "string option"
  so_bodyDigest :: string

section \<open>Validation of a definition\<close>

definition lower_digit :: "char \<Rightarrow> bool" where
  "lower_digit c \<longleftrightarrow> in_range CHR ''a'' CHR ''z'' c \<or> is_digit c"

text \<open>\<^verbatim>\<open>/^[a-z][a-z0-9_.-]{0,127}$/\<close>\<close>

definition route_name :: "string \<Rightarrow> bool" where
  "route_name v =
     (case v of
        [] \<Rightarrow> False
      | c # cs \<Rightarrow> in_range CHR ''a'' CHR ''z'' c \<and> length cs \<le> 127 \<and>
          list_all (\<lambda>d. lower_digit d \<or> d \<in> {CHR ''_'', CHR ''.'', CHR ''-''}) cs)"

text \<open>\<^verbatim>\<open>/^[A-Za-z][A-Za-z0-9 -]{0,63}$/\<close>\<close>

definition tag_name :: "string \<Rightarrow> bool" where
  "tag_name v =
     (case v of
        [] \<Rightarrow> False
      | c # cs \<Rightarrow> is_alpha c \<and> length cs \<le> 63 \<and>
          list_all (\<lambda>d. is_alnum d \<or> d \<in> {CHR '' '', CHR ''-''}) cs)"

text \<open>\<^verbatim>\<open>/^\/[a-z][a-z0-9_]*(?:\/[a-z][a-z0-9_]*)*$/\<close>\<close>

definition pointer_segment :: "string \<Rightarrow> bool" where
  "pointer_segment v =
     (case v of
        [] \<Rightarrow> False
      | c # cs \<Rightarrow> in_range CHR ''a'' CHR ''z'' c \<and> list_all (\<lambda>d. lower_digit d \<or> d = CHR ''_'') cs)"

definition secret_pointer :: "string \<Rightarrow> bool" where
  "secret_pointer v =
     (case v of
        [] \<Rightarrow> False
      | c # cs \<Rightarrow> c = CHR ''/'' \<and> list_all pointer_segment (js_split CHR ''/'' cs))"

text \<open>\<^verbatim>\<open>/^[a-z0-9][a-z0-9_.-]{0,127}\.tar\.gz$/\<close>\<close>

definition archive_name :: "string \<Rightarrow> bool" where
  "archive_name v =
     (ends_with v ''.tar.gz'' \<and>
      (case take (length v - 7) v of
         [] \<Rightarrow> False
       | c # cs \<Rightarrow> lower_digit c \<and> length cs \<le> 127 \<and>
           list_all (\<lambda>d. lower_digit d \<or> d \<in> {CHR ''_'', CHR ''.'', CHR ''-''}) cs))"

definition isSupportedResponseStatus :: "int \<Rightarrow> bool" where
  "isSupportedResponseStatus s \<longleftrightarrow> (s \<ge> 200 \<and> s \<le> 299) \<or> s = 302 \<or> s = 503"

definition success_statuses :: "route_definition \<Rightarrow> int list" where
  "success_statuses d = (case rd_successStatuses d of None \<Rightarrow> [200] | Some ss \<Rightarrow> ss)"

definition is_public :: "route_definition \<Rightarrow> bool" where
  "is_public d \<longleftrightarrow> rd_authentication d = Auth_public"

definition invalid_metadata :: "route_definition \<Rightarrow> bool" where
  "invalid_metadata d \<longleftrightarrow>
     \<not> route_name (rd_id d) \<or> \<not> starts_with (rd_path d) ''/api/v2/'' \<or>
     CHR ''?'' \<in> set (rd_path d) \<or> CHR ''#'' \<in> set (rd_path d) \<or> CHR '':'' \<in> set (rd_path d) \<or>
     length (rd_summary d) < 1 \<or> length (rd_summary d) > 256 \<or> length (rd_tags d) < 1 \<or>
     list_ex (\<lambda>t. \<not> tag_name t) (rd_tags d)"

definition invalid_statuses :: "int list \<Rightarrow> bool" where
  "invalid_statuses ss \<longleftrightarrow>
     length ss < 1 \<or> length (js_unique ss) \<noteq> length ss \<or>
     list_ex (\<lambda>s. \<not> isSupportedResponseStatus s \<or> s = 204) ss"

definition invalid_authentication :: "route_definition \<Rightarrow> bool" where
  "invalid_authentication d =
     (case rd_authentication d of
        Auth_public \<Rightarrow> rd_permission d \<noteq> Permission_null \<or> rd_stepUp d \<noteq> Step_none
      | Auth_methods ms \<Rightarrow>
          length ms < 1 \<or> length (js_unique ms) \<noteq> length ms \<or> rd_permission d = Permission_null)"

definition invalid_mutation :: "route_definition \<Rightarrow> bool" where
  "invalid_mutation d \<longleftrightarrow>
     (rd_method d = GET \<and> (rd_if_match d \<or> rd_idempotent d)) \<or>
     (rd_method d \<noteq> GET \<and> \<not> is_public d \<and>
      (case rd_auditAction d of None \<Rightarrow> True | Some a \<Rightarrow> \<not> route_name a))"

definition invalid_cache :: "route_definition \<Rightarrow> bool" where
  "invalid_cache d \<longleftrightarrow>
     list_ex (\<lambda>p. \<not> secret_pointer p) (rd_secretFields d) \<or>
     (length (rd_secretFields d) > 0 \<and> (rs_body (rd_schemas d) = None \<or> rd_cache d \<noteq> Cache_no_store)) \<or>
     (\<not> is_public d \<and> rd_cache d \<noteq> Cache_no_store)"

definition max_binary_bytes :: int where
  "max_binary_bytes = 268435456"

definition invalid_binary_response :: "route_definition \<Rightarrow> bool" where
  "invalid_binary_response d =
     (case rd_binaryResponse d of
        None \<Rightarrow> False
      | Some b \<Rightarrow>
          is_public d \<or> rd_rawResponse d \<or> rd_redirectResponse d \<or> rd_cache d \<noteq> Cache_no_store \<or>
          br_contentType b \<noteq> ''application/gzip'' \<or> \<not> archive_name (br_filename b) \<or>
          br_maxBytes b < 1 \<or> br_maxBytes b > max_binary_bytes)"

definition invalid_binary_request :: "route_definition \<Rightarrow> bool" where
  "invalid_binary_request d =
     (case rd_binaryRequest d of
        None \<Rightarrow> False
      | Some b \<Rightarrow>
          is_public d \<or> rd_method d \<noteq> POST \<or> rs_body (rd_schemas d) = None \<or> rd_cache d \<noteq> Cache_no_store \<or>
          bq_contentType b \<noteq> ''application/gzip'' \<or> bq_maxBytes b < 1 \<or> bq_maxBytes b > max_binary_bytes)"

definition invalid_redirect :: "route_definition \<Rightarrow> bool" where
  "invalid_redirect d \<longleftrightarrow>
     rd_redirectResponse d \<and>
     (\<not> is_public d \<or> rd_method d \<noteq> GET \<or> success_statuses d \<noteq> [302] \<or> rd_rawResponse d \<or>
      rd_binaryResponse d \<noteq> None \<or> length (rd_secretFields d) > 0)"

definition validateDefinition :: "route_definition \<Rightarrow> unit control_result" where
  "validateDefinition d =
     (if invalid_metadata d then Inl (Internal_error ''Invalid control route metadata.'')
      else if invalid_statuses (success_statuses d) then Inl (Internal_error ''Invalid control response metadata.'')
      else if invalid_authentication d
      then Inl (Internal_error ''Invalid control route authentication metadata.'')
      else if invalid_mutation d then Inl (Internal_error ''Invalid control mutation metadata.'')
      else if invalid_cache d then Inl (Internal_error ''Invalid control secret/cache metadata.'')
      else if rd_rawResponse d \<and> (\<not> is_public d \<or> length (rd_secretFields d) > 0)
      then Inl (Internal_error ''Invalid control raw response metadata.'')
      else if invalid_binary_response d then Inl (Internal_error ''Invalid control binary response metadata.'')
      else if invalid_binary_request d then Inl (Internal_error ''Invalid control binary request metadata.'')
      else if invalid_redirect d then Inl (Internal_error ''Invalid control redirect metadata.'')
      else Inr ())"

section \<open>Registration\<close>

definition controlCapabilityAllowsApiKey :: "control_capability \<Rightarrow> bool" where
  "controlCapabilityAllowsApiKey capability =
     list_ex (\<lambda>role. let outcome = permissionOutcome role capability
                     in outcome \<noteq> Out_deny \<and> outcome \<noteq> Out_no_account)
       (filter (\<lambda>role. role = Role_service \<or> role = Role_all_services \<or> role = Role_system) control_roles)"

definition withStaticApiKeyAuthentication :: "route_definition \<Rightarrow> route_definition" where
  "withStaticApiKeyAuthentication d =
     (case (rd_authentication d, rd_permission d) of
        (Auth_methods ms, Permission_capability capability) \<Rightarrow>
          (if rd_expandApiKeyAuthentication d = Some False \<or> Browser_session \<notin> set ms \<or> Api_key \<in> set ms
           then d
           else if controlCapabilityAllowsApiKey capability
           then d\<lparr>rd_authentication := Auth_methods (ms @ [Api_key])\<rparr> else d)
      | _ \<Rightarrow> d)"

record route_registry =
  rr_definitions :: "route_definition list"
  rr_keys :: "string list"
  rr_ids :: "string list"

definition new_route_registry :: route_registry where
  "new_route_registry = \<lparr>rr_definitions = [], rr_keys = [], rr_ids = []\<rparr>"

definition route_key :: "route_definition \<Rightarrow> string" where
  "route_key d = http_method_name (rd_method d) @ '' '' @ rd_path d"

definition register :: "route_definition \<Rightarrow> route_registry \<Rightarrow> route_registry \<times> unit control_result" where
  "register d r =
     (case validateDefinition d of
        Inl e \<Rightarrow> (r, Inl e)
      | Inr _ \<Rightarrow>
          (if route_key d \<in> set (rr_keys r) \<or> rd_id d \<in> set (rr_ids r)
           then (r, Inl (Internal_error ''Duplicate control route.''))
           else (r\<lparr>rr_keys := List.insert (route_key d) (rr_keys r), rr_ids := List.insert (rd_id d) (rr_ids r),
                   rr_definitions := rr_definitions r @ [withStaticApiKeyAuthentication d]\<rparr>, Inr ())))"

end
