(* ===== verification/ControlRequests.thy ===== *)
theory ControlRequests
  imports ControlRoutes
begin

text \<open>
  \<^verbatim>\<open>src/control/routeRegistry.ts\<close>: what \<open>installControlRoutes\<close> does with one request. The handler
  is a chain of steps that may throw; \<open>handling\<close> is what its \<open>catch\<close> and \<open>finally\<close> blocks can see:
  the local variables assigned so far, the maintenance gate and, for the statements of this
  theory, the trace of the effects on the world outside.
\<close>

section \<open>Requests and effects\<close>

record control_request =
  rq_id :: string
  rq_body :: "payload option"
  rq_query :: "payload option"
  rq_params :: "payload option"
  rq_if_match :: "header_value option"
  rq_idempotency_key :: "header_value option"
  rq_authentication :: "control_authentication option"

record handler_context =
  hc_body :: "payload option"
  hc_query :: "payload option"
  hc_params :: "payload option"
  hc_authentication :: "control_authentication option"
  hc_expectedVersion :: "int option"
  hc_idempotencyKey :: "string option"
  hc_stepUpProof :: "string option"

record handler_result =
  hr_data :: payload
  hr_statusCode :: "int option"
  hr_version :: "int option"
  hr_redirectLocation :: "string option"

datatype activity_outcome = Activity_allow | Activity_deny | Activity_error

record activity =
  av_apiKeyId :: string
  av_action :: string
  av_outcome :: activity_outcome
  av_targetId :: "string option"
  av_failureCode :: "string option"

datatype effect =
  Effect_activity activity
| Effect_handler handler_context
| Effect_failure_audit string contract_error

datatype reply =
  Reply_redirect string
| Reply_bytes int string string "nat list"
| Reply_data int "int option" "payload option"
| Reply_raw int "int option" "payload option"
| Reply_error contract_error

text \<open>
  The parameters: the authorisation seam, whether there are a gate, an activity recorder and an audit,
  the outcomes of the recorder and the audit, the body digest, and the handler of the route. The
  handler returns the gate, whether it consumed the step-up proof, and its result or exception.
\<close>

record route_env =
  en_authorizeScope :: "control_authentication \<Rightarrow> control_capability \<Rightarrow> permission_outcome \<Rightarrow> bool control_result"
  en_verifyStepUp :: "control_authentication \<Rightarrow> step_up_rule \<Rightarrow> step_up_operation \<Rightarrow> bool control_result"
  en_stepUpProof :: "string option"
  en_maintenance :: bool
  en_apiKeyActivity :: "(activity \<Rightarrow> unit control_result) option"
  en_failureAudit :: "(contract_error \<Rightarrow> unit control_result) option"
  en_digest :: "payload \<Rightarrow> string"
  en_handler :: "handler_context \<Rightarrow> gate \<Rightarrow> gate \<times> bool \<times> handler_result control_result"

record handling =
  hd_gate :: gate
  hd_trace :: "effect list"
  hd_lease :: "nat option"
  hd_body :: "payload option"
  hd_params :: "payload option"
  hd_activityAttempted :: bool
  hd_targets :: "string list"

type_synonym 'a step = "handling \<Rightarrow> handling \<times> 'a control_result"

definition step_return :: "'a \<Rightarrow> 'a step" where
  "step_return a h = (h, Inr a)"

definition step_lift :: "'a control_result \<Rightarrow> 'a step" where
  "step_lift r h = (h, r)"

definition step_bind :: "'a step \<Rightarrow> ('a \<Rightarrow> 'b step) \<Rightarrow> 'b step" where
  "step_bind m f h = (case m h of (h', Inl e) \<Rightarrow> (h', Inl e) | (h', Inr a) \<Rightarrow> f a h')"

definition step_modify :: "(handling \<Rightarrow> handling) \<Rightarrow> unit step" where
  "step_modify f h = (f h, Inr ())"

section \<open>Reading the request\<close>

text \<open>\<open>replaceAll("~", "~0").replaceAll("/", "~1")\<close>\<close>

definition escapePointer :: "string \<Rightarrow> string" where
  "escapePointer v =
     concat (map (\<lambda>c. if c = CHR ''~'' then ''~0'' else if c = CHR ''/'' then ''~1'' else [c]) v)"

definition issue_pointer :: "string \<Rightarrow> schema_issue option \<Rightarrow> string" where
  "issue_pointer part issue =
     (case issue of
        None \<Rightarrow> ''/'' @ part
      | Some i \<Rightarrow>
          (if length (si_path i) = 0 then ''/'' @ part
           else ''/'' @ part @ ''/'' @ js_join ''/'' (map escapePointer (si_path i))))"

definition parsePart :: "schema option \<Rightarrow> payload option \<Rightarrow> string \<Rightarrow> payload option control_result" where
  "parsePart sch v part =
     (case sch of
        None \<Rightarrow> Inr None
      | Some parse \<Rightarrow>
          (case parse v of
             Inr parsed \<Rightarrow> Inr parsed
           | Inl issue \<Rightarrow>
               Inl (Contract_error
                 \<lparr>ce_statusCode = 400, ce_code = ''invalid_request'', ce_message = ''The request is invalid.'',
                  ce_details =
                    [(''field'', take 256 (issue_pointer part issue)),
                     (''rule'', take 64 (case issue of
                        Some i \<Rightarrow> (case si_code i of Some c \<Rightarrow> c | None \<Rightarrow> ''invalid'') | None \<Rightarrow> ''invalid''))]\<rparr>)))"

abbreviation invalid_request :: "'a control_result" where
  "invalid_request \<equiv> contract 400 ''invalid_request'' ''The request is invalid.''"

text \<open>The version in \<^verbatim>\<open>/^"[1-9][0-9]*"$/\<close>; a route has no current version at this point.\<close>

definition version_text :: "string \<Rightarrow> bool" where
  "version_text v \<longleftrightarrow>
     length v \<ge> 3 \<and> hd v = CHR 0x22 \<and> last v = CHR 0x22 \<and>
     (let digits = butlast (tl v) in list_all is_digit digits \<and> hd digits \<noteq> CHR ''0'')"

definition parseExpectedVersion :: "header_value option \<Rightarrow> int control_result" where
  "parseExpectedVersion ifMatch =
     (case ifMatch of
        None \<Rightarrow> contract 428 ''precondition_required'' ''An If-Match resource version is required.''
      | Some (Header_many vs) \<Rightarrow> invalid_request
      | Some (Header_one v) \<Rightarrow>
          (if \<not> version_text v then invalid_request
           else let version = int (decimal_value (butlast (tl v)))
                in if version > max_safe_integer then invalid_request else Inr version))"

definition parseIdempotencyKey :: "header_value option \<Rightarrow> string control_result" where
  "parseIdempotencyKey v =
     (case v of
        Some (Header_one k) \<Rightarrow>
          (if 16 \<le> length k \<and> length k \<le> 128 \<and> list_all (in_range (CHR 0x20) (CHR 0x7E)) k \<and> js_trim k = k
           then Inr k else invalid_request)
      | _ \<Rightarrow> invalid_request)"

definition id_key :: "string option \<Rightarrow> bool" where
  "id_key key = (case key of None \<Rightarrow> True | Some k \<Rightarrow> k = ''id'' \<or> ends_with k ''_id'')"

fun visit_targets :: "string option \<Rightarrow> json \<Rightarrow> string list" where
  "visit_targets key (JString v) = (if id_key key \<and> isUuidV7 v then [v] else [])"
| "visit_targets key (JArray vs) =
     (case key of
        None \<Rightarrow> []
      | Some k \<Rightarrow>
          (if ends_with k ''_ids''
           then concat (map (\<lambda>v. case v of JString s \<Rightarrow> if isUuidV7 s then [s] else [] | _ \<Rightarrow> []) vs)
           else []))"
| "visit_targets key (JObject fs) = concat (map (\<lambda>(k, v). visit_targets (Some k) v) fs)"
| "visit_targets key _ = []"

definition targetIds :: "payload option list \<Rightarrow> string list" where
  "targetIds vs =
     js_sort (js_unique (concat (map (\<lambda>v. case v of Some (Payload_json j) \<Rightarrow> visit_targets None j | _ \<Rightarrow> []) vs)))"

definition stepUpOperation ::
  "route_env \<Rightarrow> route_definition \<Rightarrow> payload option \<Rightarrow> payload option \<Rightarrow> int option \<Rightarrow> string option
    \<Rightarrow> step_up_operation" where
  "stepUpOperation E d body params expectedVersion idempotencyKey =
     \<lparr>so_method = (if rd_method d = GET then POST else rd_method d), so_routeId = rd_id d,
      so_targets = targetIds [params, body], so_expectedVersion = expectedVersion,
      so_idempotencyKey = idempotencyKey,
      so_bodyDigest = en_digest E (case body of None \<Rightarrow> Payload_json JNull | Some b \<Rightarrow> b)\<rparr>"

section \<open>Authorisation\<close>

definition has_id_param :: "payload option \<Rightarrow> bool" where
  "has_id_param params =
     (case params of
        Some (Payload_json (JObject fs)) \<Rightarrow>
          list_ex (\<lambda>(k, v). ends_with k ''_id'' \<and> (case v of JString s \<Rightarrow> True | _ \<Rightarrow> False)) fs
      | _ \<Rightarrow> False)"

definition scopeDenialHidesResource :: "permission_outcome \<Rightarrow> payload option \<Rightarrow> bool" where
  "scopeDenialHidesResource outcome params \<longleftrightarrow>
     outcome \<in> {Out_assigned_services, Out_assigned_services_step_up, Out_scoped_service,
       Out_related_users, Out_related_users_not_self, Out_related_users_step_up} \<and>
     has_id_param params"

abbreviation forbidden :: "'a control_result" where
  "forbidden \<equiv> contract 403 ''forbidden'' ''The operation is not permitted.''"

definition authorize_outcome ::
  "route_env \<Rightarrow> control_authentication \<Rightarrow> control_capability \<Rightarrow> payload option \<Rightarrow> unit control_result" where
  "authorize_outcome E a capability params =
     (let outcome = permissionOutcome (ca_role a) capability
      in if outcome = Out_deny \<or> outcome = Out_no_account then forbidden
         else if permissionNeedsScope outcome
         then result_bind (en_authorizeScope E a capability outcome) (\<lambda>ok.
                if ok then Inr ()
                else if scopeDenialHidesResource outcome params
                then contract 404 ''not_found'' ''The resource was not found.'' else forbidden)
         else Inr ())"

definition authorize_step_up ::
  "route_env \<Rightarrow> route_definition \<Rightarrow> control_authentication \<Rightarrow> permission_outcome option
    \<Rightarrow> step_up_operation \<Rightarrow> unit control_result" where
  "authorize_step_up E d a outcome operation =
     (if (case outcome of None \<Rightarrow> False | Some out \<Rightarrow> permissionNeedsHumanStepUp out) \<or>
         (ca_method a = Browser_session \<and> rd_stepUp d \<noteq> Step_none)
      then if ca_method a \<noteq> Browser_session then forbidden
           else result_bind
                  (en_verifyStepUp E a (if rd_stepUp d = Step_none then Step_five_minutes else rd_stepUp d) operation)
                  (\<lambda>ok. if ok then Inr ()
                        else contract 403 ''step_up_required'' ''Additional authentication is required.'')
      else Inr ())"

definition authorizeRoute ::
  "route_env \<Rightarrow> route_definition \<Rightarrow> control_request \<Rightarrow> step_up_operation \<Rightarrow> unit control_result" where
  "authorizeRoute E d rq operation =
     (if rd_authentication d = Auth_public then Inr ()
      else case (rq_authentication rq, rd_permission d) of
        (None, _) \<Rightarrow> contract 401 ''unauthenticated'' ''Authentication required.''
      | (_, Permission_null) \<Rightarrow> contract 401 ''unauthenticated'' ''Authentication required.''
      | (Some a, Permission_authenticated) \<Rightarrow> authorize_step_up E d a None operation
      | (Some a, Permission_capability capability) \<Rightarrow>
          result_bind (authorize_outcome E a capability (rq_params rq)) (\<lambda>_.
            authorize_step_up E d a (Some (permissionOutcome (ca_role a) capability)) operation))"

section \<open>The handler of a route\<close>

definition restore_maintenance_exempt_route_ids :: "string list" where
  "restore_maintenance_exempt_route_ids = [''restores.read_stage'', ''restores.preview'', ''restores.commit'']"

definition read_request :: "route_env \<Rightarrow> route_definition \<Rightarrow> control_request \<Rightarrow> handler_context step" where
  "read_request E d rq =
     step_bind (step_lift (parsePart (rs_body (rd_schemas d)) (rq_body rq) ''body'')) (\<lambda>body.
     step_bind (step_modify (\<lambda>h. h\<lparr>hd_body := body\<rparr>)) (\<lambda>_.
     step_bind (step_lift (parsePart (rs_query (rd_schemas d)) (rq_query rq) ''query'')) (\<lambda>query.
     step_bind (step_lift (parsePart (rs_params (rd_schemas d)) (rq_params rq) ''params'')) (\<lambda>params.
     step_bind (step_modify (\<lambda>h. h\<lparr>hd_params := params\<rparr>)) (\<lambda>_.
     step_bind (if rd_if_match d
                then step_bind (step_lift (parseExpectedVersion (rq_if_match rq))) (\<lambda>v. step_return (Some v))
                else step_return None) (\<lambda>version.
     step_bind (if rd_idempotent d
                then step_bind (step_lift (parseIdempotencyKey (rq_idempotency_key rq))) (\<lambda>k. step_return (Some k))
                else step_return None) (\<lambda>key.
       step_return \<lparr>hc_body = body, hc_query = query, hc_params = params,
         hc_authentication = rq_authentication rq, hc_expectedVersion = version,
         hc_idempotencyKey = key, hc_stepUpProof = en_stepUpProof E\<rparr>)))))))"

definition authorize_request ::
  "route_env \<Rightarrow> route_definition \<Rightarrow> control_request \<Rightarrow> handler_context \<Rightarrow> unit step" where
  "authorize_request E d rq c =
     (let operation = stepUpOperation E d (hc_body c) (hc_params c) (hc_expectedVersion c) (hc_idempotencyKey c)
      in step_bind (step_modify (\<lambda>h. h\<lparr>hd_targets := so_targets operation\<rparr>)) (\<lambda>_.
           step_lift (authorizeRoute E d rq operation)))"

definition enter_maintenance ::
  "route_env \<Rightarrow> route_definition \<Rightarrow> control_request \<Rightarrow> unit step" where
  "enter_maintenance E d rq h =
     (if rq_authentication rq \<noteq> None \<and> en_maintenance E \<and>
         rd_id d \<notin> set restore_maintenance_exempt_route_ids
      then case acquireOrdinary (hd_gate h) of
             (g, Inl e) \<Rightarrow>
               (h\<lparr>hd_gate := g\<rparr>,
                contract 503 ''maintenance_mode'' ''The service is temporarily in restore maintenance.'')
           | (g, Inr lease) \<Rightarrow> (h\<lparr>hd_gate := g, hd_lease := Some lease\<rparr>, Inr ())
      else (h, Inr ()))"

definition key_activity ::
  "control_authentication \<Rightarrow> route_definition \<Rightarrow> activity_outcome \<Rightarrow> string list \<Rightarrow> string option \<Rightarrow> activity"
where
  "key_activity a d outcome targets code =
     \<lparr>av_apiKeyId = ca_principalId a, av_action = rd_id d, av_outcome = outcome,
      av_targetId = (case targets of [] \<Rightarrow> None | t # _ \<Rightarrow> Some t), av_failureCode = code\<rparr>"

definition record_allowed :: "route_env \<Rightarrow> route_definition \<Rightarrow> control_request \<Rightarrow> unit step" where
  "record_allowed E d rq h =
     (case (rq_authentication rq, en_apiKeyActivity E) of
        (Some a, Some recorder) \<Rightarrow>
          (if ca_method a = Api_key
           then let v = key_activity a d Activity_allow (hd_targets h) None
                in (h\<lparr>hd_activityAttempted := True, hd_trace := hd_trace h @ [Effect_activity v]\<rparr>, recorder v)
           else (h, Inr ()))
      | _ \<Rightarrow> (h, Inr ()))"

definition call_handler :: "route_env \<Rightarrow> handler_context \<Rightarrow> handler_result step" where
  "call_handler E c h =
     (case en_handler E c (hd_gate h) of
        (g, consumed, r) \<Rightarrow>
          (h\<lparr>hd_gate := g, hd_trace := hd_trace h @ [Effect_handler c]\<rparr>,
           (case r of
              Inl e \<Rightarrow> Inl e
            | Inr res \<Rightarrow>
                if hc_stepUpProof c \<noteq> None \<and> \<not> consumed
                then Inl (Internal_error ''Transaction-bound step-up proof was not consumed.'')
                else Inr res)))"

text \<open>\<^verbatim>\<open>/^req_[0-9a-f]{8}-[0-9a-f]{4}-4[0-9a-f]{3}-[89ab][0-9a-f]{3}-[0-9a-f]{12}$/\<close>\<close>

definition public_request_id :: "string \<Rightarrow> bool" where
  "public_request_id v \<longleftrightarrow> starts_with v ''req_'' \<and>
     (case js_split CHR ''-'' (drop 4 v) of
        [a, b, c, d, e] \<Rightarrow>
          length a = 8 \<and> length b = 4 \<and> length c = 4 \<and> hd c = CHR ''4'' \<and> length d = 4 \<and>
          hd d \<in> {CHR ''8'', CHR ''9'', CHR ''a'', CHR ''b''} \<and> length e = 12 \<and>
          list_all is_lower_hex (a @ b @ c @ d @ e)
      | _ \<Rightarrow> False)"

definition redirect_reply :: "int \<Rightarrow> handler_result \<Rightarrow> reply control_result" where
  "redirect_reply status res =
     (if status \<noteq> 302 \<or> hr_redirectLocation res \<noteq> Some ''/control/'' \<or> hr_version res \<noteq> None
      then Inl (Internal_error ''Invalid control redirect.'')
      else Inr (Reply_redirect ''/control/''))"

definition bytes_reply ::
  "binary_response \<Rightarrow> int \<Rightarrow> handler_result \<Rightarrow> payload option \<Rightarrow> reply control_result" where
  "bytes_reply b status res v =
     (case v of
        Some (Payload_bytes bytes) \<Rightarrow>
          (if length bytes < 1 \<or> int (length bytes) > br_maxBytes b \<or> hr_version res \<noteq> None
           then Inl (Internal_error ''Control binary response contract violation.'')
           else Inr (Reply_bytes status (br_filename b) (br_contentType b) bytes))
      | _ \<Rightarrow> Inl (Internal_error ''Control binary response contract violation.''))"

text \<open>The data is parsed once more when it is put into its envelope.\<close>

definition data_reply ::
  "route_definition \<Rightarrow> control_request \<Rightarrow> int \<Rightarrow> handler_result \<Rightarrow> payload option \<Rightarrow> reply control_result" where
  "data_reply d rq status res v =
     (if rd_rawResponse d then Inr (Reply_raw status (hr_version res) v)
      else case rs_response (rd_schemas d) v of
        Inr v' \<Rightarrow>
          (if public_request_id (rq_id rq) then Inr (Reply_data status (hr_version res) v')
           else Inl (Internal_error ''ZodError''))
      | _ \<Rightarrow> Inl (Internal_error ''ZodError''))"

definition make_reply ::
  "route_definition \<Rightarrow> control_request \<Rightarrow> handler_result \<Rightarrow> reply control_result" where
  "make_reply d rq res =
     (let status = (case hr_statusCode res of None \<Rightarrow> 200 | Some s \<Rightarrow> s)
      in if status \<notin> set (success_statuses d) \<or> \<not> isSupportedResponseStatus status \<or> status = 204
         then Inl (Internal_error ''Invalid control response status.'')
         else case rs_response (rd_schemas d) (Some (hr_data res)) of
           Inl issue \<Rightarrow> Inl (Internal_error ''Control response contract violation.'')
         | Inr parsed \<Rightarrow>
             (if rd_redirectResponse d then redirect_reply status res
              else if hr_redirectLocation res \<noteq> None then Inl (Internal_error ''Unexpected control redirect.'')
              else if (case hr_version res of None \<Rightarrow> False | Some v \<Rightarrow> v < 1 \<or> v > max_safe_integer)
              then Inl (Internal_error ''Version must be positive.'')
              else case rd_binaryResponse d of
                Some b \<Rightarrow> bytes_reply b status res parsed
              | None \<Rightarrow> data_reply d rq status res parsed))"

definition handle_try :: "route_env \<Rightarrow> route_definition \<Rightarrow> control_request \<Rightarrow> reply step" where
  "handle_try E d rq =
     step_bind (read_request E d rq) (\<lambda>c.
     step_bind (authorize_request E d rq c) (\<lambda>_.
     step_bind (enter_maintenance E d rq) (\<lambda>_.
     step_bind (record_allowed E d rq) (\<lambda>_.
     step_bind (call_handler E c) (\<lambda>res.
       step_lift (make_reply d rq res))))))"

text \<open>The \<open>catch\<close> block: the activity of an API key if none was noted, the audit, the error reply.\<close>

definition record_failed ::
  "route_env \<Rightarrow> route_definition \<Rightarrow> control_request \<Rightarrow> control_exception \<Rightarrow> unit step" where
  "record_failed E d rq e h =
     (case (rq_authentication rq, en_apiKeyActivity E) of
        (Some a, Some recorder) \<Rightarrow>
          (if ca_method a = Api_key \<and> \<not> hd_activityAttempted h
           then let targets = (if length (hd_targets h) > 0 then hd_targets h
                               else targetIds [hd_params h, hd_body h]);
                    v = (case e of
                           Contract_error c \<Rightarrow>
                             key_activity a d
                               (if ce_statusCode c \<in> {401, 403, 404} then Activity_deny else Activity_error)
                               targets (Some (ce_code c))
                         | Internal_error _ \<Rightarrow> key_activity a d Activity_error targets (Some ''internal_error''))
                in (h\<lparr>hd_activityAttempted := True, hd_trace := hd_trace h @ [Effect_activity v]\<rparr>, recorder v)
           else (h, Inr ()))
      | _ \<Rightarrow> (h, Inr ()))"

definition record_audit :: "route_env \<Rightarrow> route_definition \<Rightarrow> contract_error \<Rightarrow> unit step" where
  "record_audit E d c h =
     (case (rd_auditAction d, en_failureAudit E) of
        (Some action, Some audit) \<Rightarrow> (h\<lparr>hd_trace := hd_trace h @ [Effect_failure_audit action c]\<rparr>, audit c)
      | _ \<Rightarrow> (h, Inr ()))"

definition handle_catch ::
  "route_env \<Rightarrow> route_definition \<Rightarrow> control_request \<Rightarrow> control_exception \<Rightarrow> reply step" where
  "handle_catch E d rq e =
     step_bind (record_failed E d rq e) (\<lambda>_.
       case e of
         Internal_error m \<Rightarrow> step_lift (Inl e)
       | Contract_error c \<Rightarrow> step_bind (record_audit E d c) (\<lambda>_. step_return (Reply_error c)))"

definition release_lease :: "handling \<Rightarrow> handling" where
  "release_lease h =
     (case hd_lease h of None \<Rightarrow> h | Some i \<Rightarrow> h\<lparr>hd_gate := releaseOrdinary i (hd_gate h)\<rparr>)"

definition handle_request ::
  "route_env \<Rightarrow> route_definition \<Rightarrow> control_request \<Rightarrow> gate \<Rightarrow> handling \<times> reply control_result" where
  "handle_request E d rq g =
     (let h0 = \<lparr>hd_gate = g, hd_trace = [], hd_lease = None, hd_body = None, hd_params = None,
                hd_activityAttempted = False, hd_targets = []\<rparr>;
          (h, r) = (case handle_try E d rq h0 of
                      (h1, Inr reply) \<Rightarrow> (h1, Inr reply)
                    | (h1, Inl e) \<Rightarrow> handle_catch E d rq e h1)
      in (release_lease h, r))"

end
