(* ===== verification/ControlRouteProperties.thy ===== *)
theory ControlRouteProperties
  imports ControlRequests
begin

text \<open>
  What the control API's routes guarantee: the registry that registrations build up, the exact
  condition under which a request is authorised, and what the handler of a route does on every
  path: no handler without authorisation, one activity record for each request of an API key, no
  maintenance lease left behind.
\<close>

section \<open>The registry\<close>

definition register_all :: "route_definition list \<Rightarrow> route_registry" where
  "register_all ds = fold (\<lambda>d r. fst (register d r)) ds new_route_registry"

definition registry_ok :: "route_registry \<Rightarrow> bool" where
  "registry_ok r \<longleftrightarrow>
     rr_ids r = rev (map rd_id (rr_definitions r)) \<and> rr_keys r = rev (map route_key (rr_definitions r)) \<and>
     distinct (rr_ids r) \<and> distinct (rr_keys r) \<and>
     (\<forall>d \<in> set (rr_definitions r). validateDefinition d = Inr ())"

lemma withStatic_cases:
  obtains (same) "withStaticApiKeyAuthentication d = d"
  | (expanded) ms capability where "rd_authentication d = Auth_methods ms"
      and "rd_permission d = Permission_capability capability" and "Api_key \<notin> set ms" and "ms \<noteq> []"
      and "controlCapabilityAllowsApiKey capability"
      and "withStaticApiKeyAuthentication d = d\<lparr>rd_authentication := Auth_methods (ms @ [Api_key])\<rparr>"
proof (cases "rd_authentication d")
  case Auth_public
  then show ?thesis using same by (simp add: withStaticApiKeyAuthentication_def)
next
  case ms: (Auth_methods ms)
  show ?thesis
  proof (cases "rd_permission d")
    case (Permission_capability capability)
    note eq = withStaticApiKeyAuthentication_def [of d, unfolded ms Permission_capability prod.case
        route_authentication.case route_permission.case]
    show ?thesis
    proof (cases "rd_expandApiKeyAuthentication d = Some False \<or> Browser_session \<notin> set ms \<or> Api_key \<in> set ms \<or>
        \<not> controlCapabilityAllowsApiKey capability")
      case True
      then show ?thesis by (intro same) (auto simp: eq)
    next
      case False
      then show ?thesis using expanded [OF ms Permission_capability] eq by fastforce
    qed
  qed (use ms same in \<open>simp_all add: withStaticApiKeyAuthentication_def\<close>)
qed

lemma withStatic_fields [simp]:
  "rd_id (withStaticApiKeyAuthentication d) = rd_id d"
  "rd_method (withStaticApiKeyAuthentication d) = rd_method d"
  "rd_path (withStaticApiKeyAuthentication d) = rd_path d"
  "rd_summary (withStaticApiKeyAuthentication d) = rd_summary d"
  "rd_tags (withStaticApiKeyAuthentication d) = rd_tags d"
  "rd_expandApiKeyAuthentication (withStaticApiKeyAuthentication d) = rd_expandApiKeyAuthentication d"
  "rd_permission (withStaticApiKeyAuthentication d) = rd_permission d"
  "rd_stepUp (withStaticApiKeyAuthentication d) = rd_stepUp d"
  "rd_schemas (withStaticApiKeyAuthentication d) = rd_schemas d"
  "rd_rateLimit (withStaticApiKeyAuthentication d) = rd_rateLimit d"
  "rd_auditAction (withStaticApiKeyAuthentication d) = rd_auditAction d"
  "rd_secretFields (withStaticApiKeyAuthentication d) = rd_secretFields d"
  "rd_cache (withStaticApiKeyAuthentication d) = rd_cache d"
  "rd_if_match (withStaticApiKeyAuthentication d) = rd_if_match d"
  "rd_idempotent (withStaticApiKeyAuthentication d) = rd_idempotent d"
  "rd_rawResponse (withStaticApiKeyAuthentication d) = rd_rawResponse d"
  "rd_binaryResponse (withStaticApiKeyAuthentication d) = rd_binaryResponse d"
  "rd_binaryRequest (withStaticApiKeyAuthentication d) = rd_binaryRequest d"
  "rd_redirectResponse (withStaticApiKeyAuthentication d) = rd_redirectResponse d"
  "rd_successStatuses (withStaticApiKeyAuthentication d) = rd_successStatuses d"
  by (cases d rule: withStatic_cases, simp_all)+

lemma withStatic_key [simp]: "route_key (withStaticApiKeyAuthentication d) = route_key d"
  by (simp add: route_key_def)

lemma withStatic_public [simp]: "is_public (withStaticApiKeyAuthentication d) = is_public d"
  by (cases d rule: withStatic_cases) (simp_all add: is_public_def)

lemma withStatic_authentication:
  "\<not> invalid_authentication d \<Longrightarrow> \<not> invalid_authentication (withStaticApiKeyAuthentication d)"
  by (cases d rule: withStatic_cases) (simp_all add: invalid_authentication_def js_unique_length)

lemma withStatic_valid:
  assumes "validateDefinition d = Inr ()"
  shows "validateDefinition (withStaticApiKeyAuthentication d) = Inr ()"
proof -
  have "invalid_metadata (withStaticApiKeyAuthentication d) = invalid_metadata d"
    "success_statuses (withStaticApiKeyAuthentication d) = success_statuses d"
    "invalid_mutation (withStaticApiKeyAuthentication d) = invalid_mutation d"
    "invalid_cache (withStaticApiKeyAuthentication d) = invalid_cache d"
    "invalid_binary_response (withStaticApiKeyAuthentication d) = invalid_binary_response d"
    "invalid_binary_request (withStaticApiKeyAuthentication d) = invalid_binary_request d"
    "invalid_redirect (withStaticApiKeyAuthentication d) = invalid_redirect d"
    by (simp_all add: invalid_metadata_def success_statuses_def invalid_mutation_def
      invalid_cache_def invalid_binary_response_def invalid_binary_request_def invalid_redirect_def cong: option.case_cong)
  then show ?thesis
    using assms withStatic_authentication [of d] by (simp add: validateDefinition_def split: if_splits)
qed

lemma registry_ok_register: "registry_ok r \<Longrightarrow> registry_ok (fst (register d r))"
  using withStatic_valid [of d]
  by (cases "validateDefinition d") (auto simp: register_def registry_ok_def)

lemma registry_ok_all: "registry_ok (register_all ds)"
proof -
  have "registry_ok (fold (\<lambda>d r. fst (register d r)) ds r)" if "registry_ok r" for r
    using that by (induction ds arbitrary: r) (simp_all add: registry_ok_register)
  moreover have "registry_ok new_route_registry" by (simp add: registry_ok_def new_route_registry_def)
  ultimately show ?thesis unfolding register_all_def by blast
qed

section \<open>Authorisation\<close>

text \<open>What a request must bring for a route, as one condition.\<close>

definition scope_granted :: "route_env \<Rightarrow> control_authentication \<Rightarrow> control_capability \<Rightarrow> bool" where
  "scope_granted E a capability =
     (let outcome = permissionOutcome (ca_role a) capability
      in permissionCanAppearInNavigation outcome \<and>
         (permissionNeedsScope outcome \<longrightarrow> en_authorizeScope E a capability outcome = Inr True))"

definition needs_step_up :: "route_definition \<Rightarrow> control_authentication \<Rightarrow> bool" where
  "needs_step_up d a =
     ((case rd_permission d of
         Permission_capability capability \<Rightarrow>
           permissionNeedsHumanStepUp (permissionOutcome (ca_role a) capability)
       | _ \<Rightarrow> False) \<or>
      (ca_method a = Browser_session \<and> rd_stepUp d \<noteq> Step_none))"

definition step_up_shown ::
  "route_env \<Rightarrow> route_definition \<Rightarrow> control_authentication \<Rightarrow> step_up_operation \<Rightarrow> bool" where
  "step_up_shown E d a operation \<longleftrightarrow> ca_method a = Browser_session \<and>
     en_verifyStepUp E a (if rd_stepUp d = Step_none then Step_five_minutes else rd_stepUp d) operation = Inr True"

definition route_authorized ::
  "route_env \<Rightarrow> route_definition \<Rightarrow> control_request \<Rightarrow> step_up_operation \<Rightarrow> bool" where
  "route_authorized E d rq operation =
     (is_public d \<or>
      (case rq_authentication rq of
         None \<Rightarrow> False
       | Some a \<Rightarrow>
           (case rd_permission d of
              Permission_null \<Rightarrow> False
            | Permission_authenticated \<Rightarrow> True
            | Permission_capability capability \<Rightarrow> scope_granted E a capability) \<and>
           (needs_step_up d a \<longrightarrow> step_up_shown E d a operation)))"

lemma authorize_outcome_ok: "authorize_outcome E a capability params = Inr () \<longleftrightarrow> scope_granted E a capability"
  by (auto simp: authorize_outcome_def scope_granted_def Let_def permissionCanAppearInNavigation_def
      contract_def result_bind_Inr split: if_splits)

lemma authorize_step_up_ok:
  "authorize_step_up E d a outcome operation = Inr () \<longleftrightarrow>
    (((case outcome of None \<Rightarrow> False | Some out \<Rightarrow> permissionNeedsHumanStepUp out) \<or>
      (ca_method a = Browser_session \<and> rd_stepUp d \<noteq> Step_none)) \<longrightarrow> step_up_shown E d a operation)"
  by (auto simp: authorize_step_up_def step_up_shown_def contract_def result_bind_Inr split: if_splits)

lemma authorizeRoute_ok: "authorizeRoute E d rq operation = Inr () \<longleftrightarrow> route_authorized E d rq operation"
  by (auto simp: authorizeRoute_def route_authorized_def is_public_def contract_def result_bind_Inr
      authorize_outcome_ok authorize_step_up_ok needs_step_up_def
      split: option.splits route_permission.splits)


section \<open>The path of a request\<close>

text \<open>The steps before the handler leave all but the recorded parts and targets alone.\<close>

definition quiet :: "handling \<Rightarrow> handling \<Rightarrow> bool" where
  "quiet h h' \<longleftrightarrow> hd_gate h' = hd_gate h \<and> hd_trace h' = hd_trace h \<and> hd_lease h' = hd_lease h \<and>
     hd_activityAttempted h' = hd_activityAttempted h"

lemma quiet_refl [simp]: "quiet h h"
  by (simp add: quiet_def)

lemma quiet_trans: "quiet h h' \<Longrightarrow> quiet h' h'' \<Longrightarrow> quiet h h''"
  by (simp add: quiet_def)

lemma quiet_bind:
  assumes m: "\<And>h. quiet h (fst (m h))" and k: "\<And>a h. quiet h (fst (k a h))"
  shows "quiet h (fst (step_bind m k h))"
proof (cases "m h")
  case (Pair h' r)
  then have "quiet h h'" using m [of h] by simp
  then show ?thesis using Pair k quiet_trans by (auto simp: step_bind_def split: sum.splits)
qed

lemma quiet_step:
  "quiet h (fst (step_return a h))" "quiet h (fst (step_lift r h))"
  "(\<And>x. quiet x (f x)) \<Longrightarrow> quiet h (fst (step_modify f h))"
  "quiet h (fst (m h)) \<Longrightarrow> quiet h (fst (m' h)) \<Longrightarrow> quiet h (fst ((if b then m else m') h))"
  by (simp_all add: step_return_def step_lift_def step_modify_def)

lemma quiet_parts [simp]:
  "quiet h (h\<lparr>hd_body := b\<rparr>)" "quiet h (h\<lparr>hd_params := b\<rparr>)" "quiet h (h\<lparr>hd_targets := t\<rparr>)"
  by (simp_all add: quiet_def)

lemma read_request_quiet: "quiet h (fst (read_request E d rq h))"
  unfolding read_request_def by (intro quiet_bind quiet_step quiet_parts)

lemma authorize_request_quiet: "quiet h (fst (authorize_request E d rq c h))"
  unfolding authorize_request_def Let_def by (intro quiet_bind quiet_step quiet_parts)

lemma authorize_request_ok:
  "authorize_request E d rq c h = (h', Inr u) \<Longrightarrow>
    route_authorized E d rq
      (stepUpOperation E d (hc_body c) (hc_params c) (hc_expectedVersion c) (hc_idempotencyKey c))"
  by (cases u) (simp add: authorize_request_def Let_def step_bind_def step_modify_def step_lift_def authorizeRoute_ok)

definition uses_gate :: "route_env \<Rightarrow> route_definition \<Rightarrow> control_request \<Rightarrow> bool" where
  "uses_gate E d rq \<longleftrightarrow> rq_authentication rq \<noteq> None \<and> en_maintenance E \<and>
     rd_id d \<notin> set restore_maintenance_exempt_route_ids"

text \<open>A request is admitted: it is authorised, and it holds a lease of an open gate where it needs one.\<close>

definition admitted ::
  "route_env \<Rightarrow> route_definition \<Rightarrow> control_request \<Rightarrow> gate \<Rightarrow> handler_context \<Rightarrow> handling \<Rightarrow> bool" where
  "admitted E d rq g c h \<longleftrightarrow>
     route_authorized E d rq
       (stepUpOperation E d (hc_body c) (hc_params c) (hc_expectedVersion c) (hc_idempotencyKey c)) \<and>
     hd_trace h = [] \<and> \<not> hd_activityAttempted h \<and>
     (if uses_gate E d rq
      then mg_phase g = Gate_open \<and> hd_gate h = fst (acquireOrdinary g) \<and> hd_lease h = Some (length (mg_leases g))
      else hd_gate h = g \<and> hd_lease h = None)"

definition start :: "gate \<Rightarrow> handling" where
  "start g = \<lparr>hd_gate = g, hd_trace = [], hd_lease = None, hd_body = None, hd_params = None,
     hd_activityAttempted = False, hd_targets = []\<rparr>"

lemma enter_maintenance_open:
  "\<not> (uses_gate E d rq \<and> mg_phase (hd_gate h) \<noteq> Gate_open) \<Longrightarrow>
    enter_maintenance E d rq h =
      (if uses_gate E d rq
       then h\<lparr>hd_gate := fst (acquireOrdinary (hd_gate h)), hd_lease := Some (length (mg_leases (hd_gate h)))\<rparr>
       else h, Inr ())"
  by (auto simp: enter_maintenance_def uses_gate_def acquireOrdinary_def)

lemma handle_try_cases:
  obtains (refused) e h where "handle_try E d rq (start g) = (h, Inl e)" and "quiet (start g) h"
  | (admitted) c h where "admitted E d rq g c h"
      and "handle_try E d rq (start g) =
        step_bind (record_allowed E d rq) (\<lambda>_. step_bind (call_handler E c) (\<lambda>res. step_lift (make_reply d rq res))) h"
proof (cases "read_request E d rq (start g)")
  case read: (Pair h1 r1)
  note q1 = read_request_quiet [of "start g" E d rq, unfolded read, simplified]
  show ?thesis
  proof (cases r1)
    case (Inl e)
    then show ?thesis using refused read q1 by (simp add: handle_try_def step_bind_def)
  next
    case c: (Inr c)
    show ?thesis
    proof (cases "authorize_request E d rq c h1")
      case auth: (Pair h2 r2)
      note q2 = quiet_trans [OF q1 authorize_request_quiet [of h1 E d rq c, unfolded auth, simplified]]
      show ?thesis
      proof (cases r2)
        case (Inl e)
        then show ?thesis using refused read c auth q2 by (simp add: handle_try_def step_bind_def)
      next
        case u: (Inr u)
        note ok = authorize_request_ok [OF auth [unfolded u]]
        have unfold: "handle_try E d rq (start g) =
          step_bind (enter_maintenance E d rq) (\<lambda>_. step_bind (record_allowed E d rq)
            (\<lambda>_. step_bind (call_handler E c) (\<lambda>res. step_lift (make_reply d rq res)))) h2"
          using read c auth u by (simp only: handle_try_def step_bind_def [of "read_request E d rq"]
            step_bind_def [of "authorize_request E d rq c"] prod.case sum.case)
        show ?thesis
        proof (cases "uses_gate E d rq \<and> mg_phase g \<noteq> Gate_open")
          case True
          then show ?thesis
            using refused [of h2] unfold q2
            by (simp add: enter_maintenance_def uses_gate_def acquireOrdinary_def step_bind_def contract_def
                quiet_def start_def)
        next
          case False
          have h2: "hd_gate h2 = g" "hd_trace h2 = []" "hd_lease h2 = None" "\<not> hd_activityAttempted h2"
            using q2 by (simp_all add: quiet_def start_def)
          note enter = enter_maintenance_open [of E d rq h2, unfolded h2, OF False]
          show ?thesis
          proof (rule admitted)
            show "admitted E d rq g c (fst (enter_maintenance E d rq h2))"
              using False ok h2 by (auto simp: admitted_def enter)
          qed (simp only: unfold enter step_bind_def [of "enter_maintenance E d rq"] prod.case sum.case fst_conv)
        qed
      qed
    qed
  qed
qed

lemma handle_request_start:
  "handle_request E d rq g =
    (case handle_try E d rq (start g) of
       (h, Inr reply) \<Rightarrow> (release_lease h, Inr reply)
     | (h, Inl e) \<Rightarrow> (case handle_catch E d rq e h of (h', r) \<Rightarrow> (release_lease h', r)))"
  by (simp add: handle_request_def start_def Let_def split: prod.splits sum.splits)


text \<open>An API key whose activity is recorded.\<close>

definition logs_key :: "route_env \<Rightarrow> control_request \<Rightarrow> bool" where
  "logs_key E rq =
     (case (rq_authentication rq, en_apiKeyActivity E) of
        (Some a, Some recorder) \<Rightarrow> ca_method a = Api_key
      | _ \<Rightarrow> False)"

fun is_activity :: "effect \<Rightarrow> bool" where
  "is_activity (Effect_activity v) = True"
| "is_activity _ = False"

fun is_handler :: "effect \<Rightarrow> bool" where
  "is_handler (Effect_handler c) = True"
| "is_handler _ = False"

abbreviation note_activity :: "activity \<Rightarrow> handling \<Rightarrow> handling" where
  "note_activity v h \<equiv> h\<lparr>hd_activityAttempted := True, hd_trace := hd_trace h @ [Effect_activity v]\<rparr>"

lemma logs_keyE:
  assumes "logs_key E rq"
  obtains a recorder where "rq_authentication rq = Some a" and "en_apiKeyActivity E = Some recorder"
    and "ca_method a = Api_key"
  using assms by (auto simp: logs_key_def split: option.splits)

lemma record_allowed_result:
  obtains r v where "record_allowed E d rq h = (if logs_key E rq then note_activity v h else h, r)"
    and "av_outcome v = Activity_allow"
proof (cases "logs_key E rq")
  case True
  then obtain a recorder where "rq_authentication rq = Some a" "en_apiKeyActivity E = Some recorder"
      "ca_method a = Api_key"
    by (rule logs_keyE)
  then show ?thesis
    using True that [of "key_activity a d Activity_allow (hd_targets h) None"]
    by (simp add: record_allowed_def Let_def key_activity_def)
next
  case False
  then show ?thesis
    using that [of "key_activity undefined d Activity_allow [] None"]
    by (auto simp: record_allowed_def logs_key_def key_activity_def split: option.splits)
qed

lemma record_failed_result:
  obtains r v where "record_failed E d rq e h =
    (if logs_key E rq \<and> \<not> hd_activityAttempted h then note_activity v h else h, r)"
proof (cases "logs_key E rq \<and> \<not> hd_activityAttempted h")
  case True
  then obtain a recorder where "rq_authentication rq = Some a" "en_apiKeyActivity E = Some recorder"
      "ca_method a = Api_key"
    using logs_keyE by blast
  then have "\<exists>v. record_failed E d rq e h = (note_activity v h, recorder v)"
    using True unfolding record_failed_def Let_def by (simp; blast)
  then show ?thesis using that True by auto
next
  case False
  then show ?thesis
    using that by (auto simp: record_failed_def logs_key_def split: option.splits)
qed

lemma handle_catch_result:
  assumes "handle_catch E d rq e h = (h', r)"
  obtains v ws where "hd_gate h' = hd_gate h" and "hd_lease h' = hd_lease h"
    and "hd_trace h' = hd_trace h @
      (if logs_key E rq \<and> \<not> hd_activityAttempted h then [Effect_activity v] else []) @ ws"
    and "\<not> list_ex is_activity ws" and "\<not> list_ex is_handler ws"
proof -
  obtain r1 v where "record_failed E d rq e h =
      (if logs_key E rq \<and> \<not> hd_activityAttempted h then note_activity v h else h, r1)"
    by (rule record_failed_result)
  note failed = this
  show ?thesis
  proof (cases r1)
    case (Inl e')
    then show ?thesis
      using assms failed by (intro that [of v "[]"]) (auto simp: handle_catch_def step_bind_def)
  next
    case (Inr u)
    let ?ws = "case e of Internal_error m \<Rightarrow> [] | Contract_error c \<Rightarrow>
      (case (rd_auditAction d, en_failureAudit E) of
        (Some action, Some audit) \<Rightarrow> [Effect_failure_audit action c] | _ \<Rightarrow> [])"
    show ?thesis
      using assms failed Inr
      by (intro that [of v ?ws])
        (auto simp: handle_catch_def step_bind_def step_lift_def step_return_def record_audit_def
          split: control_exception.splits option.splits sum.splits)
  qed
qed

text \<open>
  The whole path: the request is refused before the handler, or the activity recorder fails,
  or the handler runs; \<open>h\<close> is the state before the lease is released.
\<close>

lemma handle_request_cases:
  obtains (refused) h v ws where "fst (handle_request E d rq g) = release_lease h" and "hd_gate h = g"
      and "hd_lease h = None"
      and "hd_trace h = (if logs_key E rq then [Effect_activity v] else []) @ ws"
      and "\<not> list_ex is_activity ws" and "\<not> list_ex is_handler ws"
  | (admitted) c h0 h v us ws where "fst (handle_request E d rq g) = release_lease h" and "admitted E d rq g c h0"
      and "hd_lease h = hd_lease h0" and "us \<in> {[], [Effect_handler c]}"
      and "hd_gate h = (if us = [] then hd_gate h0 else fst (en_handler E c (hd_gate h0)))"
      and "hd_trace h = (if logs_key E rq then [Effect_activity v] else []) @ us @ ws"
      and "av_outcome v = Activity_allow" and "\<not> list_ex is_activity ws" and "\<not> list_ex is_handler ws"
proof (cases rule: handle_try_cases [of E d rq g])
  case (refused e h)
  note tried = refused
  obtain h' r where c: "handle_catch E d rq e h = (h', r)" by fastforce
  have out: "fst (handle_request E d rq g) = release_lease h'"
    by (simp add: handle_request_start tried(1) c)
  from c show ?thesis
    by (rule handle_catch_result) (rule that(1) [OF out], use tried(2) in \<open>auto simp: quiet_def start_def\<close>)
next
  case (admitted c h0)
  note adm = admitted(1) and run = admitted(2)
  have fresh: "hd_trace h0 = []" "\<not> hd_activityAttempted h0" using adm by (simp_all add: admitted_def)
  obtain r1 v where rec: "record_allowed E d rq h0 =
      (if logs_key E rq then note_activity v h0 else h0, r1)" and v: "av_outcome v = Activity_allow"
    by (rule record_allowed_result)
  define h1 where "h1 = fst (record_allowed E d rq h0)"
  define h2 where "h2 = (case r1 of Inl e \<Rightarrow> h1 | Inr u \<Rightarrow> fst (call_handler E c h1))"
  define us where "us = (case r1 of Inl e \<Rightarrow> [] | Inr u \<Rightarrow> [Effect_handler c])"
  have h1: "hd_gate h1 = hd_gate h0" "hd_lease h1 = hd_lease h0" "hd_activityAttempted h1 = logs_key E rq"
    "hd_trace h1 = (if logs_key E rq then [Effect_activity v] else [])"
    using fresh by (simp_all add: h1_def rec)
  have h2: "hd_gate h2 = (if us = [] then hd_gate h0 else fst (en_handler E c (hd_gate h0)))"
    "hd_lease h2 = hd_lease h0" "hd_activityAttempted h2 = logs_key E rq" "hd_trace h2 = hd_trace h1 @ us"
    using h1 by (auto simp: h2_def us_def call_handler_def split: sum.splits prod.splits)
  have "record_allowed E d rq h0 = (h1, r1)" by (simp add: h1_def rec)
  then have "fst (handle_try E d rq (start g)) = h2"
    unfolding run step_bind_def [of "record_allowed E d rq"] h2_def
    by (cases r1; cases "call_handler E c h1")
      (auto simp: step_bind_def step_lift_def split: sum.splits)
  then obtain r2 where tried: "handle_try E d rq (start g) = (h2, r2)" by (metis prod.collapse)
  show ?thesis
  proof (cases r2)
    case (Inr reply)
    show ?thesis
      by (rule that(2) [of h2 c h0 us v "[]"])
        (use Inr tried adm h1 h2 v in \<open>auto simp: handle_request_start us_def split: sum.splits\<close>)
  next
    case (Inl e)
    obtain h' r where c: "handle_catch E d rq e h2 = (h', r)" by fastforce
    from c obtain ws where ws: "hd_gate h' = hd_gate h2" "hd_lease h' = hd_lease h2" "hd_trace h' = hd_trace h2 @ ws"
      "\<not> list_ex is_activity ws" "\<not> list_ex is_handler ws"
      by (rule handle_catch_result) (use h2 in auto)
    show ?thesis
      by (rule that(2) [of h' c h0 us v ws])
        (use Inl tried c adm h1 h2 v ws in \<open>auto simp: handle_request_start us_def split: sum.splits\<close>)
  qed
qed


section \<open>Properties\<close>

definition route_coherent :: "route_definition \<Rightarrow> bool" where
  "route_coherent d =
     (if is_public d then rd_permission d = Permission_null \<and> rd_stepUp d = Step_none
      else rd_authentication d \<noteq> Auth_methods [] \<and> rd_permission d \<noteq> Permission_null \<and>
        rd_cache d = Cache_no_store \<and> (rd_method d = GET \<or> rd_auditAction d \<noteq> None))"

lemma valid_coherent: "validateDefinition d = Inr () \<Longrightarrow> route_coherent d"
  by (cases "rd_authentication d")
    (auto simp: route_coherent_def validateDefinition_def invalid_authentication_def invalid_mutation_def
      invalid_cache_def is_public_def split: if_splits option.splits)

text \<open>
  Whatever routes are registered, in whatever order, the registry only holds routes with
  pairwise different ids and pairwise different method and path, and each of them meets the metadata rules
  after API keys were added to its methods: a route that is not public has methods, a permission and no
  caching, and one that changes something also has an audit action; a public route asks for no
  permission and no step-up.
\<close>

theorem registered_routes_sound:
  "distinct (map rd_id (rr_definitions (register_all ds))) \<and>
   distinct (map route_key (rr_definitions (register_all ds))) \<and>
   list_all route_coherent (rr_definitions (register_all ds))"
  using registry_ok_all [of ds] valid_coherent
  unfolding registry_ok_def list_all_iff by (metis distinct_rev)

text \<open>
  A request is let through to a route exactly when the route is public or the request is
  authenticated, its role has an outcome other than a denial for the route's capability,
  the authorisation seam grants the scope where the outcome has one, and a browser session has shown the
  step-up where the outcome or the route asks for it.
\<close>

theorem authorizeRoute_exact: "authorizeRoute E d rq operation = Inr () \<longleftrightarrow> route_authorized E d rq operation"
  by (rule authorizeRoute_ok)

text \<open>
  C17: On no path does the handler of a route run for a request that is not authorised for
  the step-up operation made of its own body, parameters, version and idempotency key, nor, unless the route
  is exempt, for an authenticated request that arrives while a restore drains or holds the gate.
\<close>

theorem handler_only_authorized:
  assumes "Effect_handler c \<in> set (hd_trace (fst (handle_request E d rq g)))"
  shows "route_authorized E d rq
      (stepUpOperation E d (hc_body c) (hc_params c) (hc_expectedVersion c) (hc_idempotencyKey c)) \<and>
    (uses_gate E d rq \<longrightarrow> mg_phase g = Gate_open)"
proof (cases rule: handle_request_cases [of E d rq g])
  case (refused h v ws)
  then have False using assms by (auto simp: list_ex_iff release_lease_def split: if_splits option.splits)
  then show ?thesis ..
next
  case (admitted c' h0 h v us ws)
  then have "c' = c" using assms by (auto simp: list_ex_iff release_lease_def split: if_splits option.splits)
  then show ?thesis using admitted(2) by (auto simp: admitted_def)
qed

text \<open>
  Every request of an API key leaves exactly one activity record where there is a recorder, and
  other requests leave none, on every path: success, refusal, a failing handler, a failing
  recorder. The record comes before the handler, and only an \<open>allow\<close> record has a handler after it.
\<close>

theorem one_activity_per_key_request:
  "\<exists>v ws. hd_trace (fst (handle_request E d rq g)) = (if logs_key E rq then [Effect_activity v] else []) @ ws \<and>
     list_ex is_activity ws = False \<and>
     (if list_ex is_handler ws then av_outcome v = Activity_allow else True)"
proof (cases rule: handle_request_cases [of E d rq g])
  case (refused h v ws)
  then show ?thesis by (intro exI [of _ v] exI [of _ ws]) (simp add: release_lease_def)
next
  case (admitted c h0 h v us ws)
  then show ?thesis
    by (intro exI [of _ v] exI [of _ "us @ ws"]) (auto simp: release_lease_def split: option.splits)
qed

text \<open>
  A handler may start work of its own at the gate, but it ends that work before it returns
  and does not touch the leases of others.
\<close>

definition balanced_handler :: "route_env \<Rightarrow> bool" where
  "balanced_handler E \<longleftrightarrow>
     (\<forall>c g. let g' = fst (en_handler E c g)
            in mg_active g' = mg_active g \<and> (\<exists>n. mg_leases g' = mg_leases g @ replicate n True))"

text \<open>
  C32: No path of a request leaks its maintenance lease: whether it succeeds, is refused or throws,
  the gate has as many unreleased leases and as much active work afterwards as before, so a
  failing route cannot keep a restore waiting.
\<close>

theorem request_returns_lease:
  assumes "balanced_handler E"
  shows "unreleased (hd_gate (fst (handle_request E d rq g))) = unreleased g \<and>
    mg_active (hd_gate (fst (handle_request E d rq g))) = mg_active g"
proof (cases rule: handle_request_cases [of E d rq g])
  case (refused h v ws)
  then show ?thesis by (simp add: release_lease_def)
next
  case (admitted c h0 h v us ws)
  obtain n where "mg_active (hd_gate h) = mg_active (hd_gate h0)"
    "mg_leases (hd_gate h) = mg_leases (hd_gate h0) @ replicate n True"
    using assms admitted(5) by (cases "us = []") (auto simp: balanced_handler_def Let_def intro: that [of 0])
  then show ?thesis
    using admitted(1-3)
    by (auto simp: admitted_def release_lease_def acquireOrdinary_def releaseOrdinary_def Let_def unreleased_def
        nth_append list_update_append split: if_splits)
qed


text \<open>A route that creates services, and a superadministrator's request for it.\<close>

definition sample_route :: route_definition where
  "sample_route =
     \<lparr>rd_id = ''services.create'', rd_method = POST, rd_path = ''/api/v2/services'', rd_summary = ''Create'',
      rd_tags = [''Services''], rd_authentication = Auth_methods [Browser_session],
      rd_expandApiKeyAuthentication = None, rd_permission = Permission_capability Cap_create_service,
      rd_stepUp = Step_none,
      rd_schemas = \<lparr>rs_body = None, rs_query = None, rs_params = None, rs_response = (\<lambda>v. Inr v)\<rparr>,
      rd_rateLimit = Rate_management, rd_auditAction = Some ''service.create'', rd_secretFields = [],
      rd_cache = Cache_no_store, rd_if_match = False, rd_idempotent = False, rd_rawResponse = False,
      rd_binaryResponse = None, rd_binaryRequest = None, rd_redirectResponse = False,
      rd_successStatuses = None\<rparr>"

definition sample_route_request :: control_request where
  "sample_route_request =
     \<lparr>rq_id = ''req_01234567-89ab-4def-8123-456789abcdef'', rq_body = None, rq_query = None, rq_params = None,
      rq_if_match = None, rq_idempotency_key = None,
      rq_authentication = Some \<lparr>ca_method = Browser_session, ca_principalId = ''root'',
        ca_role = Role_superadmin, ca_apiKey = None\<rparr>\<rparr>"

definition sample_route_env :: route_env where
  "sample_route_env =
     \<lparr>en_authorizeScope = (\<lambda>a c out. Inr False), en_verifyStepUp = (\<lambda>a s out. Inr False), en_stepUpProof = None,
      en_maintenance = True, en_apiKeyActivity = None, en_failureAudit = None, en_digest = (\<lambda>v. []),
      en_handler = (\<lambda>c g. (g, False, Inr \<lparr>hr_data = Payload_json JNull, hr_statusCode = None, hr_version = None,
        hr_redirectLocation = None\<rparr>))\<rparr>"

definition sample_context :: handler_context where
  "sample_context =
     \<lparr>hc_body = None, hc_query = None, hc_params = None, hc_authentication = rq_authentication sample_route_request,
      hc_expectedVersion = None, hc_idempotencyKey = None, hc_stepUpProof = None\<rparr>"

lemma sample_trace:
  "hd_trace (fst (handle_request sample_route_env sample_route sample_route_request new_gate)) = [Effect_handler sample_context]"
  by code_simp

theorem handler_only_authorized_witness:
  "route_authorized sample_route_env sample_route sample_route_request
     (stepUpOperation sample_route_env sample_route None None None None)"
  using handler_only_authorized [of sample_context sample_route_env sample_route sample_route_request new_gate] sample_trace
  by (simp add: sample_context_def)

theorem request_returns_lease_witness:
  "unreleased (hd_gate (fst (handle_request sample_route_env sample_route sample_route_request sample_gate))) = 1"
proof -
  have "balanced_handler sample_route_env"
    unfolding balanced_handler_def sample_route_env_def Let_def by (auto intro!: exI [of _ 0])
  moreover have "unreleased sample_gate = 1" by code_simp
  ultimately show ?thesis using request_returns_lease [of sample_route_env sample_route sample_route_request sample_gate] by simp
qed

end
