(* ===== verification/ClientSource.thy ===== *)
theory ClientSource
  imports JsStrings "HOL-Library.Word"
begin

unbundle bit_operations_syntax

text \<open>
  \<^verbatim>\<open>src/clientSource.ts\<close>: which address a request is attributed to. The immediate peer counts unless
  the configuration lets proxies name the client in \<open>Forwarded\<close> or \<open>X-Forwarded-For\<close>. Of the platform,
  \<open>isIP\<close> of \<^verbatim>\<open>node:net\<close> and the serialisation of an IPv6 host by \<open>URL\<close> are written out.
\<close>

section \<open>Model\<close>

datatype client_source_error = Client_source_invalid

type_synonym 'a source_result = "client_source_error + 'a"

abbreviation source_error :: "'a source_result" where
  "source_error \<equiv> Inl Client_source_invalid"

datatype source_mode = Mode_direct | Mode_trusted_proxies | Mode_always

datatype source_header = X_forwarded_for | Forwarded

record client_source_config =
  cs_mode :: source_mode
  cs_header :: source_header
  cs_trustedProxies :: "string list"

record network =
  nw_bytes :: "8 word list"
  nw_prefix :: nat

subsection \<open>Addresses as text\<close>

text \<open>\<^verbatim>\<open>/^(?:0|[1-9][0-9]{0,2})$/\<close>\<close>

definition short_number :: "string \<Rightarrow> bool" where
  "short_number v \<longleftrightarrow> v \<noteq> [] \<and> length v \<le> 3 \<and> list_all is_digit v \<and> (hd v = CHR ''0'' \<longrightarrow> length v = 1)"

definition canonicalIpv4 :: "string \<Rightarrow> string source_result" where
  "canonicalIpv4 input =
     (let parts = js_split CHR ''.'' input
      in if length parts \<noteq> 4 \<or> list_ex (\<lambda>p. \<not> short_number p) parts then source_error
         else let numbers = map decimal_value parts
              in if list_ex (\<lambda>n. n > 255) numbers then source_error
                 else Inr (js_join ''.'' (map nat_string numbers)))"

text \<open>\<open>Number.parseInt(word, 16)\<close> and \<open>n.toString(16)\<close>\<close>

definition hex_number :: "string \<Rightarrow> nat" where
  "hex_number s = foldl (\<lambda>n c. n * 16 + hex_value c) 0 s"

fun hex_text :: "nat \<Rightarrow> string" where
  "hex_text n = (if n < 16 then [hex_digit n] else hex_text (n div 16) @ [hex_digit (n mod 16)])"

declare hex_text.simps [simp del]

text \<open>The text after the last colon when it matches \<^verbatim>\<open>\d+\.\d+\.\d+\.\d+\<close>\<close>

definition embedded_ipv4 :: "string \<Rightarrow> string option" where
  "embedded_ipv4 input =
     (let final = last (js_split CHR '':'' input);
          parts = js_split CHR ''.'' final
      in if length parts = 4 \<and> list_all (\<lambda>p. p \<noteq> [] \<and> list_all is_digit p) parts then Some final else None)"

text \<open>\<open>value.split("::")\<close>\<close>

fun split_double_colon :: "string \<Rightarrow> string list" where
  "split_double_colon (c # d # cs) =
     (if c = CHR '':'' \<and> d = CHR '':'' then [] # split_double_colon cs
      else case split_double_colon (d # cs) of [] \<Rightarrow> [[c]] | p # ps \<Rightarrow> (c # p) # ps)"
| "split_double_colon s = [s]"

definition hex_word :: "string \<Rightarrow> nat source_result" where
  "hex_word w =
     (if w \<noteq> [] \<and> length w \<le> 4 \<and> list_all is_hex_digit w then Inr (hex_number w) else source_error)"

definition expand_embedded :: "string \<Rightarrow> string source_result" where
  "expand_embedded input =
     (case embedded_ipv4 input of
        None \<Rightarrow> Inr input
      | Some text \<Rightarrow>
          result_bind (canonicalIpv4 text) (\<lambda>ipv4.
            let bytes = map decimal_value (js_split CHR ''.'' ipv4)
            in Inr (js_join '':'' (butlast (js_split CHR '':'' input)) @ '':'' @
                 hex_text (bytes ! 0 * 256 + bytes ! 1) @ '':'' @ hex_text (bytes ! 2 * 256 + bytes ! 3))))"

definition colon_words :: "string \<Rightarrow> string list" where
  "colon_words half = (if half = [] then [] else js_split CHR '':'' half)"

definition ipv6Words :: "string \<Rightarrow> nat list source_result" where
  "ipv6Words input =
     result_bind (expand_embedded input) (\<lambda>v.
       case split_double_colon v of
         [whole] \<Rightarrow>
           (if length (colon_words whole) \<noteq> 8 then source_error else result_map hex_word (colon_words whole))
       | [left, right] \<Rightarrow>
           (let n = length (colon_words left) + length (colon_words right)
            in if n + 1 > 8 then source_error
               else result_map hex_word (colon_words left @ replicate (8 - n) ''0'' @ colon_words right))
       | _ \<Rightarrow> source_error)"

text \<open>
  \<open>isIP\<close>: 4 for four decimal numbers up to 255 without leading zeros, 6 for an IPv6 address
  without a zone (a text with a percent sign never gets here), otherwise 0.
\<close>

definition isIP :: "string \<Rightarrow> nat" where
  "isIP s = (if isl (canonicalIpv4 s) then if isl (ipv6Words s) then 0 else 6 else 4)"

text \<open>
  \<open>new URL("http://[...]/").hostname\<close>: the words in hexadecimal, the first longest run of at least two
  zeros as a double colon.
\<close>

definition zero_run :: "nat list \<Rightarrow> nat \<Rightarrow> nat" where
  "zero_run ws i = length (takeWhile (\<lambda>w. w = 0) (drop i ws))"

definition longest_run :: "nat list \<Rightarrow> nat" where
  "longest_run ws = foldr max (map (zero_run ws) [0..<length ws]) 0"

definition ipv6_hostname :: "nat list \<Rightarrow> string" where
  "ipv6_hostname ws =
     (let m = longest_run ws
      in if m < 2 then js_join '':'' (map hex_text ws)
         else case find (\<lambda>i. zero_run ws i = m) [0..<length ws] of
           None \<Rightarrow> js_join '':'' (map hex_text ws)
         | Some i \<Rightarrow>
             js_join '':'' (map hex_text (take i ws)) @ ''::'' @
             js_join '':'' (map hex_text (drop (i + m) ws)))"

definition mapped_ipv4 :: "nat list \<Rightarrow> bool" where
  "mapped_ipv4 ws \<longleftrightarrow> list_all (\<lambda>w. w = 0) (take 5 ws) \<and> ws ! 5 = 0xFFFF"

definition dotted_quad :: "nat list \<Rightarrow> string" where
  "dotted_quad ws =
     js_join ''.'' (map nat_string [ws ! 6 div 256, ws ! 6 mod 256, ws ! 7 div 256, ws ! 7 mod 256])"

definition canonicalIp :: "string \<Rightarrow> string source_result" where
  "canonicalIp input =
     (if length input < 1 \<or> CHR ''%'' \<in> set input \<or> input \<noteq> js_trim input then source_error
      else if isIP input = 4 then canonicalIpv4 input
      else if isIP input \<noteq> 6 then source_error
      else result_bind (ipv6Words input) (\<lambda>words.
             if mapped_ipv4 words then Inr (dotted_quad words) else Inr (to_lower (ipv6_hostname words))))"

definition addressBytes :: "string \<Rightarrow> 8 word list source_result" where
  "addressBytes address =
     (if isIP address = 4
      then Inr (map (\<lambda>p. of_nat (decimal_value p)) (js_split CHR ''.'' address))
      else result_bind (ipv6Words address) (\<lambda>words.
             Inr (concat (map (\<lambda>w. [of_nat (w div 256), of_nat (w mod 256)]) words))))"

subsection \<open>Networks\<close>

definition canonicalPrefix :: "string \<Rightarrow> nat \<Rightarrow> nat source_result" where
  "canonicalPrefix v maximum =
     (if \<not> short_number v then source_error
      else if decimal_value v > maximum then source_error else Inr (decimal_value v))"

definition hostBitsZero :: "8 word list \<Rightarrow> nat \<Rightarrow> bool" where
  "hostBitsZero bytes bits =
     list_all (\<lambda>i. (bytes ! (i div 8)) AND push_bit (7 - i mod 8) 1 = 0) [bits..<length bytes * 8]"

definition parseNetwork :: "string \<Rightarrow> network source_result" where
  "parseNetwork v =
     (let pieces = js_split CHR ''/'' v
      in if length pieces > 2 \<or> hd pieces = [] then source_error
         else result_bind (canonicalIp (hd pieces)) (\<lambda>address.
              if address \<noteq> hd pieces then source_error
              else result_bind (addressBytes address) (\<lambda>bytes.
                   let maximum = length bytes * 8
                   in result_bind (case tl pieces of [] \<Rightarrow> Inr maximum | p # _ \<Rightarrow> canonicalPrefix p maximum) (\<lambda>bits.
                        if \<not> hostBitsZero bytes bits then source_error
                        else Inr \<lparr>nw_bytes = bytes, nw_prefix = bits\<rparr>))))"

text \<open>The mask is cut to the eight bits that the conjunction with a byte keeps.\<close>

definition bytes_within :: "network \<Rightarrow> 8 word list \<Rightarrow> bool" where
  "bytes_within n candidate \<longleftrightarrow>
     length candidate = length (nw_bytes n) \<and>
     (let whole = nw_prefix n div 8; remaining = nw_prefix n mod 8
      in list_all (\<lambda>i. candidate ! i = nw_bytes n ! i) [0..<whole] \<and>
         (remaining = 0 \<or>
          (let mask = push_bit (8 - remaining) 0xFF
           in candidate ! whole AND mask = nw_bytes n ! whole AND mask)))"

definition network_contains :: "network \<Rightarrow> string \<Rightarrow> bool source_result" where
  "network_contains n address =
     result_bind (addressBytes address) (\<lambda>candidate. Inr (bytes_within n candidate))"

text \<open>\<open>this.#trusted.some(...)\<close>, which may throw\<close>

fun is_trusted :: "network list \<Rightarrow> string \<Rightarrow> bool source_result" where
  "is_trusted [] address = Inr False"
| "is_trusted (n # ns) address =
     result_bind (network_contains n address) (\<lambda>inside. if inside then Inr True else is_trusted ns address)"

subsection \<open>Forwarding headers\<close>

text \<open>\<^verbatim>\<open>/^[1-9][0-9]{0,4}$/\<close>\<close>

definition port_text :: "string \<Rightarrow> bool" where
  "port_text v \<longleftrightarrow> v \<noteq> [] \<and> length v \<le> 5 \<and> list_all is_digit v \<and> hd v \<noteq> CHR ''0''"

definition validateSourcePort :: "string \<Rightarrow> unit source_result" where
  "validateSourcePort v =
     (if v = [] then Inr ()
      else if decimal_value v < 1 \<or> decimal_value v > 65535 then source_error else Inr ())"

definition bracketed_address :: "string \<Rightarrow> string source_result" where
  "bracketed_address v =
     (let close = length (takeWhile (\<lambda>c. c \<noteq> CHR '']'') v); suf = drop (close + 1) v
      in if close = length v \<or> close < 2 then source_error
         else if suf \<noteq> [] \<and> \<not> (hd suf = CHR '':'' \<and> port_text (tl suf)) then source_error
         else result_bind (validateSourcePort (drop 1 suf)) (\<lambda>_. canonicalIp (js_slice v 1 close)))"

definition forwardedAddress :: "string \<Rightarrow> string source_result" where
  "forwardedAddress v =
     (if length v < 1 \<or> to_lower v = ''unknown'' \<or> starts_with v ''_'' \<or>
         list_ex (\<lambda>c. is_space c \<or> c = CHR ''%'') v
      then source_error
      else if starts_with v ''['' then bracketed_address v
      else if isIP v \<noteq> 0 then canonicalIp v
      else case js_split CHR '':'' v of
        [host, port] \<Rightarrow>
          (if host \<noteq> [] \<and> port_text port
           then result_bind (validateSourcePort port) (\<lambda>_. canonicalIp host) else source_error)
      | _ \<Rightarrow> source_error)"

definition parseXForwardedFor :: "string \<Rightarrow> string list source_result" where
  "parseXForwardedFor v =
     (let parts = js_split CHR '','' v
      in if list_ex (\<lambda>p. length (js_trim p) = 0) parts then source_error
         else result_map (\<lambda>p. forwardedAddress (js_trim p)) parts)"

text \<open>\<open>part\<close> is the text since \<open>start\<close>, reversed.\<close>

fun split_quoted_loop ::
  "char \<Rightarrow> bool \<Rightarrow> bool \<Rightarrow> string \<Rightarrow> string \<Rightarrow> string list source_result" where
  "split_quoted_loop sep quoted escaped part [] =
     (if quoted \<or> escaped then source_error
      else let final = js_trim (rev part) in if length final = 0 then source_error else Inr [final])"
| "split_quoted_loop sep quoted escaped part (c # cs) =
     (if escaped then split_quoted_loop sep quoted False (c # part) cs
      else if quoted \<and> c = CHR 0x5C then split_quoted_loop sep quoted True (c # part) cs
      else let quoted' = (if c = CHR 0x22 then \<not> quoted else quoted)
           in if \<not> quoted' \<and> c = sep
              then let p = js_trim (rev part)
                   in if length p = 0 then source_error
                      else result_bind (split_quoted_loop sep quoted' False [] cs) (\<lambda>ps. Inr (p # ps))
              else split_quoted_loop sep quoted' False (c # part) cs)"

definition splitQuoted :: "string \<Rightarrow> char \<Rightarrow> string list source_result" where
  "splitQuoted v sep = split_quoted_loop sep False False [] v"

text \<open>The argument is what follows the opening quote, with the closing one at its end.\<close>

fun unquote_loop :: "string \<Rightarrow> string source_result" where
  "unquote_loop (c # d # cs) =
     (if c = CHR 0x5C then result_bind (unquote_loop cs) (\<lambda>r. Inr (d # r))
      else result_bind (unquote_loop (d # cs)) (\<lambda>r. Inr (c # r)))"
| "unquote_loop s = Inr []"

definition unquote :: "string \<Rightarrow> string source_result" where
  "unquote v =
     (if \<not> starts_with v [CHR 0x22] then if CHR 0x22 \<in> set v then source_error else Inr v
      else if \<not> ends_with v [CHR 0x22] then source_error
      else unquote_loop (tl v))"

fun forwarded_for :: "string list \<Rightarrow> string option \<Rightarrow> string option source_result" where
  "forwarded_for [] selected = Inr selected"
| "forwarded_for (parameter # ps) selected =
     (let equals = length (takeWhile (\<lambda>c. c \<noteq> CHR ''='') parameter)
      in if equals = length parameter \<or> equals < 1 then source_error
         else if to_lower (js_trim (take equals parameter)) \<noteq> ''for'' then forwarded_for ps selected
         else if selected \<noteq> None then source_error
         else result_bind (unquote (js_trim (drop (equals + 1) parameter))) (\<lambda>a. forwarded_for ps (Some a)))"

definition forwarded_element :: "string \<Rightarrow> string source_result" where
  "forwarded_element element =
     result_bind (splitQuoted element CHR '';'') (\<lambda>ps.
     result_bind (forwarded_for ps None) (\<lambda>selected.
       case selected of None \<Rightarrow> source_error | Some a \<Rightarrow> forwardedAddress a))"

definition parseForwarded :: "string \<Rightarrow> string list source_result" where
  "parseForwarded v =
     result_bind (splitQuoted v CHR '','') (\<lambda>elements. result_map forwarded_element elements)"

subsection \<open>The resolver\<close>

definition utf8_length :: "string \<Rightarrow> nat" where
  "utf8_length s = sum_list (map (\<lambda>c. if char_code c < 128 then 1 else 2) s)"

record client_source_resolver =
  csr_config :: client_source_config
  csr_trusted :: "network list"

definition new_ClientSourceResolver :: "client_source_config \<Rightarrow> client_source_resolver source_result" where
  "new_ClientSourceResolver config =
     result_bind (result_map parseNetwork (cs_trustedProxies config)) (\<lambda>trusted.
       Inr \<lparr>csr_config = config, csr_trusted = trusted\<rparr>)"

text \<open>The loop from the last address of the chain to the first; \<open>chain\<close> is reversed.\<close>

fun last_untrusted :: "network list \<Rightarrow> string list \<Rightarrow> string option source_result" where
  "last_untrusted trusted [] = Inr None"
| "last_untrusted trusted (address # chain) =
     result_bind (is_trusted trusted address) (\<lambda>t.
       if \<not> t then Inr (Some address) else last_untrusted trusted chain)"

definition header_name :: "source_header \<Rightarrow> string" where
  "header_name h = (case h of Forwarded \<Rightarrow> ''forwarded'' | X_forwarded_for \<Rightarrow> ''x-forwarded-for'')"

definition parse_chain :: "source_header \<Rightarrow> string \<Rightarrow> string list source_result" where
  "parse_chain h raw = (case h of Forwarded \<Rightarrow> parseForwarded raw | X_forwarded_for \<Rightarrow> parseXForwardedFor raw)"

definition chain_source :: "client_source_resolver \<Rightarrow> string list \<Rightarrow> string source_result" where
  "chain_source r chain =
     (if length chain < 1 \<or> length chain > 32 then source_error
      else if cs_mode (csr_config r) = Mode_always then Inr (hd chain)
      else result_bind (last_untrusted (csr_trusted r) (rev chain)) (\<lambda>a.
             case a of Some address \<Rightarrow> Inr address | None \<Rightarrow> Inr (hd chain)))"

definition resolve_source ::
  "client_source_resolver \<Rightarrow> string option \<Rightarrow> (string \<Rightarrow> header_value option) \<Rightarrow> string source_result" where
  "resolve_source r immediatePeer headers =
     result_bind (canonicalIp (case immediatePeer of None \<Rightarrow> [] | Some p \<Rightarrow> p)) (\<lambda>peer.
       let mode = cs_mode (csr_config r); h = cs_header (csr_config r)
       in if mode = Mode_direct then Inr peer
          else result_bind (if mode = Mode_trusted_proxies then is_trusted (csr_trusted r) peer else Inr True) (\<lambda>t.
            if \<not> t then Inr peer
            else case headers (header_name h) of
              None \<Rightarrow> Inr peer
            | Some (Header_many vs) \<Rightarrow> source_error
            | Some (Header_one raw) \<Rightarrow>
                (if utf8_length raw > 4096 then source_error
                 else result_bind (parse_chain h raw) (chain_source r))))"

definition coarseClientNetwork :: "string \<Rightarrow> string source_result" where
  "coarseClientNetwork input =
     result_bind (canonicalIp input) (\<lambda>address.
     result_bind (addressBytes address) (\<lambda>bytes.
       let n = (\<lambda>i. unat (bytes ! i))
       in if length bytes = 4
          then Inr (nat_string (n 0) @ ''.'' @ nat_string (n 1) @ ''.'' @ nat_string (n 2) @ ''.0/24'')
          else Inr (js_join '':'' (map hex_text [n 0 * 256 + n 1, n 2 * 256 + n 3, n 4 * 256 + n 5]) @ ''::/48'')))"

end
