(* ===== verification/AddressTexts.thy ===== *)
theory AddressTexts
  imports ClientSource
begin

text \<open>
  Facts about the texts of addresses: decimal and hexadecimal numbers read back, the host name of
  an IPv6 address reads back as its words, and the results of \<open>canonicalIp\<close> denote what was read.
\<close>

section \<open>Canonical texts\<close>

lemma nat_string_decimal:
  "p \<noteq> [] \<Longrightarrow> list_all is_digit p \<Longrightarrow> (hd p = CHR ''0'' \<Longrightarrow> length p = 1) \<Longrightarrow> nat_string (decimal_value p) = p"
proof (induction p rule: rev_induct)
  case (snoc c q)
  have c: "is_digit c" using snoc.prems by simp
  then have code: "char_code CHR ''0'' \<le> char_code c" "char_code c \<le> char_code CHR ''9''"
    by (simp_all add: is_digit_def in_range_def)
  have "char_code CHR ''0'' = 48" "char_code CHR ''9'' = 57" by (simp_all add: char_code_def)
  with code have n: "char_code c - 48 < 10" "char_code c - 48 + 48 = char_code c" by simp_all
  have restore: "char_of (char_code c - 48 + 48) = c" unfolding n by (simp add: char_code_def)
  show ?case
  proof (cases "q = []")
    case True
    then show ?thesis
      using n restore by (subst nat_string.simps) (simp add: decimal_value_def)
  next
    case False
    then have "hd q \<noteq> CHR ''0''" using snoc.prems(3) by (cases q) auto
    moreover have "list_all is_digit q" using snoc.prems(2) by simp
    ultimately have IH: "nat_string (decimal_value q) = q" using snoc.IH False by blast
    have pos: "decimal_value q \<noteq> 0"
    proof
      assume "decimal_value q = 0"
      then have "q = nat_string 0" using IH by simp
      moreover have "char_of (48 :: nat) = CHR ''0''" by code_simp
      ultimately show False using \<open>hd q \<noteq> CHR ''0''\<close> by (simp add: nat_string.simps)
    qed
    have v: "decimal_value (q @ [c]) = decimal_value q * 10 + (char_code c - 48)"
      by (rule decimal_value_snoc)
    then have "\<not> decimal_value (q @ [c]) < 10" "decimal_value (q @ [c]) div 10 = decimal_value q"
      "decimal_value (q @ [c]) mod 10 = char_code c - 48"
      using pos n(1) by simp_all
    then show ?thesis using IH restore by (subst nat_string.simps) simp
  qed
qed simp

lemma canonicalIpv4_same:
  assumes "canonicalIpv4 s = Inr a"
  shows "a = s"
proof -
  have parts: "list_all short_number (js_split CHR ''.'' s)"
    and a: "a = js_join ''.'' (map nat_string (map decimal_value (js_split CHR ''.'' s)))"
    using assms by (auto simp: canonicalIpv4_def Let_def list_ex_iff list_all_iff split: if_splits)
  have "map nat_string (map decimal_value (js_split CHR ''.'' s)) = js_split CHR ''.'' s"
    using parts nat_string_decimal by (auto simp: list_all_iff short_number_def intro!: map_idI)
  then show ?thesis using a js_join_split [of "CHR ''.''" s] by simp
qed

text \<open>Texts of plain characters pass the first checks of \<open>canonicalIp\<close>.\<close>

definition plain_char :: "char \<Rightarrow> bool" where
  "plain_char c \<longleftrightarrow> \<not> is_space c \<and> c \<noteq> CHR ''%'' \<and> lower_char c = c"

definition word_char :: "char \<Rightarrow> bool" where
  "word_char c \<longleftrightarrow> plain_char c \<and> c \<noteq> CHR '':'' \<and> c \<noteq> CHR ''.'' \<and> is_hex_digit c"

lemma js_trim_plain: "list_all plain_char s \<Longrightarrow> js_trim s = s"
proof -
  assume p: "list_all plain_char s"
  have "dropWhile is_space t = t" if "list_all plain_char t" for t
    using that by (cases t) (auto simp: plain_char_def)
  then show ?thesis using p by (simp add: js_trim_def)
qed

lemma to_lower_plain: "list_all plain_char s \<Longrightarrow> to_lower s = s"
  by (auto simp: to_lower_def plain_char_def list_all_iff intro: map_idI)

lemma no_percent: "list_all plain_char s \<Longrightarrow> CHR ''%'' \<notin> set s"
  by (auto simp: plain_char_def list_all_iff)

lemma char_eq_code: "c = d \<longleftrightarrow> char_code c = char_code d"
  unfolding char_code_def by (metis char_of_char)

lemma literal_codes:
  "char_code CHR ''0'' = 48" "char_code CHR ''9'' = 57" "char_code CHR ''A'' = 65" "char_code CHR ''F'' = 70"
  "char_code CHR ''Z'' = 90" "char_code CHR ''a'' = 97" "char_code CHR ''f'' = 102" "char_code CHR ''%'' = 37"
  "char_code CHR '':'' = 58" "char_code CHR ''.'' = 46"
  by (simp_all add: char_code_def)

lemma code_word_char:
  "char_code c \<in> {48..57} \<union> {97..102} \<Longrightarrow> word_char c"
  unfolding word_char_def plain_char_def is_space_def lower_char_def is_hex_digit_def is_digit_def in_range_def
    literal_codes char_eq_code [of _ "CHR ''%''"] char_eq_code [of _ "CHR '':''"] char_eq_code [of _ "CHR ''.''"]
  by auto

lemma digit_facts: "(n :: nat) < 10 \<Longrightarrow> is_digit (char_of (n + 48)) \<and> word_char (char_of (n + 48)) \<and>
    (n \<noteq> 0 \<longrightarrow> char_of (n + 48) \<noteq> CHR ''0'')"
proof -
  assume "n < 10"
  then have "char_code (char_of (n + 48)) = n + 48" by (simp add: char_code_char_of)
  then show ?thesis
    using code_word_char [of "char_of (n + 48)"] \<open>n < 10\<close>
    unfolding char_eq_code [of _ "CHR ''0''"] is_digit_def in_range_def literal_codes by simp
qed

lemma hex_facts: "n < 16 \<Longrightarrow> word_char (hex_digit n) \<and> hex_value (hex_digit n) = n"
proof -
  assume "n < 16"
  then have "char_code (hex_digit n) = (if n < 10 then n + 48 else n + 87)"
    by (simp add: hex_digit_def char_code_char_of)
  then show ?thesis
    using code_word_char [of "hex_digit n"] \<open>n < 16\<close>
    unfolding hex_value_def is_digit_def in_range_def literal_codes by (cases "n < 10") auto
qed

lemma nat_string_digits: "list_all is_digit (nat_string n) \<and> list_all word_char (nat_string n) \<and> nat_string n \<noteq> []"
proof (induction n rule: nat_string.induct)
  case (1 n)
  show ?case
    by (subst (1 2 3) nat_string.simps) (use 1 digit_facts [of n] digit_facts [of "n mod 10"] in auto)
qed

lemma nat_string_hd: "n \<noteq> 0 \<Longrightarrow> hd (nat_string n) \<noteq> CHR ''0''"
proof (induction n rule: nat_string.induct)
  case (1 n)
  show ?case
  proof (cases "n < 10")
    case True
    then show ?thesis using digit_facts [of n] 1(2) by (subst nat_string.simps) simp
  next
    case False
    then show ?thesis
      using 1(1) nat_string_digits [of "n div 10"] by (subst nat_string.simps) (simp add: hd_append)
  qed
qed

lemma nat_string_short: "n \<le> 255 \<Longrightarrow> short_number (nat_string n)"
proof -
  assume n: "n \<le> 255"
  have "length (nat_string n) \<le> 3"
    using n by (simp add: nat_string.simps [of n] nat_string.simps [of "n div 10"] nat_string.simps [of "n div 10 div 10"])
  moreover have "length (nat_string n) = 1" if "hd (nat_string n) = CHR ''0''"
    using nat_string_hd [of n] that by (cases "n = 0") (simp_all add: nat_string.simps)
  ultimately show ?thesis using nat_string_digits [of n] by (simp add: short_number_def)
qed

lemma hex_text_chars: "list_all word_char (hex_text n) \<and> hex_text n \<noteq> []"
proof (induction n rule: hex_text.induct)
  case (1 n)
  show ?case
    by (subst (1 2) hex_text.simps) (use 1 hex_facts [of n] hex_facts [of "n mod 16"] in auto)
qed

lemma hex_number_text [simp]: "hex_number (hex_text n) = n"
proof (induction n rule: hex_text.induct)
  case (1 n)
  show ?case
    by (subst hex_text.simps) (use 1 hex_facts [of n] hex_facts [of "n mod 16"] in \<open>auto simp: hex_number_def\<close>)
qed

lemma hex_text_length: "n < 65536 \<Longrightarrow> length (hex_text n) \<le> 4"
  by (simp add: hex_text.simps [of n] hex_text.simps [of "n div 16"] hex_text.simps [of "n div 16 div 16"]
      hex_text.simps [of "n div 16 div 16 div 16"])

lemma hex_word_text: "n < 65536 \<Longrightarrow> hex_word (hex_text n) = Inr n"
  using hex_text_chars [of n] hex_text_length [of n]
  by (auto simp: hex_word_def word_char_def list_all_iff)

lemma hex_number_bound: "list_all is_hex_digit w \<Longrightarrow> hex_number w < 16 ^ length w"
proof (induction w rule: rev_induct)
  case (snoc c w)
  have "hex_value c < 16" if "is_hex_digit c"
    using that by (auto simp: is_hex_digit_def hex_value_def is_digit_def in_range_def literal_codes)
  then show ?case using snoc by (simp add: hex_number_def)
qed (simp add: hex_number_def)

section \<open>The host name of an IPv6 address reads back\<close>

definition colon_free :: "string \<Rightarrow> bool" where
  "colon_free w \<longleftrightarrow> w \<noteq> [] \<and> CHR '':'' \<notin> set w"

lemma split_double_not_Nil [simp]: "split_double_colon s \<noteq> []"
  by (induction s rule: split_double_colon.induct) (auto split: list.splits)

lemma split_double_char:
  "c \<noteq> CHR '':'' \<Longrightarrow> split_double_colon (c # s) = (c # hd (split_double_colon s)) # tl (split_double_colon s)"
  by (cases s) (auto split: list.splits)

lemma split_double_word:
  "CHR '':'' \<notin> set w \<Longrightarrow>
    split_double_colon (w @ s) = (w @ hd (split_double_colon s)) # tl (split_double_colon s)"
  by (induction w) (auto simp: split_double_char)

lemma split_double_single:
  "s \<noteq> [] \<Longrightarrow> hd s \<noteq> CHR '':'' \<Longrightarrow>
    split_double_colon (CHR '':'' # s) = (CHR '':'' # hd (split_double_colon s)) # tl (split_double_colon s)"
  by (cases s) (auto split: list.splits)

lemma hd_join: "ps \<noteq> [] \<Longrightarrow> list_all colon_free ps \<Longrightarrow> hd (js_join '':'' ps) \<noteq> CHR '':'' \<and> js_join '':'' ps \<noteq> []"
  by (cases ps; cases "tl ps") (auto simp: colon_free_def neq_Nil_conv)

lemma split_double_join:
  "ps \<noteq> [] \<Longrightarrow> list_all colon_free ps \<Longrightarrow> t = [] \<or> prefix ''::'' t \<Longrightarrow>
    split_double_colon (js_join '':'' ps @ t) =
      (js_join '':'' ps @ hd (split_double_colon t)) # tl (split_double_colon t)"
proof (induction ps)
  case (Cons p ps)
  show ?case
  proof (cases "ps = []")
    case True
    then show ?thesis using Cons.prems by (simp add: split_double_word colon_free_def)
  next
    case False
    then have join: "js_join '':'' (p # ps) = p @ CHR '':'' # js_join '':'' ps" by (cases ps) simp_all
    have p: "CHR '':'' \<notin> set p" using Cons.prems by (simp add: colon_free_def)
    have rest: "js_join '':'' ps @ t \<noteq> []" "hd (js_join '':'' ps @ t) \<noteq> CHR '':''"
      using hd_join [OF False] Cons.prems by simp_all
    have "split_double_colon (js_join '':'' ps @ t) =
        (js_join '':'' ps @ hd (split_double_colon t)) # tl (split_double_colon t)"
      using Cons False by simp
    then show ?thesis
      using p split_double_single [OF rest] by (simp add: join split_double_word)
  qed
qed simp

lemma split_double_join_end:
  "ps \<noteq> [] \<Longrightarrow> list_all colon_free ps \<Longrightarrow> split_double_colon (js_join '':'' ps) = [js_join '':'' ps]"
  using split_double_join [of ps "[]"] by simp

lemma split_double_join_both:
  assumes "list_all colon_free ps" and "list_all colon_free qs"
  shows "split_double_colon (js_join '':'' ps @ ''::'' @ js_join '':'' qs) = [js_join '':'' ps, js_join '':'' qs]"
proof -
  have r: "split_double_colon (''::'' @ js_join '':'' qs) = [[], js_join '':'' qs]"
    using split_double_join_end [of qs] assms(2) by (cases "qs = []") simp_all
  show ?thesis
  proof (cases "ps = []")
    case False
    then show ?thesis using split_double_join [OF False assms(1), of "''::'' @ js_join '':'' qs"] r by simp
  qed (use r in simp)
qed

lemma colon_words_join: "list_all colon_free ps \<Longrightarrow> colon_words (js_join '':'' ps) = ps"
  using hd_join [of ps] js_split_join [of ps "CHR '':''"]
  by (cases "ps = []") (auto simp: colon_words_def colon_free_def list_all_iff)

definition words16 :: "nat list \<Rightarrow> bool" where
  "words16 ws \<longleftrightarrow> length ws = 8 \<and> list_all (\<lambda>w. w < 65536) ws"

lemma hex_texts_free: "list_all colon_free (map hex_text ws)"
  using hex_text_chars by (auto simp: list_all_iff colon_free_def word_char_def)

lemma hex_words_texts: "list_all (\<lambda>w. w < 65536) ws \<Longrightarrow> result_map hex_word (map hex_text ws) = Inr ws"
  by (induction ws) (simp_all add: hex_word_text)

lemma hex_words_zeros: "result_map hex_word (replicate k ''0'') = Inr (replicate k 0)"
proof (induction k)
  case (Suc k)
  have "hex_word ''0'' = Inr 0" by code_simp
  then show ?case using Suc by simp
qed simp

lemma result_map_append:
  "result_map f xs = Inr ys \<Longrightarrow> result_map f xs' = Inr ys' \<Longrightarrow> result_map f (xs @ xs') = Inr (ys @ ys')"
  by (induction xs arbitrary: ys) (auto split: sum.splits)

lemma zero_run_split:
  assumes "zero_run ws i = m" and "i \<le> length ws"
  shows "ws = take i ws @ replicate m 0 @ drop (i + m) ws" and "i + m \<le> length ws"
proof -
  have t: "takeWhile (\<lambda>w. w = 0) (drop i ws) = replicate m 0"
    using assms(1) by (auto simp: zero_run_def list_eq_iff_nth_eq dest: set_takeWhileD [OF nth_mem])
  have "drop i ws = replicate m 0 @ drop (i + m) ws"
    using takeWhile_dropWhile_id [of "\<lambda>w. w = 0" "drop i ws"] t
    by (metis add.commute append_eq_conv_conj drop_drop length_replicate)
  then show "ws = take i ws @ replicate m 0 @ drop (i + m) ws" by (metis append_take_drop_id)
  show "i + m \<le> length ws"
    using assms length_takeWhile_le [of "\<lambda>w. w = 0" "drop i ws"] by (simp add: zero_run_def)
qed

text \<open>The shape of the text: all words, or a run of at least two zeros left out.\<close>

lemma ipv6_hostname_cases:
  assumes "words16 ws"
  obtains (whole) "ipv6_hostname ws = js_join '':'' (map hex_text ws)"
  | (short) i m where "ipv6_hostname ws =
      js_join '':'' (map hex_text (take i ws)) @ ''::'' @ js_join '':'' (map hex_text (drop (i + m) ws))"
    and "m \<ge> 2" and "i + m \<le> 8" and "ws = take i ws @ replicate m 0 @ drop (i + m) ws"
proof (cases "longest_run ws < 2")
  case True
  then show ?thesis by (intro whole) (simp add: ipv6_hostname_def Let_def)
next
  case False
  let ?m = "longest_run ws"
  show ?thesis
  proof (cases "find (\<lambda>i. zero_run ws i = ?m) [0..<length ws]")
    case None
    then show ?thesis using False by (intro whole) (simp add: ipv6_hostname_def Let_def)
  next
    case (Some i)
    then have i: "zero_run ws i = ?m" "i < length ws" by (auto simp: find_Some_iff)
    have len: "length ws = 8" using assms by (simp add: words16_def)
    show ?thesis
      by (rule short [of i ?m]) (use False Some i len zero_run_split [OF i(1)] in \<open>auto simp: ipv6_hostname_def Let_def\<close>)
  qed
qed

lemma ipv6_hostname_chars:
  assumes "words16 ws"
  shows "list_all (\<lambda>c. word_char c \<or> c = CHR '':'') (ipv6_hostname ws) \<and> CHR '':'' \<in> set (ipv6_hostname ws)"
proof -
  have join: "list_all (\<lambda>c. word_char c \<or> c = CHR '':'') (js_join '':'' (map hex_text vs))" for vs
  proof (induction vs)
    case (Cons v vs)
    then show ?case using hex_text_chars [of v] by (cases vs) (auto simp: list_all_iff)
  qed simp
  show ?thesis using assms
  proof (cases rule: ipv6_hostname_cases)
    case whole
    obtain a b vs where "ws = a # b # vs"
      using assms by (cases ws; cases "tl ws") (auto simp: words16_def)
    then have "CHR '':'' \<in> set (js_join '':'' (map hex_text ws))" by simp
    then show ?thesis using whole join by simp
  next
    case (short i m)
    then show ?thesis using join by simp
  qed
qed

lemma ipv6Words_hostname:
  assumes "words16 ws"
  shows "ipv6Words (ipv6_hostname ws) = Inr ws"
proof -
  have "CHR ''.'' \<notin> set (ipv6_hostname ws)"
    using ipv6_hostname_chars [OF assms] by (auto simp: list_all_iff word_char_def)
  moreover have "set (last (js_split CHR '':'' s)) \<subseteq> set s" for s
  proof (induction s)
    case (Cons c s)
    then show ?case by (cases "js_split CHR '':'' s") (auto split: if_splits)
  qed simp
  ultimately have "CHR ''.'' \<notin> set (last (js_split CHR '':'' (ipv6_hostname ws)))" by blast
  then have "embedded_ipv4 (ipv6_hostname ws) = None"
    by (simp add: embedded_ipv4_def Let_def js_split_single)
  then have e: "expand_embedded (ipv6_hostname ws) = Inr (ipv6_hostname ws)" by (simp add: expand_embedded_def)
  have w: "length ws = 8" "list_all (\<lambda>w. w < 65536) ws" using assms by (simp_all add: words16_def)
  show ?thesis using assms
  proof (cases rule: ipv6_hostname_cases)
    case whole
    have "split_double_colon (js_join '':'' (map hex_text ws)) = [js_join '':'' (map hex_text ws)]"
      using w by (intro split_double_join_end hex_texts_free) auto
    then show ?thesis
      using w unfolding ipv6Words_def e by (simp add: whole colon_words_join hex_texts_free hex_words_texts)
  next
    case (short i m)
    have parts: "list_all (\<lambda>w. w < 65536) (take i ws)" "list_all (\<lambda>w. w < 65536) (drop (i + m) ws)"
      using w(2) by (auto simp: list_all_iff dest: in_set_takeD in_set_dropD)
    have n: "8 - (i + (8 - (i + m))) = m" "i + (8 - (i + m)) + 1 \<le> 8" using short(2,3) by simp_all
    have "split_double_colon (ipv6_hostname ws) =
        [js_join '':'' (map hex_text (take i ws)), js_join '':'' (map hex_text (drop (i + m) ws))]"
      unfolding short(1) by (intro split_double_join_both hex_texts_free)
    moreover have "result_map hex_word (map hex_text (take i ws) @ replicate m ''0'' @ map hex_text (drop (i + m) ws)) =
        Inr (take i ws @ replicate m 0 @ drop (i + m) ws)"
      by (intro result_map_append hex_words_texts hex_words_zeros parts)
    ultimately show ?thesis
      using w n short(3) unfolding ipv6Words_def e result_bind_simps
      by (simp add: hex_texts_free colon_words_join Let_def flip: short(4))
  qed
qed

section \<open>Canonical addresses\<close>

lemma ipv6Words_words:
  assumes "ipv6Words s = Inr ws"
  shows "words16 ws"
proof -
  have word: "w < 65536" if "hex_word t = Inr w" for t w
  proof -
    have "w < 16 ^ length t" and l: "length t \<le> 4"
      using that hex_number_bound [of t] by (auto simp: hex_word_def split: if_splits)
    moreover have "(16 :: nat) ^ length t \<le> 16 ^ 4" using l by (intro power_increasing) simp_all
    ultimately show ?thesis by simp
  qed
  obtain v where c: "(case split_double_colon v of
         [whole] \<Rightarrow>
           (if length (colon_words whole) \<noteq> 8 then source_error else result_map hex_word (colon_words whole))
       | [left, right] \<Rightarrow>
           (let n = length (colon_words left) + length (colon_words right)
            in if n + 1 > 8 then source_error
               else result_map hex_word (colon_words left @ replicate (8 - n) ''0'' @ colon_words right))
       | _ \<Rightarrow> source_error) = Inr ws"
    using assms unfolding ipv6Words_def result_bind_Inr by blast
  have "\<exists>ts. result_map hex_word ts = Inr ws \<and> length ts = 8"
  proof (cases "split_double_colon v")
    case (Cons l rest)
    show ?thesis
    proof (cases rest)
      case Nil
      then show ?thesis using c Cons by (auto split: if_splits)
    next
      case r: (Cons r rest')
      let ?n = "length (colon_words l) + length (colon_words r)"
      have "result_map hex_word (colon_words l @ replicate (8 - ?n) ''0'' @ colon_words r) = Inr ws \<and> ?n + 1 \<le> 8"
        using c Cons r by (cases rest') (auto simp: Let_def split: if_splits)
      then show ?thesis by (intro exI [of _ "colon_words l @ replicate (8 - ?n) ''0'' @ colon_words r"]) simp
    qed
  qed (use c in simp)
  then obtain ts where "result_map hex_word ts = Inr ws" "length ts = 8" by blast
  then have ts: "list_all2 (\<lambda>t w. hex_word t = Inr w) ts ws" and len: "length ws = 8"
    using result_map_length [of hex_word ts ws] unfolding result_map_Inr by simp_all
  have "w < 65536" if "w \<in> set ws" for w using list_all2_in2 [OF ts that] word by blast
  then show ?thesis using len by (simp add: words16_def list_all_iff)
qed

lemma isIP_cases:
  "isIP s = 4 \<longleftrightarrow> canonicalIpv4 s = Inr s"
  "isIP s = 6 \<longleftrightarrow> isl (canonicalIpv4 s) \<and> \<not> isl (ipv6Words s)"
proof -
  show "isIP s = 4 \<longleftrightarrow> canonicalIpv4 s = Inr s"
    using canonicalIpv4_same [of s] by (cases "canonicalIpv4 s") (auto simp: isIP_def)
qed (auto simp: isIP_def)

lemma canonicalIp_plain:
  assumes "s \<noteq> []" and "list_all plain_char s"
  shows "canonicalIp s =
    (if isIP s = 4 then Inr s else if isIP s \<noteq> 6 then source_error
     else result_bind (ipv6Words s) (\<lambda>words.
       if mapped_ipv4 words then Inr (dotted_quad words) else Inr (to_lower (ipv6_hostname words))))"
  using assms js_trim_plain [OF assms(2)] no_percent [OF assms(2)]
  by (auto simp: canonicalIp_def isIP_cases(1))

lemma plain_colon: "plain_char CHR '':''"
  by code_simp

lemma words8: "words16 ws \<Longrightarrow> ws = [ws ! 0, ws ! 1, ws ! 2, ws ! 3, ws ! 4, ws ! 5, ws ! 6, ws ! 7]"
proof -
  have "[0..<8] = [0, 1, 2, 3, 4, 5, 6, 7 :: nat]" by code_simp
  then show "words16 ws \<Longrightarrow> ?thesis" using map_nth [of ws] by (simp add: words16_def)
qed

text \<open>The results of \<open>canonicalIp\<close>: a dotted quad, or the host name of words that are not mapped.\<close>

lemma canonicalIp_result:
  assumes "canonicalIp s = Inr a"
  obtains (v4) "isIP s = 4" and "a = s"
  | (mapped) ws where "isIP s = 6" and "ipv6Words s = Inr ws" and "mapped_ipv4 ws" and "a = dotted_quad ws"
  | (v6) ws where "isIP s = 6" and "ipv6Words s = Inr ws" and "\<not> mapped_ipv4 ws" and "a = ipv6_hostname ws"
proof -
  show ?thesis
  proof (cases "isIP s = 4")
    case True
    then show ?thesis using assms v4 by (auto simp: canonicalIp_def isIP_cases(1) split: if_splits)
  next
    case False
    then obtain ws where ws: "isIP s = 6" "ipv6Words s = Inr ws"
      "(if mapped_ipv4 ws then Inr (dotted_quad ws) else Inr (to_lower (ipv6_hostname ws))) = (Inr a :: string source_result)"
      using assms by (auto simp: canonicalIp_def result_bind_Inr split: if_splits)
    show ?thesis
    proof (cases "mapped_ipv4 ws")
      case True
      then show ?thesis using ws mapped by simp
    next
      case no: False
      have "list_all plain_char (ipv6_hostname ws)"
        using ipv6_hostname_chars [OF ipv6Words_words [OF ws(2)]] plain_colon
        by (auto simp: list_all_iff word_char_def)
      then show ?thesis using ws no v6 [OF ws(1,2) no] by (simp add: to_lower_plain)
    qed
  qed
qed

lemma dotted_quad_ipv4:
  assumes "words16 ws"
  shows "canonicalIpv4 (dotted_quad ws) = Inr (dotted_quad ws)"
    and "dotted_quad ws \<noteq> []" and "list_all plain_char (dotted_quad ws)"
proof -
  let ?ns = "[ws ! 6 div 256, ws ! 6 mod 256, ws ! 7 div 256, ws ! 7 mod 256]"
  have "ws ! 6 < 65536" "ws ! 7 < 65536" using assms by (auto simp: words16_def list_all_iff)
  then have "ws ! 6 div 256 < 256" "ws ! 7 div 256 < 256" by (simp_all add: less_mult_imp_div_less)
  moreover have "ws ! 6 mod 256 < 256" "ws ! 7 mod 256 < 256" by simp_all
  ultimately have "list_all (\<lambda>n. n < 256) ?ns" by simp
  then have bound: "n \<le> 255" if "n \<in> set ?ns" for n using that unfolding list_all_iff by fastforce
  have dots: "CHR ''.'' \<notin> set (nat_string n)" for n
    using nat_string_digits [of n] by (auto simp: list_all_iff word_char_def)
  have parts: "js_split CHR ''.'' (dotted_quad ws) = map nat_string ?ns"
    unfolding dotted_quad_def by (rule js_split_join) (use dots in auto)
  have "\<not> (length (map nat_string ?ns) \<noteq> 4 \<or> list_ex (\<lambda>p. \<not> short_number p) (map nat_string ?ns))"
    using bound nat_string_short unfolding list_ex_iff by auto
  moreover have "\<not> list_ex (\<lambda>n. n > 255) ?ns" using bound unfolding list_ex_iff by fastforce
  moreover have "map decimal_value (map nat_string ?ns) = ?ns" by simp
  ultimately show "canonicalIpv4 (dotted_quad ws) = Inr (dotted_quad ws)"
    unfolding canonicalIpv4_def Let_def parts by (simp only: if_False) (simp only: dotted_quad_def)
  show "dotted_quad ws \<noteq> []" using nat_string_digits [of "ws ! 6 div 256"] by (simp add: dotted_quad_def)
  have "plain_char CHR ''.''" by code_simp
  then show "list_all plain_char (dotted_quad ws)"
    using nat_string_digits by (auto simp: dotted_quad_def list_all_iff word_char_def)
qed

lemma hostname_not_ipv4:
  assumes "words16 ws"
  shows "isl (canonicalIpv4 (ipv6_hostname ws))" and "list_all plain_char (ipv6_hostname ws)"
    and "ipv6_hostname ws \<noteq> []"
proof -
  have chars: "list_all (\<lambda>c. word_char c \<or> c = CHR '':'') (ipv6_hostname ws)"
    and colon: "CHR '':'' \<in> set (ipv6_hostname ws)"
    using ipv6_hostname_chars [OF assms] by simp_all
  then have "CHR ''.'' \<notin> set (ipv6_hostname ws)" by (auto simp: list_all_iff word_char_def)
  then show "isl (canonicalIpv4 (ipv6_hostname ws))" by (simp add: canonicalIpv4_def Let_def js_split_single)
  show "list_all plain_char (ipv6_hostname ws)" using chars plain_colon by (auto simp: list_all_iff word_char_def)
  show "ipv6_hostname ws \<noteq> []" using colon by auto
qed

lemma canonicalIp_idem:
  assumes "canonicalIp s = Inr a"
  shows "canonicalIp a = Inr a"
  using assms
proof (cases rule: canonicalIp_result)
  case v4
  then show ?thesis using assms by simp
next
  case (mapped ws)
  note d = dotted_quad_ipv4 [OF ipv6Words_words [OF mapped(2)]]
  then show ?thesis by (simp add: mapped(4) canonicalIp_plain isIP_cases(1))
next
  case (v6 ws)
  note w = ipv6Words_words [OF v6(2)]
  have "isIP (ipv6_hostname ws) = 6"
    using hostname_not_ipv4(1) [OF w] ipv6Words_hostname [OF w] by (simp add: isIP_cases(2))
  then show ?thesis
    using hostname_not_ipv4 [OF w] ipv6Words_hostname [OF w] v6(3)
    by (simp add: v6(4) canonicalIp_plain to_lower_plain)
qed

text \<open>The sixteen bytes that a text denotes, an IPv4 address in its mapped form.\<close>

definition denoted :: "string \<Rightarrow> nat list" where
  "denoted s =
     (if isIP s = 4
      then (let ns = map decimal_value (js_split CHR ''.'' s)
            in [0, 0, 0, 0, 0, 0xFFFF, ns ! 0 * 256 + ns ! 1, ns ! 2 * 256 + ns ! 3])
      else projr (ipv6Words s))"

lemma canonicalIp_denoted:
  assumes "canonicalIp s = Inr a"
  shows "denoted a = denoted s"
  using assms
proof (cases rule: canonicalIp_result)
  case (mapped ws)
  note w = ipv6Words_words [OF mapped(2)]
  have dots: "CHR ''.'' \<notin> set (nat_string n)" for n
    using nat_string_digits [of n] by (auto simp: list_all_iff word_char_def)
  have "js_split CHR ''.'' (dotted_quad ws) =
      map nat_string [ws ! 6 div 256, ws ! 6 mod 256, ws ! 7 div 256, ws ! 7 mod 256]"
    unfolding dotted_quad_def by (rule js_split_join) (use dots in auto)
  moreover have "ws = [0, 0, 0, 0, 0, 0xFFFF, ws ! 6, ws ! 7]"
    using mapped(3) unfolding mapped_ipv4_def by (subst (asm) (1) words8 [OF w], subst (1) words8 [OF w]) simp
  ultimately show ?thesis
    using mapped dotted_quad_ipv4(1) [OF w] by (simp add: denoted_def isIP_cases(1) Let_def)
next
  case (v6 ws)
  note w = ipv6Words_words [OF v6(2)]
  have "isIP (ipv6_hostname ws) = 6"
    using hostname_not_ipv4(1) [OF w] ipv6Words_hostname [OF w] by (simp add: isIP_cases(2))
  then show ?thesis using v6 ipv6Words_hostname [OF w] by (simp add: denoted_def)
qed simp

lemma dotted_quad_denoted:
  assumes "canonicalIpv4 s = Inr s"
  shows "mapped_ipv4 (denoted s)" and "dotted_quad (denoted s) = s"
proof -
  let ?ps = "js_split CHR ''.'' s"
  let ?ns = "map decimal_value ?ps"
  have ok: "length ?ps = 4" "\<not> list_ex (\<lambda>n. n > 255) ?ns" "s = js_join ''.'' (map nat_string ?ns)"
    using assms by (auto simp: canonicalIpv4_def Let_def split: if_splits)
  then obtain a b c d where ns: "?ns = [a, b, c, d]" by (auto simp: eval_nat_numeral length_Suc_conv)
  have bounds: "a < 256" "b < 256" "c < 256" "d < 256" using ok(2) unfolding ns by simp_all
  have den: "denoted s = [0, 0, 0, 0, 0, 0xFFFF, a * 256 + b, c * 256 + d]"
    using assms unfolding denoted_def isIP_cases(1) ns Let_def by simp
  show "mapped_ipv4 (denoted s)" unfolding den mapped_ipv4_def by simp
  have "[(a * 256 + b) div 256, (a * 256 + b) mod 256, (c * 256 + d) div 256, (c * 256 + d) mod 256] = ?ns"
    using bounds unfolding ns by simp
  then show "dotted_quad (denoted s) = s" using ok(3) unfolding den dotted_quad_def by simp
qed

lemma canonicalIp_of_denoted:
  assumes "canonicalIp s = Inr a"
  shows "a = (if mapped_ipv4 (denoted s) then dotted_quad (denoted s) else ipv6_hostname (denoted s))"
  using assms
proof (cases rule: canonicalIp_result)
  case v4
  then show ?thesis using dotted_quad_denoted [of s] by (simp add: isIP_cases(1))
qed (simp_all add: denoted_def)

end
