(* ===== verification/ClientSourceProperties.thy ===== *)
theory ClientSourceProperties
  imports AddressTexts
begin

unbundle bit_operations_syntax

text \<open>
  What the attribution of a request to an address guarantees: canonical texts, membership in a network as
  agreement of the first bits, and a client that cannot choose its address behind trusted proxies.
\<close>

section \<open>Networks as prefixes of bits\<close>

definition byte_bits :: "8 word \<Rightarrow> bool list" where
  "byte_bits b = map (\<lambda>i. bit b (7 - i)) [0..<8]"

definition address_bits :: "8 word list \<Rightarrow> bool list" where
  "address_bits bs = concat (map byte_bits bs)"

lemma length_byte_bits [simp]: "length (byte_bits b) = 8"
  by (simp add: byte_bits_def)

lemma length_address_bits [simp]: "length (address_bits bs) = 8 * length bs"
  by (induction bs) (simp_all add: address_bits_def)

lemma address_bits_nth: "i < 8 * length bs \<Longrightarrow> address_bits bs ! i = bit (bs ! (i div 8)) (7 - i mod 8)"
proof (induction bs arbitrary: i)
  case (Cons b bs)
  show ?case
  proof (cases "i < 8")
    case True
    then show ?thesis by (simp add: address_bits_def nth_append byte_bits_def)
  next
    case False
    then have "i div 8 = Suc ((i - 8) div 8)" "i mod 8 = (i - 8) mod 8"
      by (simp_all add: le_div_geq le_mod_geq)
    then show ?thesis using False Cons.IH [of "i - 8"] Cons.prems
      by (simp add: address_bits_def nth_append)
  qed
qed simp

lemma byte_eq_bits: "(a :: 8 word) = b \<longleftrightarrow> (\<forall>j < 8. bit a (7 - j) = bit b (7 - j))"
proof
  assume bits: "\<forall>j < 8. bit a (7 - j) = bit b (7 - j)"
  show "a = b"
  proof (rule bit_word_eqI)
    fix n assume "n < LENGTH(8)"
    then have "7 - (7 - n) = n" "7 - n < 8" by simp_all
    then show "bit a n = bit b n" using bits by metis
  qed
qed simp

lemma masked_byte_eq:
  assumes "0 < r" and "r < 8"
  shows "(a :: 8 word) AND push_bit (8 - r) 0xFF = b AND push_bit (8 - r) 0xFF \<longleftrightarrow>
    (\<forall>j < r. bit a (7 - j) = bit b (7 - j))"
proof -
  have mask: "bit (push_bit (8 - r) 0xFF :: 8 word) n \<longleftrightarrow> 8 - r \<le> n \<and> n < 8" for n
  proof -
    have "(0xFF :: 8 word) = mask 8" by (simp add: mask_eq_exp_minus_1)
    then have ff: "bit (0xFF :: 8 word) m \<longleftrightarrow> m < 8" for m by (simp only: bit_mask_iff) simp
    show ?thesis unfolding bit_push_bit_iff ff using assms by (cases "8 - r \<le> n") auto
  qed
  show ?thesis
  proof
    assume eq: "a AND push_bit (8 - r) 0xFF = b AND push_bit (8 - r) 0xFF"
    show "\<forall>j < r. bit a (7 - j) = bit b (7 - j)"
    proof (intro allI impI)
      fix j assume j: "j < r"
      then have "8 - r \<le> 7 - j" using assms by linarith
      moreover have "bit (a AND push_bit (8 - r) 0xFF) (7 - j) = bit (b AND push_bit (8 - r) 0xFF) (7 - j)"
        using eq by simp
      ultimately show "bit a (7 - j) = bit b (7 - j)" using j by (simp add: bit_and_iff mask less_imp_diff_less)
    qed
  next
    assume bits: "\<forall>j < r. bit a (7 - j) = bit b (7 - j)"
    show "a AND push_bit (8 - r) 0xFF = b AND push_bit (8 - r) 0xFF"
    proof (rule bit_word_eqI)
      fix n assume n: "n < LENGTH(8)"
      have "bit a n = bit b n" if "8 - r \<le> n"
      proof -
        have "7 - (7 - n) = n" "7 - n < r" using n that assms by simp_all
        then show ?thesis using bits by metis
      qed
      then show "bit (a AND push_bit (8 - r) 0xFF) n = bit (b AND push_bit (8 - r) 0xFF) n"
        by (auto simp: bit_and_iff mask)
    qed
  qed
qed

lemma bytes_within_bits:
  assumes "nw_prefix n \<le> 8 * length (nw_bytes n)"
  shows "bytes_within n c \<longleftrightarrow> length c = length (nw_bytes n) \<and>
    take (nw_prefix n) (address_bits c) = take (nw_prefix n) (address_bits (nw_bytes n))"
proof (cases "length c = length (nw_bytes n)")
  case True
  let ?p = "nw_prefix n" and ?b = "nw_bytes n"
  let ?w = "?p div 8" and ?r = "?p mod 8"
  have split: "(\<forall>i < ?p. P i) \<longleftrightarrow> (\<forall>k < ?w. \<forall>j < 8. P (8 * k + j)) \<and> (\<forall>j < ?r. P (8 * ?w + j))" for P
  proof
    assume "\<forall>i < ?p. P i"
    moreover have "8 * k + j < ?p" if "k < ?w" "j < 8" for k j
    proof -
      have "8 * (k + 1) \<le> 8 * ?w" using that(1) by simp
      also have "8 * ?w \<le> ?p" by simp
      finally show ?thesis using that(2) by simp
    qed
    moreover have "8 * ?w + j < ?p" if "j < ?r" for j
      using that mult_div_mod_eq [of 8 ?p] by linarith
    ultimately show "(\<forall>k < ?w. \<forall>j < 8. P (8 * k + j)) \<and> (\<forall>j < ?r. P (8 * ?w + j))" by blast
  next
    assume P: "(\<forall>k < ?w. \<forall>j < 8. P (8 * k + j)) \<and> (\<forall>j < ?r. P (8 * ?w + j))"
    show "\<forall>i < ?p. P i"
    proof (intro allI impI)
      fix i assume i: "i < ?p"
      have eq: "8 * (i div 8) + i mod 8 = i" by simp
      show "P i"
      proof (cases "i div 8 < ?w")
        case True
        then have "P (8 * (i div 8) + i mod 8)" using P by (meson mod_less_divisor zero_less_numeral)
        then show ?thesis unfolding eq .
      next
        case False
        then have "i div 8 = ?w" using i div_le_mono [of i ?p 8] by simp
        then show ?thesis using P eq i mult_div_mod_eq [of 8 ?p] by (metis add_less_cancel_left)
      qed
    qed
  qed
  have "take ?p (address_bits c) = take ?p (address_bits ?b) \<longleftrightarrow>
      (\<forall>i < ?p. bit (c ! (i div 8)) (7 - i mod 8) = bit (?b ! (i div 8)) (7 - i mod 8))"
    using assms True by (auto simp: list_eq_iff_nth_eq address_bits_nth)
  also have "\<dots> \<longleftrightarrow> (\<forall>k < ?w. \<forall>j < 8. bit (c ! k) (7 - j) = bit (?b ! k) (7 - j)) \<and>
      (\<forall>j < ?r. bit (c ! ?w) (7 - j) = bit (?b ! ?w) (7 - j))"
  proof -
    have "(8 * ?w + j) div 8 = ?w \<and> (8 * ?w + j) mod 8 = j" if "j < ?r" for j
      using that by simp
    moreover have "(8 * k + j) div 8 = k \<and> (8 * k + j) mod 8 = j" if "j < 8" for j k :: nat
      using that by simp
    ultimately show ?thesis unfolding split by auto
  qed
  also have "\<dots> \<longleftrightarrow> bytes_within n c"
    using True masked_byte_eq [of ?r "c ! ?w" "?b ! ?w"]
    by (cases "?r = 0") (auto simp: bytes_within_def Let_def list_all_iff byte_eq_bits)
  finally show ?thesis using True by simp
qed (simp add: bytes_within_def)

lemma hostBitsZero_bits:
  "hostBitsZero bs p \<longleftrightarrow> (\<forall>i \<in> {p..<8 * length bs}. \<not> address_bits bs ! i)"
proof -
  have "(bs ! (i div 8)) AND push_bit (7 - i mod 8) 1 = 0 \<longleftrightarrow> \<not> bit (bs ! (i div 8)) (7 - i mod 8)" for i
    by (simp add: bit_iff_and_push_bit_not_eq_0)
  then show ?thesis by (auto simp: hostBitsZero_def list_all_iff address_bits_nth mult.commute)
qed

section \<open>Networks\<close>

lemma parseNetwork_prefix:
  assumes "parseNetwork v = Inr n"
  shows "nw_prefix n \<le> 8 * length (nw_bytes n)" and "hostBitsZero (nw_bytes n) (nw_prefix n)"
  using assms
  by (auto simp: parseNetwork_def Let_def result_bind_Inr canonicalPrefix_def split: if_splits list.splits)

section \<open>The chain of proxies\<close>

lemma last_untrusted_rev:
  assumes "is_trusted ns a = Inr False" and "\<forall>y \<in> set ys. is_trusted ns y = Inr True"
  shows "last_untrusted ns (rev (xs @ a # ys)) = Inr (Some a)"
proof -
  have "last_untrusted ns (zs @ a # ws) = Inr (Some a)" if "\<forall>y \<in> set zs. is_trusted ns y = Inr True" for zs ws
    using that by (induction zs) (simp_all add: assms(1))
  then show ?thesis using assms(2) by simp
qed

lemma one_error: "(e :: client_source_error) = Client_source_invalid"
  by (cases e) simp

lemma result_map_append_Inr:
  "result_map f (xs @ ys) = Inr zs \<Longrightarrow>
    (\<exists>us vs. result_map f xs = Inr us \<and> result_map f ys = Inr vs \<and> zs = us @ vs)"
  unfolding result_map_Inr by (auto simp: list_all2_append1)

lemma parseXForwardedFor_append:
  assumes "parseXForwardedFor (junk @ CHR '','' # tail) = Inr chain" and "parseXForwardedFor tail = Inr known"
  shows "\<exists>xs. chain = xs @ known"
  using assms
  by (auto simp: parseXForwardedFor_def Let_def js_split_append_sep split: if_splits dest!: result_map_append_Inr)

section \<open>Properties\<close>

text \<open>
  Every address has one canonical text: two texts that \<open>canonicalIp\<close> accepts have the same
  result exactly when they denote the same address, an IPv4 address and its form mapped into IPv6 included,
  and the result is its own canonical text. So an address cannot be counted under two keys.
\<close>

theorem canonicalIp_unique:
  assumes "canonicalIp s = Inr a" and "canonicalIp t = Inr b"
  shows "(a = b \<longleftrightarrow> denoted s = denoted t) \<and> canonicalIp a = Inr a"
proof -
  have "a = b" if "denoted s = denoted t"
    using canonicalIp_of_denoted [OF assms(1)] canonicalIp_of_denoted [OF assms(2)] unfolding that by simp
  moreover have "denoted s = denoted t" if "a = b"
    using canonicalIp_denoted [OF assms(1)] canonicalIp_denoted [OF assms(2)] that by simp
  ultimately show ?thesis using canonicalIp_idem [OF assms(1)] by blast
qed

theorem canonicalIp_unique_witness:
  "canonicalIp ''1::2'' = Inr ''1::2'' \<and> denoted ''1:0::02'' = denoted ''1::2''"
proof -
  have "canonicalIp ''1::2'' = Inr ''1::2''" "canonicalIp ''1:0::02'' = Inr ''1::2''"
    by code_simp+
  from canonicalIp_unique [OF this] show ?thesis by simp
qed

text \<open>
  An address is in a configured network exactly when both are of the same family and the first
  bits of the address, as many as the prefix says, are those of the network; and beyond the prefix the
  network that the parser accepts has no bit set.
\<close>

theorem network_contains_exact:
  assumes "parseNetwork v = Inr n" and "addressBytes address = Inr bytes"
  shows "network_contains n address =
      Inr (length bytes = length (nw_bytes n) \<and>
        take (nw_prefix n) (address_bits bytes) = take (nw_prefix n) (address_bits (nw_bytes n))) \<and>
    True \<notin> set (drop (nw_prefix n) (address_bits (nw_bytes n)))"
proof -
  note n = parseNetwork_prefix [OF assms(1)]
  have "\<not> address_bits (nw_bytes n) ! (nw_prefix n + i)" if "i < 8 * length (nw_bytes n) - nw_prefix n" for i
    using n(2) that unfolding hostBitsZero_bits by simp
  then have "True \<notin> set (drop (nw_prefix n) (address_bits (nw_bytes n)))"
    by (auto simp: in_set_conv_nth)
  then show ?thesis
    using bytes_within_bits [OF n(1), of bytes] assms(2) by (simp add: network_contains_def)
qed

theorem network_contains_exact_witness:
  "network_contains \<lparr>nw_bytes = [10, 0, 0, 0], nw_prefix = 9\<rparr> ''10.127.0.1'' = Inr True"
proof -
  have "parseNetwork ''10.0.0.0/9'' = Inr \<lparr>nw_bytes = [10, 0, 0, 0], nw_prefix = 9\<rparr>"
    "addressBytes ''10.127.0.1'' = Inr [10, 127, 0, 1]"
    by code_simp+
  moreover have "take 9 (address_bits [10, 127, 0, 1]) = take 9 (address_bits [10, 0, 0, 0])" by code_simp
  ultimately show ?thesis
    using network_contains_exact [of "''10.0.0.0/9''" "\<lparr>nw_bytes = [10, 0, 0, 0], nw_prefix = 9\<rparr>" "''10.127.0.1''"
      "[10, 127, 0, 1]"] by simp
qed

text \<open>
  A peer that is not a configured proxy speaks for itself: in direct mode, and for an
  untrusted peer where proxies are configured, the source is the canonical peer address whatever
  forwarding headers the request carries.
\<close>

theorem untrusted_peer_is_source:
  assumes "canonicalIp peer = Inr a"
    and "cs_mode (csr_config r) = Mode_direct \<or>
      cs_mode (csr_config r) = Mode_trusted_proxies \<and> is_trusted (csr_trusted r) a = Inr False"
  shows "resolve_source r (Some peer) headers = Inr a"
  using assms by (auto simp: resolve_source_def)

text \<open>
  C33: Behind trusted proxies a client cannot choose its address: when the header ends in a part that
  names an untrusted address followed only by trusted ones, whatever text the client had put
  before it, the source is that address or the request is refused.
\<close>

theorem forwarded_source_unspoofable:
  assumes "cs_mode (csr_config r) = Mode_trusted_proxies" and "cs_header (csr_config r) = X_forwarded_for"
    and "headers ''x-forwarded-for'' = Some (Header_one (junk @ CHR '','' # tail))"
    and "parseXForwardedFor tail = Inr (client # proxies)" and "is_trusted (csr_trusted r) client = Inr False"
    and "\<forall>p \<in> set proxies. is_trusted (csr_trusted r) p = Inr True"
    and "canonicalIp peer = Inr a" and "is_trusted (csr_trusted r) a = Inr True"
  shows "resolve_source r (Some peer) headers \<in> {Inr client, source_error}"
proof -
  have "chain_source r chain \<in> {Inr client, source_error}"
    if "parseXForwardedFor (junk @ CHR '','' # tail) = Inr chain" for chain
  proof -
    have "\<exists>xs. chain = xs @ client # proxies" by (rule parseXForwardedFor_append [OF that assms(4)])
    then obtain xs where "chain = xs @ client # proxies" by blast
    then show ?thesis
      using last_untrusted_rev [OF assms(5,6), of xs] assms(1) by (simp add: chain_source_def)
  qed
  then have "result_bind (parse_chain X_forwarded_for (junk @ CHR '','' # tail)) (chain_source r)
      \<in> {Inr client, source_error}"
    by (cases "parseXForwardedFor (junk @ CHR '','' # tail)") (auto simp: parse_chain_def one_error)
  then show ?thesis
    using assms by (simp add: resolve_source_def header_name_def)
qed

definition sample_resolver :: client_source_resolver where
  "sample_resolver =
     \<lparr>csr_config = \<lparr>cs_mode = Mode_trusted_proxies, cs_header = X_forwarded_for,
        cs_trustedProxies = [''10.0.0.0/8'']\<rparr>,
      csr_trusted = [\<lparr>nw_bytes = [10, 0, 0, 0], nw_prefix = 8\<rparr>]\<rparr>"

theorem untrusted_peer_is_source_witness:
  "resolve_source sample_resolver (Some ''192.0.2.7'') (\<lambda>_. Some (Header_one ''10.0.0.1'')) = Inr ''192.0.2.7''"
proof (rule untrusted_peer_is_source)
  show "canonicalIp ''192.0.2.7'' = Inr ''192.0.2.7''" by code_simp
  show "cs_mode (csr_config sample_resolver) = Mode_direct \<or>
      cs_mode (csr_config sample_resolver) = Mode_trusted_proxies \<and>
      is_trusted (csr_trusted sample_resolver) ''192.0.2.7'' = Inr False"
    by code_simp
qed

theorem forwarded_source_unspoofable_witness:
  "resolve_source sample_resolver (Some ''10.0.0.1'')
     (\<lambda>_. Some (Header_one (''10.9.9.9'' @ CHR '','' # ''192.0.2.7,10.0.0.2''))) \<in> {Inr ''192.0.2.7'', source_error}"
proof (rule forwarded_source_unspoofable)
  show "parseXForwardedFor ''192.0.2.7,10.0.0.2'' = Inr (''192.0.2.7'' # [''10.0.0.2''])" by code_simp
  show "is_trusted (csr_trusted sample_resolver) ''192.0.2.7'' = Inr False"
    "canonicalIp ''10.0.0.1'' = Inr ''10.0.0.1''" "is_trusted (csr_trusted sample_resolver) ''10.0.0.1'' = Inr True"
    by code_simp+
  have "is_trusted (csr_trusted sample_resolver) ''10.0.0.2'' = Inr True" by code_simp
  then show "\<forall>p \<in> set [''10.0.0.2'']. is_trusted (csr_trusted sample_resolver) p = Inr True" by simp
qed (simp_all add: sample_resolver_def)

end
