(* ===== verification/Base64Body.thy ===== *)
theory Base64Body
  imports JsStrings
begin

text \<open>
  \<^verbatim>\<open>src/base64Body.ts\<close>: bodies that declare \<open>Content-Transfer-Encoding: base64\<close>. The Base64 coding of
  \<open>Buffer\<close> is written out; the coding of strings as UTF-8 is a parameter, because a character here is one
  of 256 code units. Bytes are numbers below 256.
\<close>

section \<open>Model\<close>

datatype body_direction = Direction_request | Direction_response

record utf8_codec =
  uc_decode :: "nat list \<Rightarrow> string option"
  uc_encode :: "string \<Rightarrow> nat list"

definition body_error_code :: "body_direction \<Rightarrow> gateway_error_code" where
  "body_error_code d =
     (case d of Direction_response \<Rightarrow> Secret_scan_failed | Direction_request \<Rightarrow> Unsupported_transfer_encoding)"

definition is_b64 :: "char \<Rightarrow> bool" where
  "is_b64 c \<longleftrightarrow> is_alnum c \<or> c = CHR ''+'' \<or> c = CHR ''/''"

fun b64_groups :: "string \<Rightarrow> bool" where
  "b64_groups [] = True"
| "b64_groups [a, b, c, d] =
     (is_b64 a \<and> is_b64 b \<and>
      (c = CHR ''='' \<and> d = CHR ''='' \<or> is_b64 c \<and> (d = CHR ''='' \<or> is_b64 d)))"
| "b64_groups (a # b # c # d # cs) = (is_b64 a \<and> is_b64 b \<and> is_b64 c \<and> is_b64 d \<and> b64_groups cs)"
| "b64_groups _ = False"

definition isCanonicalBase64Shape :: "string \<Rightarrow> bool" where
  "isCanonicalBase64Shape v = (if v = [] then True else b64_groups v)"

definition b64_value :: "char \<Rightarrow> nat" where
  "b64_value c =
     (if in_range CHR ''A'' CHR ''Z'' c then char_code c - 65
      else if in_range CHR ''a'' CHR ''z'' c then char_code c - 71
      else if is_digit c then char_code c + 4
      else if c = CHR ''+'' then 62 else 63)"

definition b64_char :: "nat \<Rightarrow> char" where
  "b64_char n =
     (if n < 26 then char_of (n + 65) else if n < 52 then char_of (n + 71)
      else if n < 62 then char_of (n - 4) else if n = 62 then CHR ''+'' else CHR ''/'')"

text \<open>\<open>Buffer.from(s, "base64")\<close> of a text of canonical shape, and \<open>toString("base64")\<close>\<close>

fun b64_decode :: "string \<Rightarrow> nat list" where
  "b64_decode (a # b # c # d # cs) =
     (let x = b64_value a * 4 + b64_value b div 16;
          y = b64_value b mod 16 * 16 + b64_value c div 4;
          z = b64_value c mod 4 * 64 + b64_value d
      in if c = CHR ''='' then [x] else if d = CHR ''='' then [x, y] else x # y # z # b64_decode cs)"
| "b64_decode _ = []"

fun b64_encode :: "nat list \<Rightarrow> string" where
  "b64_encode [] = []"
| "b64_encode [x] = [b64_char (x div 4), b64_char (x mod 4 * 16), CHR ''='', CHR ''='']"
| "b64_encode [x, y] =
     [b64_char (x div 4), b64_char (x mod 4 * 16 + y div 16), b64_char (y mod 16 * 4), CHR ''='']"
| "b64_encode (x # y # z # bs) =
     b64_char (x div 4) # b64_char (x mod 4 * 16 + y div 16) # b64_char (y mod 16 * 4 + z div 64) #
     b64_char (z mod 64) # b64_encode bs"

text \<open>\<^verbatim>\<open>/[\t\n\f\r ]/\<close>\<close>

definition transfer_space :: "char \<Rightarrow> bool" where
  "transfer_space c \<longleftrightarrow> char_code c \<in> {9, 10, 12, 13, 32}"

definition encoding_declarations :: "(string, string) jmap \<Rightarrow> (string \<times> string) list" where
  "encoding_declarations headers =
     filter (\<lambda>(name, v). to_lower name = ''content-transfer-encoding'') headers"

text \<open>The checks of the declaration that both decoders share: \<open>Inr False\<close> when there is none.\<close>

definition declared_base64 :: "(string, string) jmap \<Rightarrow> bool gateway_result" where
  "declared_base64 headers =
     (let declarations = encoding_declarations headers
      in if length declarations = 0 then Inr False
         else if length declarations \<noteq> 1 \<or> to_lower (js_trim (snd (hd declarations))) \<noteq> ''base64''
         then Inl (gateway_error Unsupported_transfer_encoding
                    ''Unsupported or conflicting Content-Transfer-Encoding.'')
         else Inr True)"

definition direction_name :: "body_direction \<Rightarrow> string" where
  "direction_name d = (case d of Direction_response \<Rightarrow> ''response'' | Direction_request \<Rightarrow> ''request'')"

definition decodeDeclaredBase64Body ::
  "utf8_codec \<Rightarrow> (string, string) jmap \<Rightarrow> json option \<Rightarrow> body_direction \<Rightarrow> string option gateway_result" where
  "decodeDeclaredBase64Body U headers body direction =
     result_bind (declared_base64 headers) (\<lambda>declared.
       if \<not> declared then Inr None
       else case body of
         Some (JString text) \<Rightarrow>
           (let normalized = filter (\<lambda>c. \<not> transfer_space c) text
            in if \<not> isCanonicalBase64Shape normalized
               then Inl (gateway_error (body_error_code direction)
                      ((if direction = Direction_response then ''Response'' else ''Request'') @
                       '' body is not valid Base64.''))
               else case uc_decode U (b64_decode normalized) of
                 None \<Rightarrow> Inl (gateway_error (body_error_code direction)
                      (''Base64 '' @ direction_name direction @ '' body is not valid UTF-8.''))
               | Some t \<Rightarrow> Inr (Some t))
       | _ \<Rightarrow> Inl (gateway_error (body_error_code direction)
                (''Base64 '' @ direction_name direction @ '' body must be a string.'')))"

definition encodeBase64Body :: "utf8_codec \<Rightarrow> string \<Rightarrow> string" where
  "encodeBase64Body U body = b64_encode (uc_encode U body)"

definition decodeDeclaredBase64Bytes ::
  "(string, string) jmap \<Rightarrow> nat list \<Rightarrow> nat list option gateway_result" where
  "decodeDeclaredBase64Bytes headers body =
     result_bind (declared_base64 headers) (\<lambda>declared.
       if \<not> declared then Inr None
       else let projected = map char_of body
            in if \<not> list_all (\<lambda>b. b < 128) body
               then Inl (gateway_error Secret_scan_failed ''Response body is not valid Base64.'')
               else let normalized = filter (\<lambda>c. \<not> transfer_space c) projected
                    in if \<not> isCanonicalBase64Shape normalized
                       then Inl (gateway_error Secret_scan_failed ''Response body is not valid Base64.'')
                       else Inr (Some (b64_decode normalized)))"

definition encodeBase64Bytes :: "nat list \<Rightarrow> nat list" where
  "encodeBase64Bytes body = map char_code (b64_encode body)"

section \<open>Library lemmas\<close>

lemma b64_code:
  "n < 64 \<Longrightarrow> char_code (b64_char n) =
    (if n < 26 then n + 65 else if n < 52 then n + 71 else if n < 62 then n - 4 else if n = 62 then 43 else 47)"
  by (auto simp: b64_char_def char_code_char_of) (simp_all add: char_code_def)

lemma char_code_inject: "char_code c = char_code d \<longleftrightarrow> c = d"
  unfolding char_code_def by (metis char_of_char)

lemma b64_literals:
  "char_code CHR ''A'' = 65" "char_code CHR ''Z'' = 90" "char_code CHR ''a'' = 97" "char_code CHR ''z'' = 122"
  "char_code CHR ''0'' = 48" "char_code CHR ''9'' = 57" "char_code CHR ''+'' = 43" "char_code CHR ''/'' = 47"
  "char_code CHR ''='' = 61"
  by (simp_all add: char_code_def)

lemma b64_char_facts:
  assumes "n < 64"
  shows "b64_value (b64_char n) = n" and "is_b64 (b64_char n)" and "b64_char n \<noteq> CHR ''=''"
    and "\<not> transfer_space (b64_char n)" and "char_code (b64_char n) < 128"
proof -
  note code = b64_code [OF assms]
  note eqs = char_code_inject [of "b64_char n", symmetric]
  have plus: "b64_char 62 = CHR ''+''" by (simp add: b64_char_def)
  show "is_b64 (b64_char n)" "b64_char n \<noteq> CHR ''=''" "\<not> transfer_space (b64_char n)"
    "char_code (b64_char n) < 128" "b64_value (b64_char n) = n"
    using assms
    by (auto simp: is_b64_def is_alnum_def is_alpha_def is_digit_def in_range_def transfer_space_def b64_value_def
        eqs code b64_literals plus)
qed

definition is_bytes :: "nat list \<Rightarrow> bool" where
  "is_bytes bs \<longleftrightarrow> list_all (\<lambda>b. b < 256) bs"

lemma byte_parts:
  fixes x y :: nat
  assumes "x < 256" and "y < 256"
  shows "x div 4 < 64" "x mod 4 * 16 + y div 16 < 64" "x mod 4 * 16 < 64" "y mod 16 * 4 < 64"
    "y mod 16 * 4 + x div 64 < 64" "x mod 64 < 64"
proof -
  have "x mod 4 < 4" "y mod 16 < 16" "y div 16 < 16" "x div 64 < 4" using assms by (simp_all add: less_mult_imp_div_less)
  then show "x mod 4 * 16 + y div 16 < 64" "x mod 4 * 16 < 64" "y mod 16 * 4 < 64" "y mod 16 * 4 + x div 64 < 64"
    by linarith+
  show "x div 4 < 64" "x mod 64 < 64" using assms by (simp_all add: less_mult_imp_div_less)
qed

lemma byte_join:
  fixes x y z :: nat
  assumes "y < 256" and "z < 256"
  shows "x div 4 * 4 + (x mod 4 * 16 + y div 16) div 16 = x" "x div 4 * 4 + x mod 4 * 16 div 16 = x"
    "(x mod 4 * 16 + y div 16) mod 16 * 16 + (y mod 16 * 4 + z div 64) div 4 = y"
    "(x mod 4 * 16 + y div 16) mod 16 * 16 + y mod 16 * 4 div 4 = y"
    "(y mod 16 * 4 + z div 64) mod 4 * 64 + z mod 64 = z"
proof -
  have s: "y div 16 < 16" "z div 64 < 4" using assms by (simp_all add: less_mult_imp_div_less)
  have 1: "(x mod 4 * 16 + y div 16) div 16 = x mod 4" "(x mod 4 * 16 + y div 16) mod 16 = y div 16"
    using s(1) by simp_all
  have 2: "(y mod 16 * 4 + z div 64) div 4 = y mod 16" "(y mod 16 * 4 + z div 64) mod 4 = z div 64"
    using s(2) by simp_all
  show "x div 4 * 4 + (x mod 4 * 16 + y div 16) div 16 = x" "x div 4 * 4 + x mod 4 * 16 div 16 = x"
    "(x mod 4 * 16 + y div 16) mod 16 * 16 + (y mod 16 * 4 + z div 64) div 4 = y"
    "(x mod 4 * 16 + y div 16) mod 16 * 16 + y mod 16 * 4 div 4 = y"
    "(y mod 16 * 4 + z div 64) mod 4 * 64 + z mod 64 = z"
    unfolding 1 2 by simp_all
qed

lemma b64_decode_encode: "is_bytes bs \<Longrightarrow> b64_decode (b64_encode bs) = bs"
proof (induction bs rule: b64_encode.induct)
  case (2 x)
  then show ?case
    using byte_parts [of x x] by (simp add: is_bytes_def b64_char_facts Let_def)
next
  case (3 x y)
  then show ?case
    using byte_parts [of x y] byte_join(1) [of y 0 x] byte_join(4) [of y 0 x] by (simp add: is_bytes_def b64_char_facts Let_def)
next
  case (4 x y z bs)
  then have b: "x < 256" "y < 256" "z < 256" "is_bytes bs" by (simp_all add: is_bytes_def)
  then show ?case
    using byte_parts [OF b(1,2)] byte_parts [OF b(3,2)] byte_join(1,3) [of y z x] byte_join(5) [of y z] 4
    by (simp add: b64_char_facts Let_def b)
qed simp

lemma b64_groups_Cons:
  "is_b64 a \<Longrightarrow> is_b64 b \<Longrightarrow> is_b64 c \<Longrightarrow> is_b64 d \<Longrightarrow> b64_groups cs \<Longrightarrow> b64_groups (a # b # c # d # cs)"
  by (cases cs) simp_all

lemma b64_encode_shape:
  "is_bytes bs \<Longrightarrow> b64_groups (b64_encode bs) \<and>
    list_all (\<lambda>c. \<not> transfer_space c \<and> char_code c < 128) (b64_encode bs)"
proof (induction bs rule: b64_encode.induct)
  case (2 x)
  have "\<not> transfer_space CHR ''='' \<and> char_code CHR ''='' < 128" by (simp add: transfer_space_def b64_literals)
  with 2 show ?case using byte_parts [of x x] by (simp add: is_bytes_def b64_char_facts)
next
  case (3 x y)
  have "\<not> transfer_space CHR ''='' \<and> char_code CHR ''='' < 128" by (simp add: transfer_space_def b64_literals)
  with 3 show ?case using byte_parts [of x y] by (simp add: is_bytes_def b64_char_facts)
next
  case (4 x y z bs)
  then have b: "x < 256" "y < 256" "z < 256" "is_bytes bs" by (simp_all add: is_bytes_def)
  then show ?case
    using byte_parts [OF b(1,2)] byte_parts [OF b(3,2)] 4
    by (auto simp: b64_char_facts intro: b64_groups_Cons)
qed simp

lemma b64_encode_plain: "is_bytes bs \<Longrightarrow> filter (\<lambda>c. \<not> transfer_space c) (b64_encode bs) = b64_encode bs"
  using b64_encode_shape [of bs] by (simp add: list_all_iff)

section \<open>Properties\<close>

text \<open>
  C37: Base64 bodies survive the gateway: what \<open>encodeBase64Bytes\<close> writes, the decoder for the
  same declaration reads back, byte for byte, whatever the bytes are.
\<close>

theorem base64_bytes_roundtrip:
  assumes "declared_base64 headers = Inr True" and "is_bytes bs"
  shows "decodeDeclaredBase64Bytes headers (encodeBase64Bytes bs) = Inr (Some bs)"
proof -
  have "map char_of (encodeBase64Bytes bs) = b64_encode bs"
    by (simp add: encodeBase64Bytes_def char_code_def comp_def)
  moreover have "list_all (\<lambda>b. b < 128) (encodeBase64Bytes bs)"
    using b64_encode_shape [OF assms(2)] by (simp add: encodeBase64Bytes_def list_all_iff)
  ultimately show ?thesis
    using assms b64_encode_shape [OF assms(2)]
    by (simp add: decodeDeclaredBase64Bytes_def isCanonicalBase64Shape_def Let_def b64_encode_plain b64_decode_encode)
qed

theorem base64_bytes_roundtrip_witness:
  "decodeDeclaredBase64Bytes [(''Content-Transfer-Encoding'', '' BASE64 '')] (encodeBase64Bytes [0, 255, 16, 3])
     = Inr (Some [0, 255, 16, 3])"
proof (rule base64_bytes_roundtrip)
  show "declared_base64 [(''Content-Transfer-Encoding'', '' BASE64 '')] = Inr True" by code_simp
qed (simp add: is_bytes_def)

end
