(* ===== verification/Substitution.thy ===== *)
theory Substitution
  imports TokenProperties Base64Body
begin

text \<open>
  \<^verbatim>\<open>src/substitution.ts\<close> and what it uses of \<^verbatim>\<open>src/sensitiveJson.ts\<close>: opaque references in a request are
  redeemed with the broker and replaced by their secrets; in JSON text only inside complete string
  values. The scanner of \<^verbatim>\<open>jsonc-parser\<close> is a parameter that gives the tokens of a text. Every
  redemption reads the clock: \<open>clock i\<close> is the reading of the \<open>i\<close>-th.
\<close>

section \<open>References in a text\<close>

text \<open>\<^verbatim>\<open>/(?:gref|sec)_[A-Za-z0-9_-]+/g\<close>: the match at the head of a text, and all of them.\<close>

definition token_char :: "char \<Rightarrow> bool" where
  "token_char c \<longleftrightarrow> is_alnum c \<or> c = CHR ''_'' \<or> c = CHR ''-''"

definition token_prefix :: "string \<Rightarrow> string option" where
  "token_prefix s =
     (if starts_with s ''gref_'' then Some ''gref_'' else if starts_with s ''sec_'' then Some ''sec_'' else None)"

definition match_token :: "string \<Rightarrow> string option" where
  "match_token s =
     (case token_prefix s of
        None \<Rightarrow> None
      | Some p \<Rightarrow>
          (let run = takeWhile token_char (drop (length p) s)
           in if run = [] then None else Some (p @ run)))"

lemma match_token_length: "match_token s = Some t \<Longrightarrow> t \<noteq> [] \<and> length t \<le> length s \<and> prefix t s"
proof -
  assume m: "match_token s = Some t"
  then obtain p where p: "token_prefix s = Some p" and t: "t = p @ takeWhile token_char (drop (length p) s)"
    by (auto simp: match_token_def Let_def split: option.splits if_splits)
  have "prefix p s" "p \<noteq> []" using p by (auto simp: token_prefix_def split: if_splits)
  then obtain r where "s = p @ r" by (auto elim: prefixE)
  then have "prefix t s" using t by (simp add: takeWhile_is_prefix)
  then show ?thesis using t \<open>p \<noteq> []\<close> prefix_length_le [OF \<open>prefix t s\<close>] by simp
qed

datatype piece = Plain char | Ref string

function pieces :: "string \<Rightarrow> piece list" where
  "pieces [] = []"
| "pieces (c # cs) =
     (case match_token (c # cs) of
        Some t \<Rightarrow> Ref t # pieces (drop (length t) (c # cs))
      | None \<Rightarrow> Plain c # pieces cs)"
  by pat_completeness auto
termination
  by (relation "measure length") (auto dest!: match_token_length)

text \<open>The matches of \<open>matchAll\<close> in a text that starts at position \<open>i\<close>, with their positions\<close>

function matches_from :: "nat \<Rightarrow> string \<Rightarrow> (nat \<times> string) list" where
  "matches_from i [] = []"
| "matches_from i (c # cs) =
     (case match_token (c # cs) of
        Some t \<Rightarrow> (i, t) # matches_from (i + length t) (drop (length t) (c # cs))
      | None \<Rightarrow> matches_from (i + 1) cs)"
  by pat_completeness auto
termination
  by (relation "measure (\<lambda>(i, s). length s)") (auto dest!: match_token_length)

section \<open>JSON text\<close>

datatype syntax_kind =
  Kind_string_literal | Kind_colon | Kind_open_brace | Kind_close_brace | Kind_trivia | Kind_other_token

record scanned_token =
  sk_kind :: syntax_kind
  sk_offset :: nat
  sk_length :: nat
  sk_value :: string
  sk_error :: bool
  sk_objectId :: "nat option"

record json_string_range =
  jr_start :: nat
  jr_end :: nat
  jr_isPropertyName :: bool

text \<open>The loop over the scanner's tokens; \<open>objects\<close> is the stack, its top first.\<close>

fun meaningful_tokens :: "scanned_token list \<Rightarrow> nat list \<Rightarrow> nat \<Rightarrow> scanned_token list" where
  "meaningful_tokens [] objects nextObjectId = []"
| "meaningful_tokens (t # ts) objects nextObjectId =
     (if sk_kind t = Kind_trivia then meaningful_tokens ts objects nextObjectId
      else t\<lparr>sk_objectId := (case objects of [] \<Rightarrow> None | o1 # _ \<Rightarrow> Some o1)\<rparr> #
        (if sk_kind t = Kind_open_brace
         then meaningful_tokens ts (nextObjectId # objects) (nextObjectId + 1)
         else if sk_kind t = Kind_close_brace then meaningful_tokens ts (tl objects) nextObjectId
         else meaningful_tokens ts objects nextObjectId))"

definition scanMeaningfulTokens :: "(string \<Rightarrow> scanned_token list) \<Rightarrow> string \<Rightarrow> scanned_token list" where
  "scanMeaningfulTokens scanner text = meaningful_tokens (scanner text) [] 1"

fun complete_ranges :: "scanned_token list \<Rightarrow> json_string_range list" where
  "complete_ranges [] = []"
| "complete_ranges (t # ts) =
     (if sk_kind t = Kind_string_literal \<and> \<not> sk_error t
      then [\<lparr>jr_start = sk_offset t + 1, jr_end = sk_offset t + sk_length t - 1,
             jr_isPropertyName = (case ts of [] \<Rightarrow> False | u # _ \<Rightarrow> sk_kind u = Kind_colon)\<rparr>]
      else []) @ complete_ranges ts"

definition findCompleteJsonStringRanges ::
  "(string \<Rightarrow> scanned_token list) \<Rightarrow> string \<Rightarrow> json_string_range list" where
  "findCompleteJsonStringRanges scanner text = complete_ranges (scanMeaningfulTokens scanner text)"

definition isJsonLikeText :: "(string, string) jmap \<Rightarrow> string \<Rightarrow> bool" where
  "isJsonLikeText headers body =
     (let contentTypes = map (\<lambda>(name, v). to_lower (js_trim (hd (js_split CHR '';'' v))))
            (filter (\<lambda>(name, v). to_lower name = ''content-type'') headers)
      in if list_ex (\<lambda>v. v = ''application/json'' \<or> ends_with v ''+json'') contentTypes then True
         else case dropWhile is_space body of [] \<Rightarrow> False | c # _ \<Rightarrow> c = CHR ''{'' \<or> c = CHR ''['')"

section \<open>Redeeming\<close>

record substitution_state =
  sub_broker :: token_broker
  sub_calls :: nat
  sub_records :: "nat list"
  sub_secrets :: "nat list"

record substitution_env =
  su_broker :: broker_env
  su_clock :: "nat \<Rightarrow> int"
  su_auth :: auth_context
  su_target :: token_use_target
  su_service :: service_config
  su_scanner :: "string \<Rightarrow> scanned_token list"
  su_utf8 :: utf8_codec

type_synonym 'a redemption = "substitution_state \<Rightarrow> substitution_state \<times> 'a gateway_result"

definition redeem_secret :: "substitution_env \<Rightarrow> string \<Rightarrow> string redemption" where
  "redeem_secret S token s =
     (case validateResponseSecretUse (su_broker S) (su_clock S (sub_calls s)) (su_auth S) (ut_service (su_target S)) token
             (sub_broker s) of
        (b, Inl e) \<Rightarrow> (s\<lparr>sub_broker := b, sub_calls := sub_calls s + 1\<rparr>, Inl e)
      | (b, Inr r) \<Rightarrow>
          (s\<lparr>sub_broker := b, sub_calls := sub_calls s + 1, sub_secrets := sub_secrets s @ [r]\<rparr>,
           Inr (sr_secret (tb_secrets b ! r))))"

definition redeem_reference :: "substitution_env \<Rightarrow> string \<Rightarrow> string redemption" where
  "redeem_reference S token s =
     (case validateTokenUse (su_broker S) (su_clock S (sub_calls s)) (su_auth S) (su_target S) token (sub_broker s) of
        (b, Inl e) \<Rightarrow> (s\<lparr>sub_broker := b, sub_calls := sub_calls s + 1\<rparr>, Inl e)
      | (b, Inr r) \<Rightarrow>
          (let rec = tb_records b ! r; s' = s\<lparr>sub_broker := b, sub_calls := sub_calls s + 1\<rparr>
           in case (tr_kind rec, tr_credentialId rec) of
             (Kind_credential, Some credentialId) \<Rightarrow>
               (s'\<lparr>sub_records := sub_records s @ [r]\<rparr>,
                result_map_value cr_secret (getCredential (su_service S) credentialId))
           | _ \<Rightarrow> (s', invalid_reference ''Service references cannot be substituted into downstream requests.'')))"

definition redeemToken :: "substitution_env \<Rightarrow> string \<Rightarrow> string redemption" where
  "redeemToken S token =
     (if starts_with token ''sec_'' then redeem_secret S token else redeem_reference S token)"

section \<open>Substituting in values\<close>

text \<open>A list processed from left to right by a step that may throw\<close>

fun thread :: "('a \<Rightarrow> 's \<Rightarrow> 's \<times> ('e + 'b)) \<Rightarrow> 'a list \<Rightarrow> 's \<Rightarrow> 's \<times> ('e + 'b list)" where
  "thread f [] s = (s, Inr [])"
| "thread f (x # xs) s =
     (case f x s of
        (s1, Inl e) \<Rightarrow> (s1, Inl e)
      | (s1, Inr y) \<Rightarrow>
          (case thread f xs s1 of (s2, Inl e) \<Rightarrow> (s2, Inl e) | (s2, Inr ys) \<Rightarrow> (s2, Inr (y # ys))))"

lemma thread_cong [fundef_cong]:
  "xs = ys \<Longrightarrow> s = t \<Longrightarrow> (\<And>x u. x \<in> set ys \<Longrightarrow> f x u = g x u) \<Longrightarrow> thread f xs s = thread g ys t"
proof (induction xs arbitrary: ys s t)
  case (Cons x xs)
  then show ?case by (auto split: prod.splits sum.splits)
qed simp

fun substituted_piece :: "(string \<Rightarrow> 's \<Rightarrow> 's \<times> ('e + string)) \<Rightarrow> piece \<Rightarrow> 's \<Rightarrow> 's \<times> ('e + string)" where
  "substituted_piece redeem (Plain c) s = (s, Inr [c])"
| "substituted_piece redeem (Ref t) s = redeem t s"

definition replace_tokens :: "(string \<Rightarrow> 's \<Rightarrow> 's \<times> ('e + string)) \<Rightarrow> string \<Rightarrow> 's \<Rightarrow> 's \<times> ('e + string)" where
  "replace_tokens redeem text s =
     (case thread (substituted_piece redeem) (pieces text) s of
        (s', Inl e) \<Rightarrow> (s', Inl e) | (s', Inr ts) \<Rightarrow> (s', Inr (concat ts)))"

fun substituteValue :: "(string \<Rightarrow> 's \<Rightarrow> 's \<times> ('e + string)) \<Rightarrow> json \<Rightarrow> 's \<Rightarrow> 's \<times> ('e + json)" where
  "substituteValue redeem (JString t) s =
     (case replace_tokens redeem t s of (s', r) \<Rightarrow> (s', result_map_value JString r))"
| "substituteValue redeem (JArray vs) s =
     (case thread (\<lambda>v. substituteValue redeem v) vs s of (s', r) \<Rightarrow> (s', result_map_value JArray r))"
| "substituteValue redeem (JObject fs) s =
     (case thread (\<lambda>kv s. case substituteValue redeem (snd kv) s of
              (s', r) \<Rightarrow> (s', result_map_value (\<lambda>v. (fst kv, v)) r)) fs s of
        (s', r) \<Rightarrow> (s', result_map_value JObject r))"
| "substituteValue redeem v s = (s, Inr v)"

record 'a substitution_result =
  sbr_value :: 'a
  sbr_records :: "nat list"
  sbr_responseSecretRecords :: "nat list"

definition substitution_start :: "token_broker \<Rightarrow> nat \<Rightarrow> substitution_state" where
  "substitution_start b calls = \<lparr>sub_broker = b, sub_calls = calls, sub_records = [], sub_secrets = []\<rparr>"

definition substitution_outcome ::
  "substitution_state \<times> 'a gateway_result \<Rightarrow> substitution_state \<times> 'a substitution_result gateway_result" where
  "substitution_outcome r =
     (fst r, result_map_value (\<lambda>v. \<lparr>sbr_value = v, sbr_records = sub_records (fst r),
        sbr_responseSecretRecords = sub_secrets (fst r)\<rparr>) (snd r))"

definition substituteTokens ::
  "substitution_env \<Rightarrow> json \<Rightarrow> token_broker \<Rightarrow> nat \<Rightarrow> substitution_state \<times> json substitution_result gateway_result"
where
  "substituteTokens S v b calls =
     substitution_outcome (substituteValue (redeemToken S) v (substitution_start b calls))"

section \<open>Substituting in JSON text\<close>

record text_range =
  tx_start :: nat
  tx_end :: nat

text \<open>The first loop: the candidates, and the replacement of each one in a string value.\<close>

fun redeem_matches ::
  "substitution_env \<Rightarrow> (nat \<times> string) list \<Rightarrow> substitution_state \<Rightarrow>
    substitution_state \<times> (text_range \<times> string) list gateway_result" where
  "redeem_matches S [] s = (s, Inr [])"
| "redeem_matches S ((i, token) # ms) s =
     (case redeemToken S token s of
        (s1, Inl e) \<Rightarrow> (s1, Inl e)
      | (s1, Inr secret) \<Rightarrow>
          (case redeem_matches S ms s1 of
             (s2, Inl e) \<Rightarrow> (s2, Inl e)
           | (s2, Inr rs) \<Rightarrow>
               (s2, Inr ((\<lparr>tx_start = i, tx_end = i + length token\<rparr>, json_escape secret) # rs))))"

definition range_matches :: "string \<Rightarrow> json_string_range \<Rightarrow> (nat \<times> string) list" where
  "range_matches text r = matches_from (jr_start r) (js_slice text (jr_start r) (jr_end r))"

definition match_range :: "nat \<times> string \<Rightarrow> text_range" where
  "match_range m = \<lparr>tx_start = fst m, tx_end = fst m + length (snd m)\<rparr>"

definition splice :: "text_range \<times> string \<Rightarrow> string \<Rightarrow> string" where
  "splice rr v = (case rr of (r, replacement) \<Rightarrow> take (tx_start r) v @ replacement @ drop (tx_end r) v)"

text \<open>\<open>ranges.sort((left, right) => right.start - left.start)\<close>: stable, the last start first.\<close>

definition splice_all :: "(text_range \<times> string) list \<Rightarrow> string \<Rightarrow> string" where
  "splice_all ranges text = fold splice (sort_key (\<lambda>rr. - int (tx_start (fst rr))) ranges) text"

definition substituteJsonText :: "substitution_env \<Rightarrow> string \<Rightarrow> string redemption" where
  "substituteJsonText S text s =
     (let found = findCompleteJsonStringRanges (su_scanner S) text;
          candidates = map match_range (concat (map (range_matches text) found));
          values = concat (map (range_matches text) (filter (\<lambda>r. \<not> jr_isPropertyName r) found))
      in case redeem_matches S values s of
           (s', Inl e) \<Rightarrow> (s', Inl e)
         | (s', Inr ranges) \<Rightarrow>
             (if list_ex (\<lambda>m. match_range m \<notin> set candidates \<or> match_range m \<notin> fst ` set ranges)
                   (matches_from 0 text)
              then (s', invalid_reference ''Opaque references in JSON must be complete string values.'')
              else (s', Inr (splice_all ranges text))))"

definition substituteJsonTextTokens ::
  "substitution_env \<Rightarrow> string \<Rightarrow> token_broker \<Rightarrow> nat \<Rightarrow> substitution_state \<times> string substitution_result gateway_result"
where
  "substituteJsonTextTokens S text b calls =
     substitution_outcome (substituteJsonText S text (substitution_start b calls))"

text \<open>An absent body is passed on as it is.\<close>

definition substitution_with ::
  "('a \<Rightarrow> 'b) \<Rightarrow> substitution_state \<times> 'a substitution_result gateway_result
    \<Rightarrow> substitution_state \<times> 'b substitution_result gateway_result" where
  "substitution_with f r =
     (fst r, result_map_value (\<lambda>q. \<lparr>sbr_value = f (sbr_value q), sbr_records = sbr_records q,
        sbr_responseSecretRecords = sbr_responseSecretRecords q\<rparr>) (snd r))"

definition json_text :: "json \<Rightarrow> string" where
  "json_text v = (case v of JString t \<Rightarrow> t | _ \<Rightarrow> [])"

definition substituteRequestBodyTokens ::
  "substitution_env \<Rightarrow> json option \<Rightarrow> (string, string) jmap \<Rightarrow> token_broker \<Rightarrow> nat
    \<Rightarrow> substitution_state \<times> json option substitution_result gateway_result" where
  "substituteRequestBodyTokens S body headers b calls =
     (case decodeDeclaredBase64Body (su_utf8 S) headers body Direction_request of
        Inl e \<Rightarrow> (substitution_start b calls, Inl e)
      | Inr None \<Rightarrow>
          (case body of
             None \<Rightarrow> substitution_outcome (substitution_start b calls, Inr None)
           | Some (JString text) \<Rightarrow>
               (if isJsonLikeText headers text
                then substitution_with (\<lambda>t. Some (JString t)) (substituteJsonTextTokens S text b calls)
                else substitution_with Some (substituteTokens S (JString text) b calls))
           | Some v \<Rightarrow> substitution_with Some (substituteTokens S v b calls))
      | Inr (Some decoded) \<Rightarrow>
          (if isJsonLikeText headers decoded
           then substitution_with (\<lambda>t. Some (JString (encodeBase64Body (su_utf8 S) t)))
                  (substituteJsonTextTokens S decoded b calls)
           else substitution_with (\<lambda>v. Some (JString (encodeBase64Body (su_utf8 S) (json_text v))))
                  (substituteTokens S (JString decoded) b calls)))"

section \<open>Placement of references\<close>

definition misplaced :: "string \<Rightarrow> unit gateway_result" where
  "misplaced msg = Inl (gateway_error Reference_invalid msg)"

text \<open>\<open>tokenPattern.test(key)\<close>\<close>

definition has_token :: "string \<Rightarrow> bool" where
  "has_token s \<longleftrightarrow> matches_from 0 s \<noteq> []"

fun assertValueReferencePlacement :: "json \<Rightarrow> unit gateway_result" where
  "assertValueReferencePlacement (JArray vs) =
     result_map_value (\<lambda>_. ()) (result_map (\<lambda>v. assertValueReferencePlacement v) vs)"
| "assertValueReferencePlacement (JObject fs) =
     result_map_value (\<lambda>_. ()) (result_map (\<lambda>kv.
       if has_token (fst kv) then misplaced ''Opaque references cannot be used as property names.''
       else assertValueReferencePlacement (snd kv)) fs)"
| "assertValueReferencePlacement v = Inr ()"

definition assertJsonTextReferencePlacement :: "(string \<Rightarrow> scanned_token list) \<Rightarrow> string \<Rightarrow> unit gateway_result" where
  "assertJsonTextReferencePlacement scanner text =
     (let found = filter (\<lambda>r. \<not> jr_isPropertyName r) (findCompleteJsonStringRanges scanner text);
          allowed = map match_range (concat (map (range_matches text) found))
      in if list_ex (\<lambda>m. match_range m \<notin> set allowed) (matches_from 0 text)
         then misplaced ''Opaque references in JSON must be string values, not property names or syntax.''
         else Inr ())"

definition assertRequestReferencePlacement ::
  "(string \<Rightarrow> scanned_token list) \<Rightarrow> utf8_codec \<Rightarrow> (string, string) jmap \<Rightarrow> (string \<times> json) list \<Rightarrow> json option
    \<Rightarrow> unit gateway_result" where
  "assertRequestReferencePlacement scanner U headers query body =
     result_bind (assertValueReferencePlacement (JObject (map (\<lambda>(k, v). (k, JString v)) headers))) (\<lambda>_.
     result_bind (assertValueReferencePlacement (JObject query)) (\<lambda>_.
     result_bind (decodeDeclaredBase64Body U headers body Direction_request) (\<lambda>decoded.
       case decoded of
         Some text \<Rightarrow>
           (if isJsonLikeText headers text then assertJsonTextReferencePlacement scanner text
            else assertValueReferencePlacement (JString text))
       | None \<Rightarrow>
           (case body of
              None \<Rightarrow> Inr ()
            | Some (JString text) \<Rightarrow>
                (if isJsonLikeText headers text then assertJsonTextReferencePlacement scanner text
                 else assertValueReferencePlacement (JString text))
            | Some v \<Rightarrow> assertValueReferencePlacement v))))"

end
