(* ===== verification/SubstitutionProperties.thy ===== *)
theory SubstitutionProperties
  imports Substitution
begin

text \<open>
  What substitution guarantees: it is redemption of the references in their order followed by
  a pure replacement, and every secret it puts in belongs to a reference that is bound to the
  subject, the service and the destination of the request. In JSON text it replaces exactly the
  references, and only inside string values.
\<close>

section \<open>Redemption and replacement apart\<close>

fun piece_tokens :: "piece \<Rightarrow> string list" where
  "piece_tokens (Plain c) = []"
| "piece_tokens (Ref t) = [t]"

definition string_tokens :: "string \<Rightarrow> string list" where
  "string_tokens s = concat (map piece_tokens (pieces s))"

text \<open>The references in the strings of a value, property names left out, in the order of the value.\<close>

fun tokens_of :: "json \<Rightarrow> string list" where
  "tokens_of (JString t) = string_tokens t"
| "tokens_of (JArray vs) = concat (map (\<lambda>v. tokens_of v) vs)"
| "tokens_of (JObject fs) = concat (map (\<lambda>kv. tokens_of (snd kv)) fs)"
| "tokens_of v = []"

text \<open>Each part takes as many of the words as it has references.\<close>

fun fill_parts :: "('a \<Rightarrow> string list) \<Rightarrow> ('a \<Rightarrow> string list \<Rightarrow> 'b) \<Rightarrow> 'a list \<Rightarrow> string list \<Rightarrow> 'b list" where
  "fill_parts toks fil [] ws = []"
| "fill_parts toks fil (x # xs) ws =
     fil x (take (length (toks x)) ws) # fill_parts toks fil xs (drop (length (toks x)) ws)"

lemma fill_parts_cong [fundef_cong]:
  "xs = ys \<Longrightarrow> ws = us \<Longrightarrow> toks = toks' \<Longrightarrow> (\<And>x vs. x \<in> set ys \<Longrightarrow> fil x vs = fil' x vs) \<Longrightarrow>
    fill_parts toks fil xs ws = fill_parts toks' fil' ys us"
  by (induction xs arbitrary: ys ws us) auto

fun fill_piece :: "piece \<Rightarrow> string list \<Rightarrow> string" where
  "fill_piece (Plain c) ws = [c]"
| "fill_piece (Ref t) ws = hd ws"

definition fill_text :: "string \<Rightarrow> string list \<Rightarrow> string" where
  "fill_text s ws = concat (fill_parts piece_tokens fill_piece (pieces s) ws)"

fun fill :: "json \<Rightarrow> string list \<Rightarrow> json" where
  "fill (JString t) ws = JString (fill_text t ws)"
| "fill (JArray vs) ws = JArray (fill_parts tokens_of (\<lambda>v us. fill v us) vs ws)"
| "fill (JObject fs) ws =
     JObject (fill_parts (\<lambda>kv. tokens_of (snd kv)) (\<lambda>kv us. (fst kv, fill (snd kv) us)) fs ws)"
| "fill v ws = v"

definition filled :: "(string list \<Rightarrow> 'b) \<Rightarrow> 's \<times> ('e + string list) \<Rightarrow> 's \<times> ('e + 'b)" where
  "filled f r = (fst r, result_map_value f (snd r))"

lemma thread_append:
  "thread f (xs @ ys) s =
    (case thread f xs s of
       (s1, Inl e) \<Rightarrow> (s1, Inl e)
     | (s1, Inr us) \<Rightarrow> (case thread f ys s1 of (s2, Inl e) \<Rightarrow> (s2, Inl e) | (s2, Inr vs) \<Rightarrow> (s2, Inr (us @ vs))))"
proof (induction xs arbitrary: s)
  case Nil
  then show ?case by (auto split: prod.splits sum.splits)
next
  case (Cons x xs)
  show ?case by (simp add: Cons.IH split: prod.splits sum.splits)
qed

lemma thread_length: "thread f xs s = (s', Inr ys) \<Longrightarrow> length ys = length xs"
  by (induction xs arbitrary: s ys) (auto split: prod.splits sum.splits)

lemma thread_parts:
  assumes "\<And>x s. x \<in> set xs \<Longrightarrow> h x s = filled (fil x) (thread redeem (toks x) s)"
  shows "thread h xs s = filled (fill_parts toks fil xs) (thread redeem (concat (map toks xs)) s)"
  using assms
proof (induction xs arbitrary: s)
  case (Cons x xs)
  have x: "h x s = filled (fil x) (thread redeem (toks x) s)" for s using Cons.prems by simp
  show ?case
  proof (cases "thread redeem (toks x) s")
    case (Pair s1 r)
    show ?thesis
    proof (cases r)
      case (Inl e)
      then show ?thesis using Pair x by (simp add: thread_append filled_def)
    next
      case (Inr us)
      have len: "length us = length (toks x)" by (rule thread_length [OF Pair [unfolded Inr]])
      have IH: "thread h xs s1 = filled (fill_parts toks fil xs) (thread redeem (concat (map toks xs)) s1)"
        using Cons by simp
      show ?thesis
        using Pair Inr x len
        by (cases "thread redeem (concat (map toks xs)) s1"; cases "snd (thread redeem (concat (map toks xs)) s1)")
          (auto simp: thread_append filled_def IH)
    qed
  qed
qed (simp add: filled_def)

lemma piece_refines: "substituted_piece redeem p s = filled (fill_piece p) (thread redeem (piece_tokens p) s)"
  by (cases p) (auto simp: filled_def split: prod.splits sum.splits)

lemma replace_tokens_refines:
  "replace_tokens redeem t s = filled (fill_text t) (thread redeem (string_tokens t) s)"
  unfolding replace_tokens_def string_tokens_def thread_parts [OF piece_refines]
  by (cases "thread redeem (concat (map piece_tokens (pieces t))) s";
      cases "snd (thread redeem (concat (map piece_tokens (pieces t))) s)")
    (auto simp: filled_def fill_text_def)

lemma substituteValue_refines:
  "substituteValue redeem v s = filled (fill v) (thread redeem (tokens_of v) s)"
proof (induction v arbitrary: s)
  case (JString t)
  show ?case
    by (cases "thread redeem (string_tokens t) s"; cases "snd (thread redeem (string_tokens t) s)")
      (auto simp: replace_tokens_refines filled_def)
next
  case (JArray vs)
  have "thread (\<lambda>v. substituteValue redeem v) vs s =
      filled (fill_parts tokens_of (\<lambda>v us. fill v us) vs) (thread redeem (concat (map tokens_of vs)) s)"
    by (rule thread_parts) (use JArray in simp)
  then show ?case
    by (cases "thread redeem (concat (map tokens_of vs)) s"; cases "snd (thread redeem (concat (map tokens_of vs)) s)")
      (auto simp: filled_def)
next
  case (JObject fs)
  let ?toks = "\<lambda>kv. tokens_of (snd kv)"
  have "thread (\<lambda>kv s. case substituteValue redeem (snd kv) s of (s', r) \<Rightarrow> (s', result_map_value (\<lambda>v. (fst kv, v)) r)) fs s =
      filled (fill_parts ?toks (\<lambda>kv us. (fst kv, fill (snd kv) us)) fs) (thread redeem (concat (map ?toks fs)) s)"
  proof (rule thread_parts)
    fix kv :: "string \<times> json" and s assume "kv \<in> set fs"
    then have "substituteValue redeem (snd kv) s = filled (fill (snd kv)) (thread redeem (tokens_of (snd kv)) s)"
      using JObject [of kv "snd kv"] snds.intros [of kv] by simp
    then show "(case substituteValue redeem (snd kv) s of (s', r) \<Rightarrow> (s', result_map_value (\<lambda>v. (fst kv, v)) r)) =
        filled (\<lambda>us. (fst kv, fill (snd kv) us)) (thread redeem (?toks kv) s)"
      by (cases "thread redeem (tokens_of (snd kv)) s"; cases "snd (thread redeem (tokens_of (snd kv)) s)")
        (auto simp: filled_def)
  qed
  then show ?case
    by (cases "thread redeem (concat (map ?toks fs)) s"; cases "snd (thread redeem (concat (map ?toks fs)) s)")
      (auto simp: filled_def)
qed (simp_all add: filled_def)

section \<open>The contract of redemption\<close>

text \<open>
  What substitution relies on: a redemption binds its reference to the word it returns, and
  later redemptions do not undo that.
\<close>

locale redeemer =
  fixes redeem :: "string \<Rightarrow> 's \<Rightarrow> 's \<times> (gateway_exception + string)"
    and bound :: "'s \<Rightarrow> string \<Rightarrow> string \<Rightarrow> bool"
  assumes redeem_binds: "redeem t s = (s', Inr w) \<Longrightarrow> bound s' t w"
    and bound_stays: "redeem t s = (s', Inr w) \<Longrightarrow> bound s u x \<Longrightarrow> bound s' u x"
begin

lemma bound_thread: "thread redeem ts s = (s', Inr ws) \<Longrightarrow> bound s u x \<Longrightarrow> bound s' u x"
  by (induction ts arbitrary: s ws) (auto split: prod.splits sum.splits intro: bound_stays)

lemma thread_bound: "thread redeem ts s = (s', Inr ws) \<Longrightarrow> list_all2 (bound s') ts ws"
proof (induction ts arbitrary: s ws)
  case (Cons t ts)
  obtain s1 w us where step: "redeem t s = (s1, Inr w)" "thread redeem ts s1 = (s', Inr us)" "ws = w # us"
    using Cons.prems by (auto split: prod.splits sum.splits)
  have "bound s1 t w" by (rule redeem_binds [OF step(1)])
  then show ?case using Cons.IH [OF step(2)] bound_thread [OF step(2)] step(3) by simp
qed simp

lemma substituted_bound:
  assumes "substituteValue redeem v s = (s', Inr w)"
  shows "\<exists>ws. list_all2 (bound s') (tokens_of v) ws \<and> w = fill v ws"
proof -
  obtain ws where "thread redeem (tokens_of v) s = (s', Inr ws)" "w = fill v ws"
    using assms unfolding substituteValue_refines filled_def
    by (cases "thread redeem (tokens_of v) s") (auto simp: result_map_value_Inr)
  then show ?thesis using thread_bound by blast
qed

end

text \<open>
  A word is bound to a reference in the state of a substitution: the reference is stored and in the
  list of redeemed ones, it belongs to the subject and the service of the request and, when the request
  names one, to its destination, and the word is its secret.
\<close>

definition record_bound :: "substitution_env \<Rightarrow> token_record \<Rightarrow> string \<Rightarrow> bool" where
  "record_bound S rec w \<longleftrightarrow>
     tr_subject rec = ac_subject (su_auth S) \<and> tr_service rec = ut_service (su_target S) \<and>
     ut_destination (su_target S) \<in> {None, Some (tr_destination rec)} \<and> tr_kind rec = Kind_credential \<and>
     (case tr_credentialId rec of
        None \<Rightarrow> False
      | Some c \<Rightarrow> result_map_value cr_secret (getCredential (su_service S) c) = Inr w)"

definition secret_bound :: "substitution_env \<Rightarrow> substitution_state \<Rightarrow> string \<Rightarrow> string \<Rightarrow> bool" where
  "secret_bound S st t w =
     (let b = sub_broker st; h = be_hash (su_broker S) t
      in if starts_with t ''sec_''
         then (case jmap_get (tb_responseSecretsByHash b) h of
                 None \<Rightarrow> False
               | Some r \<Rightarrow> r \<in> set (sub_secrets st) \<and> sr_subject (tb_secrets b ! r) = ac_subject (su_auth S) \<and>
                   sr_service (tb_secrets b ! r) = ut_service (su_target S) \<and> w = sr_secret (tb_secrets b ! r))
         else (case jmap_get (tb_recordsByHash b) h of
                 None \<Rightarrow> False
               | Some r \<Rightarrow> r \<in> set (sub_records st) \<and> record_bound S (tb_records b ! r) w))"

lemma record_bound_refresh [simp]:
  "record_bound S (tb_records (refresh_record E now r b) ! q) w = record_bound S (tb_records b ! q) w"
  by (simp add: record_bound_def)

lemma validate_secret_Inr:
  "validateResponseSecretUse E now auth service v b = (b', Inr r) \<Longrightarrow>
    b' = refresh_secret E now r b \<and> jmap_get (tb_responseSecretsByHash b) (be_hash E v) = Some r \<and>
    sr_subject (tb_secrets b ! r) = ac_subject auth \<and> sr_service (tb_secrets b ! r) = service"
  by (auto simp: validateResponseSecretUse_def preflightResponseSecretUse_def Let_def
      split: option.splits if_splits)

text \<open>The two ways a reference is redeemed, with the state they leave.\<close>

lemma redeemToken_Inr:
  assumes "redeemToken S t s = (s', Inr w)"
  obtains (secret) now r where "starts_with t ''sec_''"
      and "s' = s\<lparr>sub_broker := refresh_secret (su_broker S) now r (sub_broker s), sub_calls := sub_calls s + 1,
        sub_secrets := sub_secrets s @ [r]\<rparr>"
      and "jmap_get (tb_responseSecretsByHash (sub_broker s)) (be_hash (su_broker S) t) = Some r"
      and "sr_subject (tb_secrets (sub_broker s) ! r) = ac_subject (su_auth S)"
      and "sr_service (tb_secrets (sub_broker s) ! r) = ut_service (su_target S)"
      and "w = sr_secret (tb_secrets (sub_broker s) ! r)"
  | (gref) now r where "\<not> starts_with t ''sec_''"
      and "s' = s\<lparr>sub_broker := refresh_record (su_broker S) now r (sub_broker s), sub_calls := sub_calls s + 1,
        sub_records := sub_records s @ [r]\<rparr>"
      and "jmap_get (tb_recordsByHash (sub_broker s)) (be_hash (su_broker S) t) = Some r"
      and "record_bound S (tb_records (sub_broker s) ! r) w"
proof (cases "starts_with t ''sec_''")
  case True
  let ?v = "validateResponseSecretUse (su_broker S) (su_clock S (sub_calls s)) (su_auth S) (ut_service (su_target S)) t
    (sub_broker s)"
  obtain b r where v: "?v = (b, Inr r)"
    using assms True by (auto simp: redeemToken_def redeem_secret_def split: prod.splits sum.splits)
  show ?thesis
    using assms True v validate_secret_Inr [OF v] secret [where now = "su_clock S (sub_calls s)" and r = r]
    by (simp add: redeemToken_def redeem_secret_def)
next
  case False
  let ?v = "validateTokenUse (su_broker S) (su_clock S (sub_calls s)) (su_auth S) (su_target S) t (sub_broker s)"
  have r: "redeem_reference S t s = (s', Inr w)" using assms False by (simp add: redeemToken_def)
  obtain b q where v: "?v = (b, Inr q)"
    using r by (auto simp: redeem_reference_def split: prod.splits sum.splits)
  then have b: "b = refresh_record (su_broker S) (su_clock S (sub_calls s)) q (sub_broker s)"
    and q: "jmap_get (tb_recordsByHash (sub_broker s)) (be_hash (su_broker S) t) = Some q"
      "tr_subject (tb_records (sub_broker s) ! q) = ac_subject (su_auth S)"
      "tr_service (tb_records (sub_broker s) ! q) = ut_service (su_target S)"
      "ut_destination (su_target S) \<in> {None, Some (tr_destination (tb_records (sub_broker s) ! q))}"
    by (auto simp: validate_Inr preflight_Inr)
  show ?thesis
    using r False q gref [where now = "su_clock S (sub_calls s)" and r = q]
    unfolding redeem_reference_def v prod.case sum.case b
    by (auto simp: Let_def record_bound_def split: token_kind.splits option.splits)
qed

lemma redeemToken_binds: "redeemToken S t s = (s', Inr w) \<Longrightarrow> secret_bound S s' t w"
  by (elim redeemToken_Inr) (simp_all add: secret_bound_def Let_def)

lemma redeemToken_keeps: "redeemToken S t s = (s', Inr w) \<Longrightarrow> secret_bound S s u x \<Longrightarrow> secret_bound S s' u x"
  by (elim redeemToken_Inr) (auto simp: secret_bound_def Let_def split: option.splits if_splits)

interpretation broker: redeemer "redeemToken S" "secret_bound S" for S
  by unfold_locales (fact redeemToken_binds, fact redeemToken_keeps)

end
