(* ===== verification/ReferenceMatches.thy ===== *)
theory ReferenceMatches
  imports SubstitutionProperties
begin

text \<open>
  Where references stand in a text: the matches of the pattern are disjoint, ordered and complete, those of
  the complete JSON strings are the ones of the whole text when every one of the text is among them, and
  splicing replacements from the right is filling in the references.
\<close>

section \<open>Matches of a text\<close>

definition before :: "nat \<times> string \<Rightarrow> nat \<times> string \<Rightarrow> bool" where
  "before m n \<longleftrightarrow> fst m + length (snd m) \<le> fst n"

definition covers :: "nat \<times> string \<Rightarrow> nat \<Rightarrow> bool" where
  "covers m p \<longleftrightarrow> fst m \<le> p \<and> p < fst m + length (snd m)"

lemma match_at:
  "(p, t) \<in> set (matches_from i s) \<Longrightarrow> \<exists>k < length s. p = i + k \<and> match_token (drop k s) = Some t"
proof (induction i s rule: matches_from.induct)
  case (2 i c cs)
  show ?case
  proof (cases "match_token (c # cs)")
    case None
    then obtain k where "k < length cs" "p = i + 1 + k" "match_token (drop k cs) = Some t"
      using 2(1) [OF None] 2(3) None by auto
    then show ?thesis by (intro exI [of _ "Suc k"]) simp
  next
    case (Some u)
    show ?thesis
    proof (cases "(p, t) = (i, u)")
      case True
      then show ?thesis using Some by (intro exI [of _ 0]) simp
    next
      case False
      then obtain k where k: "k < length (drop (length u) (c # cs))" "p = i + length u + k"
        "match_token (drop k (drop (length u) (c # cs))) = Some t"
        using 2(2) [OF Some] 2(3) Some False by auto
      show ?thesis
        using k match_token_length [OF Some] by (intro exI [of _ "length u + k"]) (auto simp: add.commute)
    qed
  qed
qed simp

lemma match_bounds:
  assumes "(p, t) \<in> set (matches_from i s)"
  shows "i \<le> p" and "p + length t \<le> i + length s" and "t \<noteq> []" and "t = take (length t) (drop (p - i) s)"
proof -
  obtain k where k: "k < length s" "p = i + k" "match_token (drop k s) = Some t" using match_at [OF assms] by blast
  then have "t \<noteq> []" "length t \<le> length (drop k s)" "prefix t (drop k s)" using match_token_length by blast+
  then show "i \<le> p" "p + length t \<le> i + length s" "t \<noteq> []" "t = take (length t) (drop (p - i) s)"
    using k by (auto elim!: prefixE)
qed

lemma matches_ordered: "sorted_wrt before (matches_from i s)"
proof (induction i s rule: matches_from.induct)
  case (2 i c cs)
  show ?case
  proof (cases "match_token (c # cs)")
    case None
    then show ?thesis using 2(1) by simp
  next
    case (Some u)
    then have "before (i, u) n" if "n \<in> set (matches_from (i + length u) (drop (length u) (c # cs)))" for n
      using match_bounds(1) [of "fst n" "snd n"] that by (simp add: before_def)
    then show ?thesis using 2(2) [OF Some] Some by simp
  qed
qed simp

lemma matches_complete:
  "k < length s \<Longrightarrow> match_token (drop k s) = Some t \<Longrightarrow> \<exists>m \<in> set (matches_from i s). covers m (i + k)"
proof (induction i s arbitrary: k rule: matches_from.induct)
  case (2 i c cs)
  show ?case
  proof (cases "match_token (c # cs)")
    case None
    then obtain k' where k': "k = Suc k'" using 2(4) by (cases k) auto
    then show ?thesis using 2(1) [OF None, of k'] 2(3,4) None by auto
  next
    case (Some u)
    show ?thesis
    proof (cases "k < length u")
      case True
      then show ?thesis using Some by (simp add: covers_def)
    next
      case False
      then have k: "k = length u + (k - length u)" by simp
      have "\<exists>m \<in> set (matches_from (i + length u) (drop (length u) (c # cs))). covers m (i + length u + (k - length u))"
        by (rule 2(2) [OF Some]) (use 2(3,4) k False in \<open>auto simp: add.commute\<close>)
      then show ?thesis using Some False by auto
    qed
  qed
qed simp

lemma match_token_take:
  assumes "match_token (take n s) = Some t"
  shows "\<exists>u. match_token s = Some u"
proof -
  obtain p where p: "token_prefix (take n s) = Some p" "takeWhile token_char (drop (length p) (take n s)) \<noteq> []"
    using assms by (auto simp: match_token_def Let_def split: option.splits if_splits)
  have pre: "prefix p s" "p = ''gref_'' \<or> p = ''sec_''"
    using p(1) take_is_prefix [of n s] by (auto simp: token_prefix_def split: if_splits intro: prefix_order.trans)
  then have "token_prefix s = Some p"
    by (auto simp: token_prefix_def elim!: prefixE)
  moreover have "takeWhile token_char (drop (length p) s) \<noteq> []"
    using p(2) by (cases "drop (length p) s") (auto simp: drop_take take_Cons split: nat.splits if_splits)
  ultimately show ?thesis by (simp add: match_token_def Let_def)
qed

section \<open>Matches of the ranges\<close>

text \<open>
  The documented behaviour of the scanner: tokens come in the order of the text, do not overlap and
  lie in the text, and a string literal without an error has its two quotes.
\<close>

definition scan_ok :: "scanned_token list \<Rightarrow> string \<Rightarrow> bool" where
  "scan_ok ts text \<longleftrightarrow>
     sorted_wrt (\<lambda>t u. sk_offset t + sk_length t \<le> sk_offset u) ts \<and>
     (\<forall>t \<in> set ts. sk_offset t + sk_length t \<le> length text \<and>
       (sk_kind t = Kind_string_literal \<and> \<not> sk_error t \<longrightarrow> 2 \<le> sk_length t))"

definition ranges_ok :: "json_string_range list \<Rightarrow> string \<Rightarrow> bool" where
  "ranges_ok rs text \<longleftrightarrow> sorted_wrt (\<lambda>r r'. jr_end r \<le> jr_start r') rs \<and>
     (\<forall>r \<in> set rs. jr_start r \<le> jr_end r \<and> jr_end r \<le> length text)"

lemma meaningful_in:
  "t \<in> set (meaningful_tokens ts objects n) \<Longrightarrow> \<exists>u \<in> set ts. \<exists>oid. t = u\<lparr>sk_objectId := oid\<rparr>"
  by (induction ts objects n rule: meaningful_tokens.induct) (auto split: if_splits)

lemma meaningful_scan_ok: "scan_ok ts text \<Longrightarrow> scan_ok (meaningful_tokens ts objects n) text"
proof (induction ts objects n rule: meaningful_tokens.induct)
  case (2 t ts objects n)
  have ts: "scan_ok ts text" using 2(5) by (simp add: scan_ok_def)
  have first: "sk_offset t + sk_length t \<le> sk_offset u" if "u \<in> set (meaningful_tokens ts os k)" for u os k
    using meaningful_in [OF that] 2(5) by (auto simp: scan_ok_def)
  show ?case using 2 ts first by (auto simp: scan_ok_def)
qed simp

lemma complete_ranges_in:
  "r \<in> set (complete_ranges ts) \<Longrightarrow> \<exists>t \<in> set ts. sk_kind t = Kind_string_literal \<and> \<not> sk_error t \<and>
    jr_start r = sk_offset t + 1 \<and> jr_end r = sk_offset t + sk_length t - 1"
  by (induction ts) (auto split: if_splits)

lemma complete_ranges_ok: "scan_ok ts text \<Longrightarrow> ranges_ok (complete_ranges ts) text"
proof (induction ts)
  case (Cons t ts)
  have IH: "ranges_ok (complete_ranges ts) text" using Cons by (simp add: scan_ok_def)
  have "sk_offset t + sk_length t - 1 \<le> jr_start r" if "r \<in> set (complete_ranges ts)" for r
    using complete_ranges_in [OF that] Cons.prems by (fastforce simp: scan_ok_def)
  then show ?case using IH Cons.prems by (auto simp: ranges_ok_def scan_ok_def)
qed (simp add: ranges_ok_def)

lemma found_ranges_ok:
  "scan_ok (scanner text) text \<Longrightarrow> ranges_ok (findCompleteJsonStringRanges scanner text) text"
  by (simp add: findCompleteJsonStringRanges_def scanMeaningfulTokens_def complete_ranges_ok meaningful_scan_ok)

lemma ranges_ok_filter: "ranges_ok rs text \<Longrightarrow> ranges_ok (filter P rs) text"
  by (auto simp: ranges_ok_def sorted_wrt_filter)

lemma range_match:
  assumes "(p, t) \<in> set (range_matches text r)" and "jr_start r \<le> jr_end r" and "jr_end r \<le> length text"
  shows "jr_start r \<le> p" and "p + length t \<le> jr_end r" and "t \<noteq> []" and "t = take (length t) (drop p text)"
    and "\<exists>u. match_token (drop p text) = Some u"
proof -
  let ?s = "js_slice text (jr_start r) (jr_end r)"
  have len: "length ?s = jr_end r - jr_start r" using assms by (simp add: js_slice_def)
  note m = assms(1) [unfolded range_matches_def]
  note b = match_bounds [OF m, unfolded len]
  show 1: "jr_start r \<le> p" "p + length t \<le> jr_end r" "t \<noteq> []" using b assms(2) by simp_all
  have slice: "drop (p - jr_start r) ?s = take (jr_end r - p) (drop p text)"
    using 1(1) by (simp add: js_slice_def drop_take)
  have "t = take (length t) (take (jr_end r - p) (drop p text))" using b(4) unfolding slice .
  moreover have "length t \<le> jr_end r - p" using 1(2) by simp
  ultimately show "t = take (length t) (drop p text)" by (simp add: min_absorb1)
  obtain k where "p = jr_start r + k" "match_token (drop k ?s) = Some t" using match_at [OF m] by blast
  then have "match_token (take (jr_end r - p) (drop p text)) = Some t" using slice by simp
  then show "\<exists>u. match_token (drop p text) = Some u" by (rule match_token_take)
qed

lemma ranges_ordered:
  assumes "ranges_ok rs text"
  shows "sorted_wrt before (concat (map (range_matches text) rs))"
  using assms
proof (induction rs)
  case (Cons r rs)
  have r: "jr_start r \<le> jr_end r" "jr_end r \<le> length text" and rs: "ranges_ok rs text"
    using Cons.prems by (simp_all add: ranges_ok_def)
  have "before m n" if "m \<in> set (range_matches text r)" "r' \<in> set rs" "n \<in> set (range_matches text r')" for m n r'
  proof -
    have r': "jr_end r \<le> jr_start r'" "jr_start r' \<le> jr_end r'" "jr_end r' \<le> length text"
      using Cons.prems that(2) by (auto simp: ranges_ok_def)
    show ?thesis
      using range_match(2) [of "fst m" "snd m" "text" r] range_match(1) [of "fst n" "snd n" "text" r'] that r r'
      by (simp add: before_def)
  qed
  then show ?case
    using Cons.IH [OF rs] matches_ordered by (auto simp: sorted_wrt_append range_matches_def)
qed simp

text \<open>Two matches of an ordered list that cover the same position are the same.\<close>

lemma ordered_disjoint:
  assumes "sorted_wrt before ms" and "m \<in> set ms" and "n \<in> set ms" and "covers m p" and "covers n p"
  shows "m = n"
  using assms by (induction ms) (auto simp: before_def covers_def)

lemma ordered_unique:
  assumes "sorted_wrt before ms" and "sorted_wrt before ns" and "set ms = set ns"
    and "\<And>m. m \<in> set ms \<Longrightarrow> snd m \<noteq> []"
  shows "ms = ns"
proof -
  have strict: "sorted_wrt (<) (map fst xs)" if "sorted_wrt before xs" "\<And>m. m \<in> set xs \<Longrightarrow> snd m \<noteq> []" for xs
    using that
  proof (induction xs)
    case (Cons x xs)
    have "fst x < fst y" if "y \<in> set xs" for y
    proof -
      have "fst x + length (snd x) \<le> fst y" "length (snd x) > 0" using Cons.prems that by (auto simp: before_def)
      then show ?thesis by linarith
    qed
    then show ?case using Cons by simp
  qed simp
  have ms: "sorted_wrt (<) (map fst ms)" and ns: "sorted_wrt (<) (map fst ns)" using strict assms by metis+
  have fst: "map fst ms = map fst ns"
    using ms ns assms(3) by (intro strict_sorted_equal) simp_all
  moreover have "inj_on fst (set ms \<union> set ns)"
    using ms assms(3) by (simp add: strict_sorted_iff distinct_map)
  ultimately show ?thesis by (rule map_inj_on)
qed

lemma values_are_matches:
  assumes "ranges_ok rs text"
    and "\<forall>m \<in> set (matches_from 0 text). match_range m \<in> match_range ` set (concat (map (range_matches text) rs))"
  shows "concat (map (range_matches text) rs) = matches_from 0 text"
proof -
  let ?vs = "concat (map (range_matches text) rs)" and ?ms = "matches_from 0 text"
  have vs: "snd v \<noteq> [] \<and> snd v = take (length (snd v)) (drop (fst v) text) \<and>
      (\<exists>u. match_token (drop (fst v) text) = Some u) \<and> fst v < length text" if v: "v \<in> set ?vs" for v
  proof -
    obtain r where r: "r \<in> set rs" "v \<in> set (range_matches text r)" using v by auto
    then have b: "jr_start r \<le> jr_end r" "jr_end r \<le> length text" using assms(1) by (auto simp: ranges_ok_def)
    have v': "(fst v, snd v) \<in> set (range_matches text r)" using r(2) by simp
    note m = range_match [OF v' b]
    have "fst v < length text" using m(2,3) b(2) by (cases "snd v") simp_all
    then show ?thesis using m(3-5) by blast
  qed
  have sub: "m \<in> set ?vs" if m: "m \<in> set ?ms" for m
  proof -
    have "match_range m \<in> match_range ` set ?vs" using assms(2) m by blast
    then obtain v where v: "v \<in> set ?vs" "match_range v = match_range m" by (metis imageE)
    then have "fst v = fst m" "length (snd v) = length (snd m)" by (auto simp: match_range_def)
    moreover have "snd m = take (length (snd m)) (drop (fst m) text)"
      using match_bounds(4) [of "fst m" "snd m" 0 "text"] m by simp
    ultimately have "v = m" using vs [OF v(1)] by (metis prod.expand)
    then show ?thesis using v(1) by simp
  qed
  have sup: "v \<in> set ?ms" if v: "v \<in> set ?vs" for v
  proof -
    obtain m where m: "m \<in> set ?ms" "covers m (fst v)"
      using vs [OF v] matches_complete [of "fst v" "text" _ 0] by auto
    moreover have "covers v (fst v)" using vs [OF v] by (simp add: covers_def)
    ultimately have "m = v" using ordered_disjoint [OF ranges_ordered [OF assms(1)] sub [OF m(1)] v] by blast
    then show ?thesis using m(1) by simp
  qed
  show ?thesis
    by (rule ordered_unique [OF ranges_ordered [OF assms(1)] matches_ordered]) (use sub sup vs in blast)+
qed

section \<open>Splicing\<close>

lemma pieces_matches: "string_tokens s = map snd (matches_from i s)"
proof (induction i s rule: matches_from.induct)
  case (2 i c cs)
  then show ?case by (cases "match_token (c # cs)") (simp_all add: string_tokens_def)
qed (simp add: string_tokens_def)

lemma fill_text_Cons:
  "fill_text (c # cs) ws =
    (case match_token (c # cs) of
       Some t \<Rightarrow> hd (take 1 ws) @ fill_text (drop (length t) (c # cs)) (drop 1 ws)
     | None \<Rightarrow> c # fill_text cs ws)"
  by (simp add: fill_text_def split: option.splits)

lemma fill_text_token:
  "match_token (t @ s) = Some t \<Longrightarrow> fill_text (t @ s) (w # ws) = w @ fill_text s ws"
  using match_token_length [of "t @ s" t] by (cases "t @ s") (auto simp: fill_text_Cons dest: sym)

lemma splice_fill:
  assumes "length ws = length (matches_from i s)" and "length pre = i"
  shows "foldr splice (zip (map match_range (matches_from i s)) ws) (pre @ s) = pre @ fill_text s ws"
  using assms
proof (induction i s arbitrary: ws pre rule: matches_from.induct)
  case (1 i)
  then show ?case by (simp add: fill_text_def)
next
  case (2 i c cs)
  show ?case
  proof (cases "match_token (c # cs)")
    case None
    then show ?thesis using 2(1) [OF None, of ws "pre @ [c]"] 2(3,4) by (simp add: fill_text_Cons)
  next
    case (Some t)
    obtain w us where ws: "ws = w # us" using 2(3) Some by (cases ws) auto
    obtain rest where rest: "c # cs = t @ rest" using match_token_length [OF Some] by (auto elim: prefixE)
    have ms: "matches_from i (c # cs) = (i, t) # matches_from (i + length t) rest"
      using Some arg_cong [OF rest, of "drop (length t)"] by simp
    have IH: "foldr splice (zip (map match_range (matches_from (i + length t) rest)) us) ((pre @ t) @ rest) =
        (pre @ t) @ fill_text rest us"
      using 2(2) [OF Some, of us "pre @ t"] 2(3,4) ms ws rest by simp
    have "splice (match_range (i, t), w) (pre @ t @ fill_text rest us) = pre @ w @ fill_text rest us"
      using 2(4) by (simp add: splice_def match_range_def)
    then show ?thesis
      unfolding ms ws unfolding rest using IH Some rest by (simp add: fill_text_token)
  qed
qed

lemma sort_reverses:
  assumes "sorted_wrt (\<lambda>x y. f x > f y) xs"
  shows "sort_key (f :: 'a \<Rightarrow> int) xs = rev xs"
  using assms
proof (induction xs)
  case (Cons x xs)
  have "insort_key f x ys = ys @ [x]" if "\<forall>y \<in> set ys. f y < f x" for ys
    using that by (induction ys) auto
  then show ?case using Cons by simp
qed simp

lemma splice_all_fill:
  assumes "length ws = length (matches_from 0 s)"
  shows "splice_all (zip (map match_range (matches_from 0 s)) ws) s = fill_text s ws"
proof -
  let ?ms = "matches_from 0 s" and ?f = "\<lambda>rr :: text_range \<times> string. - int (tx_start (fst rr))"
  have "sorted_wrt (\<lambda>x y. fst x < fst y) ?ms"
  proof (rule sorted_wrt_mono_rel [OF _ matches_ordered])
    fix x y assume "x \<in> set ?ms" "before x y"
    then show "fst x < fst y"
      using match_bounds(3) [of "fst x" "snd x" 0 s] by (auto simp: before_def neq_Nil_conv)
  qed
  then have "sorted_wrt (\<lambda>x y. ?f x > ?f y) (zip (map match_range ?ms) ws)"
    using assms by (auto simp: sorted_wrt_iff_nth_less match_range_def)
  then have "splice_all (zip (map match_range ?ms) ws) s = foldr splice (zip (map match_range ?ms) ws) s"
    unfolding splice_all_def by (simp add: sort_reverses foldr_conv_fold)
  then show ?thesis using splice_fill [OF assms, of "[]"] by simp
qed

end
