(* ===== verification/JsonSubstitution.thy ===== *)
theory JsonSubstitution
  imports ReferenceMatches
begin

text \<open>
  The contracts of \<^verbatim>\<open>src/substitution.ts\<close>: values and JSON text with their references filled in, and
  the check of the placement of references that a request passes before it is sent.
\<close>

section \<open>JSON text\<close>

lemma redeem_matches_refines:
  "redeem_matches S ms s =
    filled (\<lambda>ws. zip (map match_range ms) (map json_escape ws)) (thread (redeemToken S) (map snd ms) s)"
proof (induction S ms s rule: redeem_matches.induct)
  case (2 S i token ms s)
  have r: "match_range (i, token) = \<lparr>tx_start = i, tx_end = i + length token\<rparr>" by (simp add: match_range_def)
  show ?case
  proof (cases "redeemToken S token s")
    case (Pair s1 w)
    show ?thesis
    proof (cases w)
      case (Inr x)
      then show ?thesis
        using Pair 2 [OF Pair [symmetric]] r
        by (cases "thread (redeemToken S) (map snd ms) s1"; cases "snd (thread (redeemToken S) (map snd ms) s1)")
          (simp_all add: filled_def)
    qed (simp add: Pair filled_def)
  qed
qed (simp add: filled_def)

lemma string_tokens_matches: "string_tokens s = map snd (matches_from 0 s)"
  by (rule pieces_matches)

text \<open>The references in the string values of a JSON text.\<close>

definition value_matches :: "(string \<Rightarrow> scanned_token list) \<Rightarrow> string \<Rightarrow> (nat \<times> string) list" where
  "value_matches scanner text =
     concat (map (range_matches text) (filter (\<lambda>r. \<not> jr_isPropertyName r) (findCompleteJsonStringRanges scanner text)))"

lemma placed_def:
  "assertJsonTextReferencePlacement scanner text = Inr () \<longleftrightarrow>
    list_all (\<lambda>m. match_range m \<in> match_range ` set (value_matches scanner text)) (matches_from 0 text)"
  unfolding assertJsonTextReferencePlacement_def Let_def value_matches_def [symmetric]
  by (simp add: misplaced_def list_ex_iff list_all_iff)

lemma placed_values:
  assumes "scan_ok (scanner text) text"
  shows "assertJsonTextReferencePlacement scanner text = Inr () \<longleftrightarrow> value_matches scanner text = matches_from 0 text"
proof
  assume "assertJsonTextReferencePlacement scanner text = Inr ()"
  then have "\<forall>m \<in> set (matches_from 0 text). match_range m \<in> match_range ` set (value_matches scanner text)"
    by (simp add: placed_def list_all_iff)
  then show "value_matches scanner text = matches_from 0 text"
    unfolding value_matches_def by (intro values_are_matches ranges_ok_filter found_ranges_ok assms)
next
  assume "value_matches scanner text = matches_from 0 text"
  then show "assertJsonTextReferencePlacement scanner text = Inr ()"
    by (simp add: placed_def list_all_iff)
qed

lemma filled_Inr: "filled f r = (s', Inr y) \<longleftrightarrow> (\<exists>ws. r = (s', Inr ws) \<and> y = f ws)"
  by (cases r) (auto simp: filled_def result_map_value_Inr)

lemma substituteJsonText_values:
  "substituteJsonText S text s =
    (case filled (\<lambda>ws. zip (map match_range (value_matches (su_scanner S) text)) (map json_escape ws))
            (thread (redeemToken S) (map snd (value_matches (su_scanner S) text)) s) of
       (s', Inl e) \<Rightarrow> (s', Inl e)
     | (s', Inr ranges) \<Rightarrow>
         (if assertJsonTextReferencePlacement (su_scanner S) text = Inr () then (s', Inr (splice_all ranges text))
          else (s', invalid_reference ''Opaque references in JSON must be complete string values.'')))"
proof (cases "redeem_matches S (value_matches (su_scanner S) text) s")
  case (Pair s' r)
  show ?thesis
  proof (cases r)
    case (Inl e)
    have r: "filled (\<lambda>ws. zip (map match_range (value_matches (su_scanner S) text)) (map json_escape ws))
            (thread (redeemToken S) (map snd (value_matches (su_scanner S) text)) s) = (s', Inl e)"
      using Pair Inl by (simp add: redeem_matches_refines)
    show ?thesis
      unfolding substituteJsonText_def Let_def value_matches_def [symmetric] Pair Inl r prod.case sum.case by simp
  next
    case (Inr rs)
    let ?found = "findCompleteJsonStringRanges (su_scanner S) text"
    have r: "filled (\<lambda>ws. zip (map match_range (value_matches (su_scanner S) text)) (map json_escape ws))
            (thread (redeemToken S) (map snd (value_matches (su_scanner S) text)) s) = (s', Inr rs)"
      using Pair Inr by (simp add: redeem_matches_refines)
    then have keys: "fst ` set rs = match_range ` set (value_matches (su_scanner S) text)"
      unfolding filled_Inr by (metis length_map list.set_map map_fst_zip thread_length)
    let ?vs = "value_matches (su_scanner S) text"
    have sub: "set (value_matches (su_scanner S) text) \<subseteq> set (concat (map (range_matches text) ?found))"
      by (auto simp: value_matches_def)
    have "list_ex (\<lambda>m. match_range m \<notin> set (map match_range (concat (map (range_matches text) ?found))) \<or>
          match_range m \<notin> fst ` set rs) (matches_from 0 text) \<longleftrightarrow>
        list_ex (\<lambda>m. match_range m \<notin> match_range ` set ?vs) (matches_from 0 text)"
      using sub unfolding keys by (intro list_ex_cong) auto
    also have "\<dots> \<longleftrightarrow> assertJsonTextReferencePlacement (su_scanner S) text \<noteq> Inr ()"
      unfolding placed_def by (simp add: list_ex_iff list_all_iff)
    finally have bad: "list_ex (\<lambda>m. match_range m \<notin> set (map match_range (concat (map (range_matches text) ?found))) \<or>
          match_range m \<notin> fst ` set rs) (matches_from 0 text) \<longleftrightarrow>
        assertJsonTextReferencePlacement (su_scanner S) text \<noteq> Inr ()" .
    show ?thesis
      unfolding substituteJsonText_def Let_def value_matches_def [symmetric] Pair Inr r prod.case sum.case bad
      by simp
  qed
qed

lemma substituteJsonText_placed:
  assumes "scan_ok (su_scanner S text) text" and "assertJsonTextReferencePlacement (su_scanner S) text = Inr ()"
  shows "substituteJsonText S text s =
    filled (\<lambda>ws. fill_text text (map json_escape ws)) (thread (redeemToken S) (string_tokens text) s)"
proof -
  have vs: "value_matches (su_scanner S) text = matches_from 0 text" using placed_values [of "su_scanner S", OF assms(1)] assms(2) by simp
  show ?thesis
  proof (cases "thread (redeemToken S) (string_tokens text) s")
    case (Pair s' r)
    then show ?thesis
      using assms(2) splice_all_fill [of "map json_escape (projr r)" "text"]
      by (cases r) (auto simp: substituteJsonText_values vs string_tokens_matches filled_def dest: thread_length)
  qed
qed

section \<open>Placement\<close>

fun property_names :: "json \<Rightarrow> string list" where
  "property_names (JArray vs) = concat (map (\<lambda>v. property_names v) vs)"
| "property_names (JObject fs) = concat (map (\<lambda>kv. fst kv # property_names (snd kv)) fs)"
| "property_names v = []"

lemma unit_result [simp]: "result_map_value (\<lambda>_. ()) r = Inr () \<longleftrightarrow> (\<exists>x. r = Inr x)"
  by (cases r) auto

lemma result_map_unit: "(\<exists>ys. result_map f xs = Inr ys) \<longleftrightarrow> (\<forall>x \<in> set xs. \<exists>y. f x = Inr y)"
  by (induction xs) (auto split: sum.splits)

lemma has_token_iff: "has_token s \<longleftrightarrow> string_tokens s \<noteq> []"
  by (simp add: has_token_def string_tokens_matches)

lemma placed_iff:
  "assertValueReferencePlacement v = Inr () \<longleftrightarrow> (\<forall>name \<in> set (property_names v). string_tokens name = [])"
proof (induction v)
  case (JObject fs)
  have "assertValueReferencePlacement (snd kv) = Inr () \<longleftrightarrow>
      (\<forall>name \<in> set (property_names (snd kv)). string_tokens name = [])" if "kv \<in> set fs" for kv
    using JObject [OF that] snds.intros [of kv] by simp
  then show ?case
    by (auto simp: result_map_unit has_token_iff misplaced_def split: if_splits) 
qed (auto simp: result_map_unit)

lemma misplaced_only:
  "assertValueReferencePlacement v \<in> {Inr (), misplaced ''Opaque references cannot be used as property names.''}"
proof -
  have step: "result_map_value (\<lambda>_. ()) (result_map f xs) \<in> {Inr (), e}"
    if "\<And>x. x \<in> set xs \<Longrightarrow> f x \<in> {Inr (), e}" for f :: "'a \<Rightarrow> unit gateway_result" and xs e
    using that by (induction xs) (fastforce split: sum.splits)+
  show ?thesis
  proof (induction v)
    case (JArray vs)
    then show ?case by (simp only: assertValueReferencePlacement.simps) (rule step)
  next
    case (JObject fs)
    show ?case
      unfolding assertValueReferencePlacement.simps
      by (rule step) (use JObject snds.intros in \<open>fastforce\<close>)
  qed simp_all
qed

section \<open>Properties\<close>

text \<open>An environment for the witnesses: the broker with one reference, \<open>gref_R\<close>, and a text with it.\<close>

definition sample_text :: "string \<Rightarrow> string" where
  "sample_text w = ''{'' @ [CHR 0x22] @ ''a'' @ [CHR 0x22] @ '':'' @ [CHR 0x22] @ w @ [CHR 0x22] @ ''}''"

definition sample_token :: "syntax_kind \<Rightarrow> nat \<Rightarrow> nat \<Rightarrow> scanned_token" where
  "sample_token k i n =
     \<lparr>sk_kind = k, sk_offset = i, sk_length = n, sk_value = [], sk_error = False, sk_objectId = None\<rparr>"

definition sample_substitution :: substitution_env where
  "sample_substitution =
     \<lparr>su_broker = sample_env, su_clock = (\<lambda>_. 105), su_auth = sample_auth, su_target = sample_target_use,
      su_service = sample_service,
      su_scanner = (\<lambda>_. [sample_token Kind_open_brace 0 1, sample_token Kind_string_literal 1 3,
        sample_token Kind_colon 4 1, sample_token Kind_string_literal 5 8, sample_token Kind_close_brace 13 1]),
      su_utf8 = \<lparr>uc_decode = (\<lambda>_. None), uc_encode = (\<lambda>_. [])\<rparr>\<rparr>"

text \<open>
  C13: Substitution is redemption followed by a pure replacement: the references in the strings of a value
  are redeemed from left to right, each once, stopping at the first that fails, and if none fails every
  reference is replaced by its own word and nothing else of the value changes.
\<close>

theorem substitution_refines:
  "substituteTokens S v b calls =
    substitution_outcome (filled (fill v) (thread (redeemToken S) (tokens_of v) (substitution_start b calls)))"
  by (simp add: substituteTokens_def substituteValue_refines)

text \<open>The text that substitution works on, when the body has one, and the body made of the words for its references\<close>

definition body_text :: "substitution_env \<Rightarrow> json option \<Rightarrow> (string, string) jmap \<Rightarrow> string option" where
  "body_text S body headers =
     (case decodeDeclaredBase64Body (su_utf8 S) headers body Direction_request of
        Inr (Some decoded) \<Rightarrow> Some decoded
      | _ \<Rightarrow> (case body of Some (JString t) \<Rightarrow> Some t | _ \<Rightarrow> None))"

definition body_tokens :: "substitution_env \<Rightarrow> json option \<Rightarrow> (string, string) jmap \<Rightarrow> string list" where
  "body_tokens S body headers =
     (case body_text S body headers of
        Some t \<Rightarrow> string_tokens t
      | None \<Rightarrow> (case body of None \<Rightarrow> [] | Some v \<Rightarrow> tokens_of v))"

definition filled_body ::
  "substitution_env \<Rightarrow> json option \<Rightarrow> (string, string) jmap \<Rightarrow> string list \<Rightarrow> json option" where
  "filled_body S body headers ws =
     (case body_text S body headers of
        Some t \<Rightarrow>
          (let t' = fill_text t (if isJsonLikeText headers t then map json_escape ws else ws)
           in Some (JString (if decodeDeclaredBase64Body (su_utf8 S) headers body Direction_request = Inr None then t'
                             else encodeBase64Body (su_utf8 S) t')))
      | None \<Rightarrow> map_option (\<lambda>v. fill v ws) body)"

lemma substituteTokens_bound:
  assumes "substituteTokens S v b calls = (s', Inr q)"
  shows "\<exists>ws. list_all2 (secret_bound S s') (tokens_of v) ws \<and> sbr_value q = fill v ws \<and>
    sbr_records q = sub_records s' \<and> sbr_responseSecretRecords q = sub_secrets s'"
proof -
  obtain w where w: "substituteValue (redeemToken S) v (substitution_start b calls) = (s', Inr w)"
    "q = \<lparr>sbr_value = w, sbr_records = sub_records s', sbr_responseSecretRecords = sub_secrets s'\<rparr>"
    using assms
    by (cases "substituteValue (redeemToken S) v (substitution_start b calls)")
      (auto simp: substituteTokens_def substitution_outcome_def result_map_value_Inr)
  then show ?thesis using broker.substituted_bound [OF w(1)] by simp
qed

lemma substituteJsonTextTokens_bound:
  assumes scan: "scan_ok (su_scanner S text) text" and res: "substituteJsonTextTokens S text b calls = (s', Inr q)"
  shows "\<exists>ws. list_all2 (secret_bound S s') (string_tokens text) ws \<and>
    sbr_value q = fill_text text (map json_escape ws) \<and>
    sbr_records q = sub_records s' \<and> sbr_responseSecretRecords q = sub_secrets s'"
proof -
  obtain t where t: "substituteJsonText S text (substitution_start b calls) = (s', Inr t)"
    "q = \<lparr>sbr_value = t, sbr_records = sub_records s', sbr_responseSecretRecords = sub_secrets s'\<rparr>"
    using res by (cases "substituteJsonText S text (substitution_start b calls)")
      (auto simp: substituteJsonTextTokens_def substitution_outcome_def result_map_value_Inr)
  have "assertJsonTextReferencePlacement (su_scanner S) text = Inr ()"
    using t(1) unfolding substituteJsonText_values by (auto split: prod.splits sum.splits if_splits)
  from t(1) [unfolded substituteJsonText_placed [OF scan this] filled_Inr]
  obtain ws where "thread (redeemToken S) (string_tokens text) (substitution_start b calls) = (s', Inr ws)"
    "t = fill_text text (map json_escape ws)" by blast
  then show ?thesis using broker.thread_bound [of S "string_tokens text"] t(2) by (intro exI [of _ ws]) simp
qed

lemma substitution_with_Inr:
  "substitution_with f r = (s', Inr q) \<longleftrightarrow>
    (\<exists>p. r = (s', Inr p) \<and> sbr_value q = f (sbr_value p) \<and> sbr_records q = sbr_records p \<and>
      sbr_responseSecretRecords q = sbr_responseSecretRecords p)"
  by (cases r; cases q) (auto simp: substitution_with_def result_map_value_Inr)

lemma substituteText_bound:
  assumes "isJsonLikeText headers t \<Longrightarrow> scan_ok (su_scanner S t) t"
    and "(if isJsonLikeText headers t then substitution_with f (substituteJsonTextTokens S t b calls)
      else substitution_with g (substituteTokens S (JString t) b calls)) = (s', Inr q)"
    and "\<And>u. g (JString u) = f u"
  shows "\<exists>ws. list_all2 (secret_bound S s') (string_tokens t) ws \<and>
    sbr_value q = f (fill_text t (if isJsonLikeText headers t then map json_escape ws else ws)) \<and>
    sbr_records q = sub_records s' \<and> sbr_responseSecretRecords q = sub_secrets s'"
proof (cases "isJsonLikeText headers t")
  case True
  then show ?thesis
    using assms(2) substituteJsonTextTokens_bound [OF assms(1) [OF True]] by (fastforce simp: substitution_with_Inr)
next
  case False
  then show ?thesis
    using assms(2,3) substituteTokens_bound [of S "JString t"] by (fastforce simp: substitution_with_Inr)
qed

lemma substituteRequestBody_bound:
  assumes res: "substituteRequestBodyTokens S body headers b calls = (s', Inr q)"
    and scan: "\<And>t. body_text S body headers = Some t \<Longrightarrow> isJsonLikeText headers t \<Longrightarrow> scan_ok (su_scanner S t) t"
  shows "\<exists>ws. list_all2 (secret_bound S s') (body_tokens S body headers) ws \<and>
    sbr_value q = filled_body S body headers ws \<and>
    sbr_records q = sub_records s' \<and> sbr_responseSecretRecords q = sub_secrets s'"
proof -
  let ?dec = "decodeDeclaredBase64Body (su_utf8 S) headers body Direction_request"
  consider (decoded) t where "?dec = Inr (Some t)" | (plain) t where "?dec = Inr None" "body = Some (JString t)"
    | (absent) "?dec = Inr None" "body = None"
    | (structured) v where "?dec = Inr None" "body = Some v" "\<nexists>t. v = JString t"
    using res unfolding substituteRequestBodyTokens_def
    by (cases ?dec; cases body) (fastforce split: option.splits json.splits)+
  then show ?thesis
  proof cases
    case (decoded t)
    then have t: "body_text S body headers = Some t" by (simp add: body_text_def)
    have "(if isJsonLikeText headers t
        then substitution_with (\<lambda>t. Some (JString (encodeBase64Body (su_utf8 S) t))) (substituteJsonTextTokens S t b calls)
        else substitution_with (\<lambda>v. Some (JString (encodeBase64Body (su_utf8 S) (json_text v))))
               (substituteTokens S (JString t) b calls)) = (s', Inr q)"
      using res by (simp add: substituteRequestBodyTokens_def decoded)
    from substituteText_bound [OF scan [OF t] this] show ?thesis
      by (simp add: body_tokens_def filled_body_def t decoded json_text_def Let_def)
  next
    case (plain t)
    then have t: "body_text S body headers = Some t" by (simp add: body_text_def)
    have "(if isJsonLikeText headers t
        then substitution_with (\<lambda>t. Some (JString t)) (substituteJsonTextTokens S t b calls)
        else substitution_with Some (substituteTokens S (JString t) b calls)) = (s', Inr q)"
      using res plain by (simp add: substituteRequestBodyTokens_def)
    from substituteText_bound [OF scan [OF t] this] show ?thesis
      using plain t by (simp add: body_tokens_def filled_body_def Let_def)
  next
    case absent
    then show ?thesis
      using res by (auto simp: substituteRequestBodyTokens_def body_tokens_def filled_body_def body_text_def
        substitution_outcome_def)
  next
    case (structured v)
    then have no_text: "body_text S body headers = None" by (cases v) (simp_all add: body_text_def)
    obtain p where p: "substituteTokens S v b calls = (s', Inr p)" "sbr_value q = Some (sbr_value p)"
        "sbr_records q = sbr_records p" "sbr_responseSecretRecords q = sbr_responseSecretRecords p"
      using res structured
      by (cases v) (auto simp: substituteRequestBodyTokens_def substitution_with_Inr json_text_def)
    then show ?thesis
      using substituteTokens_bound [OF p(1)] no_text structured(2) by (auto simp: body_tokens_def filled_body_def)
  qed
qed

text \<open>
  C12: Every secret that substitution puts into a value, or into the body of a request, is the secret of the reference
  that stood there. An access reference is stored, belongs to the subject and the service of the request and, when
  the target names one, to its destination; a reference to a response secret is stored and belongs to the subject and
  the service (it may be used at every destination of the service). Both are in the lists of redeemed references that
  are returned. A body that is JSON text gets the secrets escaped as JSON, given a scanner that reports ordered tokens
  inside that text, and a Base64 body is substituted in the text it encodes.
\<close>

theorem substituted_secrets_bound:
  "(\<forall>v b calls s' q. substituteTokens S v b calls = (s', Inr q) \<longrightarrow>
      (\<exists>ws. list_all2 (secret_bound S s') (tokens_of v) ws \<and> sbr_value q = fill v ws \<and>
        sbr_records q = sub_records s' \<and> sbr_responseSecretRecords q = sub_secrets s')) \<and>
    (\<forall>body headers b calls s' q. substituteRequestBodyTokens S body headers b calls = (s', Inr q) \<longrightarrow>
      (\<forall>t. body_text S body headers = Some t \<longrightarrow> isJsonLikeText headers t \<longrightarrow> scan_ok (su_scanner S t) t) \<longrightarrow>
      (\<exists>ws. list_all2 (secret_bound S s') (body_tokens S body headers) ws \<and>
        sbr_value q = filled_body S body headers ws \<and>
        sbr_records q = sub_records s' \<and> sbr_responseSecretRecords q = sub_secrets s'))"
  using substituteTokens_bound [of S] substituteRequestBody_bound [of S] by (intro conjI allI impI) blast+

theorem substituted_secrets_bound_witness:
  "(\<exists>s' ws. list_all2 (secret_bound sample_substitution s') [''gref_R''] ws \<and>
     JString ''key=hunter2'' = fill (JString ''key=gref_R'') ws) \<and>
   (\<exists>s' ws. list_all2 (secret_bound sample_substitution s') [''gref_R''] ws \<and>
     Some (JString (sample_text ''hunter2'')) =
       filled_body sample_substitution (Some (JString (sample_text ''gref_R''))) [] ws)"
proof
  let ?r = "substituteTokens sample_substitution (JString ''key=gref_R'') sample_broker 0"
  have v: "result_map_value sbr_value (snd ?r) = Inr (JString ''key=hunter2'')"
    "tokens_of (JString ''key=gref_R'') = [''gref_R'']" by code_simp+
  then obtain q where q: "snd ?r = Inr q" "sbr_value q = JString ''key=hunter2''" by (auto simp: result_map_value_Inr)
  then have "?r = (fst ?r, Inr q)" by (metis prod.collapse)
  from substituted_secrets_bound [THEN conjunct1, rule_format, OF this] v(2) q(2)
  show "\<exists>s' ws. list_all2 (secret_bound sample_substitution s') [''gref_R''] ws \<and>
     JString ''key=hunter2'' = fill (JString ''key=gref_R'') ws" by metis
next
  let ?body = "Some (JString (sample_text ''gref_R''))"
  let ?r = "substituteRequestBodyTokens sample_substitution ?body [] sample_broker 0"
  have v: "result_map_value sbr_value (snd ?r) = Inr (Some (JString (sample_text ''hunter2'')))"
    "body_tokens sample_substitution ?body [] = [''gref_R'']"
    "body_text sample_substitution ?body [] = Some (sample_text ''gref_R'')"
    "scan_ok (su_scanner sample_substitution (sample_text ''gref_R'')) (sample_text ''gref_R'')" by code_simp+
  then obtain q where q: "snd ?r = Inr q" "sbr_value q = Some (JString (sample_text ''hunter2''))"
    by (auto simp: result_map_value_Inr)
  then have r: "?r = (fst ?r, Inr q)" by (metis prod.collapse)
  have "scan_ok (su_scanner sample_substitution t) t" if "body_text sample_substitution ?body [] = Some t" for t
    using that v(3,4) by simp
  then show "\<exists>s' ws. list_all2 (secret_bound sample_substitution s') [''gref_R''] ws \<and>
     Some (JString (sample_text ''hunter2'')) = filled_body sample_substitution ?body [] ws"
    using substituted_secrets_bound [THEN conjunct2, rule_format, OF r] v(2) q(2) by metis
qed

text \<open>
  JSON text, given a scanner that reports ordered tokens inside the text: when every reference
  stands inside a string value, substitution redeems the references of the text in order and replaces exactly
  them, each by its secret escaped as JSON, and any other text is refused, whatever was redeemed.
\<close>

theorem json_text_exact:
  assumes "scan_ok (su_scanner S text) text"
  shows "if assertJsonTextReferencePlacement (su_scanner S) text = Inr ()
    then substituteJsonTextTokens S text b calls =
      substitution_outcome (filled (\<lambda>ws. fill_text text (map json_escape ws))
        (thread (redeemToken S) (string_tokens text) (substitution_start b calls)))
    else \<exists>s' e. substituteJsonTextTokens S text b calls = (s', Inl e)"
proof (cases "assertJsonTextReferencePlacement (su_scanner S) text = Inr ()")
  case True
  then show ?thesis by (simp add: substituteJsonTextTokens_def substituteJsonText_placed [OF assms])
next
  case False
  then show ?thesis
    by (auto simp: substituteJsonTextTokens_def substituteJsonText_values substitution_outcome_def
        split: prod.splits sum.splits)
qed

theorem json_text_exact_witness:
  "result_map_value sbr_value (snd (substituteJsonTextTokens sample_substitution (sample_text ''gref_R'') sample_broker 0)) =
    Inr (sample_text ''hunter2'')"
proof -
  let ?S = "sample_substitution" and ?t = "sample_text ''gref_R''"
  have "scan_ok (su_scanner ?S ?t) ?t" by code_simp
  note exact = json_text_exact [OF this, of sample_broker 0]
  have "assertJsonTextReferencePlacement (su_scanner ?S) ?t = Inr ()" by code_simp
  then have "substituteJsonTextTokens ?S ?t sample_broker 0 =
      substitution_outcome (filled (\<lambda>ws. fill_text ?t (map json_escape ws))
        (thread (redeemToken ?S) (string_tokens ?t) (substitution_start sample_broker 0)))"
    using exact by simp
  moreover have "result_map_value sbr_value (snd (substitution_outcome
      (filled (\<lambda>ws. fill_text ?t (map json_escape ws))
        (thread (redeemToken ?S) (string_tokens ?t) (substitution_start sample_broker 0))))) =
      Inr (sample_text ''hunter2'')"
    by code_simp
  ultimately show ?thesis by simp
qed

text \<open>
  The placement check of a value accepts it exactly when no property name in it, at any depth,
  contains a reference.
\<close>

theorem placement_exact:
  "assertValueReferencePlacement v =
    (if list_all (\<lambda>name. string_tokens name = []) (property_names v) then Inr ()
     else misplaced ''Opaque references cannot be used as property names.'')"
  using placed_iff [of v] misplaced_only [of v] by (auto simp: list_all_iff misplaced_def)

end
