(* ===== verification/SecretRanges.thy ===== *)
theory SecretRanges
  imports Substitution
begin

text \<open>
  The ranges of a response text that must not reach the client: \<^verbatim>\<open>src/httpBasicCredential.ts\<close> and
  the helpers at the end of \<^verbatim>\<open>src/responseTokenizer.ts\<close> that find, merge and replace them.
\<close>

section \<open>Matches of a global pattern\<close>

text \<open>
  \<open>text.matchAll(pattern)\<close> for a pattern whose matches are not empty. The matcher gets the character before
  the position, for \<open>\b\<close>, and the rest of the text, and gives the length of the match with what it captures.
\<close>

type_synonym 'a matcher = "char option \<Rightarrow> string \<Rightarrow> (nat \<times> 'a) option"

function scan_matches :: "'a matcher \<Rightarrow> nat \<Rightarrow> char option \<Rightarrow> string \<Rightarrow> (nat \<times> nat \<times> 'a) list" where
  "scan_matches m i prev [] = []"
| "scan_matches m i prev (c # cs) =
     (case m prev (c # cs) of
        Some (n, a) \<Rightarrow>
          (let len = min (Suc (n - 1)) (length (c # cs))
           in (i, len, a) # scan_matches m (i + len) (Some ((c # cs) ! (len - 1))) (drop len (c # cs)))
      | None \<Rightarrow> scan_matches m (i + 1) (Some c) cs)"
  by pat_completeness auto
termination
  by (relation "measure (\<lambda>(m, i, prev, s). length s)") (auto simp: min_def)

definition boundary_char :: "char \<Rightarrow> bool" where
  "boundary_char c \<longleftrightarrow> is_alnum c \<or> c = CHR ''_''"

definition at_boundary :: "char option \<Rightarrow> bool" where
  "at_boundary prev \<longleftrightarrow> (case prev of None \<Rightarrow> True | Some c \<Rightarrow> \<not> boundary_char c)"

section \<open>HTTP Basic credentials\<close>

text \<open>
  \<^verbatim>\<open>/\bBasic +(?<encoded>...)(?![A-Za-z0-9+/=])/gi\<close>. The lookahead leaves the group two choices: the whole
  run of Base64 characters with its padding, when they are well formed and no Base64 character follows the
  padding, or else, when there are several spaces, the pattern gives one of them back, captures nothing, and the
  lookahead sees that space.
\<close>

definition basic_match :: "string matcher" where
  "basic_match prev s =
     (if at_boundary prev \<and> to_lower (take 5 s) = ''basic'' \<and> starts_with (drop 5 s) '' ''
      then (let spaces = takeWhile (\<lambda>c. c = CHR '' '') (drop 5 s);
                rest = drop (5 + length spaces) s;
                run = takeWhile is_b64 rest;
                padding = takeWhile (\<lambda>c. c = CHR ''='') (drop (length run) rest);
                after = drop (length run + length padding) rest
            in if (length run mod 4, length padding) \<in> {(0, 0), (2, 2), (3, 1)}
                  \<and> (after = [] \<or> \<not> is_b64 (hd after))
               then Some (5 + length spaces + length run + length padding, run @ padding)
               else if 2 \<le> length spaces then Some (5 + length spaces - 1, []) else None)
      else None)"

definition isValidHttpBasic :: "string \<Rightarrow> bool" where
  "isValidHttpBasic encoded =
     (let decoded = b64_decode encoded; separator = length (takeWhile (\<lambda>b. b \<noteq> 58) decoded)
      in if b64_encode decoded \<noteq> encoded then False
         else 58 \<in> set decoded \<and> 0 < separator \<and> separator < length decoded - 1)"

definition findHttpBasicCredentialRanges :: "string \<Rightarrow> text_range list" where
  "findHttpBasicCredentialRanges text =
     map (\<lambda>(i, n, encoded). \<lparr>tx_start = i, tx_end = i + n\<rparr>)
       (filter (\<lambda>(i, n, encoded). encoded \<noteq> [] \<and> isValidHttpBasic encoded)
         (scan_matches basic_match 0 None text))"

section \<open>Candidates for references\<close>

text \<open>\<^verbatim>\<open>/\b(?:gref|sec)_[^\s"'<>()[\]{},;]+/g\<close>\<close>

definition candidate_char :: "char \<Rightarrow> bool" where
  "candidate_char c \<longleftrightarrow> \<not> is_space c \<and> c \<notin> {CHR 0x22, CHR 0x27, CHR ''<'', CHR ''>'', CHR ''('', CHR '')'',
     CHR ''['', CHR '']'', CHR ''{'', CHR ''}'', CHR '','', CHR '';''}"

definition candidate_match :: "string matcher" where
  "candidate_match prev s =
     (if at_boundary prev
      then case token_prefix s of
             None \<Rightarrow> None
           | Some p \<Rightarrow>
               (let run = takeWhile candidate_char (drop (length p) s)
                in if run = [] then None else Some (length (p @ run), p @ run))
      else None)"

definition token_candidates :: "string \<Rightarrow> (nat \<times> string) list" where
  "token_candidates text = map (\<lambda>(i, n, candidate). (i, candidate)) (scan_matches candidate_match 0 None text)"

section \<open>Ranges\<close>

record found_range =
  fr_start :: nat
  fr_end :: nat
  fr_ruleIds :: "string list"
  fr_configuredSecret :: "string option"
  fr_secretValue :: "string option"

text \<open>The loop of \<open>addExactRanges\<close> over the occurrences of the secret from the left\<close>

function exact_starts :: "string \<Rightarrow> nat \<Rightarrow> string \<Rightarrow> nat list" where
  "exact_starts secret i [] = []"
| "exact_starts secret i (c # cs) =
     (if starts_with (c # cs) secret
      then i # exact_starts secret (i + max 1 (length secret)) (drop (max 1 (length secret)) (c # cs))
      else exact_starts secret (i + 1) cs)"
  by pat_completeness auto
termination
  by (relation "measure (\<lambda>(secret, i, s). length s)") auto

definition addExactRanges ::
  "found_range list \<Rightarrow> string \<Rightarrow> string \<Rightarrow> string \<Rightarrow> string option \<Rightarrow> found_range list" where
  "addExactRanges ranges text secret ruleId configuredSecret =
     (if secret = [] then ranges
      else ranges @ map (\<lambda>start. \<lparr>fr_start = start, fr_end = start + length secret, fr_ruleIds = [ruleId],
             fr_configuredSecret = configuredSecret, fr_secretValue = None\<rparr>) (exact_starts secret 0 text))"

definition addHttpBasicCredentialRanges :: "found_range list \<Rightarrow> string \<Rightarrow> found_range list" where
  "addHttpBasicCredentialRanges ranges text =
     ranges @ map (\<lambda>r. \<lparr>fr_start = tx_start r, fr_end = tx_end r, fr_ruleIds = [''gateway:http-basic-credential''],
       fr_configuredSecret = None, fr_secretValue = None\<rparr>) (findHttpBasicCredentialRanges text)"

definition overlaps :: "nat \<times> nat \<Rightarrow> nat \<times> nat \<Rightarrow> bool" where
  "overlaps l r \<longleftrightarrow> fst l < snd r \<and> fst r < snd l"

definition span :: "found_range \<Rightarrow> nat \<times> nat" where
  "span r = (fr_start r, fr_end r)"

text \<open>
  \<open>mergeRanges\<close>: the sort by start and then by end, the longest first, is stable; the merged ranges are kept
  with the last one first.
\<close>

definition sort_ranges :: "found_range list \<Rightarrow> found_range list" where
  "sort_ranges rs = sort_key fr_start (sort_key (\<lambda>r. - int (fr_end r)) rs)"

definition keep_first :: "'a option \<Rightarrow> 'a option \<Rightarrow> 'a option" where
  "keep_first old new = (if old = None \<and> new \<noteq> None then new else old)"

fun merge_step :: "found_range list \<Rightarrow> found_range \<Rightarrow> found_range list" where
  "merge_step [] item = [item]"
| "merge_step (previous # merged) item =
     (if fr_start item \<ge> fr_end previous then item # previous # merged
      else let sameBounds = (fr_start previous = fr_start item \<and> fr_end previous = fr_end item);
               grown = fr_end item > fr_end previous
           in \<lparr>fr_start = fr_start previous, fr_end = max (fr_end previous) (fr_end item),
               fr_ruleIds = js_unique (fr_ruleIds previous @ fr_ruleIds item),
               fr_configuredSecret =
                 (if grown then None
                  else if sameBounds then keep_first (fr_configuredSecret previous) (fr_configuredSecret item)
                  else fr_configuredSecret previous),
               fr_secretValue =
                 (if grown then None
                  else if sameBounds then keep_first (fr_secretValue previous) (fr_secretValue item)
                  else fr_secretValue previous)\<rparr> # merged)"

definition mergeRanges :: "found_range list \<Rightarrow> found_range list" where
  "mergeRanges ranges = rev (foldl merge_step [] (sort_ranges ranges))"

section \<open>Replacing\<close>

record text_replacement =
  rp_start :: nat
  rp_end :: nat
  rp_value :: string

text \<open>\<open>applyByteReplacements\<close>: \<open>byteOffset\<close> is how much of the original has been taken.\<close>

fun byte_chunks ::
  "utf8_codec \<Rightarrow> nat list \<Rightarrow> string \<Rightarrow> nat \<Rightarrow> text_replacement list \<Rightarrow> nat list" where
  "byte_chunks U original text byteOffset [] = drop byteOffset original"
| "byte_chunks U original text byteOffset (p # ps) =
     (let start = length (uc_encode U (take (rp_start p) text));
          stop = length (uc_encode U (take (rp_end p) text))
      in js_slice original byteOffset start @ uc_encode U (rp_value p) @ byte_chunks U original text stop ps)"

definition applyByteReplacements ::
  "utf8_codec \<Rightarrow> nat list \<Rightarrow> string \<Rightarrow> text_replacement list \<Rightarrow> nat list" where
  "applyByteReplacements U original text replacements =
     (if replacements = [] then original
      else byte_chunks U original text 0 (sort_key rp_start replacements))"

end
