(* ===== verification/SecretRangesProperties.thy ===== *)
theory SecretRangesProperties
  imports SecretRanges "HOL-Library.Multiset"
begin

text \<open>
  Merging gives disjoint ranges in the order of the text that cover exactly what was found; the search for
  a secret leaves no occurrence that does not overlap a range; and replacing ranges in bytes is replacing
  them in the text.
\<close>

section \<open>Merging\<close>

definition proper :: "found_range \<Rightarrow> bool" where
  "proper r \<longleftrightarrow> fr_start r < fr_end r"

text \<open>A range lies within another one that has its rules.\<close>

definition within :: "found_range \<Rightarrow> found_range \<Rightarrow> bool" where
  "within r m \<longleftrightarrow> fr_start m \<le> fr_start r \<and> fr_end r \<le> fr_end m \<and> set (fr_ruleIds r) \<subseteq> set (fr_ruleIds m)"

definition apart :: "found_range \<Rightarrow> found_range \<Rightarrow> bool" where
  "apart l r \<longleftrightarrow> fr_end l \<le> fr_start r"

definition found_positions :: "found_range list \<Rightarrow> nat set" where
  "found_positions rs = (\<Union>r \<in> set rs. {fr_start r ..< fr_end r})"

definition found_rules :: "found_range list \<Rightarrow> string set" where
  "found_rules rs = (\<Union>r \<in> set rs. set (fr_ruleIds r))"

text \<open>What the loop of \<open>mergeRanges\<close> keeps: \<open>done\<close> are the ranges it has seen.\<close>

definition merged_ok :: "found_range list \<Rightarrow> found_range list \<Rightarrow> bool" where
  "merged_ok seen merged \<longleftrightarrow>
     sorted_wrt apart (rev merged) \<and> list_all proper merged \<and>
     (\<forall>r \<in> set seen. \<exists>m \<in> set merged. within r m) \<and>
     (\<forall>m \<in> set merged. fr_start m \<in> fr_start ` set seen) \<and>
     found_positions merged = found_positions seen \<and> found_rules merged = found_rules seen"

lemma found_positions_snoc [simp]:
  "found_positions (rs @ [r]) = found_positions rs \<union> {fr_start r ..< fr_end r}"
  by (auto simp: found_positions_def)

lemma found_rules_snoc [simp]: "found_rules (rs @ [r]) = found_rules rs \<union> set (fr_ruleIds r)"
  by (auto simp: found_rules_def)

lemma found_Cons [simp]:
  "found_positions (r # rs) = {fr_start r ..< fr_end r} \<union> found_positions rs"
  "found_rules (r # rs) = set (fr_ruleIds r) \<union> found_rules rs"
  by (auto simp: found_positions_def found_rules_def)

lemma within_refl [simp]: "within r r"
  by (simp add: within_def)

lemma within_trans: "within r m \<Longrightarrow> within m n \<Longrightarrow> within r n"
  by (auto simp: within_def)

lemma merge_step_ok:
  assumes "merged_ok seen merged" and "proper r" and "\<forall>q \<in> set seen. fr_start q \<le> fr_start r"
  shows "merged_ok (seen @ [r]) (merge_step merged r)"
proof (cases merged)
  case Nil
  then have "seen = []" using assms(1) by (cases seen) (auto simp: merged_ok_def)
  then show ?thesis using Nil assms(2) by (simp add: merged_ok_def found_positions_def found_rules_def)
next
  case (Cons p ms)
  have p: "fr_start p \<le> fr_start r" "proper p" using assms(1,3) Cons by (auto simp: merged_ok_def)
  have order: "\<forall>m \<in> set ms. fr_end m \<le> fr_start p" "sorted_wrt apart (rev ms)"
    using assms(1) Cons by (auto simp: merged_ok_def sorted_wrt_append apart_def)
  have sound: "\<forall>q \<in> set seen. \<exists>m \<in> set (p # ms). within q m" "\<forall>m \<in> set (p # ms). fr_start m \<in> fr_start ` set seen"
    "found_positions (p # ms) = found_positions seen" "found_rules (p # ms) = found_rules seen" "list_all proper ms"
    using assms(1) Cons by (simp_all add: merged_ok_def)
  show ?thesis
  proof (cases "fr_start r \<ge> fr_end p")
    case True
    then have "\<forall>m \<in> set (p # ms). fr_end m \<le> fr_start r" using order(1) p by (auto simp: proper_def)
    then show ?thesis
      using True Cons assms(1,2) unfolding merged_ok_def
      by (auto simp: sorted_wrt_append apart_def)
  next
    case False
    obtain n where n: "merge_step (p # ms) r = n # ms" "fr_start n = fr_start p" "fr_end n = max (fr_end p) (fr_end r)"
      "set (fr_ruleIds n) = set (fr_ruleIds p) \<union> set (fr_ruleIds r)"
      using False by (auto simp: Let_def)
    have w: "within p n" "within r n" using n p by (auto simp: within_def)
    have pos: "{fr_start n ..< fr_end n} = {fr_start p ..< fr_end p} \<union> {fr_start r ..< fr_end r}"
      using n(2,3) p False by auto
    have cover: "\<exists>m \<in> set (n # ms). within q m" if "q \<in> set (seen @ [r])" for q
      using sound(1) that w within_trans by (metis Un_iff insert_iff list.set set_append singletonD)
    have rest: "found_positions (n # ms) = found_positions (seen @ [r])" "found_rules (n # ms) = found_rules (seen @ [r])"
      "\<forall>m \<in> set (n # ms). fr_start m \<in> fr_start ` set (seen @ [r])"
      using sound(2-4) pos n(2,4) by auto
    show ?thesis
      unfolding Cons n(1) merged_ok_def
      using cover rest order n(2,3) p sound(5)
      by (auto simp: sorted_wrt_append apart_def proper_def)
  qed
qed

lemma foldl_merge_ok:
  assumes "merged_ok seen merged" and "list_all proper rs" and "sorted (map fr_start (seen @ rs))"
  shows "merged_ok (seen @ rs) (foldl merge_step merged rs)"
  using assms
proof (induction rs arbitrary: seen merged)
  case (Cons r rs)
  have "merged_ok (seen @ [r]) (merge_step merged r)"
    by (rule merge_step_ok) (use Cons.prems in \<open>auto simp: sorted_append\<close>)
  then show ?case using Cons.IH [of "seen @ [r]"] Cons.prems by simp
qed simp

lemma sort_ranges_spec [simp]:
  "sorted (map fr_start (sort_ranges rs))" "set (sort_ranges rs) = set rs"
  by (simp_all add: sort_ranges_def)

lemma merged: "list_all proper rs \<Longrightarrow> merged_ok (sort_ranges rs) (rev (mergeRanges rs))"
  using foldl_merge_ok [of "[]" "[]" "sort_ranges rs"]
  by (simp add: mergeRanges_def merged_ok_def found_positions_def found_rules_def list_all_iff)

lemma found_set: "set rs = set qs \<Longrightarrow> found_positions rs = found_positions qs \<and> found_rules rs = found_rules qs"
  by (simp add: found_positions_def found_rules_def)

lemma mergeRanges_ok:
  assumes "list_all proper rs"
  shows "sorted_wrt apart (mergeRanges rs)" and "list_all proper (mergeRanges rs)"
    and "r \<in> set rs \<Longrightarrow> \<exists>m \<in> set (mergeRanges rs). within r m"
    and "found_positions (mergeRanges rs) = found_positions rs" and "found_rules (mergeRanges rs) = found_rules rs"
  using merged [OF assms] found_set [of "sort_ranges rs" rs] found_set [of "rev (mergeRanges rs)" "mergeRanges rs"]
  by (simp_all add: merged_ok_def)

text \<open>
  C40: Merging loses and adds nothing: the merged ranges are in the order of the text and disjoint, every range
  that was found lies within one of them that carries its rules, and together they cover exactly the positions
  and name exactly the rules of the ranges that were found.
\<close>

theorem mergeRanges_exact:
  assumes "list_all proper rs"
  shows "sorted_wrt apart (mergeRanges rs) \<and> list_all proper (mergeRanges rs) \<and>
    (\<forall>r \<in> set rs. \<exists>m \<in> set (mergeRanges rs). within r m) \<and>
    found_positions (mergeRanges rs) = found_positions rs \<and> found_rules (mergeRanges rs) = found_rules rs"
  using mergeRanges_ok [OF assms] by blast

definition sample_found :: "nat \<Rightarrow> nat \<Rightarrow> string \<Rightarrow> found_range" where
  "sample_found a b rule =
     \<lparr>fr_start = a, fr_end = b, fr_ruleIds = [rule], fr_configuredSecret = None, fr_secretValue = None\<rparr>"

theorem mergeRanges_exact_witness:
  "found_positions (mergeRanges [sample_found 5 7 ''b'', sample_found 1 4 ''a'', sample_found 3 6 ''c'']) = {1 ..< 7}"
proof -
  let ?rs = "[sample_found 5 7 ''b'', sample_found 1 4 ''a'', sample_found 3 6 ''c'']"
  have "found_positions (mergeRanges ?rs) = found_positions ?rs"
    using mergeRanges_exact [of ?rs] by (simp add: proper_def sample_found_def)
  also have "\<dots> = {1 ..< 7}" by (auto simp: found_positions_def sample_found_def)
  finally show ?thesis .
qed

section \<open>Occurrences of a secret\<close>

definition occurs :: "string \<Rightarrow> string \<Rightarrow> nat \<Rightarrow> bool" where
  "occurs secret text x \<longleftrightarrow> secret \<noteq> [] \<and> starts_with (drop x text) secret"

lemma exact_starts_sound:
  "secret \<noteq> [] \<Longrightarrow> e \<in> set (exact_starts secret i s) \<Longrightarrow> \<exists>k. e = i + k \<and> occurs secret s k"
proof (induction secret i s rule: exact_starts.induct)
  case (2 secret i c cs)
  let ?n = "max 1 (length secret)"
  have n: "?n = length secret" using 2(3) by (cases secret) auto
  show ?case
  proof (cases "starts_with (c # cs) secret")
    case True
    show ?thesis
    proof (cases "e = i")
      case True
      then show ?thesis using 2(3) \<open>starts_with (c # cs) secret\<close> by (intro exI [of _ 0]) (simp add: occurs_def)
    next
      case False
      then obtain k where "e = i + ?n + k" "occurs secret (drop ?n (c # cs)) k"
        using 2(1) [OF True 2(3)] 2(4) True by auto
      then show ?thesis by (intro exI [of _ "?n + k"]) (simp add: occurs_def add.commute)
    qed
  next
    case False
    then obtain k where "e = i + 1 + k" "occurs secret cs k" using 2(2) [OF False 2(3)] 2(4) by auto
    then show ?thesis by (intro exI [of _ "Suc k"]) (simp add: occurs_def)
  qed
qed simp

lemma exact_starts_complete:
  "occurs secret s k \<Longrightarrow> \<exists>e \<in> set (exact_starts secret i s). e \<le> i + k \<and> i + k < e + length secret"
proof (induction secret i s arbitrary: k rule: exact_starts.induct)
  case (2 secret i c cs)
  let ?n = "max 1 (length secret)"
  have n: "?n = length secret" "0 < length secret" using 2(3) by (cases secret; auto simp: occurs_def)+
  show ?case
  proof (cases "starts_with (c # cs) secret")
    case True
    show ?thesis
    proof (cases "k < length secret")
      case True
      then show ?thesis using \<open>starts_with (c # cs) secret\<close> by simp
    next
      case False
      then have "occurs secret (drop ?n (c # cs)) (k - ?n)"
        using 2(3) n(2) unfolding n(1) by (simp add: occurs_def)
      then obtain e where "e \<in> set (exact_starts secret (i + ?n) (drop ?n (c # cs)))"
          "e \<le> i + ?n + (k - ?n)" "i + ?n + (k - ?n) < e + length secret"
        using 2(1) [OF True, of "k - ?n"] by blast
      then show ?thesis using True False n by (intro bexI [of _ e]) auto
    qed
  next
    case False
    then obtain j where j: "k = Suc j" using 2(3) by (cases k) (auto simp: occurs_def)
    then show ?thesis using 2(2) [OF False, of j] 2(3) False by (auto simp: occurs_def)
  qed
qed (auto simp: occurs_def)

section \<open>Replacing\<close>

text \<open>The text with disjoint ranges in its order replaced; \<open>s\<close> starts at position \<open>i\<close>.\<close>

fun fill_ranges :: "nat \<Rightarrow> string \<Rightarrow> (text_range \<times> string) list \<Rightarrow> string" where
  "fill_ranges i s [] = s"
| "fill_ranges i s ((r, w) # rs) =
     take (tx_start r - i) s @ w @ fill_ranges (tx_end r) (drop (tx_end r - i) s) rs"

fun in_order :: "nat \<Rightarrow> nat \<Rightarrow> text_range list \<Rightarrow> bool" where
  "in_order i n [] \<longleftrightarrow> i \<le> n"
| "in_order i n (r # rs) \<longleftrightarrow> i \<le> tx_start r \<and> tx_start r < tx_end r \<and> tx_end r \<le> n \<and> in_order (tx_end r) n rs"

lemma splice_ranges:
  assumes "in_order i (i + length s) (map fst rs)" and "length pre = i"
  shows "foldr splice rs (pre @ s) = pre @ fill_ranges i s rs"
  using assms
proof (induction rs arbitrary: i s pre)
  case (Cons rw rs)
  obtain r w where rw: "rw = (r, w)" by (cases rw)
  let ?b = "tx_end r - i"
  have b: "i \<le> tx_start r" "tx_start r < tx_end r" "tx_end r \<le> i + length s" "i + ?b = tx_end r"
    "in_order (tx_end r) (i + length s) (map fst rs)" using Cons.prems(1) rw by simp_all
  have IH: "foldr splice rs ((pre @ take ?b s) @ drop ?b s) = (pre @ take ?b s) @ fill_ranges (tx_end r) (drop ?b s) rs"
    by (rule Cons.IH) (use b Cons.prems(2) in \<open>simp_all add: add.commute\<close>)
  have "splice (r, w) ((pre @ take ?b s) @ fill_ranges (tx_end r) (drop ?b s) rs) =
      pre @ take (tx_start r - i) s @ w @ fill_ranges (tx_end r) (drop ?b s) rs"
    using b Cons.prems(2) by (simp add: splice_def min_def)
  then show ?case using IH rw by simp
qed simp

lemma in_order_strict: "in_order i n rs \<Longrightarrow> sorted_wrt (\<lambda>r q. tx_start r < tx_start q) rs \<and> (\<forall>r \<in> set rs. i \<le> tx_start r)"
  by (induction i n rs rule: in_order.induct) fastforce+

lemma sort_key_rev:
  assumes "sorted_wrt (\<lambda>x y. f x < f y) xs"
  shows "sort_key (f :: 'a \<Rightarrow> nat) (rev xs) = xs"
proof (rule sort_key_inj_key_eq)
  have s: "sorted_wrt (<) (map f xs)" using assms by (simp add: sorted_wrt_map)
  then show "sorted (map f xs)" "inj_on f (set (rev xs))" by (simp_all add: strict_sorted_iff distinct_map)
qed simp

section \<open>Bytes\<close>

text \<open>\<open>Buffer.from(text, "utf8")\<close> of a text that is not cut inside a pair of surrogates\<close>

definition codec_ok :: "utf8_codec \<Rightarrow> bool" where
  "codec_ok U \<longleftrightarrow> (\<forall>a b. uc_encode U (a @ b) = uc_encode U a @ uc_encode U b)"

lemma codec_append: "codec_ok U \<Longrightarrow> uc_encode U (a @ b) = uc_encode U a @ uc_encode U b"
  by (simp add: codec_ok_def)

lemma encode_drop:
  assumes "codec_ok U"
  shows "drop (length (uc_encode U (take n t))) (uc_encode U t) = uc_encode U (drop n t)"
  using codec_append [OF assms, of "take n t" "drop n t"] by simp

lemma encode_slice:
  assumes "codec_ok U" and "i \<le> a"
  shows "js_slice (uc_encode U t) (length (uc_encode U (take i t))) (length (uc_encode U (take a t))) =
    uc_encode U (take (a - i) (drop i t))"
proof -
  have "take a t = take i t @ take (a - i) (drop i t)" using assms(2) by (simp flip: take_add)
  then have "length (uc_encode U (take a t)) - length (uc_encode U (take i t)) =
      length (uc_encode U (take (a - i) (drop i t)))"
    using codec_append [OF assms(1), of "take i t" "take (a - i) (drop i t)"] by simp
  moreover have "uc_encode U (drop i t) = uc_encode U (take (a - i) (drop i t)) @ uc_encode U (drop (a - i) (drop i t))"
    using codec_append [OF assms(1), of "take (a - i) (drop i t)" "drop (a - i) (drop i t)"]
    unfolding append_take_drop_id .
  ultimately show ?thesis by (simp add: js_slice_def encode_drop [OF assms(1)])
qed

definition as_replacement :: "text_range \<times> string \<Rightarrow> text_replacement" where
  "as_replacement rw = \<lparr>rp_start = tx_start (fst rw), rp_end = tx_end (fst rw), rp_value = snd rw\<rparr>"

lemma byte_chunks_fill:
  assumes "codec_ok U" and "in_order i (length text) (map fst rs)"
  shows "byte_chunks U (uc_encode U text) text (length (uc_encode U (take i text))) (map as_replacement rs) =
    uc_encode U (fill_ranges i (drop i text) rs)"
  using assms(2)
proof (induction rs arbitrary: i)
  case Nil
  then show ?case by (simp add: encode_drop assms(1))
next
  case (Cons rw rs)
  obtain r w where rw: "rw = (r, w)" by (cases rw)
  have b: "i \<le> tx_start r" "tx_start r < tx_end r" "in_order (tx_end r) (length text) (map fst rs)"
    using Cons.prems rw by simp_all
  then have "tx_end r - i + i = tx_end r" by simp
  then show ?case
    using Cons.IH [OF b(3)] b rw
    by (simp add: as_replacement_def encode_slice assms(1) codec_append Let_def)
qed

lemma byte_replacements:
  assumes "codec_ok U" and "in_order 0 (length text) (map fst rs)"
  shows "applyByteReplacements U (uc_encode U text) text (map as_replacement (rev rs)) =
    uc_encode U (fill_ranges 0 text rs)"
proof (cases rs)
  case (Cons x xs)
  have "sorted_wrt (\<lambda>x y. rp_start x < rp_start y) (map as_replacement rs)"
    using in_order_strict [OF assms(2)] by (simp add: sorted_wrt_map as_replacement_def)
  then have "sort_key rp_start (map as_replacement (rev rs)) = map as_replacement rs"
    unfolding rev_map [symmetric] by (rule sort_key_rev)
  moreover have "uc_encode U [] = []" using codec_append [OF assms(1), of "[]" "[]"] by simp
  ultimately show ?thesis
    using byte_chunks_fill [OF assms] Cons by (simp add: applyByteReplacements_def)
qed (simp add: applyByteReplacements_def)

text \<open>
  Replacing ranges in the bytes of a text is replacing them in the text: for disjoint ranges in the text, whatever
  order the replacements come in from the right, the result is the encoding of the text with them replaced.
\<close>

theorem byte_replacement_exact:
  assumes "codec_ok U" and "in_order 0 (length text) (map fst rs)"
  shows "applyByteReplacements U (uc_encode U text) text (map as_replacement (rev rs)) =
    uc_encode U (fill_ranges 0 text rs)"
  using assms by (rule byte_replacements)

text \<open>The UTF-8 coding of the characters of the model.\<close>

definition utf8_char :: "char \<Rightarrow> nat list" where
  "utf8_char c = (if char_code c < 128 then [char_code c] else [192 + char_code c div 64, 128 + char_code c mod 64])"

definition latin1_codec :: utf8_codec where
  "latin1_codec = \<lparr>uc_decode = (\<lambda>bs. Some (map char_of bs)), uc_encode = (\<lambda>t. concat (map utf8_char t))\<rparr>"

theorem byte_replacement_exact_witness:
  "applyByteReplacements latin1_codec (uc_encode latin1_codec [CHR 0xE9, CHR ''a'', CHR ''b'']) [CHR 0xE9, CHR ''a'', CHR ''b'']
     [\<lparr>rp_start = 1, rp_end = 2, rp_value = ''T''\<rparr>] = uc_encode latin1_codec [CHR 0xE9, CHR ''T'', CHR ''b'']"
proof -
  have "codec_ok latin1_codec" by (simp add: codec_ok_def latin1_codec_def)
  from byte_replacement_exact [OF this, of "[CHR 0xE9, CHR ''a'', CHR ''b'']" "[(\<lparr>tx_start = 1, tx_end = 2\<rparr>, ''T'')]"]
  show ?thesis by (simp add: as_replacement_def)
qed

end
