(* ===== verification/SensitiveJson.thy ===== *)
theory SensitiveJson
  imports Substitution
begin

text \<open>
  \<^verbatim>\<open>src/sensitiveJson.ts\<close>, the search for values with sensitive names in JSON text. The tokens come
  from the scanner as for substitution; \<open>matcher\<close> is \<open>SensitiveNameMatcher.match\<close>.
\<close>

section \<open>Model\<close>

record source_finding =
  sf_start :: nat
  sf_end :: nat
  sf_secretValue :: string
  sf_ruleIds :: "string list"

record string_property =
  sp_name :: string
  sp_value :: string
  sp_valueStart :: nat
  sp_valueEnd :: nat
  sp_valueError :: bool
  sp_objectId :: nat

definition unsafeSensitiveValue :: gateway_exception where
  "unsafeSensitiveValue =
     gateway_error Secret_scan_failed ''Sensitive JSON value does not have a safe complete string range.''"

fun findStringProperties :: "scanned_token list \<Rightarrow> string_property list" where
  "findStringProperties (key # colon # v # ts) =
     (if sk_kind key \<noteq> Kind_string_literal \<or> sk_error key \<or> sk_kind colon \<noteq> Kind_colon \<or>
         sk_kind v \<noteq> Kind_string_literal \<or> sk_objectId key = None \<or>
         sk_objectId key \<noteq> sk_objectId colon \<or> sk_objectId key \<noteq> sk_objectId v
      then []
      else [\<lparr>sp_name = sk_value key, sp_value = sk_value v, sp_valueStart = sk_offset v + 1,
             sp_valueEnd = sk_offset v + sk_length v - 1, sp_valueError = sk_error v,
             sp_objectId = the (sk_objectId key)\<rparr>])
     @ findStringProperties (colon # v # ts)"
| "findStringProperties _ = []"

text \<open>The first loop of \<open>findSensitiveJsonValues\<close>\<close>

definition toFinding :: "string_property \<Rightarrow> string \<Rightarrow> string list \<Rightarrow> source_finding" where
  "toFinding p secretValue ruleIds =
     \<lparr>sf_start = sp_valueStart p, sf_end = sp_valueEnd p, sf_secretValue = secretValue, sf_ruleIds = ruleIds\<rparr>"

definition property_finding :: "(string \<Rightarrow> string list) \<Rightarrow> string_property \<Rightarrow> source_finding list gateway_result" where
  "property_finding matcher p =
     (let ruleIds = matcher (sp_name p)
      in if ruleIds = [] then Inr []
         else if sp_valueError p then Inl unsafeSensitiveValue
         else if sp_value p = [] then Inr []
         else Inr [toFinding p (sp_value p) ruleIds])"

fun failOnMissingSensitiveValues :: "scanned_token list \<Rightarrow> (string \<Rightarrow> string list) \<Rightarrow> unit gateway_result" where
  "failOnMissingSensitiveValues (key # colon # ts) matcher =
     (if sk_kind key \<noteq> Kind_string_literal \<or> sk_error key \<or> sk_kind colon \<noteq> Kind_colon \<or>
         sk_objectId key = None \<or> sk_objectId key \<noteq> sk_objectId colon \<or> matcher (sk_value key) = []
      then failOnMissingSensitiveValues (colon # ts) matcher
      else case ts of
             [] \<Rightarrow> Inl unsafeSensitiveValue
           | v # _ \<Rightarrow>
               (if sk_kind v = Kind_string_literal \<and> sk_error v then Inl unsafeSensitiveValue
                else failOnMissingSensitiveValues (colon # ts) matcher))"
| "failOnMissingSensitiveValues _ matcher = Inr ()"

text \<open>The loop over the objects: one property named \<open>name\<close> or \<open>key\<close> and one named \<open>value\<close>\<close>

definition propertiesByObject :: "string_property list \<Rightarrow> string_property list list" where
  "propertiesByObject ps =
     map (\<lambda>objectId. filter (\<lambda>p. sp_objectId p = objectId) ps) (js_unique (map sp_objectId ps))"

definition pair_finding :: "(string \<Rightarrow> string list) \<Rightarrow> string_property list \<Rightarrow> source_finding list gateway_result" where
  "pair_finding matcher ps =
     (case (filter (\<lambda>p. sp_name p = ''name'' \<or> sp_name p = ''key'') ps, filter (\<lambda>p. sp_name p = ''value'') ps) of
        ([name], [v]) \<Rightarrow>
          (if sp_valueError name \<or> sp_valueError v
           then (if \<not> sp_valueError name \<and> matcher (sp_value name) \<noteq> [] then Inl unsafeSensitiveValue else Inr [])
           else let ruleIds = matcher (sp_value name)
                in if ruleIds = [] \<or> sp_value v = [] then Inr [] else Inr [toFinding v (sp_value v) ruleIds])
      | _ \<Rightarrow> Inr [])"

text \<open>The loop over strings of the form \<open>name=value\<close>\<close>

definition assignment_finding ::
  "(string \<Rightarrow> string list) \<Rightarrow> string \<Rightarrow> scanned_token \<Rightarrow> scanned_token option \<Rightarrow> source_finding list gateway_result" where
  "assignment_finding matcher text token following =
     (if sk_kind token \<noteq> Kind_string_literal \<or> (case following of None \<Rightarrow> False | Some u \<Rightarrow> sk_kind u = Kind_colon)
      then Inr []
      else let raw = js_slice text (sk_offset token + 1) (sk_offset token + sk_length token - 1);
               name = takeWhile (\<lambda>c. c \<noteq> CHR ''='') raw
           in if CHR ''='' \<notin> set raw \<or> name = [] \<or> CHR 0x5C \<in> set name then Inr []
              else let ruleIds = matcher name;
                       secretValue = drop (length name + 1) (sk_value token)
                   in if ruleIds \<noteq> [] \<and> sk_error token then Inl unsafeSensitiveValue
                      else if sk_error token \<or> ruleIds = [] \<or> secretValue = [] then Inr []
                      else Inr [\<lparr>sf_start = sk_offset token + length name + 2,
                                 sf_end = sk_offset token + sk_length token - 1,
                                 sf_secretValue = secretValue, sf_ruleIds = ruleIds\<rparr>])"

fun assignment_findings ::
  "(string \<Rightarrow> string list) \<Rightarrow> string \<Rightarrow> scanned_token list \<Rightarrow> source_finding list gateway_result" where
  "assignment_findings matcher text [] = Inr []"
| "assignment_findings matcher text (t # ts) =
     result_bind (assignment_finding matcher text t (case ts of [] \<Rightarrow> None | u # _ \<Rightarrow> Some u)) (\<lambda>fs.
     result_map_value (\<lambda>gs. fs @ gs) (assignment_findings matcher text ts))"

text \<open>The map of \<open>mergeFindings\<close> has the range of a finding as its key.\<close>

definition merge_finding ::
  "((nat \<times> nat), source_finding) jmap \<Rightarrow> source_finding \<Rightarrow> ((nat \<times> nat), source_finding) jmap" where
  "merge_finding merged f =
     (let key = (sf_start f, sf_end f)
      in case jmap_get merged key of
           Some existing \<Rightarrow>
             jmap_set merged key (existing\<lparr>sf_ruleIds := js_unique (sf_ruleIds existing @ sf_ruleIds f)\<rparr>)
         | None \<Rightarrow> jmap_set merged key f)"

definition mergeFindings :: "source_finding list \<Rightarrow> source_finding list" where
  "mergeFindings fs = map snd (foldl merge_finding [] fs)"

definition findSensitiveJsonValues ::
  "(string \<Rightarrow> scanned_token list) \<Rightarrow> (string \<Rightarrow> string list) \<Rightarrow> string \<Rightarrow> source_finding list gateway_result" where
  "findSensitiveJsonValues scanner matcher text =
     (let tokens = scanMeaningfulTokens scanner text; properties = findStringProperties tokens
      in result_bind (result_map (property_finding matcher) properties) (\<lambda>direct.
         result_bind (failOnMissingSensitiveValues tokens matcher) (\<lambda>_.
         result_bind (result_map (pair_finding matcher) (propertiesByObject properties)) (\<lambda>pairs.
         result_bind (assignment_findings matcher text tokens) (\<lambda>assignments.
           Inr (mergeFindings (concat direct @ concat pairs @ assignments)))))))"

section \<open>What is found\<close>

text \<open>A finding stands for another one: the same range, and at least its rules.\<close>

definition reports :: "source_finding \<Rightarrow> source_finding \<Rightarrow> bool" where
  "reports g f \<longleftrightarrow> sf_start g = sf_start f \<and> sf_end g = sf_end f \<and> set (sf_ruleIds f) \<subseteq> set (sf_ruleIds g)"

abbreviation finding_range :: "source_finding \<Rightarrow> nat \<times> nat" where
  "finding_range f \<equiv> (sf_start f, sf_end f)"

definition merged_findings :: "((nat \<times> nat), source_finding) jmap \<Rightarrow> source_finding list \<Rightarrow> bool" where
  "merged_findings m seen \<longleftrightarrow> jmap_ok m \<and> (\<forall>k v. jmap_get m k = Some v \<longrightarrow> finding_range v = k) \<and>
     (\<forall>f \<in> set seen. \<exists>v. jmap_get m (finding_range f) = Some v \<and> reports v f)"

lemma reports_refl [simp]: "reports f f"
  by (simp add: reports_def)

lemma merge_finding_ok:
  assumes "merged_findings m seen"
  shows "merged_findings (merge_finding m f) (seen @ [f])"
proof (cases "jmap_get m (finding_range f)")
  case None
  then show ?thesis using assms by (auto simp: merged_findings_def merge_finding_def)
next
  case (Some v)
  then have v: "finding_range v = finding_range f" using assms unfolding merged_findings_def by blast
  let ?v = "v\<lparr>sf_ruleIds := js_unique (sf_ruleIds v @ sf_ruleIds f)\<rparr>"
  have step: "merge_finding m f = jmap_set m (finding_range f) ?v" using Some by (simp add: merge_finding_def)
  have "reports ?v f" "reports v g \<Longrightarrow> reports ?v g" for g using v by (auto simp: reports_def)
  moreover have "\<exists>u. jmap_get m (finding_range g) = Some u \<and> reports u g" if "g \<in> set seen" for g
    using assms that unfolding merged_findings_def by blast
  ultimately have "\<exists>u. jmap_get (merge_finding m f) (finding_range g) = Some u \<and> reports u g"
    if "g \<in> set (seen @ [f])" for g
    using that Some unfolding step jmap_get_set by (metis Un_iff option.inject set_ConsD set_append empty_iff list.set(1))
  moreover have "finding_range u = k" if "jmap_get (merge_finding m f) k = Some u" for k u
  proof (cases "k = finding_range f")
    case True
    then show ?thesis using that v unfolding step jmap_get_set by auto
  next
    case False
    then have "jmap_get m k = Some u" using that unfolding step jmap_get_set by simp
    then show ?thesis using assms unfolding merged_findings_def by blast
  qed
  moreover have "jmap_ok (merge_finding m f)" using assms unfolding step merged_findings_def by (intro jmap_ok_set) blast
  ultimately show ?thesis unfolding merged_findings_def by blast
qed

lemma foldl_merge_findings: "merged_findings m seen \<Longrightarrow> merged_findings (foldl merge_finding m fs) (seen @ fs)"
proof (induction fs arbitrary: m seen)
  case (Cons f fs)
  then show ?case using Cons.IH [OF merge_finding_ok] by fastforce
qed simp

lemma mergeFindings_reports:
  "distinct (map finding_range (mergeFindings fs)) \<and> (\<forall>f \<in> set fs. \<exists>g \<in> set (mergeFindings fs). reports g f)"
proof -
  let ?m = "foldl merge_finding [] fs"
  have m: "merged_findings ?m fs" using foldl_merge_findings [of "[]" "[]" fs] by (simp add: merged_findings_def)
  note parts = m [unfolded merged_findings_def]
  note ok = parts [THEN conjunct1] and own = parts [THEN conjunct2, THEN conjunct1, rule_format]
    and seen = parts [THEN conjunct2, THEN conjunct2]
  have "finding_range (snd e) = fst e" if "e \<in> set ?m" for e
  proof (rule own)
    show "jmap_get ?m (fst e) = Some (snd e)" unfolding jmap_get_iff [OF ok] prod.collapse by (rule that)
  qed
  then have keys: "map finding_range (map snd ?m) = map fst ?m" unfolding map_map by (intro map_cong) simp_all
  have "\<exists>g \<in> set (map snd ?m). reports g f" if "f \<in> set fs" for f
  proof -
    from bspec [OF seen that] obtain v where v: "jmap_get ?m (finding_range f) = Some v \<and> reports v f" ..
    have "v \<in> set (map snd ?m)" using imageI [OF map_of_SomeD [OF conjunct1 [OF v]], of snd] by (simp only: snd_conv list.set_map)
    then show ?thesis using conjunct2 [OF v] by (rule bexI [rotated])
  qed
  then show ?thesis using ok unfolding mergeFindings_def keys jmap_ok_def by simp
qed

text \<open>The loops visit every place of the token list.\<close>

lemma findStringProperties_at:
  assumes "sk_kind key = Kind_string_literal" and "\<not> sk_error key" and "sk_kind colon = Kind_colon"
    and "sk_kind v = Kind_string_literal" and "sk_objectId key = Some i" and "sk_objectId colon = Some i"
    and "sk_objectId v = Some i"
  shows "\<lparr>sp_name = sk_value key, sp_value = sk_value v, sp_valueStart = sk_offset v + 1,
      sp_valueEnd = sk_offset v + sk_length v - 1, sp_valueError = sk_error v, sp_objectId = i\<rparr>
    \<in> set (findStringProperties (pre @ key # colon # v # post))" (is "?p \<in> _")
proof (induction pre)
  case (Cons t pre)
  have "set (findStringProperties ts) \<subseteq> set (findStringProperties (t # ts))" for ts
    by (cases ts rule: findStringProperties.cases) auto
  then show ?case using Cons by auto
qed (use assms in simp)

lemma assignment_findings_at:
  assumes "assignment_findings matcher text (pre @ t # post) = Inr fs"
  shows "\<exists>gs. assignment_finding matcher text t (case post of [] \<Rightarrow> None | u # _ \<Rightarrow> Some u) = Inr gs \<and> set gs \<subseteq> set fs"
  using assms
proof (induction pre arbitrary: fs)
  case (Cons u pre)
  then show ?case by (auto simp: result_bind_Inr result_map_value_Inr) fastforce
qed (auto simp: result_bind_Inr result_map_value_Inr)

text \<open>What the search owes: a finding with the range and all the rules\<close>

definition reported :: "source_finding list \<Rightarrow> nat \<Rightarrow> nat \<Rightarrow> string list \<Rightarrow> bool" where
  "reported fs start stop ruleIds \<longleftrightarrow>
     list_ex (\<lambda>f. sf_start f = start \<and> sf_end f = stop \<and> set ruleIds \<subseteq> set (sf_ruleIds f)) fs"

lemma merged_reported:
  "f \<in> set fs \<Longrightarrow> reported (mergeFindings fs) (sf_start f) (sf_end f) (sf_ruleIds f)"
  using mergeFindings_reports [of fs] unfolding reported_def list_ex_iff reports_def by blast

lemma findSensitiveJsonValues_parts:
  assumes "findSensitiveJsonValues scanner matcher text = Inr fs"
  obtains direct pairs assignments
  where "result_map (property_finding matcher) (findStringProperties (scanMeaningfulTokens scanner text)) = Inr direct"
    and "assignment_findings matcher text (scanMeaningfulTokens scanner text) = Inr assignments"
    and "fs = mergeFindings (concat direct @ concat pairs @ assignments)"
  using assms by (auto simp: findSensitiveJsonValues_def Let_def result_bind_Inr)

lemma direct_value_reported:
  assumes fs: "findSensitiveJsonValues scanner matcher text = Inr fs"
    and at: "scanMeaningfulTokens scanner text = pre @ key # colon # v # post"
    and key: "sk_kind key = Kind_string_literal" "\<not> sk_error key" "sk_kind colon = Kind_colon"
      "sk_kind v = Kind_string_literal" "sk_objectId key = Some i" "sk_objectId colon = Some i" "sk_objectId v = Some i"
    and named: "matcher (sk_value key) \<noteq> []"
  shows "\<not> sk_error v \<and>
    (sk_value v = [] \<or> reported fs (sk_offset v + 1) (sk_offset v + sk_length v - 1) (matcher (sk_value key)))"
proof -
  let ?p = "\<lparr>sp_name = sk_value key, sp_value = sk_value v, sp_valueStart = sk_offset v + 1,
      sp_valueEnd = sk_offset v + sk_length v - 1, sp_valueError = sk_error v, sp_objectId = i\<rparr>"
  have p: "?p \<in> set (findStringProperties (scanMeaningfulTokens scanner text))"
    unfolding at by (rule findStringProperties_at [OF key])
  obtain direct pairs assignments
    where direct: "result_map (property_finding matcher) (findStringProperties (scanMeaningfulTokens scanner text)) = Inr direct"
      and merged: "fs = mergeFindings (concat direct @ concat pairs @ assignments)"
    using findSensitiveJsonValues_parts [OF fs] by metis
  obtain ys where ys: "property_finding matcher ?p = Inr ys" "ys \<in> set direct"
    using direct p unfolding result_map_Inr_map by (auto simp: image_iff) (metis sum.sel(2))
  then have "reported fs (sf_start f) (sf_end f) (sf_ruleIds f)" if "f \<in> set ys" for f
    using that merged_reported [of f "concat direct @ concat pairs @ assignments"] unfolding merged by auto
  then show ?thesis
    using ys(1) named by (auto simp: property_finding_def Let_def toFinding_def split: if_splits)
qed

lemma assigned_value_reported:
  assumes fs: "findSensitiveJsonValues scanner matcher text = Inr fs"
    and at: "scanMeaningfulTokens scanner text = pre @ t # post"
    and t: "sk_kind t = Kind_string_literal" "post = [] \<or> sk_kind (hd post) \<noteq> Kind_colon"
    and raw: "js_slice text (sk_offset t + 1) (sk_offset t + sk_length t - 1) = name @ CHR ''='' # rest"
    and name: "name \<noteq> []" "CHR ''='' \<notin> set name" "CHR 0x5C \<notin> set name" "matcher name \<noteq> []"
  shows "\<not> sk_error t \<and> (drop (length name + 1) (sk_value t) = [] \<or>
    reported fs (sk_offset t + length name + 2) (sk_offset t + sk_length t - 1) (matcher name))"
proof -
  obtain direct pairs assignments
    where found: "assignment_findings matcher text (scanMeaningfulTokens scanner text) = Inr assignments"
      and merged: "fs = mergeFindings (concat direct @ concat pairs @ assignments)"
    using findSensitiveJsonValues_parts [OF fs] by metis
  obtain gs where gs: "assignment_finding matcher text t (case post of [] \<Rightarrow> None | u # _ \<Rightarrow> Some u) = Inr gs"
    "set gs \<subseteq> set assignments"
    using assignment_findings_at [OF found [unfolded at]] by blast
  then have shown: "reported fs (sf_start f) (sf_end f) (sf_ruleIds f)" if "f \<in> set gs" for f
    using that merged_reported [of f "concat direct @ concat pairs @ assignments"] unfolding merged by auto
  have take: "takeWhile (\<lambda>c. c \<noteq> CHR ''='') (name @ CHR ''='' # rest) = name"
    using name(2) by (subst takeWhile_append2) auto
  have follow: "\<not> (case (case post of [] \<Rightarrow> None | u # _ \<Rightarrow> Some u) of None \<Rightarrow> False | Some u \<Rightarrow> sk_kind u = Kind_colon)"
    using t(2) by (cases post) simp_all
  show ?thesis
    using gs(1) shown name follow unfolding assignment_finding_def raw Let_def take
    by (auto simp: t(1) split: if_splits)
qed

text \<open>
  C14: The values of sensitive names in a JSON text are found: when the search succeeds, then wherever the tokens of
  the text have a property of an object with a complete string as its name, a rule that matches the name, and a string
  as its value, the string is complete and it is empty or reported with the range between its quotes and all the rules
  that match; and the same holds of the value in a string \<open>name=value\<close> that is not itself a property name.
  No range is reported twice. The search selects only strings, so other values are outside this claim.
\<close>

theorem sensitive_values_reported:
  assumes "findSensitiveJsonValues scanner matcher text = Inr fs"
  shows "distinct (map finding_range fs) \<and>
    (\<forall>pre key colon v post i.
      scanMeaningfulTokens scanner text = pre @ key # colon # v # post \<longrightarrow>
      sk_kind key = Kind_string_literal \<longrightarrow> \<not> sk_error key \<longrightarrow> sk_kind colon = Kind_colon \<longrightarrow>
      sk_kind v = Kind_string_literal \<longrightarrow> sk_objectId key = Some i \<longrightarrow> sk_objectId colon = Some i \<longrightarrow>
      sk_objectId v = Some i \<longrightarrow> matcher (sk_value key) \<noteq> [] \<longrightarrow>
      \<not> sk_error v \<and>
      (sk_value v = [] \<or> reported fs (sk_offset v + 1) (sk_offset v + sk_length v - 1) (matcher (sk_value key)))) \<and>
    (\<forall>pre t post name rest.
      scanMeaningfulTokens scanner text = pre @ t # post \<longrightarrow>
      sk_kind t = Kind_string_literal \<longrightarrow> post = [] \<or> sk_kind (hd post) \<noteq> Kind_colon \<longrightarrow>
      js_slice text (sk_offset t + 1) (sk_offset t + sk_length t - 1) = name @ CHR ''='' # rest \<longrightarrow>
      name \<noteq> [] \<longrightarrow> CHR ''='' \<notin> set name \<longrightarrow> CHR 0x5C \<notin> set name \<longrightarrow> matcher name \<noteq> [] \<longrightarrow>
      \<not> sk_error t \<and> (drop (length name + 1) (sk_value t) = [] \<or>
        reported fs (sk_offset t + length name + 2) (sk_offset t + sk_length t - 1) (matcher name)))"
proof (intro conjI allI impI)
  obtain found where "fs = mergeFindings found" using findSensitiveJsonValues_parts [OF assms] by metis
  then show "distinct (map finding_range fs)" using mergeFindings_reports by simp
qed (use direct_value_reported [OF assms] assigned_value_reported [OF assms] in blast)+

definition sample_json_token :: "syntax_kind \<Rightarrow> nat \<Rightarrow> nat \<Rightarrow> string \<Rightarrow> scanned_token" where
  "sample_json_token k i n v =
     \<lparr>sk_kind = k, sk_offset = i, sk_length = n, sk_value = v, sk_error = False, sk_objectId = None\<rparr>"

definition sample_scan :: "string \<Rightarrow> scanned_token list" where
  "sample_scan text = [sample_json_token Kind_open_brace 0 1 [], sample_json_token Kind_string_literal 1 7 ''token'',
     sample_json_token Kind_colon 8 1 [], sample_json_token Kind_string_literal 9 4 ''xy'',
     sample_json_token Kind_close_brace 13 1 []]"

definition sample_names :: "string \<Rightarrow> string list" where
  "sample_names n = (if n = ''token'' then [''r''] else [])"

theorem sensitive_values_reported_witness:
  "\<exists>fs. findSensitiveJsonValues sample_scan sample_names [] = Inr fs \<and> reported fs 10 12 [''r'']"
proof -
  have "isl (findSensitiveJsonValues sample_scan sample_names []) = False" by code_simp
  then obtain fs where fs: "findSensitiveJsonValues sample_scan sample_names [] = Inr fs"
    by (cases "findSensitiveJsonValues sample_scan sample_names []") simp_all
  let ?in = "\<lambda>t. t\<lparr>sk_objectId := Some 1\<rparr>"
  have at: "scanMeaningfulTokens sample_scan [] =
      [sample_json_token Kind_open_brace 0 1 []] @ ?in (sample_json_token Kind_string_literal 1 7 ''token'') #
      ?in (sample_json_token Kind_colon 8 1 []) # ?in (sample_json_token Kind_string_literal 9 4 ''xy'') #
      [?in (sample_json_token Kind_close_brace 13 1 [])]"
    by code_simp
  have "reported fs 10 12 (sample_names ''token'')"
    using sensitive_values_reported [OF fs, THEN conjunct2, THEN conjunct1, rule_format, OF at]
    by (simp add: sample_json_token_def sample_names_def)
  then show ?thesis using fs by (auto simp: sample_names_def)
qed

end
