(* ===== verification/SecretScanner.thy ===== *)
theory SecretScanner
  imports JsStrings
begin

text \<open>
  \<^verbatim>\<open>src/secretScanner.ts\<close>: what the worker threads that run Secretlint return is checked before it is used.
\<close>

record secretlint_rule_config =
  slr_id :: string
  slr_options :: "json option"
  slr_allowMessageIds :: "string list option"

record secret_finding =
  sd_start :: nat
  sd_end :: nat
  sd_ruleId :: string
  sd_messageId :: string

text \<open>Properties of \<open>item\<close>; a property that is missing fails the checks as \<open>undefined\<close> does.\<close>

fun json_field :: "string \<Rightarrow> json \<Rightarrow> json option" where
  "json_field k (JObject fs) = jmap_get fs k"
| "json_field k v = None"

definition is_object :: "json \<Rightarrow> bool" where
  "is_object v = (case v of JObject _ \<Rightarrow> True | JArray _ \<Rightarrow> True | _ \<Rightarrow> False)"

definition validateFinding :: "nat \<Rightarrow> json \<Rightarrow> string + secret_finding" where
  "validateFinding sourceLength finding =
     (if \<not> is_object finding then Inl ''Secretlint returned invalid finding''
      else case (json_field ''start'' finding, json_field ''end'' finding,
                 json_field ''ruleId'' finding, json_field ''messageId'' finding) of
        (Some (JNumber a), Some (JNumber b), Some (JString ruleId), Some (JString messageId)) \<Rightarrow>
          (if a < 0 \<or> b \<le> a \<or> b > int sourceLength then Inl ''Secretlint returned invalid finding range''
           else Inr \<lparr>sd_start = nat a, sd_end = nat b, sd_ruleId = ruleId, sd_messageId = messageId\<rparr>)
      | _ \<Rightarrow> Inl ''Secretlint returned invalid finding range'')"

definition validateFindings :: "json \<Rightarrow> nat \<Rightarrow> string + secret_finding list" where
  "validateFindings v sourceLength =
     (case v of
        JArray findings \<Rightarrow> result_map (validateFinding sourceLength) findings
      | _ \<Rightarrow> Inl ''Secretlint returned invalid findings'')"

lemma validateFinding_bounds:
  "validateFinding n v = Inr f \<Longrightarrow> sd_start f < sd_end f \<and> sd_end f \<le> n"
  by (auto simp: validateFinding_def split: if_splits option.splits json.splits prod.splits)

lemma validateFindings_bounds:
  assumes "validateFindings v n = Inr fs" and "f \<in> set fs"
  shows "sd_start f < sd_end f \<and> sd_end f \<le> n"
proof -
  obtain vs where "result_map (validateFinding n) vs = Inr fs"
    using assms(1) by (auto simp: validateFindings_def split: json.splits)
  then obtain x where "validateFinding n x = Inr f"
    using assms(2) by (auto simp: result_map_Inr list_all2_conv_all_nth in_set_conv_nth)
  then show ?thesis by (rule validateFinding_bounds)
qed

end
