(* ===== verification/ResponseTokenizer.thy ===== *)
theory ResponseTokenizer
  imports SecretRangesProperties SensitiveJson SecretScanner
begin

text \<open>
  \<^verbatim>\<open>src/responseTokenizer.ts\<close>: the secrets in a response are found, and each is replaced by an opaque
  reference before the response reaches the client. The pool of secret scanners is a parameter. Waiting
  for it lets other requests use the broker: \<open>te_meanwhile k\<close> is what they do to it during the \<open>k\<close>-th scan. Everything
  after the last scan runs without interruption. Every call of the broker reads the clock once.
\<close>

section \<open>Data\<close>

text \<open>How \<open>scan\<close> of the pool ends: with the message of a worker, or it throws\<close>

datatype scan_outcome =
  Scan_findings json | Scan_gateway_error gateway_exception | Scan_busy | Scan_failure

type_synonym token_warnings = "(string \<times> inspection_reason, nat) jmap"

record collected_text =
  ct_original :: string
  ct_ranges :: "found_range list"
  ct_warnings :: token_warnings

record applied_text =
  ap_value :: string
  ap_replacements :: "text_replacement list"
  ap_recordIds :: "string list"

record tokenized_text =
  tt_headers :: "(string, string) jmap"
  tt_body :: string
  tt_bodyReplacements :: "text_replacement list"
  tt_secretTokenized :: bool
  tt_secretTokenizationCount :: nat
  tt_ruleIds :: "string list"
  tt_internalRecordIds :: "string list"
  tt_warnings :: token_warnings

record tokenizer_env =
  te_broker :: broker_env
  te_clock :: "nat \<Rightarrow> int"
  te_draws :: "nat \<Rightarrow> string \<times> string"
  te_runtime :: "runtime_secrets option"
  te_auth :: auth_context
  te_service :: service_config
  te_rules :: "secretlint_rule_config list"
  te_disabledRuleIds :: "string list"
  te_maxUniqueSecrets :: nat
  te_match :: "string \<Rightarrow> string list"
  te_jsonScanner :: "string \<Rightarrow> scanned_token list"
  te_scan :: "nat \<Rightarrow> string \<Rightarrow> string \<Rightarrow> secretlint_rule_config list \<Rightarrow> scan_outcome"
  te_meanwhile :: "nat \<Rightarrow> token_broker \<Rightarrow> token_broker"
  te_utf8 :: utf8_codec

record tokenizer_state =
  tz_broker :: token_broker
  tz_calls :: nat
  tz_draws :: nat
  tz_scans :: nat

definition tokenizer_start :: "token_broker \<Rightarrow> tokenizer_state" where
  "tokenizer_start b = \<lparr>tz_broker = b, tz_calls = 0, tz_draws = 0, tz_scans = 0\<rparr>"

text \<open>A step that may throw, followed by another one\<close>

definition after :: "'s \<times> ('e + 'a) \<Rightarrow> ('a \<Rightarrow> 's \<Rightarrow> 's \<times> ('e + 'b)) \<Rightarrow> 's \<times> ('e + 'b)" where
  "after r f = (case r of (s, Inl e) \<Rightarrow> (s, Inl e) | (s, Inr a) \<Rightarrow> f a s)"

text \<open>One call of the broker\<close>

definition broker_call ::
  "tokenizer_env \<Rightarrow> (int \<Rightarrow> token_broker \<Rightarrow> token_broker \<times> 'a) \<Rightarrow> tokenizer_state \<Rightarrow> tokenizer_state \<times> 'a" where
  "broker_call T f s =
     (case f (te_clock T (tz_calls s)) (tz_broker s) of
        (b, a) \<Rightarrow> (s\<lparr>tz_broker := b, tz_calls := tz_calls s + 1\<rparr>, a))"

section \<open>Collecting\<close>

definition finding_of :: "secret_finding \<Rightarrow> found_range" where
  "finding_of f =
     \<lparr>fr_start = sd_start f, fr_end = sd_end f, fr_ruleIds = [sd_ruleId f], fr_configuredSecret = None,
      fr_secretValue = None\<rparr>"

definition add_credential :: "string \<Rightarrow> found_range list \<Rightarrow> credential_config \<Rightarrow> found_range list" where
  "add_credential text ranges c =
     (let secret = cr_secret c; escaped = json_escape secret;
          direct = addExactRanges ranges text secret ''gateway:configured-credential'' (Some secret)
      in if escaped \<noteq> secret
         then addExactRanges direct text escaped ''gateway:configured-credential'' (Some secret)
         else direct)"

definition warning_key :: "string \<Rightarrow> inspection_reason \<Rightarrow> string \<times> inspection_reason" where
  "warning_key candidate reason =
     ((if starts_with candidate ''gref_'' then ''gref'' else ''sec''), reason)"

definition add_warning :: "nat \<Rightarrow> string \<times> inspection_reason \<Rightarrow> token_warnings \<Rightarrow> token_warnings" where
  "add_warning n key warnings =
     (case jmap_get warnings key of
        Some k \<Rightarrow> jmap_set warnings key (k + n)
      | None \<Rightarrow> jmap_set warnings key n)"

record inspected =
  in_valid :: "(nat \<times> nat) list"
  in_ranges :: "found_range list"
  in_warnings :: token_warnings

definition inspect_candidate ::
  "tokenizer_env \<Rightarrow> tokenizer_state \<times> inspected \<Rightarrow> nat \<times> string \<Rightarrow> tokenizer_state \<times> inspected" where
  "inspect_candidate T si match =
     (case (si, match) of ((s, i), (start, candidate)) \<Rightarrow>
        (case broker_call T (\<lambda>now. inspectResponseToken (te_broker T) now (te_auth T) (sc_id (te_service T)) candidate) s of
           (s', Token_valid) \<Rightarrow> (s', i\<lparr>in_valid := in_valid i @ [(start, start + length candidate)]\<rparr>)
         | (s', Token_invalid reason) \<Rightarrow>
             (s', i\<lparr>in_ranges := in_ranges i @
                      [\<lparr>fr_start = start, fr_end = start + length candidate,
                        fr_ruleIds = [''gateway:invalid-opaque-prefix''], fr_configuredSecret = None, fr_secretValue = None\<rparr>],
                    in_warnings := add_warning 1 (warning_key candidate reason) (in_warnings i)\<rparr>)))"

text \<open>The ranges found in a text, before the references of the client are looked at\<close>

definition found_in :: "tokenizer_env \<Rightarrow> string \<Rightarrow> secret_finding list \<Rightarrow> found_range list \<Rightarrow> found_range list" where
  "found_in T text findings additional =
     foldl (add_credential text)
       (addHttpBasicCredentialRanges (map finding_of findings @ additional) text) (sc_credentials (te_service T))"

definition collect_found ::
  "tokenizer_env \<Rightarrow> string \<Rightarrow> found_range list \<Rightarrow> tokenizer_state \<Rightarrow> tokenizer_state \<times> collected_text" where
  "collect_found T text found s =
     (case foldl (inspect_candidate T) (s, \<lparr>in_valid = [], in_ranges = found, in_warnings = []\<rparr>) (token_candidates text) of
        (s', i) \<Rightarrow>
          (s', \<lparr>ct_original = text,
                ct_ranges = mergeRanges (filter (\<lambda>r. \<not> list_ex (overlaps (span r)) (in_valid i)) (in_ranges i)),
                ct_warnings = in_warnings i\<rparr>))"

definition collect_text ::
  "tokenizer_env \<Rightarrow> string \<Rightarrow> found_range list \<Rightarrow> tokenizer_state \<Rightarrow> tokenizer_state \<times> collected_text gateway_result" where
  "collect_text T text additional s =
     (let s1 = s\<lparr>tz_broker := te_meanwhile T (tz_scans s) (tz_broker s), tz_scans := tz_scans s + 1\<rparr>
      in case te_scan T (tz_scans s) (ac_subject (te_auth T)) text
                (filter (\<lambda>rule. slr_id rule \<notin> set (te_disabledRuleIds T)) (te_rules T)) of
           Scan_gateway_error e \<Rightarrow> (s1, Inl e)
         | Scan_busy \<Rightarrow> (s1, Inl (gateway_error Secret_scan_busy ''Response secret scanner is busy.''))
         | Scan_failure \<Rightarrow> (s1, Inl (gateway_error Secret_scan_failed ''Response secret scanning failed.''))
         | Scan_findings message \<Rightarrow>
             (case validateFindings message (length text) of
                Inl _ \<Rightarrow> (s1, Inl (gateway_error Secret_scan_failed ''Response secret scanning failed.''))
              | Inr findings \<Rightarrow>
                  (case collect_found T text (found_in T text findings additional) s1 of (s', c) \<Rightarrow> (s', Inr c))))"

section \<open>Replacing\<close>

definition secret_of :: "string \<Rightarrow> found_range \<Rightarrow> string" where
  "secret_of text r =
     (case fr_configuredSecret r of
        Some c \<Rightarrow> c
      | None \<Rightarrow> (case fr_secretValue r of Some v \<Rightarrow> v | None \<Rightarrow> js_slice text (fr_start r) (fr_end r)))"

text \<open>The reference for a secret: the latest one the subject holds for it, or one for a response secret\<close>

definition reference_for ::
  "tokenizer_env \<Rightarrow> string \<Rightarrow> tokenizer_state \<Rightarrow> tokenizer_state \<times> (string \<times> string) gateway_result" where
  "reference_for T secret s =
     (case broker_call T (\<lambda>now. findConfiguredTokenForSecret (te_broker T) now (te_runtime T) (te_auth T)
              (sc_id (te_service T)) secret) s of
        (s1, Some m) \<Rightarrow> (s1, Inr (cm_token m, tr_id (tb_records (tz_broker s1) ! cm_record m)))
      | (s1, None) \<Rightarrow>
          (case broker_call T (\<lambda>now. issueOrReuseResponseSecret (te_broker T) now (te_draws T (tz_draws s1)) (te_runtime T)
                   (te_auth T) (sc_id (te_service T)) secret) s1 of
             (s2, Inl e) \<Rightarrow> (s2, Inl e)
           | (s2, Inr res) \<Rightarrow>
               (s2\<lparr>tz_draws := tz_draws s2 + 1\<rparr>,
                Inr (si_token res, sr_id (tb_secrets (tz_broker s2) ! si_record res)))))"

definition last_first :: "found_range list \<Rightarrow> found_range list" where
  "last_first ranges = sort_key (\<lambda>r. - int (fr_start r)) ranges"

definition range_span :: "found_range \<Rightarrow> text_range" where
  "range_span r = \<lparr>tx_start = fr_start r, tx_end = fr_end r\<rparr>"

definition transform_text ::
  "tokenizer_env \<Rightarrow> collected_text \<Rightarrow> tokenizer_state \<Rightarrow> tokenizer_state \<times> applied_text gateway_result" where
  "transform_text T c s =
     (let ranges = last_first (ct_ranges c)
      in after (thread (\<lambda>r. reference_for T (secret_of (ct_original c) r)) ranges s) (\<lambda>refs s'.
           let replaced = zip (map range_span ranges) (map fst refs)
           in (s', Inr \<lparr>ap_value = fold splice replaced (ct_original c),
                        ap_replacements = map as_replacement replaced,
                        ap_recordIds = map snd refs\<rparr>)))"

section \<open>Tokenizing\<close>

definition sensitive_header :: "tokenizer_env \<Rightarrow> string \<Rightarrow> string \<Rightarrow> found_range list" where
  "sensitive_header T name v =
     (let ruleIds = te_match T name
      in if v \<noteq> [] \<and> ruleIds \<noteq> []
         then [\<lparr>fr_start = 0, fr_end = length v, fr_ruleIds = js_unique ruleIds, fr_configuredSecret = None,
                fr_secretValue = Some v\<rparr>]
         else [])"

definition sensitive_body ::
  "tokenizer_env \<Rightarrow> (string, string) jmap \<Rightarrow> string \<Rightarrow> found_range list gateway_result" where
  "sensitive_body T headers body =
     (if isJsonLikeText headers body
      then result_map_value (map (\<lambda>f. \<lparr>fr_start = sf_start f, fr_end = sf_end f, fr_ruleIds = js_unique (sf_ruleIds f),
             fr_configuredSecret = None, fr_secretValue = Some (sf_secretValue f)\<rparr>))
             (findSensitiveJsonValues (te_jsonScanner T) (te_match T) body)
      else Inr [])"

definition collect_response ::
  "tokenizer_env \<Rightarrow> (string, string) jmap \<Rightarrow> string \<Rightarrow> tokenizer_state
    \<Rightarrow> tokenizer_state \<times> (collected_text list \<times> collected_text) gateway_result" where
  "collect_response T headers body s =
     after (thread (\<lambda>(name, v). collect_text T v (sensitive_header T name v)) headers s) (\<lambda>headerTexts s1.
       case sensitive_body T headers body of
         Inl e \<Rightarrow> (s1, Inl e)
       | Inr bodyRanges \<Rightarrow>
           after (collect_text T body bodyRanges s1) (\<lambda>bodyText s2. (s2, Inr (headerTexts, bodyText))))"

definition unique_secrets :: "collected_text list \<Rightarrow> string list" where
  "unique_secrets texts =
     js_unique (concat (map (\<lambda>c. map (\<lambda>r. case fr_secretValue r of Some v \<Rightarrow> v
       | None \<Rightarrow> js_slice (ct_original c) (fr_start r) (fr_end r)) (ct_ranges c)) texts))"

definition merged_warnings :: "collected_text list \<Rightarrow> token_warnings" where
  "merged_warnings texts = fold (\<lambda>(key, n). add_warning n key) (concat (map ct_warnings texts)) []"

definition tokenizeText ::
  "tokenizer_env \<Rightarrow> (string, string) jmap \<Rightarrow> string \<Rightarrow> tokenizer_state
    \<Rightarrow> tokenizer_state \<times> tokenized_text gateway_result" where
  "tokenizeText T headers body s =
     after (collect_response T headers body s) (\<lambda>(headerTexts, bodyText) s1.
       let texts = headerTexts @ [bodyText]; secrets = unique_secrets texts
       in if length secrets > te_maxUniqueSecrets T
          then (s1, Inl (gateway_error Secret_scan_failed ''Response contains too many unique secrets.''))
          else after (broker_call T (\<lambda>now. assertResponseSecretCapacity (te_broker T) now (te_runtime T) (te_auth T)
                        (sc_id (te_service T)) secrets) s1) (\<lambda>_ s2.
               after (thread (transform_text T) texts s2) (\<lambda>applied s3.
                 let count = sum_list (map (\<lambda>c. length (ct_ranges c)) texts)
                 in (s3, Inr \<lparr>tt_headers = zip (jmap_keys headers) (map ap_value (butlast applied)),
                              tt_body = ap_value (last applied),
                              tt_bodyReplacements = ap_replacements (last applied),
                              tt_secretTokenized = (count > 0),
                              tt_secretTokenizationCount = count,
                              tt_ruleIds = js_sort (js_unique (concat (map fr_ruleIds
                                (concat (map (\<lambda>c. last_first (ct_ranges c)) texts))))),
                              tt_internalRecordIds = js_unique (concat (map ap_recordIds applied)),
                              tt_warnings = merged_warnings texts\<rparr>))))"

definition tokenize ::
  "tokenizer_env \<Rightarrow> (string, string) jmap \<Rightarrow> string \<Rightarrow> tokenizer_state
    \<Rightarrow> tokenizer_state \<times> tokenized_text gateway_result" where
  "tokenize T headers body s = tokenizeText T headers body s"

definition tokenizeHeaders ::
  "tokenizer_env \<Rightarrow> (string, string) jmap \<Rightarrow> tokenizer_state \<Rightarrow> tokenizer_state \<times> tokenized_text gateway_result" where
  "tokenizeHeaders T headers s = tokenize T headers [] s"

definition tokenizeWithTransferEncoding ::
  "tokenizer_env \<Rightarrow> (string, string) jmap \<Rightarrow> string \<Rightarrow> tokenizer_state
    \<Rightarrow> tokenizer_state \<times> tokenized_text gateway_result" where
  "tokenizeWithTransferEncoding T headers body s =
     (case decodeDeclaredBase64Body (te_utf8 T) headers (Some (JString body)) Direction_response of
        Inl e \<Rightarrow> (s, Inl e)
      | Inr None \<Rightarrow> tokenize T headers body s
      | Inr (Some decoded) \<Rightarrow>
          after (tokenize T headers decoded s) (\<lambda>t s'. (s', Inr (t\<lparr>tt_body := encodeBase64Body (te_utf8 T) (tt_body t)\<rparr>))))"

text \<open>
  \<open>tokenizeBytes\<close>: a text starts with U+FEFF exactly when its bytes start with \<open>EF BB BF\<close>. Bytes that are not
  UTF-8 make the decoder throw.
\<close>

datatype tokenizer_error = Tokenizing_refused gateway_exception | Not_utf8

definition byte_order_mark :: "nat list" where
  "byte_order_mark = [239, 187, 191]"

definition tokenizeBytes ::
  "tokenizer_env \<Rightarrow> (string, string) jmap \<Rightarrow> nat list \<Rightarrow> tokenizer_state
    \<Rightarrow> tokenizer_state \<times> (tokenizer_error + tokenized_text \<times> nat list)" where
  "tokenizeBytes T headers body s =
     (let hasBom = (take 3 body = byte_order_mark);
          originalBody = (if hasBom then drop 3 body else body)
      in case uc_decode (te_utf8 T) originalBody of
           None \<Rightarrow> (s, Inl Not_utf8)
         | Some text \<Rightarrow>
             (case tokenizeText T headers text s of
                (s', Inl e) \<Rightarrow> (s', Inl (Tokenizing_refused e))
              | (s', Inr t) \<Rightarrow>
                  (let transformed = applyByteReplacements (te_utf8 T) originalBody text (tt_bodyReplacements t)
                   in (s', Inr (t, if hasBom then byte_order_mark @ transformed else transformed)))))"

end
