(* ===== verification/BrokerEvolution.thy ===== *)
theory BrokerEvolution
  imports ResponseTokenizer TokenLifecycle
begin

text \<open>
  How the operations of the broker change its stores: records are added and refreshed and never taken away, so
  what was issued to a client stays on file. And what the draws of a run of the tokenizer need to be usable.
\<close>

section \<open>How operations change the stores\<close>

text \<open>
  Records are only added and refreshed; \<open>D\<close> are the draws that new response secrets take their identifiers and
  tokens from.
\<close>

definition rec_core :: "token_record \<Rightarrow> token_record" where
  "rec_core rec = rec\<lparr>tr_life := \<lparr>lt_issuedAt = 0, lt_lastUsedAt = 0, lt_idleExpiresAt = 0, lt_maxExpiresAt = 0\<rparr>\<rparr>"

definition sec_core :: "response_secret_record \<Rightarrow> response_secret_record" where
  "sec_core s = s\<lparr>sr_life := \<lparr>lt_issuedAt = 0, lt_lastUsedAt = 0, lt_idleExpiresAt = 0, lt_maxExpiresAt = 0\<rparr>\<rparr>"

definition draw_ids :: "(string \<times> string) set \<Rightarrow> string set" where
  "draw_ids D = (\<lambda>d. sec_id (snd d)) ` D"

definition draw_hashes :: "broker_env \<Rightarrow> (string \<times> string) set \<Rightarrow> string set" where
  "draw_hashes E D = (\<lambda>d. be_hash E (sec_token (fst d))) ` D"

definition evolves :: "broker_env \<Rightarrow> (string \<times> string) set \<Rightarrow> token_broker \<Rightarrow> token_broker \<Rightarrow> bool" where
  "evolves E D b b' \<longleftrightarrow>
     prefix (map rec_core (tb_records b)) (map rec_core (tb_records b')) \<and>
     prefix (map sec_core (tb_secrets b)) (map sec_core (tb_secrets b')) \<and>
     fst ` set (tb_tokenValuesById b') \<subseteq> fst ` set (tb_tokenValuesById b) \<union> draw_ids D \<and>
     fst ` set (tb_responseSecretsByHash b') \<subseteq> fst ` set (tb_responseSecretsByHash b) \<union> draw_hashes E D"

lemma evolves_refl [simp]: "evolves E D b b"
  by (auto simp: evolves_def)

lemma evolves_trans: "evolves E D b b' \<Longrightarrow> evolves E D b' b'' \<Longrightarrow> evolves E D b b''"
proof -
  have sub: "A'' \<subseteq> A \<union> X" if "A' \<subseteq> A \<union> X" "A'' \<subseteq> A' \<union> X" for A A' A'' X :: "string set"
    using that by blast
  show "evolves E D b b' \<Longrightarrow> evolves E D b' b'' \<Longrightarrow> evolves E D b b''"
    unfolding evolves_def
    by (elim conjE, intro conjI) (erule (1) prefix_order.trans, erule (1) prefix_order.trans, (erule (1) sub)+)
qed

lemma evolves_mono: "evolves E D b b' \<Longrightarrow> D \<subseteq> D' \<Longrightarrow> evolves E D' b b'"
proof -
  assume e: "evolves E D b b'" and D: "D \<subseteq> D'"
  have "draw_ids D \<subseteq> draw_ids D'" "draw_hashes E D \<subseteq> draw_hashes E D'"
    using D by (auto simp: draw_ids_def draw_hashes_def)
  then show ?thesis using e unfolding evolves_def by (elim conjE, intro conjI) (assumption, assumption, blast, blast)
qed

lemma evolves_same: "same_stores b b' \<Longrightarrow> evolves E D b b'"
  unfolding evolves_def same_stores_def by auto

lemma map_update_same: "f x = f (xs ! i) \<Longrightarrow> map f (xs[i := x]) = map f xs"
  by (metis list_update_id map_update)

lemma evolves_refresh [simp]: "evolves E D b (refresh_record E now r b)" "evolves E D b (refresh_secret E now r b)"
proof -
  have "map rec_core (tb_records (refresh_record E now r b)) = map rec_core (tb_records b)"
    unfolding refresh_record_def by (simp add: map_update_same rec_core_def)
  then show "evolves E D b (refresh_record E now r b)" by (auto simp: evolves_def refresh_record_def)
  have "map sec_core (tb_secrets (refresh_secret E now r b)) = map sec_core (tb_secrets b)"
    unfolding refresh_secret_def by (simp add: map_update_same sec_core_def)
  then show "evolves E D b (refresh_secret E now r b)" by (auto simp: evolves_def refresh_secret_def)
qed

lemma evolves_records:
  assumes "evolves E D b b'" and "r < length (tb_records b)"
  shows "r < length (tb_records b') \<and> rec_core (tb_records b' ! r) = rec_core (tb_records b ! r)"
proof -
  obtain zs where zs: "map rec_core (tb_records b') = map rec_core (tb_records b) @ zs"
    using assms(1) unfolding evolves_def by (auto elim: prefixE)
  then have "r < length (tb_records b')" using assms(2) by (metis length_append length_map trans_less_add1)
  moreover have "map rec_core (tb_records b') ! r = map rec_core (tb_records b) ! r"
    unfolding zs using assms(2) by (simp add: nth_append)
  ultimately show ?thesis using assms(2) by simp
qed

lemma evolves_secrets:
  assumes "evolves E D b b'" and "r < length (tb_secrets b)"
  shows "r < length (tb_secrets b') \<and> sec_core (tb_secrets b' ! r) = sec_core (tb_secrets b ! r)"
proof -
  obtain zs where zs: "map sec_core (tb_secrets b') = map sec_core (tb_secrets b) @ zs"
    using assms(1) unfolding evolves_def by (auto elim: prefixE)
  then have "r < length (tb_secrets b')" using assms(2) by (metis length_append length_map trans_less_add1)
  moreover have "map sec_core (tb_secrets b') ! r = map sec_core (tb_secrets b) ! r"
    unfolding zs using assms(2) by (simp add: nth_append)
  ultimately show ?thesis using assms(2) by simp
qed

lemma drop_records_evolves: "broker_ok E b \<Longrightarrow> evolves E D b (fst (drop_records P (b, n)))"
  using drop_records_spec(2) evolves_same by (metis prod.collapse)

lemma latest_evolves:
  assumes "broker_ok E b"
  shows "evolves E D b (fst (latestConfiguredToken E now u s ids b))"
proof -
  let ?b = "fst (drop_records (\<lambda>r. life_expired now (tr_life r)) (b, 0))"
  have e: "evolves E D b ?b" using assms by (rule drop_records_evolves)
  have "fst (latestConfiguredToken E now u s ids b) = ?b \<or>
      (\<exists>r. fst (latestConfiguredToken E now u s ids b) = refresh_record E now r ?b)"
    by (auto simp: latestConfiguredToken_def Let_def split: list.split option.split)
  then show ?thesis using e evolves_trans [OF e evolves_refresh(1)] by metis
qed

lemma configured_evolves: "broker_ok E b \<Longrightarrow> evolves E D b (fst (configured_match E now auth service secret b))"
  by (auto simp: configured_match_def Let_def latest_evolves split: option.split)

lemma find_evolves:
  assumes "broker_ok E b"
  shows "evolves E D b (fst (findConfiguredTokenForSecret E now runtime auth service secret b))"
proof (cases "\<exists>rt. runtime = Some rt \<and> rs_subject rt = ac_subject auth \<and> rs_service rt = service")
  case True
  then obtain rt where rt: "runtime = Some rt" "rs_subject rt = ac_subject auth" "rs_service rt = service" by blast
  let ?l = "latestConfiguredToken E now (ac_subject auth) service
    (map fst (filter (\<lambda>(i, candidate). candidate = secret) (rs_secrets rt))) b"
  have l: "broker_ok E (fst ?l)" "evolves E D b (fst ?l)"
    using latestConfiguredToken_ok [OF assms] latest_evolves [OF assms] by blast+
  show ?thesis
    using rt l evolves_trans [OF l(2) configured_evolves [OF l(1)]]
    by (cases ?l) (auto simp: findConfiguredTokenForSecret_def Let_def split: option.split)
next
  case False
  then show ?thesis
    using configured_evolves [OF assms] by (auto simp: findConfiguredTokenForSecret_def split: option.split)
qed

lemma sweep_evolves: "broker_ok E b \<Longrightarrow> evolves E D b (sweepExpired E now b)"
  using sweepExpired_spec(2) evolves_same by blast

lemma issue_secret_evolves:
  assumes "evolves E {draw} b c"
  shows "evolves E {draw} b (fst (issue_secret E now draw bindings auth service secret c))"
proof (cases "ensureCapacity E (ac_subject auth) 1 c")
  case (Inr u)
  have "evolves E {draw} c (fst (issue_secret E now draw bindings auth service secret c))"
    using Inr by (auto simp: issue_secret_def store_secret_def evolves_def draw_ids_def draw_hashes_def Let_def
        jmap_keys_set)
  then show ?thesis using assms evolves_trans by blast
qed (use assms in \<open>simp add: issue_secret_def\<close>)

lemma issue_evolves:
  assumes "broker_ok E b"
  shows "evolves E {draw} b (fst (issueOrReuseResponseSecret E now draw runtime auth service secret b))"
proof -
  let ?b = "sweepExpired E now b"
  have s: "evolves E {draw} b ?b" using assms by (rule sweep_evolves)
  have d: "evolves E {draw} b (deleteResponseSecret i x ?b)" for i x
    using evolves_trans [OF s evolves_same [OF same_stores_delete_sec]] .
  have r: "evolves E {draw} b (refresh_secret E now q ?b)" for q using evolves_trans [OF s evolves_refresh(2)] .
  show ?thesis
    using s d r issue_secret_evolves
    by (auto simp: issueOrReuseResponseSecret_def Let_def split: option.split prod.split)
qed

lemma inspect_evolves: "evolves E D b (fst (inspectResponseToken E now auth service v b))"
  using evolves_same [OF same_stores_delete_gref] evolves_same [OF same_stores_delete_sec]
  by (auto simp: inspectResponseToken_def Let_def split: option.split)

lemma new_indexes_evolves:
  "broker_ok E b \<Longrightarrow> evolves E D b (fst (new_indexes E now runtime auth service secrets indexes b))"
proof (induction secrets arbitrary: indexes b)
  case (Cons secret secrets)
  let ?f = "findConfiguredTokenForSecret E now runtime auth service secret b"
  have f: "broker_ok E (fst ?f)" "evolves E D b (fst ?f)"
    using findConfiguredTokenForSecret_ok [OF Cons.prems] find_evolves [OF Cons.prems] by blast+
  have "evolves E D b (fst (new_indexes E now runtime auth service secrets is (fst ?f)))" for "is"
    using evolves_trans [OF f(2) Cons.IH [OF f(1)]] .
  then show ?case by (cases ?f) (auto simp: Let_def split: option.split)
qed simp

lemma assertCapacity_evolves:
  assumes "broker_ok E b"
  shows "evolves E D b (fst (assertResponseSecretCapacity E now runtime auth service secrets b))"
proof -
  have "broker_ok E (sweepExpired E now b)" using sweepExpired_spec(1) [OF assms] .
  from evolves_trans [OF sweep_evolves [OF assms] new_indexes_evolves [OF this]]
  show ?thesis by (simp add: assertResponseSecretCapacity_def case_prod_unfold)
qed

lemma preflight_evolves: "evolves E D b (fst (preflightTokenUse E now auth target v b))"
  by (auto simp: preflightTokenUse_def Let_def evolves_def split: option.split)

lemma preflight_secret_evolves: "evolves E D b (fst (preflightResponseSecretUse E now auth service v b))"
  using evolves_same [OF same_stores_delete_sec]
  by (auto simp: preflightResponseSecretUse_def Let_def split: option.split)

lemma validate_evolves: "evolves E D b (fst (validateTokenUse E now auth target v b))"
  using preflight_evolves [of E D b now auth target v] evolves_trans [OF _ evolves_refresh(1)]
  by (auto simp: validateTokenUse_def split: prod.split sum.split)

lemma validate_secret_evolves: "evolves E D b (fst (validateResponseSecretUse E now auth service v b))"
  using preflight_secret_evolves [of E D b now auth service v] evolves_trans [OF _ evolves_refresh(2)]
  by (auto simp: validateResponseSecretUse_def split: prod.split sum.split)

lemma validate_service_evolves: "evolves E D b (fst (validateServiceReferenceUse E now auth target v b))"
  using validate_evolves [of E D b now auth target v]
  by (auto simp: validateServiceReferenceUse_def split: prod.split sum.split)

section \<open>References of a client\<close>

text \<open>A reference was issued to the client for the service: a record of theirs is on file under its hash.\<close>

definition on_file :: "broker_env \<Rightarrow> string \<Rightarrow> string \<Rightarrow> token_broker \<Rightarrow> string \<Rightarrow> bool" where
  "on_file E subject service b token \<longleftrightarrow>
     list_ex (\<lambda>r. tr_tokenHash r = be_hash E token \<and> tr_subject r = subject \<and> tr_service r = service) (tb_records b) \<or>
     list_ex (\<lambda>s. sr_tokenHash s = be_hash E token \<and> sr_subject s = subject \<and> sr_service s = service) (tb_secrets b)"

text \<open>A reference the client may use now: it is found under its hash, alive, and bound to the client and the service.\<close>

definition live_reference_of :: "broker_env \<Rightarrow> int \<Rightarrow> auth_context \<Rightarrow> string \<Rightarrow> token_broker \<Rightarrow> string \<Rightarrow> bool" where
  "live_reference_of E now auth service b token \<longleftrightarrow>
     (case jmap_get (tb_recordsByHash b) (be_hash E token) of
        Some r \<Rightarrow>
          \<not> life_expired now (tr_life (tb_records b ! r)) \<and> tr_subject (tb_records b ! r) = ac_subject auth \<and>
          tr_service (tb_records b ! r) = service
      | None \<Rightarrow>
          (case jmap_get (tb_responseSecretsByHash b) (be_hash E token) of
             Some r \<Rightarrow>
               \<not> life_expired now (sr_life (tb_secrets b ! r)) \<and> sr_subject (tb_secrets b ! r) = ac_subject auth \<and>
               sr_service (tb_secrets b ! r) = service
           | None \<Rightarrow> False))"

lemma inspect_valid_iff:
  "snd (inspectResponseToken E now auth service token b) = Token_valid \<longleftrightarrow> live_reference_of E now auth service b token"
  by (simp add: inspectResponseToken_def live_reference_of_def Let_def split: option.split)

lemma list_ex_nth: "i < length xs \<Longrightarrow> P (xs ! i) \<Longrightarrow> list_ex P xs"
  by (auto simp: list_ex_iff)

lemma live_on_file:
  assumes ok: "broker_ok E b" and live: "live_reference_of E now auth service b token"
  shows "on_file E (ac_subject auth) service b token"
proof (cases "jmap_get (tb_recordsByHash b) (be_hash E token)")
  case (Some r)
  have "gref_entry E b (be_hash E token) r" using gref_okD [OF _ Some] ok by (simp add: broker_ok_def)
  then have "r < length (tb_records b)" "tr_tokenHash (tb_records b ! r) = be_hash E token" by (auto simp: gref_entry_def)
  then show ?thesis using live Some by (auto simp: live_reference_of_def on_file_def intro: list_ex_nth)
next
  case None
  then obtain r where r: "jmap_get (tb_responseSecretsByHash b) (be_hash E token) = Some r"
    using live by (auto simp: live_reference_of_def split: option.splits)
  have sec: "sec_ok E b" using ok by (simp add: broker_ok_def)
  then have "jmap_get (tb_responseSecretsById b) (sr_id (tb_secrets b ! r)) = Some r"
    "sr_tokenHash (tb_secrets b ! r) = be_hash E token" using sec_ok_hash [OF sec r] by simp_all
  moreover from this have "r < length (tb_secrets b)" using sec_okD [OF sec] by (auto simp: sec_entry_def)
  ultimately have "r < length (tb_secrets b)" "sr_tokenHash (tb_secrets b ! r) = be_hash E token" by simp_all
  then show ?thesis using live None r by (auto simp: live_reference_of_def on_file_def intro: list_ex_nth)
qed

lemma on_file_evolves:
  assumes e: "evolves E D b b'" and f: "on_file E u s b token"
  shows "on_file E u s b' token"
proof -
  have rec_fields: "tr_tokenHash x = tr_tokenHash y \<and> tr_subject x = tr_subject y \<and> tr_service x = tr_service y"
    if "rec_core x = rec_core y" for x y
    using that by (cases x; cases y) (simp add: rec_core_def)
  have sec_fields: "sr_tokenHash x = sr_tokenHash y \<and> sr_subject x = sr_subject y \<and> sr_service x = sr_service y"
    if "sec_core x = sec_core y" for x y
    using that by (cases x; cases y) (simp add: sec_core_def)
  from f consider (gref) i where "i < length (tb_records b)" "tr_tokenHash (tb_records b ! i) = be_hash E token"
      "tr_subject (tb_records b ! i) = u" "tr_service (tb_records b ! i) = s"
    | (sec) i where "i < length (tb_secrets b)" "sr_tokenHash (tb_secrets b ! i) = be_hash E token"
      "sr_subject (tb_secrets b ! i) = u" "sr_service (tb_secrets b ! i) = s"
    unfolding on_file_def list_ex_length by blast
  then show ?thesis
  proof cases
    case gref
    then show ?thesis using evolves_records [OF e gref(1)] rec_fields unfolding on_file_def list_ex_length by metis
  next
    case sec
    then show ?thesis using evolves_secrets [OF e sec(1)] sec_fields unfolding on_file_def list_ex_length by metis
  qed
qed

section \<open>Draws\<close>

text \<open>
  The draws from the \<open>n\<close>-th to the one before the \<open>m\<close>-th repeat neither what is in use nor each other.
\<close>

definition draws_free :: "broker_env \<Rightarrow> (nat \<Rightarrow> string \<times> string) \<Rightarrow> nat \<Rightarrow> nat \<Rightarrow> token_broker \<Rightarrow> bool" where
  "draws_free E draws n m b \<longleftrightarrow>
     (\<forall>j \<in> {n..<m}. sec_draw_fresh E (draws j) b) \<and>
     (\<forall>i \<in> {n..<m}. \<forall>j \<in> {n..<m}. i \<noteq> j \<longrightarrow> sec_id (snd (draws i)) \<noteq> sec_id (snd (draws j)) \<and>
        be_hash E (sec_token (fst (draws i))) \<noteq> be_hash E (sec_token (fst (draws j))))"

lemma draws_free_keep:
  assumes "draws_free E draws n m b" and "evolves E {} b b'"
  shows "draws_free E draws n m b'"
proof -
  have "fst ` set (tb_tokenValuesById b') \<subseteq> fst ` set (tb_tokenValuesById b)"
    "fst ` set (tb_responseSecretsByHash b') \<subseteq> fst ` set (tb_responseSecretsByHash b)"
    using assms(2) by (auto simp: evolves_def draw_ids_def draw_hashes_def)
  then have "sec_draw_fresh E d b'" if "sec_draw_fresh E d b" for d
    using that unfolding sec_draw_fresh_def by blast
  then show ?thesis using assms(1) unfolding draws_free_def by (elim conjE, intro conjI) simp_all
qed

lemma draws_free_use:
  assumes "draws_free E draws n m b" and "n < m" and "evolves E {draws n} b b'"
  shows "draws_free E draws (Suc n) m b'"
proof -
  have keys: "fst ` set (tb_tokenValuesById b') \<subseteq> insert (sec_id (snd (draws n))) (fst ` set (tb_tokenValuesById b))"
    "fst ` set (tb_responseSecretsByHash b') \<subseteq>
      insert (be_hash E (sec_token (fst (draws n)))) (fst ` set (tb_responseSecretsByHash b))"
    using assms(3) unfolding evolves_def draw_ids_def draw_hashes_def by auto
  have "sec_draw_fresh E (draws j) b'" if j: "j \<in> {Suc n..<m}" for j
  proof -
    have "j \<in> {n..<m}" "n \<in> {n..<m}" "j \<noteq> n" using j assms(2) by simp_all
    then have "sec_draw_fresh E (draws j) b" "sec_id (snd (draws j)) \<noteq> sec_id (snd (draws n))"
      "be_hash E (sec_token (fst (draws j))) \<noteq> be_hash E (sec_token (fst (draws n)))"
      using assms(1) unfolding draws_free_def by blast+
    then show ?thesis using keys unfolding sec_draw_fresh_def by blast
  qed
  then show ?thesis using assms(1) unfolding draws_free_def by simp
qed

section \<open>Good states\<close>

text \<open>A broker in order, with draws that may be used up to the \<open>m\<close>-th\<close>

definition broker_good :: "broker_env \<Rightarrow> (nat \<Rightarrow> string \<times> string) \<Rightarrow> nat \<Rightarrow> nat \<Rightarrow> token_broker \<Rightarrow> bool" where
  "broker_good E draws n m b \<longleftrightarrow> ttls_ok E \<and> broker_ok E b \<and> draws_free E draws n m b"

lemma broker_good_keep:
  "broker_good E draws n m b \<Longrightarrow> broker_ok E b' \<Longrightarrow> evolves E {} b b' \<Longrightarrow> broker_good E draws n m b'"
  unfolding broker_good_def using draws_free_keep by blast

lemma broker_good_inspect:
  "broker_good E draws n m b \<Longrightarrow> broker_good E draws n m (fst (inspectResponseToken E now auth service token b))"
  by (rule broker_good_keep [OF _ inspectResponseToken_ok inspect_evolves]) (simp_all add: broker_good_def)

definition tokenizing_ok :: "tokenizer_env \<Rightarrow> nat \<Rightarrow> tokenizer_state \<Rightarrow> bool" where
  "tokenizing_ok T m s \<longleftrightarrow> broker_good (te_broker T) (te_draws T) (tz_draws s) m (tz_broker s)"

text \<open>
  What other requests do while a text is scanned keeps the broker in order, takes nothing from its files and draws
  other random values.
\<close>

definition meanwhile_ok :: "tokenizer_env \<Rightarrow> nat \<Rightarrow> bool" where
  "meanwhile_ok T m \<longleftrightarrow>
     (\<forall>k n b. broker_good (te_broker T) (te_draws T) n m b \<longrightarrow>
        broker_good (te_broker T) (te_draws T) n m (te_meanwhile T k b) \<and>
        (\<exists>D. evolves (te_broker T) D b (te_meanwhile T k b)))"

end
