(* ===== verification/TokenizerCollecting.thy ===== *)
theory TokenizerCollecting
  imports BrokerEvolution ReferenceMatches
begin

text \<open>
  What the tokenizer collects of a text: ranges in the text, disjoint and in its order, that conceal the
  secrets of the service.
\<close>

section \<open>Matches\<close>

definition matcher_ok :: "'a matcher \<Rightarrow> bool" where
  "matcher_ok m \<longleftrightarrow> (\<forall>prev s n a. m prev s = Some (n, a) \<longrightarrow> 0 < n \<and> n \<le> length s)"

lemma scan_matches_at:
  assumes "matcher_ok m"
  shows "(p, n, a) \<in> set (scan_matches m i prev s) \<Longrightarrow>
    \<exists>k q. p = i + k \<and> m q (drop k s) = Some (n, a) \<and> 0 < n \<and> k + n \<le> length s"
  using assms
proof (induction m i prev s rule: scan_matches.induct)
  case (2 m i prev c cs)
  show ?case
  proof (cases "m prev (c # cs)")
    case None
    then obtain k q where "p = i + 1 + k" "m q (drop k cs) = Some (n, a)" "0 < n" "k + n \<le> length cs"
      using 2(1) [OF None] 2(3,4) None by auto
    then show ?thesis by (intro exI [of _ "Suc k"] exI [of _ q]) simp
  next
    case (Some na)
    obtain l b where na: "na = (l, b)" by (cases na)
    have l: "0 < l" "l \<le> length (c # cs)" using 2(4) Some na unfolding matcher_ok_def by blast+
    then have len: "min (Suc (l - 1)) (length (c # cs)) = l" by (simp add: min_def)
    show ?thesis
    proof (cases "(p, n, a) = (i, l, b)")
      case True
      then show ?thesis using Some na l by (intro exI [of _ 0] exI [of _ prev]) simp
    next
      case False
      then have "(p, n, a) \<in> set (scan_matches m (i + l) (Some ((c # cs) ! (l - 1))) (drop l (c # cs)))"
        using 2(3) Some na len l(1) False by (auto simp: Let_def drop_Cons')
      from 2(2) [OF Some [unfolded na] refl len [symmetric] this 2(4)] obtain k q where
        "p = i + l + k" "m q (drop k (drop l (c # cs))) = Some (n, a)" "0 < n" "k + n \<le> length (drop l (c # cs))"
        by blast
      then show ?thesis using l by (intro exI [of _ "l + k"] exI [of _ q]) (auto simp: add.commute)
    qed
  qed
qed simp

lemma scan_matches_ordered:
  assumes "matcher_ok m"
  shows "sorted_wrt (\<lambda>x y. fst x + fst (snd x) \<le> fst y) (scan_matches m i prev s)"
  using assms
proof (induction m i prev s rule: scan_matches.induct)
  case (2 m i prev c cs)
  show ?case
  proof (cases "m prev (c # cs)")
    case None
    then show ?thesis using 2(1) [OF None 2(3)] by simp
  next
    case (Some na)
    obtain l b where na: "na = (l, b)" by (cases na)
    let ?l = "min (Suc (l - 1)) (length (c # cs))"
    let ?rest = "scan_matches m (i + ?l) (Some ((c # cs) ! (?l - 1))) (drop ?l (c # cs))"
    have "i + ?l \<le> fst y" if "y \<in> set ?rest" for y
      using scan_matches_at [OF 2(3), of "fst y" "fst (snd y)" "snd (snd y)"] that by fastforce
    then show ?thesis using 2(2) [OF Some [unfolded na] refl refl 2(3)] Some na by (simp add: Let_def)
  qed
qed simp

lemma basic_match_ok: "matcher_ok basic_match"
proof -
  have "0 < n \<and> n \<le> length s" if m: "basic_match prev s = Some (n, a)" for prev s n a
  proof -
    let ?sp = "takeWhile (\<lambda>c. c = CHR '' '') (drop 5 s)"
    let ?rest = "drop (5 + length ?sp) s"
    let ?run = "takeWhile is_b64 ?rest"
    let ?pad = "takeWhile (\<lambda>c. c = CHR ''='') (drop (length ?run) ?rest)"
    have "length ?sp \<le> length (drop 5 s)" "length ?run \<le> length ?rest" "length ?pad \<le> length (drop (length ?run) ?rest)"
      by (rule length_takeWhile_le)+
    moreover have "5 \<le> length s"
    proof (rule ccontr)
      assume "\<not> 5 \<le> length s"
      then have "drop 5 s = []" by simp
      then show False using m by (simp add: basic_match_def)
    qed
    moreover have "n = 5 + length ?sp + length ?run + length ?pad \<or> n = 5 + length ?sp - 1 \<and> 2 \<le> length ?sp"
      using m unfolding basic_match_def Let_def by (auto split: if_splits)
    ultimately show ?thesis by auto
  qed
  then show ?thesis unfolding matcher_ok_def by blast
qed

lemma candidate_match_Some:
  "candidate_match prev s = Some (n, a) \<Longrightarrow> n = length a \<and> a \<noteq> [] \<and> prefix a s"
proof -
  assume "candidate_match prev s = Some (n, a)"
  then obtain p where p: "token_prefix s = Some p" and a: "a = p @ takeWhile candidate_char (drop (length p) s)"
    "n = length a" "takeWhile candidate_char (drop (length p) s) \<noteq> []"
    by (auto simp: candidate_match_def Let_def split: option.splits if_splits)
  have "prefix p s" using p by (auto simp: token_prefix_def split: if_splits)
  then obtain r where "s = p @ r" by (auto elim: prefixE)
  then show ?thesis using a by (simp add: takeWhile_is_prefix)
qed

lemma candidate_match_ok: "matcher_ok candidate_match"
  unfolding matcher_ok_def using candidate_match_Some prefix_length_le by fastforce

lemma candidate_bounds:
  assumes "(p, a) \<in> set (token_candidates text)"
  shows "p + length a \<le> length text" and "a \<noteq> []"
proof -
  obtain n where "(p, n, a) \<in> set (scan_matches candidate_match 0 None text)"
    using assms by (auto simp: token_candidates_def)
  from scan_matches_at [OF candidate_match_ok this] obtain q where
    "candidate_match q (drop p text) = Some (n, a)" "p + n \<le> length text" by auto
  then show "p + length a \<le> length text" "a \<noteq> []" using candidate_match_Some by blast+
qed

section \<open>Ranges in the text\<close>

definition in_text :: "string \<Rightarrow> found_range \<Rightarrow> bool" where
  "in_text text r \<longleftrightarrow> proper r \<and> fr_end r \<le> length text"

lemma basic_in_text: "r \<in> set (findHttpBasicCredentialRanges text) \<Longrightarrow> tx_start r < tx_end r \<and> tx_end r \<le> length text"
  unfolding findHttpBasicCredentialRanges_def by (auto dest!: scan_matches_at [OF basic_match_ok])

lemma occurs_bounds: "occurs secret text x \<Longrightarrow> x + length secret \<le> length text \<and> 0 < length secret"
  using prefix_length_le [of secret "drop x text"] by (cases secret) (auto simp: occurs_def)

lemma exact_in_text:
  assumes "list_all (in_text text) ranges"
  shows "list_all (in_text text) (addExactRanges ranges text secret ruleId c)"
proof (cases "secret = []")
  case False
  have "in_text text \<lparr>fr_start = e, fr_end = e + length secret, fr_ruleIds = [ruleId], fr_configuredSecret = c,
      fr_secretValue = None\<rparr>" if "e \<in> set (exact_starts secret 0 text)" for e
    using exact_starts_sound [OF False that] occurs_bounds by (auto simp: in_text_def proper_def)
  then show ?thesis using assms by (auto simp: addExactRanges_def list_all_iff)
qed (use assms in \<open>simp add: addExactRanges_def\<close>)

lemma found_in_text:
  assumes "validateFindings message (length text) = Inr findings" and "list_all (in_text text) additional"
  shows "list_all (in_text text) (found_in T text findings additional)"
proof -
  have fold: "list_all (in_text text) rs \<Longrightarrow> list_all (in_text text) (foldl (add_credential text) rs cs)" for rs cs
    by (induction cs arbitrary: rs) (simp_all add: add_credential_def Let_def exact_in_text)
  have "list_all (in_text text) (map finding_of findings)"
    using validateFindings_bounds [OF assms(1)] by (auto simp: list_all_iff finding_of_def in_text_def proper_def)
  then show ?thesis
    using assms(2) basic_in_text unfolding found_in_def addHttpBasicCredentialRanges_def
    by (intro fold) (auto simp: list_all_iff in_text_def proper_def)
qed

lemma merged_in_order:
  assumes "list_all (in_text text) rs"
  shows "in_order 0 (length text) (map range_span (mergeRanges rs))"
proof -
  have proper: "list_all proper rs" using assms by (auto simp: list_all_iff in_text_def)
  note m = mergeRanges_ok [OF proper]
  have "fr_end r \<le> length text" if "r \<in> set (mergeRanges rs)" for r
  proof -
    have "fr_start r < fr_end r" using m(2) that by (auto simp: list_all_iff proper_def)
    then have "fr_end r - 1 \<in> found_positions (mergeRanges rs)" using that by (force simp: found_positions_def)
    then have "fr_end r - 1 \<in> found_positions rs" using m(4) by simp
    then show ?thesis using assms by (auto simp: found_positions_def list_all_iff in_text_def)
  qed
  moreover have "in_order i n (map range_span qs)"
    if "sorted_wrt apart qs" "list_all proper qs" "\<forall>r \<in> set qs. i \<le> fr_start r \<and> fr_end r \<le> n" "i \<le> n" for i n qs
    using that by (induction qs arbitrary: i) (auto simp: range_span_def proper_def apart_def)
  ultimately show ?thesis using m(1,2) by blast
qed

section \<open>What protects a text\<close>

text \<open>
  The secret that a range of a text hides: the text of the range, or the credential of which it is the form escaped for
  JSON, or, in JSON text, the value of the string literal whose content it is, or the part of this value behind a
  prefix that ends with an equals sign and has no escapes.
\<close>

definition json_value_at :: "(string \<Rightarrow> scanned_token list) \<Rightarrow> string \<Rightarrow> nat \<Rightarrow> nat \<Rightarrow> string \<Rightarrow> bool" where
  "json_value_at scanner text a b v \<longleftrightarrow>
     list_ex (\<lambda>t. sk_kind t = Kind_string_literal \<and> \<not> sk_error t \<and> b = sk_offset t + sk_length t - 1 \<and>
         sk_offset t + 1 \<le> a \<and> v = drop (a - (sk_offset t + 1)) (sk_value t) \<and>
         (a = sk_offset t + 1 \<or>
          (let before = js_slice text (sk_offset t + 1) a in ends_with before ''='' \<and> CHR 0x5C \<notin> set before)))
       (scanMeaningfulTokens scanner text)"

definition hidden_at :: "tokenizer_env \<Rightarrow> bool \<Rightarrow> string \<Rightarrow> nat \<Rightarrow> nat \<Rightarrow> string \<Rightarrow> bool" where
  "hidden_at T json text a b secret \<longleftrightarrow>
     secret = js_slice text a b \<or>
     list_ex (\<lambda>c. secret = cr_secret c \<and> js_slice text a b = json_escape (cr_secret c)) (sc_credentials (te_service T)) \<or>
     json \<and> json_value_at (te_jsonScanner T) text a b secret"

text \<open>What the \<open>k\<close>-th scan of the pool reports for the text, when it is a valid report\<close>

definition scanner_spans :: "tokenizer_env \<Rightarrow> nat \<Rightarrow> string \<Rightarrow> (nat \<times> nat) list option" where
  "scanner_spans T k text =
     (case te_scan T k (ac_subject (te_auth T)) text
             (filter (\<lambda>rule. slr_id rule \<notin> set (te_disabledRuleIds T)) (te_rules T)) of
        Scan_findings message \<Rightarrow>
          (case validateFindings message (length text) of
             Inl _ \<Rightarrow> None
           | Inr findings \<Rightarrow> Some (map (\<lambda>f. (sd_start f, sd_end f)) findings))
      | _ \<Rightarrow> None)"

definition basic_spans :: "string \<Rightarrow> (nat \<times> nat) list" where
  "basic_spans text = map (\<lambda>r. (tx_start r, tx_end r)) (findHttpBasicCredentialRanges text)"

definition service_secrets :: "tokenizer_env \<Rightarrow> string list" where
  "service_secrets T =
     concat (map (\<lambda>c. [cr_secret c, json_escape (cr_secret c)]) (sc_credentials (te_service T)))"

definition candidate_span :: "nat \<times> string \<Rightarrow> nat \<times> nat" where
  "candidate_span m = (fst m, fst m + length (snd m))"

text \<open>A place lies in a range that is replaced, or it overlaps a reference that is kept.\<close>

definition replaced_within :: "text_range list \<Rightarrow> nat \<times> nat \<Rightarrow> bool" where
  "replaced_within ranges p \<longleftrightarrow> list_ex (\<lambda>r. tx_start r \<le> fst p \<and> snd p \<le> tx_end r) ranges"

definition settled :: "text_range list \<Rightarrow> (nat \<times> string) list \<Rightarrow> nat \<times> nat \<Rightarrow> bool" where
  "settled ranges kept p \<longleftrightarrow> replaced_within ranges p \<or> list_ex (\<lambda>m. overlaps p (candidate_span m)) kept"

text \<open>A position is part of something that was found.\<close>

definition found_at :: "tokenizer_env \<Rightarrow> (nat \<times> nat) list \<Rightarrow> string \<Rightarrow> (nat \<times> string) list \<Rightarrow> nat \<Rightarrow> bool" where
  "found_at T spans text kept p \<longleftrightarrow>
     (\<exists>s \<in> set spans. p \<in> {fst s ..< snd s}) \<or>
     (\<exists>m \<in> set (token_candidates text) - set kept. p \<in> {fst m ..< fst m + length (snd m)}) \<or>
     (\<exists>secret \<in> set (service_secrets T). \<exists>e. occurs secret text e \<and> p \<in> {e ..< e + length secret})"

text \<open>
  Ranges conceal a text, after the \<open>k\<close>-th scan and with the broker \<open>b\<close> at the end: they are disjoint and in order.
  The references that are kept are candidates of the text that were issued to this client for this service, and every other
  candidate is replaced. Everything the scan reports, every sensitive place and every HTTP Basic credential is replaced as a
  whole unless a reference that is kept overlaps it. Every occurrence of a credential of the service, plain or
  escaped for JSON, is one that is replaced as a whole or overlapped by a reference that is kept, or overlaps such an
  occurrence. And nothing else is replaced.
\<close>

definition concealed ::
  "tokenizer_env \<Rightarrow> token_broker \<Rightarrow> nat \<Rightarrow> (nat \<times> nat) list \<Rightarrow> string \<Rightarrow> text_range list \<Rightarrow> bool" where
  "concealed T b k sensitive text ranges \<longleftrightarrow>
     in_order 0 (length text) ranges \<and>
     (\<exists>found kept. scanner_spans T k text = Some found \<and> set kept \<subseteq> set (token_candidates text) \<and>
        (\<forall>m \<in> set kept. on_file (te_broker T) (ac_subject (te_auth T)) (sc_id (te_service T)) b (snd m)) \<and>
        (\<forall>m \<in> set (token_candidates text) - set kept. replaced_within ranges (candidate_span m)) \<and>
        (\<forall>p \<in> set (found @ sensitive @ basic_spans text). settled ranges kept p) \<and>
        (\<forall>secret \<in> set (service_secrets T). \<forall>x. occurs secret text x \<longrightarrow>
           (\<exists>e. occurs secret text e \<and> overlaps (x, x + length secret) (e, e + length secret) \<and>
              settled ranges kept (e, e + length secret))) \<and>
        (\<forall>r \<in> set ranges. \<forall>p \<in> {tx_start r ..< tx_end r}.
           found_at T (found @ sensitive @ basic_spans text) text kept p))"

lemma concealed_order: "concealed T b k sensitive text ranges \<Longrightarrow> in_order 0 (length text) ranges"
  unfolding concealed_def by (rule conjunct1)

lemma concealed_evolves:
  assumes "evolves (te_broker T) D b b'" and "concealed T b k sensitive text ranges"
  shows "concealed T b' k sensitive text ranges"
  using assms(2) unfolding concealed_def
  by (elim conjE exE, intro conjI exI) (assumption | (blast intro: on_file_evolves [OF assms(1)]))+

section \<open>Secrets of ranges\<close>

text \<open>The secrets that a range names are right for its bounds.\<close>

definition justified :: "(nat \<Rightarrow> nat \<Rightarrow> string \<Rightarrow> bool) \<Rightarrow> found_range \<Rightarrow> bool" where
  "justified P r \<longleftrightarrow>
     (\<forall>s. fr_configuredSecret r = Some s \<or> fr_secretValue r = Some s \<longrightarrow> P (fr_start r) (fr_end r) s)"

lemma merge_step_justified:
  assumes "list_all (justified P) ms" and "justified P item"
  shows "list_all (justified P) (merge_step ms item)"
proof (cases ms)
  case (Cons previous merged)
  then show ?thesis
    using assms by (auto simp: justified_def keep_first_def max_def Let_def split: option.splits)
qed (use assms(2) in simp)

lemma mergeRanges_justified:
  assumes "list_all (justified P) rs"
  shows "list_all (justified P) (mergeRanges rs)"
proof -
  have "list_all (justified P) (foldl merge_step ms qs)" if "list_all (justified P) ms" "list_all (justified P) qs" for ms qs
    using that by (induction qs arbitrary: ms) (simp_all add: merge_step_justified)
  moreover have "list_all (justified P) (sort_ranges rs)" using assms by (simp add: sort_ranges_def list_all_iff)
  ultimately have "list_all (justified P) (foldl merge_step [] (sort_ranges rs))" by simp
  then show ?thesis by (simp add: mergeRanges_def list_all_iff)
qed

lemma secret_of_hidden:
  "justified (hidden_at T json text) r \<Longrightarrow> hidden_at T json text (fr_start r) (fr_end r) (secret_of text r)"
  by (auto simp: justified_def secret_of_def hidden_at_def split: option.splits)

lemma occurs_slice: "occurs secret text e \<Longrightarrow> js_slice text e (e + length secret) = secret"
  by (auto simp: occurs_def js_slice_def elim!: prefixE)

lemma exact_in:
  assumes "r \<in> set (addExactRanges ranges text secret ruleId c)"
  shows "r \<in> set ranges \<or>
    occurs secret text (fr_start r) \<and> fr_end r = fr_start r + length secret \<and> fr_configuredSecret r = c \<and> fr_secretValue r = None"
proof (cases "secret = []")
  case False
  then show ?thesis using assms exact_starts_sound [OF False, of _ 0 "text"] by (auto simp: addExactRanges_def)
qed (use assms in \<open>simp add: addExactRanges_def\<close>)

lemma credential_in:
  assumes "r \<in> set (add_credential text ranges c)"
  shows "r \<in> set ranges \<or> (\<exists>secret \<in> {cr_secret c, json_escape (cr_secret c)}.
    occurs secret text (fr_start r) \<and> fr_end r = fr_start r + length secret \<and>
    fr_configuredSecret r = Some (cr_secret c) \<and> fr_secretValue r = None)"
  using assms by (auto simp: add_credential_def Let_def dest!: exact_in split: if_splits)

lemma credentials_in:
  assumes "r \<in> set (foldl (add_credential text) ranges cs)"
  shows "r \<in> set ranges \<or> (\<exists>c \<in> set cs. \<exists>secret \<in> {cr_secret c, json_escape (cr_secret c)}.
    occurs secret text (fr_start r) \<and> fr_end r = fr_start r + length secret \<and>
    fr_configuredSecret r = Some (cr_secret c) \<and> fr_secretValue r = None)"
  using assms
proof (induction cs arbitrary: ranges)
  case (Cons c cs)
  then show ?case using credential_in [of r "text" ranges c] by fastforce
qed simp

text \<open>Where the ranges come from\<close>

lemma found_in_cases:
  assumes "r \<in> set (found_in T text findings additional)"
  obtains (scanned) f where "f \<in> set findings" and "r = finding_of f"
  | (additional) "r \<in> set additional"
  | (basic) "span r \<in> set (basic_spans text)" and "fr_configuredSecret r = None" and "fr_secretValue r = None"
  | (credential) c secret where "c \<in> set (sc_credentials (te_service T))" and "secret \<in> {cr_secret c, json_escape (cr_secret c)}"
      and "occurs secret text (fr_start r)" and "fr_end r = fr_start r + length secret"
      and "fr_configuredSecret r = Some (cr_secret c)" and "fr_secretValue r = None"
  using credentials_in [OF assms [unfolded found_in_def]]
  unfolding addHttpBasicCredentialRanges_def basic_spans_def by (auto simp: span_def)

lemma found_in_justified:
  assumes "list_all (justified (hidden_at T json text)) additional"
  shows "list_all (justified (hidden_at T json text)) (found_in T text findings additional)"
  unfolding list_all_iff
proof
  fix r assume "r \<in> set (found_in T text findings additional)"
  then show "justified (hidden_at T json text) r"
  proof (cases rule: found_in_cases)
    case (scanned f)
    then show ?thesis by (simp add: justified_def finding_of_def)
  next
    case additional
    then show ?thesis using assms by (simp add: list_all_iff)
  next
    case basic
    then show ?thesis by (simp add: justified_def)
  next
    case (credential c secret)
    then show ?thesis using occurs_slice [OF credential(3)] by (auto simp: justified_def hidden_at_def list_ex_iff)
  qed
qed

section \<open>What is concealed\<close>

text \<open>Some range is an occurrence of the secret that overlaps the one at \<open>x\<close>.\<close>

definition hits :: "string \<Rightarrow> string \<Rightarrow> nat \<Rightarrow> found_range list \<Rightarrow> bool" where
  "hits secret text x rs \<longleftrightarrow>
     (\<exists>r \<in> set rs. occurs secret text (fr_start r) \<and> fr_end r = fr_start r + length secret \<and>
        overlaps (x, x + length secret) (span r))"

lemma hits_mono: "hits secret text x rs \<Longrightarrow> set rs \<subseteq> set rs' \<Longrightarrow> hits secret text x rs'"
  unfolding hits_def by blast

lemma addExactRanges_hits:
  assumes "occurs secret text x"
  shows "hits secret text x (addExactRanges ranges text secret ruleId c)"
proof -
  have ne: "secret \<noteq> []" using assms by (simp add: occurs_def)
  obtain e where e: "e \<in> set (exact_starts secret 0 text)" "e \<le> x" "x < e + length secret"
    using exact_starts_complete [OF assms, of 0] by auto
  let ?r = "\<lparr>fr_start = e, fr_end = e + length secret, fr_ruleIds = [ruleId], fr_configuredSecret = c,
    fr_secretValue = None\<rparr>"
  have "?r \<in> set (addExactRanges ranges text secret ruleId c)" using ne e(1) by (simp add: addExactRanges_def)
  moreover have "occurs secret text e" using exact_starts_sound [OF ne e(1)] by simp
  moreover have "overlaps (x, x + length secret) (e, e + length secret)" using e(2,3) ne by (simp add: overlaps_def)
  ultimately show ?thesis unfolding hits_def by (intro bexI [of _ ?r]) (simp_all add: span_def)
qed

lemma addExactRanges_mono: "set ranges \<subseteq> set (addExactRanges ranges text secret ruleId c)"
  by (auto simp: addExactRanges_def)

lemma add_credential_mono: "set ranges \<subseteq> set (add_credential text ranges c)"
  using addExactRanges_mono [THEN subset_trans, OF addExactRanges_mono] addExactRanges_mono
  by (simp add: add_credential_def Let_def)

lemma fold_credentials_mono: "set ranges \<subseteq> set (foldl (add_credential text) ranges cs)"
proof (induction cs arbitrary: ranges)
  case (Cons c cs)
  show ?case using subset_trans [OF add_credential_mono Cons.IH] by simp
qed simp

lemma add_credential_hits:
  assumes "occurs secret text x" and "secret \<in> {cr_secret c, json_escape (cr_secret c)}"
  shows "hits secret text x (add_credential text ranges c)"
proof (cases "secret = cr_secret c")
  case True
  have "hits secret text x (addExactRanges ranges text secret ''gateway:configured-credential'' (Some secret))"
    by (rule addExactRanges_hits [OF assms(1)])
  then show ?thesis
    using hits_mono [OF _ addExactRanges_mono] by (simp add: add_credential_def Let_def True)
next
  case False
  then show ?thesis
    using assms(2) addExactRanges_hits [OF assms(1)] by (auto simp: add_credential_def Let_def)
qed

lemma found_in_hits:
  assumes "occurs secret text x" and "secret \<in> set (service_secrets T)"
  shows "hits secret text x (found_in T text findings additional)"
proof -
  obtain c where c: "c \<in> set (sc_credentials (te_service T))" "secret \<in> {cr_secret c, json_escape (cr_secret c)}"
    using assms(2) by (auto simp: service_secrets_def)
  then obtain us vs where split: "sc_credentials (te_service T) = us @ c # vs" by (auto dest: split_list)
  show ?thesis
    unfolding found_in_def split foldl_append foldl.simps
    by (rule hits_mono [OF add_credential_hits [OF assms(1) c(2)] fold_credentials_mono])
qed

text \<open>What the inspections find and what they leave\<close>

definition bad_range :: "nat \<times> string \<Rightarrow> found_range" where
  "bad_range m =
     \<lparr>fr_start = fst m, fr_end = fst m + length (snd m), fr_ruleIds = [''gateway:invalid-opaque-prefix''],
      fr_configuredSecret = None, fr_secretValue = None\<rparr>"

abbreviation client_file :: "tokenizer_env \<Rightarrow> token_broker \<Rightarrow> string \<Rightarrow> bool" where
  "client_file T b \<equiv> on_file (te_broker T) (ac_subject (te_auth T)) (sc_id (te_service T)) b"

lemma inspect_one:
  assumes "inspect_candidate T (s, i) m = (s', i')"
  shows "tz_draws s' = tz_draws s \<and> tz_scans s' = tz_scans s \<and>
    (in_valid i' = in_valid i @ [candidate_span m] \<and> in_ranges i' = in_ranges i \<and>
       (tokenizing_ok T k s \<longrightarrow> client_file T (tz_broker s) (snd m)) \<or>
     in_valid i' = in_valid i \<and> in_ranges i' = in_ranges i @ [bad_range m]) \<and>
    evolves (te_broker T) {} (tz_broker s) (tz_broker s') \<and> (tokenizing_ok T k s \<longrightarrow> tokenizing_ok T k s')"
proof -
  let ?call = "inspectResponseToken (te_broker T) (te_clock T (tz_calls s)) (te_auth T) (sc_id (te_service T)) (snd m) (tz_broker s)"
  obtain b r where call: "?call = (b, r)" by (cases ?call)
  have e: "evolves (te_broker T) {} (tz_broker s) b"
    using inspect_evolves [of "te_broker T" "{}" "tz_broker s" "te_clock T (tz_calls s)" "te_auth T" "sc_id (te_service T)" "snd m"] call
    by simp
  have good: "tokenizing_ok T k s \<Longrightarrow> broker_good (te_broker T) (te_draws T) (tz_draws s) k b"
    unfolding tokenizing_ok_def
    using broker_good_inspect [of "te_broker T" "te_draws T" "tz_draws s" k "tz_broker s" "te_clock T (tz_calls s)" "te_auth T"
        "sc_id (te_service T)" "snd m"] call by simp
  show ?thesis
  proof (cases r)
    case Token_valid
    then have "live_reference_of (te_broker T) (te_clock T (tz_calls s)) (te_auth T) (sc_id (te_service T)) (tz_broker s) (snd m)"
      using call inspect_valid_iff by (metis snd_conv)
    then have "tokenizing_ok T k s \<Longrightarrow> client_file T (tz_broker s) (snd m)"
      using live_on_file by (auto simp: tokenizing_ok_def broker_good_def)
    then show ?thesis
      using assms call e good Token_valid
      by (cases m) (auto simp: inspect_candidate_def broker_call_def candidate_span_def tokenizing_ok_def)
  next
    case (Token_invalid reason)
    then show ?thesis
      using assms call e good
      by (cases m) (auto simp: inspect_candidate_def broker_call_def bad_range_def tokenizing_ok_def)
  qed
qed

lemma inspect_candidates:
  assumes "foldl (inspect_candidate T) (s, i) cs = (s', i')" and "distinct cs"
  shows "\<exists>valid bad. in_valid i' = in_valid i @ map candidate_span valid \<and> in_ranges i' = in_ranges i @ map bad_range bad \<and>
    set cs = set valid \<union> set bad \<and> set valid \<inter> set bad = {} \<and> tz_draws s' = tz_draws s \<and> tz_scans s' = tz_scans s \<and>
    evolves (te_broker T) {} (tz_broker s) (tz_broker s') \<and>
    (tokenizing_ok T k s \<longrightarrow> tokenizing_ok T k s' \<and> (\<forall>m \<in> set valid. client_file T (tz_broker s') (snd m)))"
  using assms
proof (induction cs arbitrary: s i)
  case Nil
  then show ?case by (intro exI [of _ "[]"]) simp
next
  case (Cons m cs)
  obtain s1 i1 where one: "inspect_candidate T (s, i) m = (s1, i1)" by fastforce
  have "foldl (inspect_candidate T) (s1, i1) cs = (s', i')" "distinct cs" using Cons.prems one by simp_all
  from Cons.IH [OF this] obtain valid bad where
    IH: "in_valid i' = in_valid i1 @ map candidate_span valid" "in_ranges i' = in_ranges i1 @ map bad_range bad"
      "set cs = set valid \<union> set bad" "set valid \<inter> set bad = {}" "tz_draws s' = tz_draws s1" "tz_scans s' = tz_scans s1"
      "evolves (te_broker T) {} (tz_broker s1) (tz_broker s')"
      "tokenizing_ok T k s1 \<Longrightarrow> tokenizing_ok T k s' \<and> (\<forall>m \<in> set valid. client_file T (tz_broker s') (snd m))" by blast
  note st = inspect_one [OF one, of k]
  have e: "evolves (te_broker T) {} (tz_broker s) (tz_broker s')" using st IH(7) evolves_trans by blast
  have m: "m \<notin> set valid" "m \<notin> set bad" using Cons.prems(2) IH(3) by auto
  from st consider (valid) "in_valid i1 = in_valid i @ [candidate_span m]" "in_ranges i1 = in_ranges i"
      "tokenizing_ok T k s \<longrightarrow> client_file T (tz_broker s) (snd m)"
    | (bad) "in_valid i1 = in_valid i" "in_ranges i1 = in_ranges i @ [bad_range m]" by blast
  then show ?case
  proof cases
    case valid
    then show ?thesis
      using IH st m e on_file_evolves [OF e] by (intro exI [of _ "m # valid"] exI [of _ bad]) auto
  next
    case bad
    then show ?thesis using IH st m e by (intro exI [of _ valid] exI [of _ "m # bad"]) auto
  qed
qed

lemma candidates_apart:
  assumes "x \<in> set (token_candidates text)" and "y \<in> set (token_candidates text)"
    and "overlaps (fst x, fst x + length (snd x)) (fst y, fst y + length (snd y))"
  shows "x = y"
proof -
  let ?ms = "scan_matches candidate_match 0 None text"
  have len: "fst (snd m) = length (snd (snd m))" if m: "m \<in> set ?ms" for m
  proof -
    obtain p n a where "m = (p, n, a)" by (cases m)
    then show ?thesis using scan_matches_at [OF candidate_match_ok, of p n a 0 None "text"] m candidate_match_Some by auto
  qed
  have ordered: "sorted_wrt before (token_candidates text)"
    unfolding token_candidates_def sorted_wrt_map
    by (rule sorted_wrt_mono_rel [OF _ scan_matches_ordered [OF candidate_match_ok]]) (auto simp: len before_def)
  have "snd x \<noteq> []" "snd y \<noteq> []"
    using candidate_bounds(2) [of "fst x" "snd x"] candidate_bounds(2) [of "fst y" "snd y"] assms(1,2) by auto
  then have "covers x (max (fst x) (fst y))" "covers y (max (fst x) (fst y))"
    using assms(3) by (auto simp: covers_def overlaps_def max_def)
  then show ?thesis using ordered_disjoint [OF ordered assms(1,2)] by blast
qed

lemma candidates_distinct: "distinct (token_candidates text)"
proof -
  have "sorted_wrt (\<lambda>x y. fst x < fst y) (scan_matches candidate_match 0 None text)"
  proof (rule sorted_wrt_mono_rel [OF _ scan_matches_ordered [OF candidate_match_ok]])
    fix x y assume "x \<in> set (scan_matches candidate_match 0 None text)" "fst x + fst (snd x) \<le> fst y"
    then show "fst x < fst y"
      using scan_matches_at [OF candidate_match_ok, of "fst x" "fst (snd x)" "snd (snd x)" 0 None "text"] by fastforce
  qed
  then have "sorted_wrt (<) (map fst (token_candidates text))"
    unfolding token_candidates_def sorted_wrt_map by (rule sorted_wrt_mono_rel [rotated]) auto
  then have "distinct (map fst (token_candidates text))" unfolding strict_sorted_iff by blast
  then show ?thesis by (simp add: distinct_map)
qed

lemma collect_found_parts:
  assumes "collect_found T text found s = (s', c)"
  obtains valid bad where "ct_original c = text"
    and "ct_ranges c = mergeRanges (filter (\<lambda>r. \<not> list_ex (overlaps (span r)) (map candidate_span valid)) (found @ map bad_range bad))"
    and "set (token_candidates text) = set valid \<union> set bad" and "set valid \<inter> set bad = {}"
    and "tz_draws s' = tz_draws s" and "tz_scans s' = tz_scans s" and "evolves (te_broker T) {} (tz_broker s) (tz_broker s')"
    and "tokenizing_ok T k s \<Longrightarrow> tokenizing_ok T k s' \<and> (\<forall>m \<in> set valid. client_file T (tz_broker s') (snd m))"
proof -
  obtain i where i: "foldl (inspect_candidate T) (s, \<lparr>in_valid = [], in_ranges = found, in_warnings = []\<rparr>)
      (token_candidates text) = (s', i)"
    and c: "c = \<lparr>ct_original = text, ct_ranges = mergeRanges (filter (\<lambda>r. \<not> list_ex (overlaps (span r)) (in_valid i)) (in_ranges i)),
      ct_warnings = in_warnings i\<rparr>"
    using assms unfolding collect_found_def by (auto split: prod.splits)
  from inspect_candidates [OF i candidates_distinct, of k] obtain valid bad where
    "in_valid i = map candidate_span valid" "in_ranges i = found @ map bad_range bad"
    "set (token_candidates text) = set valid \<union> set bad" "set valid \<inter> set bad = {}"
    "tz_draws s' = tz_draws s" "tz_scans s' = tz_scans s" "evolves (te_broker T) {} (tz_broker s) (tz_broker s')"
    "tokenizing_ok T k s \<longrightarrow> tokenizing_ok T k s' \<and> (\<forall>m \<in> set valid. client_file T (tz_broker s') (snd m))"
    by auto
  then show ?thesis using that c by simp
qed

lemma bad_in_text: "m \<in> set (token_candidates text) \<Longrightarrow> in_text text (bad_range m)"
  using candidate_bounds [of "fst m" "snd m" "text"] by (simp add: bad_range_def in_text_def proper_def)

lemma kept_in_text:
  assumes "list_all (in_text text) found" and "set bad \<subseteq> set (token_candidates text)"
  shows "list_all (in_text text) (filter P (found @ map bad_range bad))"
  using assms bad_in_text by (auto simp: list_all_iff)

text \<open>What the tokenizer collects of a text conceals it.\<close>

lemma merged_conceals:
  assumes found: "list_all (in_text text) found"
    and cands: "set (token_candidates text) = set valid \<union> set bad" "set valid \<inter> set bad = {}"
    and ms: "ms = mergeRanges (filter (\<lambda>r. \<not> list_ex (overlaps (span r)) (map candidate_span valid)) (found @ map bad_range bad))"
  shows "r \<in> set found \<Longrightarrow> settled (map range_span ms) valid (span r)"
    and "m \<in> set bad \<Longrightarrow> replaced_within (map range_span ms) (candidate_span m)"
    and "x \<in> set ms \<Longrightarrow> p \<in> {fr_start x ..< fr_end x} \<Longrightarrow>
      (\<exists>r \<in> set found. p \<in> {fr_start r ..< fr_end r}) \<or> (\<exists>m \<in> set bad. p \<in> {fst m ..< fst m + length (snd m)})"
proof -
  let ?kept = "filter (\<lambda>r. \<not> list_ex (overlaps (span r)) (map candidate_span valid)) (found @ map bad_range bad)"
  have "list_all (in_text text) ?kept" using cands(1) by (intro kept_in_text [OF found]) simp
  then have proper: "list_all proper ?kept" by (auto simp: list_all_iff in_text_def)
  have within: "replaced_within (map range_span ms) (span r)" if "r \<in> set ?kept" for r
    using mergeRanges_ok(3) [OF proper that] unfolding ms
    by (auto simp: replaced_within_def list_ex_iff within_def range_span_def span_def)
  show "settled (map range_span ms) valid (span r)" if "r \<in> set found"
  proof (cases "list_ex (overlaps (span r)) (map candidate_span valid)")
    case False
    then show ?thesis using within [of r] that by (simp add: settled_def)
  qed (auto simp: settled_def list_ex_iff)
  show "replaced_within (map range_span ms) (candidate_span m)" if m: "m \<in> set bad"
  proof -
    have "\<not> overlaps (candidate_span m) (candidate_span v)" if v: "v \<in> set valid" for v
    proof
      assume "overlaps (candidate_span m) (candidate_span v)"
      then have "m = v" using candidates_apart [of m "text" v] cands(1) m v by (simp add: candidate_span_def)
      then show False using cands(2) m v by blast
    qed
    then have "bad_range m \<in> set ?kept" using m by (auto simp: list_ex_iff bad_range_def span_def candidate_span_def)
    from within [OF this] show ?thesis by (simp add: span_def bad_range_def candidate_span_def)
  qed
  show "(\<exists>r \<in> set found. p \<in> {fr_start r ..< fr_end r}) \<or> (\<exists>m \<in> set bad. p \<in> {fst m ..< fst m + length (snd m)})"
    if "x \<in> set ms" "p \<in> {fr_start x ..< fr_end x}"
  proof -
    have "p \<in> found_positions ms" using that unfolding found_positions_def by blast
    then have "p \<in> found_positions ?kept" unfolding ms mergeRanges_ok(4) [OF proper] .
    then obtain r where r: "r \<in> set (found @ map bad_range bad)" "p \<in> {fr_start r ..< fr_end r}"
      unfolding found_positions_def by auto
    then have "r \<in> set found \<or> (\<exists>m \<in> set bad. r = bad_range m)" by auto
    then show ?thesis using r(2) by (fastforce simp: bad_range_def)
  qed
qed

definition scanned_as :: "tokenizer_env \<Rightarrow> nat \<Rightarrow> string \<Rightarrow> secret_finding list \<Rightarrow> bool" where
  "scanned_as T k text findings \<longleftrightarrow>
     (\<exists>message. te_scan T k (ac_subject (te_auth T)) text (filter (\<lambda>rule. slr_id rule \<notin> set (te_disabledRuleIds T)) (te_rules T)) =
        Scan_findings message \<and> validateFindings message (length text) = Inr findings)"

lemma found_in_concealed:
  assumes scan: "scanned_as T k text findings" and add: "list_all (in_text text) additional"
    and cands: "set (token_candidates text) = set valid \<union> set bad" "set valid \<inter> set bad = {}"
    and issued: "\<forall>m \<in> set valid. client_file T b (snd m)"
    and ms: "ms = mergeRanges (filter (\<lambda>r. \<not> list_ex (overlaps (span r)) (map candidate_span valid))
      (found_in T text findings additional @ map bad_range bad))"
  shows "concealed T b k (map span additional) text (map range_span ms)"
proof -
  let ?found = "found_in T text findings additional"
  let ?spans = "map (\<lambda>f. (sd_start f, sd_end f)) findings" and ?basic = "basic_spans text"
  have fin: "list_all (in_text text) ?found"
    using scan found_in_text [OF _ add] unfolding scanned_as_def by blast
  note merged = merged_conceals [OF fin cands ms]
  have order: "in_order 0 (length text) (map range_span ms)"
    unfolding ms using cands(1) by (intro merged_in_order kept_in_text [OF fin]) simp
  have base: "set (addHttpBasicCredentialRanges (map finding_of findings @ additional) text) \<subseteq> set ?found"
    unfolding found_in_def by (rule fold_credentials_mono)
  have listed: "set (map finding_of findings @ additional) \<subseteq> set ?found"
    by (rule subset_trans [OF _ base]) (auto simp: addHttpBasicCredentialRanges_def)
  have form: "q \<in> span ` set ?found" if "q \<in> set ?basic" for q
  proof -
    obtain h where h: "h \<in> set (findHttpBasicCredentialRanges text)" "q = (tx_start h, tx_end h)"
      using \<open>q \<in> set ?basic\<close> by (auto simp: basic_spans_def)
    let ?r = "\<lparr>fr_start = tx_start h, fr_end = tx_end h, fr_ruleIds = [''gateway:http-basic-credential''],
       fr_configuredSecret = None, fr_secretValue = None\<rparr>"
    have "?r \<in> set ?found" using h(1) by (intro subsetD [OF base]) (simp add: addHttpBasicCredentialRanges_def)
    then show ?thesis by (rule rev_image_eqI) (simp add: span_def h(2))
  qed
  have "span (finding_of f) = (sd_start f, sd_end f)" for f by (simp add: span_def finding_of_def)
  then have "set (?spans @ map span additional) = span ` set (map finding_of findings @ additional)"
    by (auto simp: image_image image_Un)
  then have "set (?spans @ map span additional) \<subseteq> span ` set ?found" using image_mono [OF listed, of span] by simp
  then have "q \<in> span ` set ?found" if "q \<in> set (?spans @ map span additional @ ?basic)" for q
    using that form [of q] by auto
  then have places: "settled (map range_span ms) valid q" if "q \<in> set (?spans @ map span additional @ ?basic)" for q
    using merged(1) that by (metis imageE)
  have secrets: "\<exists>e. occurs secret text e \<and> overlaps (x, x + length secret) (e, e + length secret) \<and>
      settled (map range_span ms) valid (e, e + length secret)"
    if x: "secret \<in> set (service_secrets T)" "occurs secret text x" for secret x
  proof -
    obtain r where r: "r \<in> set ?found" "occurs secret text (fr_start r)" "fr_end r = fr_start r + length secret"
      "overlaps (x, x + length secret) (span r)"
      using found_in_hits [OF x(2,1)] unfolding hits_def by blast
    then show ?thesis using merged(1) [OF r(1)] by (auto simp: span_def)
  qed
  have cause: "found_at T (?spans @ map span additional @ ?basic) text valid p"
    if "x \<in> set ms" "p \<in> {fr_start x ..< fr_end x}" for x p
    using merged(3) [OF that]
  proof
    assume "\<exists>m \<in> set bad. p \<in> {fst m ..< fst m + length (snd m)}"
    then show ?thesis using cands unfolding found_at_def by blast
  next
    assume "\<exists>r \<in> set ?found. p \<in> {fr_start r ..< fr_end r}"
    then obtain r where r: "r \<in> set ?found" "p \<in> {fr_start r ..< fr_end r}" ..
    have found: "?thesis" if "span r \<in> set (?spans @ map span additional @ ?basic)"
    proof -
      have "p \<in> {fst (span r) ..< snd (span r)}" using r(2) by (simp add: span_def)
      then show ?thesis using that unfolding found_at_def by blast
    qed
    from r(1) show ?thesis
    proof (cases rule: found_in_cases)
      case (credential c secret)
      then have "secret \<in> set (service_secrets T)" by (auto simp: service_secrets_def)
      then show ?thesis using credential(3,4) r(2) unfolding found_at_def by auto
    next
      case (scanned f)
      then have "span r \<in> set ?spans" by (auto simp: span_def finding_of_def)
      then show ?thesis using found by simp
    qed (simp_all add: found)
  qed
  have "scanner_spans T k text = Some ?spans"
    using scan unfolding scanned_as_def scanner_spans_def by auto
  moreover have "\<forall>m \<in> set (token_candidates text) - set valid. replaced_within (map range_span ms) (candidate_span m)"
    using merged(2) cands(1) by blast
  moreover have "set valid \<subseteq> set (token_candidates text)" using cands(1) by blast
  moreover have "\<forall>r \<in> set (map range_span ms). \<forall>p \<in> {tx_start r ..< tx_end r}.
      found_at T (?spans @ map span additional @ ?basic) text valid p"
    using cause by (simp add: range_span_def)
  ultimately show ?thesis
    unfolding concealed_def
    using order issued places secrets by blast
qed

lemma collect_text_Inr:
  assumes "collect_text T text additional s = (s', Inr c)"
  obtains findings where "scanned_as T (tz_scans s) text findings"
    and "collect_found T text (found_in T text findings additional)
      (s\<lparr>tz_broker := te_meanwhile T (tz_scans s) (tz_broker s), tz_scans := tz_scans s + 1\<rparr>) = (s', c)"
  using assms unfolding collect_text_def Let_def scanned_as_def
  by (auto split: scan_outcome.splits sum.splits prod.splits)

lemma collect_text_order:
  assumes "collect_text T text additional s = (s', Inr c)" and "list_all (in_text text) additional"
  shows "ct_original c = text \<and> in_order 0 (length text) (map range_span (ct_ranges c))"
proof -
  obtain findings where f: "scanned_as T (tz_scans s) text findings"
    and c: "collect_found T text (found_in T text findings additional)
      (s\<lparr>tz_broker := te_meanwhile T (tz_scans s) (tz_broker s), tz_scans := tz_scans s + 1\<rparr>) = (s', c)"
    using collect_text_Inr [OF assms(1)] .
  have "list_all (in_text text) (found_in T text findings additional)"
    using f found_in_text [OF _ assms(2)] unfolding scanned_as_def by blast
  moreover obtain valid bad where "ct_original c = text"
    "ct_ranges c = mergeRanges (filter (\<lambda>r. \<not> list_ex (overlaps (span r)) (map candidate_span valid))
      (found_in T text findings additional @ map bad_range bad))"
    "set (token_candidates text) = set valid \<union> set bad"
    using collect_found_parts [OF c] by metis
  ultimately show ?thesis using merged_in_order [OF kept_in_text] by (metis Un_upper2)
qed

text \<open>A step of the tokenizer from a good state: which one it leaves, and what is on file stays on file.\<close>

definition runs_to :: "tokenizer_env \<Rightarrow> tokenizer_state \<Rightarrow> tokenizer_state \<Rightarrow> bool" where
  "runs_to T s s' \<longleftrightarrow> (\<exists>D. evolves (te_broker T) D (tz_broker s) (tz_broker s')) \<and> tz_draws s \<le> tz_draws s'"

lemma runs_to_refl [simp]: "runs_to T s s"
  unfolding runs_to_def using evolves_refl by blast

lemma runs_to_trans: "runs_to T s s' \<Longrightarrow> runs_to T s' s'' \<Longrightarrow> runs_to T s s''"
  unfolding runs_to_def using evolves_mono [OF _ Un_upper1] evolves_mono [OF _ Un_upper2] evolves_trans by (meson order_trans)

lemma collect_text_spec:
  assumes "meanwhile_ok T m" and "tokenizing_ok T m s" and collect: "collect_text T text additional s = (s', Inr c)"
    and add: "list_all (in_text text) additional" and just: "list_all (justified (hidden_at T json text)) additional"
  shows "ct_original c = text" and "concealed T (tz_broker s') (tz_scans s) (map span additional) text (map range_span (ct_ranges c))"
    and "list_all (justified (hidden_at T json text)) (ct_ranges c)"
    and "tokenizing_ok T m s'" and "runs_to T s s'" and "tz_draws s' = tz_draws s" and "tz_scans s' = Suc (tz_scans s)"
proof -
  let ?s = "s\<lparr>tz_broker := te_meanwhile T (tz_scans s) (tz_broker s), tz_scans := tz_scans s + 1\<rparr>"
  obtain D where good: "tokenizing_ok T m ?s" and D: "evolves (te_broker T) D (tz_broker s) (tz_broker ?s)"
    using assms(1,2) unfolding meanwhile_ok_def tokenizing_ok_def by force
  obtain findings where f: "scanned_as T (tz_scans s) text findings"
    and c: "collect_found T text (found_in T text findings additional) ?s = (s', c)"
    using collect_text_Inr [OF collect] .
  obtain valid bad where parts: "ct_original c = text"
    "ct_ranges c = mergeRanges (filter (\<lambda>r. \<not> list_ex (overlaps (span r)) (map candidate_span valid))
      (found_in T text findings additional @ map bad_range bad))"
    "set (token_candidates text) = set valid \<union> set bad" "set valid \<inter> set bad = {}"
    "tz_draws s' = tz_draws ?s" "tz_scans s' = tz_scans ?s" "evolves (te_broker T) {} (tz_broker ?s) (tz_broker s')"
    "tokenizing_ok T m s' \<and> (\<forall>m \<in> set valid. client_file T (tz_broker s') (snd m))"
    using collect_found_parts [OF c, of m] good by metis
  show "ct_original c = text" "tokenizing_ok T m s'" "tz_draws s' = tz_draws s" "tz_scans s' = Suc (tz_scans s)"
    using parts by simp_all
  show "concealed T (tz_broker s') (tz_scans s) (map span additional) text (map range_span (ct_ranges c))"
    using found_in_concealed [OF f add parts(3,4) _ parts(2)] parts(8) by blast
  have "evolves (te_broker T) D (tz_broker s) (tz_broker s')"
    using D evolves_mono [OF parts(7)] evolves_trans by blast
  then show "runs_to T s s'" using parts(5) by (auto simp: runs_to_def)
  have "list_all (justified (hidden_at T json text)) (found_in T text findings additional @ map bad_range bad)"
    using found_in_justified [OF just, of findings] by (auto simp: list_all_iff justified_def bad_range_def)
  then show "list_all (justified (hidden_at T json text)) (ct_ranges c)"
    unfolding parts(2) by (intro mergeRanges_justified) (auto simp: list_all_iff)
qed

end
