(* ===== verification/ResponseTokenizerProperties.thy ===== *)
theory ResponseTokenizerProperties
  imports TokenizerCollecting
begin

text \<open>
  The sensitive values of a response lie in its texts and name what is there, and tokenizing bytes is tokenizing
  their text.
\<close>

section \<open>Ranges of sensitive values\<close>

text \<open>
  The documented behaviour of the scanner: tokens in order and in the text, and a literal without an error is at
  least as long as its value and its quotes, because escapes only make it longer.
\<close>

definition json_scan_ok :: "scanned_token list \<Rightarrow> string \<Rightarrow> bool" where
  "json_scan_ok ts text \<longleftrightarrow> scan_ok ts text \<and>
     list_all (\<lambda>t. sk_kind t \<noteq> Kind_string_literal \<or> sk_error t \<or> 2 + length (sk_value t) \<le> sk_length t) ts"

definition literal_in :: "(string \<Rightarrow> scanned_token list) \<Rightarrow> string \<Rightarrow> scanned_token \<Rightarrow> bool" where
  "literal_in scanner text t \<longleftrightarrow>
     t \<in> set (scanMeaningfulTokens scanner text) \<and> sk_offset t + sk_length t \<le> length text \<and>
     (sk_kind t = Kind_string_literal \<and> \<not> sk_error t \<longrightarrow> 2 + length (sk_value t) \<le> sk_length t)"

lemma meaningful_literals:
  assumes "json_scan_ok (scanner text) text" and t: "t \<in> set (scanMeaningfulTokens scanner text)"
  shows "literal_in scanner text t"
proof -
  obtain u oid where "u \<in> set (scanner text)" "t = u\<lparr>sk_objectId := oid\<rparr>"
    using meaningful_in assms(2) unfolding scanMeaningfulTokens_def by blast
  then show ?thesis using t assms(1) by (auto simp: json_scan_ok_def literal_in_def scan_ok_def list_all_iff)
qed

text \<open>A finding has a range in the text, and its secret is the value of the literal there.\<close>

definition safe_finding :: "(string \<Rightarrow> scanned_token list) \<Rightarrow> string \<Rightarrow> source_finding \<Rightarrow> bool" where
  "safe_finding scanner text f \<longleftrightarrow> sf_start f < sf_end f \<and> sf_end f \<le> length text \<and>
     json_value_at scanner text (sf_start f) (sf_end f) (sf_secretValue f)"

lemma properties_from:
  "p \<in> set (findStringProperties ts) \<Longrightarrow> \<exists>v \<in> set ts. sk_kind v = Kind_string_literal \<and>
    sp_valueStart p = sk_offset v + 1 \<and> sp_valueEnd p = sk_offset v + sk_length v - 1 \<and>
    sp_value p = sk_value v \<and> sp_valueError p = sk_error v"
  by (induction ts rule: findStringProperties.induct) (auto split: if_splits)

lemma property_safe:
  assumes "\<forall>t \<in> set ts. literal_in scanner text t" and "p \<in> set (findStringProperties ts)"
    and "\<not> sp_valueError p" and "sp_value p \<noteq> []"
  shows "safe_finding scanner text (toFinding p (sp_value p) ids)"
proof -
  obtain t where t: "t \<in> set ts" "sk_kind t = Kind_string_literal" "sp_valueStart p = sk_offset t + 1"
    "sp_valueEnd p = sk_offset t + sk_length t - 1" "sp_value p = sk_value t" "sp_valueError p = sk_error t"
    using properties_from [OF assms(2)] by blast
  then have lit: "literal_in scanner text t" using assms(1) by blast
  then have len: "2 + length (sk_value t) \<le> sk_length t" "sk_offset t + sk_length t \<le> length text"
    using t assms(3) by (simp_all add: literal_in_def)
  have "0 < length (sk_value t)" using assms(4) t(5) by simp
  then have "sk_offset t + 1 < sk_offset t + sk_length t - 1" "sk_offset t + sk_length t - 1 \<le> length text"
    using len by linarith+
  moreover have "json_value_at scanner text (sp_valueStart p) (sp_valueEnd p) (sp_value p)"
    using lit t assms(3) by (auto simp: literal_in_def json_value_at_def list_ex_iff)
  ultimately show ?thesis using t by (simp add: safe_finding_def toFinding_def)
qed

lemma name_slice:
  assumes raw: "raw = js_slice text a b" and eq: "CHR ''='' \<in> set raw"
  shows "js_slice text a (a + length (takeWhile (\<lambda>c. c \<noteq> CHR ''='') raw) + 1) = takeWhile (\<lambda>c. c \<noteq> CHR ''='') raw @ ''=''"
proof -
  let ?n = "length (takeWhile (\<lambda>c. c \<noteq> CHR ''='') raw)"
  have "takeWhile (\<lambda>c. c \<noteq> CHR ''='') raw \<noteq> raw" using eq by (auto simp: takeWhile_eq_all_conv)
  then have n: "?n < length raw" by (metis length_takeWhile_le nat_less_le takeWhile_eq_take take_all order_refl)
  have "raw ! ?n = CHR ''=''" using nth_length_takeWhile [OF n] by simp
  moreover have "take ?n raw = takeWhile (\<lambda>c. c \<noteq> CHR ''='') raw" by (simp add: takeWhile_eq_take [symmetric])
  ultimately have "take (?n + 1) raw = takeWhile (\<lambda>c. c \<noteq> CHR ''='') raw @ ''=''"
    using take_Suc_conv_app_nth [OF n] by simp
  moreover have "take (?n + 1) raw = take (?n + 1) (drop a text)" using n unfolding raw js_slice_def by (simp only: take_take) (simp add: min_def split: if_splits)
  ultimately show ?thesis by (simp add: js_slice_def)
qed

lemma assignment_safe:
  assumes lit: "literal_in scanner text t" and find: "assignment_finding matcher text t following = Inr fs" and f: "f \<in> set fs"
  shows "safe_finding scanner text f"
proof -
  let ?raw = "js_slice text (sk_offset t + 1) (sk_offset t + sk_length t - 1)"
  let ?name = "takeWhile (\<lambda>c. c \<noteq> CHR ''='') ?raw" and ?v = "drop (length (takeWhile (\<lambda>c. c \<noteq> CHR ''='')
    (js_slice text (sk_offset t + 1) (sk_offset t + sk_length t - 1))) + 1) (sk_value t)"
  have c: "sk_kind t = Kind_string_literal" "\<not> sk_error t" "CHR ''='' \<in> set ?raw" "CHR 0x5C \<notin> set ?name" "?v \<noteq> []"
    and val: "sf_start f = sk_offset t + length ?name + 2" "sf_end f = sk_offset t + sk_length t - 1" "sf_secretValue f = ?v"
    using find f by (auto simp: assignment_finding_def Let_def split: if_splits)
  have bounds: "sk_offset t + sk_length t \<le> length text" "2 + length (sk_value t) \<le> sk_length t"
    and t: "t \<in> set (scanMeaningfulTokens scanner text)"
    using lit c(1,2) by (auto simp: literal_in_def)
  have "length ?name + 1 < length (sk_value t)" using c(5) by simp
  then have "sf_start f < sf_end f" "sf_end f \<le> length text" using bounds val(1,2) by linarith+
  moreover have "js_slice text (sk_offset t + 1) (sf_start f) = ?name @ ''=''"
    using name_slice [OF refl c(3)] val(1) by (simp add: add.commute add.left_commute)
  ultimately show ?thesis
    using t c(1,2,4) val unfolding safe_finding_def json_value_at_def list_ex_iff
    by (auto simp: Let_def intro!: bexI [OF _ t])
qed

lemma assignments_safe:
  "\<forall>t \<in> set ts. literal_in scanner text t \<Longrightarrow> assignment_findings matcher text ts = Inr fs \<Longrightarrow> f \<in> set fs \<Longrightarrow>
    safe_finding scanner text f"
proof (induction ts arbitrary: fs)
  case (Cons t ts)
  obtain gs hs where "assignment_finding matcher text t (case ts of [] \<Rightarrow> None | u # _ \<Rightarrow> Some u) = Inr gs"
    "assignment_findings matcher text ts = Inr hs" "fs = gs @ hs"
    using Cons.prems(2) by (auto simp: result_bind_Inr result_map_value_Inr)
  then show ?case using Cons.IH Cons.prems assignment_safe by (metis Un_iff list.set_intros set_append)
qed simp

lemma pair_safe:
  assumes "\<forall>t \<in> set ts. literal_in scanner text t" and "set ps \<subseteq> set (findStringProperties ts)"
    and "pair_finding matcher ps = Inr fs" and "f \<in> set fs"
  shows "safe_finding scanner text f"
proof -
  obtain v ids where v: "v \<in> set ps" "\<not> sp_valueError v" "sp_value v \<noteq> []" "f = toFinding v (sp_value v) ids"
  proof -
    obtain name v where nv: "filter (\<lambda>p. sp_name p = ''name'' \<or> sp_name p = ''key'') ps = [name]"
      "filter (\<lambda>p. sp_name p = ''value'') ps = [v]"
      using assms(3,4) unfolding pair_finding_def by (auto split: list.splits)
    have "v \<in> set ps" using nv(2) by (auto dest: filter_eq_ConsD)
    then show thesis
      using assms(3,4) nv that unfolding pair_finding_def by (auto simp: Let_def split: if_splits)
  qed
  then show ?thesis using property_safe [OF assms(1)] assms(2) by blast
qed

definition finding_core :: "source_finding \<Rightarrow> nat \<times> nat \<times> string" where
  "finding_core f = (sf_start f, sf_end f, sf_secretValue f)"

lemma jmap_get_member: "jmap_get m k = Some v \<Longrightarrow> v \<in> snd ` set m"
  by (induction m) (force split: if_splits)+

lemma merge_finding_cores: "finding_core ` snd ` set (merge_finding m g) \<subseteq> insert (finding_core g) (finding_core ` snd ` set m)"
proof (cases "jmap_get m (sf_start g, sf_end g)")
  case None
  then show ?thesis using jmap_set_set [of "(sf_start g, sf_end g)" g m] by (fastforce simp: merge_finding_def)
next
  case (Some u)
  let ?v = "u\<lparr>sf_ruleIds := js_unique (sf_ruleIds u @ sf_ruleIds g)\<rparr>"
  have "finding_core ?v = finding_core u" by (simp add: finding_core_def)
  also have "finding_core u \<in> finding_core ` snd ` set m" using jmap_get_member [OF Some] by (rule imageI)
  finally have v: "finding_core ?v \<in> finding_core ` snd ` set m" .
  have "set (merge_finding m g) \<subseteq> insert ((sf_start g, sf_end g), ?v) (set m)"
    using jmap_set_set [of "(sf_start g, sf_end g)" ?v m] Some by (simp add: merge_finding_def)
  then have "finding_core ` snd ` set (merge_finding m g) \<subseteq> finding_core ` snd ` insert ((sf_start g, sf_end g), ?v) (set m)"
    by (intro image_mono)
  also have "\<dots> = finding_core ` snd ` set m" using v by (simp only: image_insert snd_conv insert_absorb)
  finally show ?thesis by (rule subset_insertI2)
qed

lemma merged_cores: "finding_core ` set (mergeFindings fs) \<subseteq> finding_core ` set fs"
proof -
  have "finding_core ` snd ` set (foldl merge_finding m gs) \<subseteq> finding_core ` snd ` set m \<union> finding_core ` set gs" for m gs
  proof (induction gs arbitrary: m)
    case (Cons g gs)
    show ?case
      using subset_trans [OF Cons.IH Un_mono [OF merge_finding_cores subset_refl]] by simp
  qed simp
  from this [of "[]" fs] show ?thesis by (simp add: mergeFindings_def)
qed

lemma sensitive_safe:
  assumes "json_scan_ok (scanner text) text" and "findSensitiveJsonValues scanner matcher text = Inr fs" and "f \<in> set fs"
  shows "safe_finding scanner text f"
proof -
  let ?ts = "scanMeaningfulTokens scanner text" and ?ps = "findStringProperties (scanMeaningfulTokens scanner text)"
  have ts: "\<forall>t \<in> set ?ts. literal_in scanner text t" using meaningful_literals [of scanner, OF assms(1)] by blast
  obtain direct pairs assigned where d: "result_map (property_finding matcher) ?ps = Inr direct"
    and p: "result_map (pair_finding matcher) (propertiesByObject ?ps) = Inr pairs"
    and a: "assignment_findings matcher text ?ts = Inr assigned"
    and fs: "fs = mergeFindings (concat direct @ concat pairs @ assigned)"
    using assms(2) by (auto simp: findSensitiveJsonValues_def Let_def result_bind_Inr)
  have "safe_finding scanner text g" if g: "g \<in> set (concat direct)" for g
  proof -
    obtain q gs where "q \<in> set ?ps" "property_finding matcher q = Inr gs" "g \<in> set gs"
      using d g by (auto simp: result_map_Inr list_all2_conv_all_nth in_set_conv_nth) metis
    then show ?thesis using property_safe [OF ts] by (auto simp: property_finding_def Let_def split: if_splits)
  qed
  moreover have "safe_finding scanner text g" if g: "g \<in> set (concat pairs)" for g
  proof -
    obtain qs gs where "qs \<in> set (propertiesByObject ?ps)" "pair_finding matcher qs = Inr gs" "g \<in> set gs"
      using p g by (auto simp: result_map_Inr list_all2_conv_all_nth in_set_conv_nth) metis
    moreover have "set qs \<subseteq> set ?ps" if "qs \<in> set (propertiesByObject ?ps)" for qs
      using that by (auto simp: propertiesByObject_def)
    ultimately show ?thesis using pair_safe [OF ts] by blast
  qed
  moreover have "safe_finding scanner text g" if "g \<in> set assigned" for g using assignments_safe [OF ts a that] .
  ultimately have all: "\<forall>g \<in> set (concat direct @ concat pairs @ assigned). safe_finding scanner text g" by auto
  obtain g where g: "g \<in> set (concat direct @ concat pairs @ assigned)" "finding_core g = finding_core f"
    using merged_cores [of "concat direct @ concat pairs @ assigned"] assms(3) fs by (metis (no_types, lifting) imageE imageI subsetD)
  have "safe_finding scanner text g" using all g(1) by blast
  then show ?thesis using g(2) by (simp add: safe_finding_def finding_core_def)
qed

lemma sensitive_header_in_text: "list_all (in_text v) (sensitive_header T name v)"
  by (simp add: sensitive_header_def Let_def in_text_def proper_def)

lemma sensitive_header_justified: "list_all (justified (hidden_at T json v)) (sensitive_header T name v)"
  by (simp add: sensitive_header_def Let_def justified_def hidden_at_def js_slice_def)

lemma sensitive_body_ranges:
  assumes "json_scan_ok (te_jsonScanner T body) body" and "sensitive_body T headers body = Inr rs"
  shows "list_all (in_text body) rs" and "list_all (justified (hidden_at T (isJsonLikeText headers body) body)) rs"
proof -
  have each: "in_text body r \<and> justified (hidden_at T (isJsonLikeText headers body) body) r" if r: "r \<in> set rs" for r
  proof -
    obtain fs f where json: "isJsonLikeText headers body" and fs: "findSensitiveJsonValues (te_jsonScanner T) (te_match T) body = Inr fs"
      "f \<in> set fs" and rf: "r = \<lparr>fr_start = sf_start f, fr_end = sf_end f, fr_ruleIds = js_unique (sf_ruleIds f),
        fr_configuredSecret = None, fr_secretValue = Some (sf_secretValue f)\<rparr>"
      using assms(2) r by (auto simp: sensitive_body_def result_map_value_Inr split: if_splits)
    have "safe_finding (te_jsonScanner T) body f" using sensitive_safe [of "te_jsonScanner T", OF assms(1) fs] .
    then show ?thesis using json rf by (simp add: safe_finding_def in_text_def proper_def justified_def hidden_at_def)
  qed
  then show "list_all (in_text body) rs" "list_all (justified (hidden_at T (isJsonLikeText headers body) body)) rs"
    by (simp_all add: list_all_iff)
qed

section \<open>Replacing\<close>

definition replaced_text :: "collected_text \<Rightarrow> string list \<Rightarrow> string" where
  "replaced_text c ws = fill_ranges 0 (ct_original c) (zip (map range_span (ct_ranges c)) ws)"

lemma thread_each:
  "thread f xs s = (s', Inr ys) \<Longrightarrow> list_all2 (\<lambda>x y. \<exists>s1 s2. f x s1 = (s2, Inr y)) xs ys"
  by (induction xs arbitrary: s ys) (auto split: prod.splits sum.splits)

lemma list_all2_choice:
  assumes "list_all2 (\<lambda>x y. \<exists>w. P x y w) xs ys"
  shows "\<exists>ws. length ws = length ys \<and> (\<forall>i < length ys. P (xs ! i) (ys ! i) (ws ! i))"
proof -
  have "\<forall>i < length ys. \<exists>w. P (xs ! i) (ys ! i) w" using assms by (simp add: list_all2_conv_all_nth)
  then obtain f where "\<forall>i < length ys. P (xs ! i) (ys ! i) (f i)" by metis
  then show ?thesis by (intro exI [of _ "map f [0 ..< length ys]"]) simp
qed

lemma sum_of_lengths:
  "list_all2 (\<lambda>x ws. length ws = f x) xs ys \<Longrightarrow> sum_list (map f xs) = sum_list (map length ys)"
  by (induction rule: list_all2_induct) simp_all

lemma after_Inr: "after r f = (s', Inr b) \<longleftrightarrow> (\<exists>s a. r = (s, Inr a) \<and> f a s = (s', Inr b))"
  by (auto simp: after_def split: prod.splits sum.splits)

lemma last_first_rev:
  assumes "in_order i n (map range_span rs)"
  shows "last_first rs = rev rs"
proof -
  have "sorted_wrt (\<lambda>x y. - int (fr_start x) > - int (fr_start y)) rs"
    using in_order_strict [OF assms] by (simp add: sorted_wrt_map range_span_def)
  then show ?thesis unfolding last_first_def by (rule sort_reverses)
qed

lemma transform_text_Inr:
  assumes "in_order 0 (length (ct_original c)) (map range_span (ct_ranges c))"
    and "transform_text T c s = (s', Inr a)"
  shows "\<exists>refs. thread (\<lambda>r. reference_for T (secret_of (ct_original c) r)) (rev (ct_ranges c)) s = (s', Inr (rev refs)) \<and>
    length refs = length (ct_ranges c) \<and> ap_value a = replaced_text c (map fst refs) \<and>
    ap_replacements a = map as_replacement (rev (zip (map range_span (ct_ranges c)) (map fst refs)))"
proof -
  let ?rs = "ct_ranges c"
  obtain refs where t: "thread (\<lambda>r. reference_for T (secret_of (ct_original c) r)) (rev ?rs) s = (s', Inr refs)"
    and a: "ap_value a = fold splice (zip (map range_span (rev ?rs)) (map fst refs)) (ct_original c)"
      "ap_replacements a = map as_replacement (zip (map range_span (rev ?rs)) (map fst refs))"
    using assms(2) by (auto simp: transform_text_def last_first_rev [OF assms(1)] Let_def after_Inr)
  have len: "length refs = length ?rs" using thread_length [OF t] by simp
  have zip: "zip (map range_span (rev ?rs)) (map fst refs) = rev (zip (map range_span ?rs) (map fst (rev refs)))"
    using len by (simp add: rev_map [symmetric] zip_rev [symmetric])
  have "foldr splice (zip (map range_span ?rs) (map fst (rev refs))) ([] @ ct_original c) =
      [] @ fill_ranges 0 (ct_original c) (zip (map range_span ?rs) (map fst (rev refs)))"
    by (rule splice_ranges) (use assms(1) len in simp_all)
  then have "ap_value a = replaced_text c (map fst (rev refs))"
    unfolding a zip replaced_text_def by (simp add: foldr_conv_fold)
  then show ?thesis using t len a(2) unfolding zip by (intro exI [of _ "rev refs"]) simp
qed

text \<open>The text of a range starts and ends where the text does.\<close>

definition text_in_order :: "collected_text \<Rightarrow> bool" where
  "text_in_order c \<longleftrightarrow> in_order 0 (length (ct_original c)) (map range_span (ct_ranges c))"

lemma collect_response_order:
  assumes "json_scan_ok (te_jsonScanner T body) body" and "collect_response T headers body s = (s', Inr (hs, b))"
  shows "map ct_original hs = map snd headers \<and> ct_original b = body \<and> list_all text_in_order (hs @ [b])"
proof -
  obtain s1 rs where hs: "thread (\<lambda>(name, v). collect_text T v (sensitive_header T name v)) headers s = (s1, Inr hs)"
    and rs: "sensitive_body T headers body = Inr rs" and b: "collect_text T body rs s1 = (s', Inr b)"
    using assms(2) by (cases "sensitive_body T headers body") (auto simp: collect_response_def after_Inr)
  have "list_all2 (\<lambda>h c. ct_original c = snd h \<and> text_in_order c) headers hs"
  proof (rule list.rel_mono_strong [OF thread_each [OF hs]])
    fix h c assume "\<exists>s1 s2. (case h of (name, v) \<Rightarrow> collect_text T v (sensitive_header T name v)) s1 = (s2, Inr c)"
    then show "ct_original c = snd h \<and> text_in_order c"
      using collect_text_order sensitive_header_in_text by (cases h) (auto simp: text_in_order_def)
  qed
  then have "map ct_original hs = map snd headers" "list_all text_in_order hs"
    by (auto simp: list_all2_conv_all_nth list_all_length list_eq_iff_nth_eq)
  then show ?thesis
    using collect_text_order [OF b sensitive_body_ranges(1) [OF assms(1) rs]] by (simp add: text_in_order_def)
qed

section \<open>Bytes\<close>

lemma tokenizeText_body:
  assumes "json_scan_ok (te_jsonScanner T body) body" and "tokenizeText T headers body s = (s', Inr t)"
  shows "\<exists>rs. in_order 0 (length body) (map fst rs) \<and> tt_body t = fill_ranges 0 body rs \<and>
    tt_bodyReplacements t = map as_replacement (rev rs)"
proof -
  obtain s1 hs b where c: "collect_response T headers body s = (s1, Inr (hs, b))"
    using assms(2) by (auto simp: tokenizeText_def after_Inr)
  obtain s2 applied where applied: "thread (transform_text T) (hs @ [b]) s2 = (s', Inr applied)"
    and t: "tt_body t = ap_value (last applied)" "tt_bodyReplacements t = ap_replacements (last applied)"
    using assms(2) c by (auto simp: tokenizeText_def after_Inr Let_def split: if_splits)
  have b: "ct_original b = body" "text_in_order b" using collect_response_order [OF assms(1) c] by simp_all
  have ord: "in_order 0 (length (ct_original b)) (map range_span (ct_ranges b))"
    using b(2) unfolding text_in_order_def .
  obtain xs x where xs: "applied = xs @ [x]" using thread_length [OF applied] by (cases applied rule: rev_exhaust) auto
  have "length xs = length hs" using thread_length [OF applied] xs by simp
  then obtain s3 s4 where "transform_text T b s3 = (s4, Inr x)"
    using thread_each [OF applied] xs by (auto simp: list_all2_append)
  from transform_text_Inr [OF ord this] obtain refs :: "(string \<times> string) list" where
    "length refs = length (ct_ranges b)" "ap_value x = replaced_text b (map fst refs)"
    "ap_replacements x = map as_replacement (rev (zip (map range_span (ct_ranges b)) (map fst refs)))" by blast
  then show ?thesis
    using ord t b(1) xs
    by (intro exI [of _ "zip (map range_span (ct_ranges b)) (map fst refs)"]) (simp add: replaced_text_def)
qed

text \<open>
  Tokenizing bytes is tokenizing their text: when the coding is UTF-8, the bytes that come out are the encoding
  of the tokenized text, after the byte order mark if there was one.
\<close>

theorem tokenized_bytes_exact:
  assumes "codec_ok (te_utf8 T)" and "\<And>bs u. uc_decode (te_utf8 T) bs = Some u \<Longrightarrow> uc_encode (te_utf8 T) u = bs"
    and "\<And>u. json_scan_ok (te_jsonScanner T u) u"
    and "tokenizeBytes T headers body s = (s', Inr (t, out))"
  shows "out = (if take 3 body = byte_order_mark then byte_order_mark else []) @ uc_encode (te_utf8 T) (tt_body t)"
proof -
  let ?original = "if take 3 body = byte_order_mark then drop 3 body else body"
  obtain u where u: "uc_decode (te_utf8 T) ?original = Some u" and t: "tokenizeText T headers u s = (s', Inr t)"
    and out: "out = (if take 3 body = byte_order_mark then byte_order_mark else []) @
      applyByteReplacements (te_utf8 T) ?original u (tt_bodyReplacements t)"
    using assms(4) by (auto simp: tokenizeBytes_def Let_def split: option.splits prod.splits sum.splits if_splits)
  obtain rs where rs: "in_order 0 (length u) (map fst rs)" "tt_body t = fill_ranges 0 u rs"
    "tt_bodyReplacements t = map as_replacement (rev rs)"
    using tokenizeText_body [OF assms(3) t] by blast
  show ?thesis using out byte_replacements [OF assms(1) rs(1)] assms(2) [OF u] rs(2,3) by simp
qed

section \<open>Examples\<close>

definition sample_tokenizer :: tokenizer_env where
  "sample_tokenizer =
     \<lparr>te_broker = sample_env, te_clock = (\<lambda>_. 104), te_draws = (\<lambda>_. (''R2'', ''U2'')), te_runtime = None,
      te_auth = sample_auth, te_service = sample_service, te_rules = [], te_disabledRuleIds = [],
      te_maxUniqueSecrets = 4, te_match = (\<lambda>_. []), te_jsonScanner = (\<lambda>_. []),
      te_scan = (\<lambda>_ _ _ _. Scan_findings (JArray [])), te_meanwhile = (\<lambda>_ b. b), te_utf8 = latin1_codec\<rparr>"

definition ascii_codec :: utf8_codec where
  "ascii_codec =
     \<lparr>uc_decode = (\<lambda>bs. if list_all (\<lambda>b. b < 128) bs then Some (map char_of bs) else None),
      uc_encode = (\<lambda>t. concat (map utf8_char t))\<rparr>"

lemma ascii_codec_ok:
  "codec_ok ascii_codec" "uc_decode ascii_codec bs = Some u \<Longrightarrow> uc_encode ascii_codec u = bs"
proof -
  have "concat (map utf8_char (map char_of bs)) = bs" if "list_all (\<lambda>b. b < 128) bs"
    using that by (induction bs) (simp_all add: utf8_char_def char_code_char_of)
  then show "uc_decode ascii_codec bs = Some u \<Longrightarrow> uc_encode ascii_codec u = bs"
    by (auto simp: ascii_codec_def split: if_splits)
qed (simp add: codec_ok_def ascii_codec_def)

theorem tokenized_bytes_exact_witness:
  "\<exists>t. snd (tokenizeBytes (sample_tokenizer\<lparr>te_utf8 := ascii_codec\<rparr>) [] (byte_order_mark @ [107, 61, 59])
      (tokenizer_start sample_broker)) = Inr (t, byte_order_mark @ uc_encode ascii_codec (tt_body t))"
proof -
  let ?T = "sample_tokenizer\<lparr>te_utf8 := ascii_codec\<rparr>"
  let ?r = "tokenizeBytes ?T [] (byte_order_mark @ [107, 61, 59]) (tokenizer_start sample_broker)"
  have "isl (snd ?r) = False" by code_simp
  then obtain t out where r: "snd ?r = Inr (t, out)" by (cases "snd ?r") auto
  then have run: "?r = (fst ?r, Inr (t, out))" by (metis prod.collapse)
  have T: "te_utf8 ?T = ascii_codec" "te_jsonScanner ?T = (\<lambda>_. [])" by (simp_all add: sample_tokenizer_def)
  have "out = (if take 3 (byte_order_mark @ [107, 61, 59]) = byte_order_mark then byte_order_mark else []) @
      uc_encode (te_utf8 ?T) (tt_body t)"
    by (rule tokenized_bytes_exact [OF _ _ _ run]) (simp_all add: T ascii_codec_ok json_scan_ok_def scan_ok_def)
  then show ?thesis using r T by (simp add: byte_order_mark_def)
qed

end
