(* ===== verification/TokenizerReferences.thy ===== *)
theory TokenizerReferences
  imports ResponseTokenizerProperties
begin

text \<open>
  What reaches the client of a tokenized response: its secrets are concealed, nothing else is changed, and the references in
  it stand for the secrets they replace. Each is stored, under its hash, in a record of the client and the service that
  holds the secret or names a credential with it.
\<close>

section \<open>What a reference stands for\<close>

definition ids_for :: "tokenizer_env \<Rightarrow> string \<Rightarrow> string list" where
  "ids_for T secret =
     (case te_runtime T of
        None \<Rightarrow> []
      | Some rt \<Rightarrow>
          (if rs_subject rt = ac_subject (te_auth T) \<and> rs_service rt = sc_id (te_service T)
           then map fst (filter (\<lambda>(i, candidate). candidate = secret) (rs_secrets rt)) else [])) @
     (case jmap_get (gc_services (be_config (te_broker T))) (sc_id (te_service T)) of
        None \<Rightarrow> []
      | Some configured \<Rightarrow> map cr_id (filter (\<lambda>c. cr_secret c = secret) (sc_credentials configured)))"

definition configured_for :: "tokenizer_env \<Rightarrow> token_broker \<Rightarrow> string \<Rightarrow> string \<Rightarrow> bool" where
  "configured_for T b secret token \<longleftrightarrow>
     (\<exists>r < length (tb_records b). tr_tokenHash (tb_records b ! r) = be_hash (te_broker T) token \<and>
        record_matches (ac_subject (te_auth T)) (sc_id (te_service T)) (ids_for T secret) (tb_records b ! r))"

definition stored_for :: "tokenizer_env \<Rightarrow> token_broker \<Rightarrow> string \<Rightarrow> string \<Rightarrow> bool" where
  "stored_for T b secret token \<longleftrightarrow>
     (\<exists>r < length (tb_secrets b). sr_tokenHash (tb_secrets b ! r) = be_hash (te_broker T) token \<and>
        secret_index (te_broker T) (tb_secrets b ! r) =
          responseSecretIndex (te_broker T) (ac_subject (te_auth T)) (sc_id (te_service T)) secret)"

definition referenced :: "tokenizer_env \<Rightarrow> token_broker \<Rightarrow> string \<Rightarrow> string \<Rightarrow> bool" where
  "referenced T b secret token \<longleftrightarrow> configured_for T b secret token \<or> stored_for T b secret token"

lemma rec_core_fields:
  "rec_core r = rec_core q \<Longrightarrow> tr_tokenHash r = tr_tokenHash q \<and> record_matches u s ids r = record_matches u s ids q"
  by (cases r; cases q) (auto simp: rec_core_def record_matches_def)

lemma sec_core_fields:
  "sec_core r = sec_core q \<Longrightarrow> sr_tokenHash r = sr_tokenHash q \<and> secret_index E r = secret_index E q \<and>
    sr_secret r = sr_secret q \<and> sr_subject r = sr_subject q \<and> sr_service r = sr_service q"
  by (cases r; cases q) (auto simp: sec_core_def secret_index_def)

lemma referenced_evolves:
  assumes "evolves E D b b'" and "referenced T b secret token"
  shows "referenced T b' secret token"
proof -
  have "configured_for T b' secret token" if "configured_for T b secret token"
    using that evolves_records [OF assms(1)] rec_core_fields unfolding configured_for_def by metis
  moreover have "stored_for T b' secret token" if "stored_for T b secret token"
    using that evolves_secrets [OF assms(1)] sec_core_fields unfolding stored_for_def by metis
  ultimately show ?thesis using assms(2) unfolding referenced_def by blast
qed

lemma latest_Some:
  assumes ok: "broker_ok E b" and run: "latestConfiguredToken E now u s ids b = (b', Some m)"
  shows "cm_record m < length (tb_records b') \<and> tr_tokenHash (tb_records b' ! cm_record m) = be_hash E (cm_token m) \<and>
    record_matches u s ids (tb_records b' ! cm_record m)"
proof -
  let ?b = "fst (drop_records (\<lambda>r. life_expired now (tr_life r)) (b, 0))"
  let ?ms = "filter (\<lambda>r. record_matches u s ids (tb_records ?b ! r)) (map snd (tb_recordsByHash ?b))"
  have okb: "gref_ok E ?b" using drop_records_ok [OF ok] by (simp add: broker_ok_def)
  obtain r rs token where r: "sort_key (\<lambda>r. latest_first (tb_records ?b ! r)) ?ms = r # rs"
    "jmap_get (tb_tokenValuesById ?b) (tr_id (tb_records ?b ! r)) = Some token"
    "b' = refresh_record E now r ?b" "m = \<lparr>cm_token = token, cm_record = r\<rparr>"
    using run by (auto simp: latestConfiguredToken_def Let_def split: list.splits option.splits if_splits)
  have "r \<in> set ?ms" using r(1) by (metis list.set_intros(1) set_sort)
  then obtain h where h: "(h, r) \<in> set (tb_recordsByHash ?b)" "record_matches u s ids (tb_records ?b ! r)" by auto
  then have "jmap_get (tb_recordsByHash ?b) h = Some r" using okb unfolding gref_ok_def by (simp add: jmap_get_iff)
  then have e: "gref_entry E ?b h r" by (rule gref_okD [OF okb])
  then have "r < length (tb_records ?b)" "tr_tokenHash (tb_records ?b ! r) = be_hash E token"
    using r(2) by (auto simp: gref_entry_def)
  then show ?thesis using h(2) r(3,4) by (simp add: refresh_record_nth record_matches_def)
qed

lemma record_matches_ids: "record_matches u s ids r \<Longrightarrow> set ids \<subseteq> set ids' \<Longrightarrow> record_matches u s ids' r"
  by (auto simp: record_matches_def split: option.splits)

lemma find_Some:
  assumes ok: "broker_ok (te_broker T) b"
    and run: "findConfiguredTokenForSecret (te_broker T) now (te_runtime T) (te_auth T) (sc_id (te_service T)) secret b = (b', Some m)"
  shows "configured_for T b' secret (cm_token m)"
proof -
  let ?E = "te_broker T" and ?u = "ac_subject (te_auth T)" and ?s = "sc_id (te_service T)"
  have by_ids: "configured_for T c' secret (cm_token m)"
    if "latestConfiguredToken ?E now ?u ?s ids c = (c', Some m)" "broker_ok ?E c" "set ids \<subseteq> set (ids_for T secret)" for ids c c'
    using latest_Some [OF that(2,1)] record_matches_ids [OF _ that(3)] unfolding configured_for_def by blast
  have by_config: "configured_for T c' secret (cm_token m)"
    if run': "configured_match ?E now (te_auth T) ?s secret c = (c', Some m)" and okc: "broker_ok ?E c" for c c'
  proof -
    obtain configured where conf: "jmap_get (gc_services (be_config ?E)) ?s = Some configured"
      and run: "latestConfiguredToken ?E now ?u ?s (map cr_id (filter (\<lambda>c. cr_secret c = secret) (sc_credentials configured))) c = (c', Some m)"
    proof (cases "jmap_get (gc_services (be_config ?E)) ?s")
      case None
      then show thesis using run' by (simp add: configured_match_def)
    next
      case (Some configured)
      then show thesis using run' that by (simp add: configured_match_def Let_def split: if_splits)
    qed
    show ?thesis by (rule by_ids [OF run okc]) (use conf in \<open>simp add: ids_for_def\<close>)
  qed
  show ?thesis
  proof (cases "\<exists>rt. te_runtime T = Some rt \<and> rs_subject rt = ?u \<and> rs_service rt = ?s")
    case False
    then have "configured_match ?E now (te_auth T) ?s secret b = (b', Some m)"
      using run by (auto simp: findConfiguredTokenForSecret_def split: option.splits)
    then show ?thesis using by_config ok by blast
  next
    case True
    then obtain rt where rt: "te_runtime T = Some rt" "rs_subject rt = ?u" "rs_service rt = ?s" by blast
    let ?ids = "map fst (filter (\<lambda>(i, candidate). candidate = secret) (rs_secrets rt))"
    obtain c r where c: "latestConfiguredToken ?E now ?u ?s ?ids b = (c, r)" by (cases "latestConfiguredToken ?E now ?u ?s ?ids b")
    have okc: "broker_ok ?E c" using latestConfiguredToken_ok [OF ok, of now ?u ?s ?ids] c by simp
    show ?thesis
    proof (cases r)
      case None
      then have "configured_match ?E now (te_auth T) ?s secret c = (b', Some m)"
        using run c rt by (simp add: findConfiguredTokenForSecret_def)
      then show ?thesis using by_config okc by blast
    next
      case (Some m')
      then have "latestConfiguredToken ?E now ?u ?s ?ids b = (b', Some m)"
        using run c rt by (simp add: findConfiguredTokenForSecret_def)
      moreover have "set ?ids \<subseteq> set (ids_for T secret)" using rt by (simp add: ids_for_def)
      ultimately show ?thesis using by_ids ok by blast
    qed
  qed
qed

lemma issue_stored:
  assumes ok: "broker_ok (te_broker T) b" and ttl: "ttls_ok (te_broker T)" and fresh: "sec_draw_fresh (te_broker T) draw b"
    and run: "issueOrReuseResponseSecret (te_broker T) now draw runtime (te_auth T) (sc_id (te_service T)) secret b = (b', Inr res)"
  shows "stored_for T b' secret (si_token res)"
proof -
  let ?E = "te_broker T" and ?r = "si_record res"
  have sec: "sec_ok ?E b'"
    using issueOrReuseResponseSecret_ok [OF ok ttl fresh, of now runtime "te_auth T" "sc_id (te_service T)" secret] run
    by (simp add: broker_ok_def)
  obtain i where i: "jmap_get (tb_responseSecretsById b') i = Some ?r" "jmap_get (tb_tokenValuesById b') i = Some (si_token res)"
    and old: "si_reused res \<Longrightarrow> sr_secret (tb_secrets b' ! ?r) = sr_secret (tb_secrets b ! ?r) \<and>
      sr_subject (tb_secrets b' ! ?r) = sr_subject (tb_secrets b ! ?r) \<and>
      sr_service (tb_secrets b' ! ?r) = sr_service (tb_secrets b ! ?r) \<and>
      secret_index ?E (tb_secrets b ! ?r) = responseSecretIndex ?E (ac_subject (te_auth T)) (sc_id (te_service T)) secret"
    and new: "\<not> si_reused res \<Longrightarrow> sr_secret (tb_secrets b' ! ?r) = secret \<and>
      sr_subject (tb_secrets b' ! ?r) = ac_subject (te_auth T) \<and> sr_service (tb_secrets b' ! ?r) = sc_id (te_service T)"
    using issueOrReuse_Inr [OF ok ttl run] by blast
  have "?r < length (tb_secrets b')" "be_hash ?E (si_token res) = sr_tokenHash (tb_secrets b' ! ?r)"
    using sec_okD [OF sec i(1)] i(2) by (auto simp: sec_entry_def)
  moreover have "secret_index ?E (tb_secrets b' ! ?r) =
      responseSecretIndex ?E (ac_subject (te_auth T)) (sc_id (te_service T)) secret"
    using old new by (cases "si_reused res") (simp_all add: secret_index_def)
  ultimately show ?thesis unfolding stored_for_def by (metis)
qed

section \<open>The contract of issuing\<close>

text \<open>
  What the tokenizer relies on: a call that succeeds and ends in a state that still fits leads from a good state to a
  good one, what it returns stands for what was asked, and what stood for something before still does.
\<close>

locale issuer =
  fixes issue :: "'k \<Rightarrow> 's \<Rightarrow> 's \<times> ('e + 'r)"
    and good :: "'s \<Rightarrow> bool"
    and fits :: "'s \<Rightarrow> bool"
    and leads :: "'s \<Rightarrow> 's \<Rightarrow> bool"
    and stands :: "'s \<Rightarrow> 'k \<Rightarrow> 'r \<Rightarrow> bool"
  assumes leads_refl: "leads s s"
    and leads_trans: "leads s s' \<Longrightarrow> leads s' s'' \<Longrightarrow> leads s s''"
    and stands_stays: "leads s s' \<Longrightarrow> stands s k r \<Longrightarrow> stands s' k r"
    and issue_fits: "issue k s = (s', Inr r) \<Longrightarrow> fits s' \<Longrightarrow> fits s"
    and issue_ok: "good s \<Longrightarrow> issue k s = (s', Inr r) \<Longrightarrow> fits s' \<Longrightarrow> good s' \<and> leads s s' \<and> stands s' k r"
begin

lemma thread_fits: "thread issue ks s = (s', Inr rs) \<Longrightarrow> fits s' \<Longrightarrow> fits s"
  by (induction ks arbitrary: s rs) (auto split: prod.splits sum.splits dest: issue_fits)

lemma thread_ok:
  "good s \<Longrightarrow> thread issue ks s = (s', Inr rs) \<Longrightarrow> fits s' \<Longrightarrow> good s' \<and> leads s s' \<and> list_all2 (stands s') ks rs"
proof (induction ks arbitrary: s rs)
  case (Cons k ks)
  obtain s1 x ys where x: "issue k s = (s1, Inr x)" "thread issue ks s1 = (s', Inr ys)" "rs = x # ys"
    using Cons.prems(2) by (auto split: prod.splits sum.splits)
  have one: "good s1" "leads s s1" "stands s1 k x"
    using issue_ok [OF Cons.prems(1) x(1) thread_fits [OF x(2) Cons.prems(3)]] by simp_all
  have rest: "good s'" "leads s1 s'" "list_all2 (stands s') ks ys"
    using Cons.IH [OF one(1) x(2) Cons.prems(3)] by simp_all
  show ?case using rest leads_trans [OF one(2) rest(2)] stands_stays [OF rest(2) one(3)] x(3) by simp
qed (simp add: leads_refl)

end

lemma reference_for_draws: "reference_for T secret s = (s', Inr w) \<Longrightarrow> tz_draws s \<le> tz_draws s'"
  by (auto simp: reference_for_def broker_call_def split: prod.splits option.splits sum.splits)

lemma reference_for_spec:
  assumes good: "tokenizing_ok T m s" and run: "reference_for T secret s = (s', Inr w)" and fits: "tz_draws s' \<le> m"
  shows "tokenizing_ok T m s' \<and> runs_to T s s' \<and> referenced T (tz_broker s') secret (fst w)"
proof -
  let ?E = "te_broker T" and ?free = "\<lambda>n. draws_free (te_broker T) (te_draws T) n m"
  have ok: "ttls_ok ?E" "broker_ok ?E (tz_broker s)" "?free (tz_draws s) (tz_broker s)"
    using good by (simp_all add: tokenizing_ok_def broker_good_def)
  let ?find = "findConfiguredTokenForSecret ?E (te_clock T (tz_calls s)) (te_runtime T) (te_auth T) (sc_id (te_service T)) secret (tz_broker s)"
  obtain b1 c where find: "?find = (b1, c)" by (cases ?find)
  have b1: "broker_ok ?E b1" "evolves ?E {} (tz_broker s) b1" "?free (tz_draws s) b1"
  proof -
    show "broker_ok ?E b1"
      using findConfiguredTokenForSecret_ok [OF ok(2), of "te_clock T (tz_calls s)" "te_runtime T" "te_auth T" "sc_id (te_service T)" secret] find by simp
    show e: "evolves ?E {} (tz_broker s) b1"
      using find_evolves [OF ok(2), of "{}" "te_clock T (tz_calls s)" "te_runtime T" "te_auth T" "sc_id (te_service T)" secret] find by simp
    show "?free (tz_draws s) b1" using ok(3) e by (rule draws_free_keep)
  qed
  show ?thesis
  proof (cases c)
    case (Some m')
    have "configured_for T b1 secret (cm_token m')" using find_Some [OF ok(2)] find Some by blast
    moreover have "runs_to T s (s\<lparr>tz_broker := b1, tz_calls := tz_calls s + 1\<rparr>)" using b1(2) by (auto simp: runs_to_def)
    ultimately show ?thesis
      using run find Some b1 ok(1)
      by (auto simp: reference_for_def broker_call_def tokenizing_ok_def broker_good_def referenced_def)
  next
    case None
    let ?draw = "te_draws T (tz_draws s)"
    let ?issue = "issueOrReuseResponseSecret ?E (te_clock T (tz_calls s + 1)) ?draw (te_runtime T) (te_auth T)
      (sc_id (te_service T)) secret b1"
    obtain b2 q where issue: "?issue = (b2, q)" by (cases ?issue)
    obtain res where Inr: "q = Inr res"
      using run find None issue by (cases q) (simp_all add: reference_for_def broker_call_def)
    have s': "s' = s\<lparr>tz_broker := b2, tz_calls := tz_calls s + 2, tz_draws := tz_draws s + 1\<rparr>" "fst w = si_token res"
      using run find None issue Inr by (auto simp: reference_for_def broker_call_def)
    have n: "tz_draws s < m" using fits s' by simp
    then have fresh: "sec_draw_fresh ?E ?draw b1" using b1(3) unfolding draws_free_def by simp
    have b2: "broker_ok ?E b2"
      using issueOrReuseResponseSecret_ok [OF b1(1) ok(1) fresh, of "te_clock T (tz_calls s + 1)" "te_runtime T" "te_auth T" "sc_id (te_service T)" secret]
        issue by simp
    have e2: "evolves ?E {?draw} b1 b2"
      using issue_evolves [OF b1(1), of ?draw "te_clock T (tz_calls s + 1)" "te_runtime T" "te_auth T" "sc_id (te_service T)" secret]
        issue by simp
    have "evolves ?E {?draw} (tz_broker s) b2" using evolves_trans [OF evolves_mono [OF b1(2)] e2] by simp
    then have "runs_to T s s'" using s' by (auto simp: runs_to_def)
    moreover have "stored_for T b2 secret (si_token res)" using issue_stored [OF b1(1) ok(1) fresh] issue Inr by blast
    ultimately show ?thesis
      using b2 ok(1) draws_free_use [OF b1(3) n e2] s' by (simp add: tokenizing_ok_def broker_good_def referenced_def)
  qed
qed

interpretation refs: issuer "reference_for T" "tokenizing_ok T m" "\<lambda>s. tz_draws s \<le> m" "runs_to T"
  "\<lambda>s secret w. referenced T (tz_broker s) secret (fst w)" for T m
proof unfold_locales
  show "runs_to T s s''" if "runs_to T s s'" "runs_to T s' s''" for s s' s'' using that by (rule runs_to_trans)
  show "referenced T (tz_broker s') k (fst r)" if "runs_to T s s'" "referenced T (tz_broker s) k (fst r)" for s s' k r
    using that referenced_evolves unfolding runs_to_def by blast
  show "tz_draws s \<le> m" if "reference_for T k s = (s', Inr r)" "tz_draws s' \<le> m" for k s s' r
    using reference_for_draws [OF that(1)] that(2) by simp
  show "tokenizing_ok T m s' \<and> runs_to T s s' \<and> referenced T (tz_broker s') k (fst r)"
    if "tokenizing_ok T m s" "reference_for T k s = (s', Inr r)" "tz_draws s' \<le> m" for s k s' r
    using that by (rule reference_for_spec)
qed simp

section \<open>Texts\<close>

lemma thread_map: "thread (\<lambda>x. f (g x)) xs s = thread f (map g xs) s"
  by (induction xs arbitrary: s) (simp_all split: prod.splits sum.splits)

text \<open>A text as the tokenizer leaves it: every range replaced by a reference to its secret\<close>

definition text_referenced :: "tokenizer_env \<Rightarrow> tokenizer_state \<Rightarrow> collected_text \<Rightarrow> applied_text \<Rightarrow> bool" where
  "text_referenced T s c a \<longleftrightarrow> (text_in_order c \<longrightarrow>
     (\<exists>ws. ap_value a = replaced_text c ws \<and>
        list_all2 (\<lambda>r w. referenced T (tz_broker s) (secret_of (ct_original c) r) w) (ct_ranges c) ws))"

lemma transform_thread:
  assumes "transform_text T c s = (s', Inr a)"
  shows "\<exists>refs. thread (reference_for T) (map (secret_of (ct_original c)) (last_first (ct_ranges c))) s = (s', Inr refs)"
  using assms by (auto simp: transform_text_def Let_def after_Inr thread_map)

lemma transform_referenced:
  assumes good: "tokenizing_ok T m s" and run: "transform_text T c s = (s', Inr a)" and fits: "tz_draws s' \<le> m"
  shows "text_referenced T s' c a"
  unfolding text_referenced_def
proof
  assume ord: "text_in_order c"
  let ?f = "secret_of (ct_original c)"
  obtain refs :: "(string \<times> string) list" where
    refs: "thread (\<lambda>r. reference_for T (?f r)) (rev (ct_ranges c)) s = (s', Inr (rev refs))"
    "ap_value a = replaced_text c (map fst refs)"
    using transform_text_Inr [OF ord [unfolded text_in_order_def] run] by blast
  have "list_all2 (\<lambda>secret w. referenced T (tz_broker s') secret (fst w)) (map ?f (rev (ct_ranges c))) (rev refs)"
    using refs.thread_ok [OF good _ fits] refs(1) unfolding thread_map by blast
  then have "list_all2 (\<lambda>r w. referenced T (tz_broker s') (?f r) (fst w)) (ct_ranges c) refs"
    by (simp add: list_all2_map1 rev_map [symmetric] list_all2_rev)
  then show "\<exists>ws. ap_value a = replaced_text c ws \<and>
      list_all2 (\<lambda>r w. referenced T (tz_broker s') (?f r) w) (ct_ranges c) ws"
    using refs(2) by (intro exI [of _ "map fst refs"]) (simp add: list_all2_map2)
qed

interpretation texts: issuer "transform_text T" "tokenizing_ok T m" "\<lambda>s. tz_draws s \<le> m" "runs_to T" "text_referenced T" for T m
proof unfold_locales
  show "runs_to T s s''" if "runs_to T s s'" "runs_to T s' s''" for s s' s'' using that by (rule runs_to_trans)
  show "text_referenced T s' c a" if "runs_to T s s'" "text_referenced T s c a" for s s' c a
    using that referenced_evolves unfolding runs_to_def text_referenced_def
    by (metis (no_types, lifting) list_all2_mono)
  show "tz_draws s \<le> m" if "transform_text T c s = (s', Inr a)" "tz_draws s' \<le> m" for c s s' a
    using transform_thread [OF that(1)] refs.thread_fits that(2) by blast
  show "tokenizing_ok T m s' \<and> runs_to T s s' \<and> text_referenced T s' c a"
    if "tokenizing_ok T m s" "transform_text T c s = (s', Inr a)" "tz_draws s' \<le> m" for s c s' a
    using transform_thread [OF that(2)] refs.thread_ok [OF that(1) _ that(3)] transform_referenced [OF that] by blast
qed simp

text \<open>
  A text that goes to the client, after the \<open>k\<close>-th scan: \<open>n\<close> ranges that conceal the text are replaced, each by a reference
  that stands for the secret the range hides, and everything else is as it was.
\<close>

definition text_protected ::
  "tokenizer_env \<Rightarrow> token_broker \<Rightarrow> (string \<Rightarrow> string \<Rightarrow> bool) \<Rightarrow> nat \<Rightarrow> bool \<Rightarrow> (nat \<times> nat) list \<Rightarrow> string
    \<Rightarrow> string \<Rightarrow> nat \<Rightarrow> bool" where
  "text_protected T b stands k json sensitive text text' n \<longleftrightarrow>
     (\<exists>ranges ws. length ranges = n \<and> concealed T b k sensitive text ranges \<and>
        list_all2 (\<lambda>r w. \<exists>secret. hidden_at T json text (tx_start r) (tx_end r) secret \<and> stands secret w) ranges ws \<and>
        text' = fill_ranges 0 text (zip ranges ws))"

definition header_spans :: "tokenizer_env \<Rightarrow> string \<times> string \<Rightarrow> (nat \<times> nat) list" where
  "header_spans T h = map span (sensitive_header T (fst h) (snd h))"

text \<open>All of a response: its headers are scanned first, one after the other, then its body.\<close>

definition response_tokenized ::
  "tokenizer_env \<Rightarrow> token_broker \<Rightarrow> (string \<Rightarrow> string \<Rightarrow> bool) \<Rightarrow> nat \<Rightarrow> (string, string) jmap \<Rightarrow> string
    \<Rightarrow> (string, string) jmap \<Rightarrow> string \<Rightarrow> nat list \<Rightarrow> bool" where
  "response_tokenized T b stands k headers body headers' body' ns \<longleftrightarrow>
     length ns = length headers + 1 \<and> map fst headers' = map fst headers \<and>
     (\<forall>i < length headers.
        text_protected T b stands (k + i) False (header_spans T (headers ! i)) (snd (headers ! i)) (snd (headers' ! i)) (ns ! i)) \<and>
     (\<exists>sensitive. sensitive_body T headers body = Inr sensitive \<and>
        text_protected T b stands (k + length headers) (isJsonLikeText headers body) (map span sensitive) body body'
          (ns ! length headers))"

text \<open>What is collected of a text\<close>

definition text_collected ::
  "tokenizer_env \<Rightarrow> token_broker \<Rightarrow> nat \<Rightarrow> bool \<Rightarrow> (nat \<times> nat) list \<Rightarrow> string \<Rightarrow> collected_text \<Rightarrow> bool" where
  "text_collected T b k json sensitive text c \<longleftrightarrow> ct_original c = text \<and>
     concealed T b k sensitive text (map range_span (ct_ranges c)) \<and> list_all (justified (hidden_at T json text)) (ct_ranges c)"

lemma collected_runs:
  "runs_to T s s' \<Longrightarrow> text_collected T (tz_broker s) k json sensitive text c \<Longrightarrow> text_collected T (tz_broker s') k json sensitive text c"
  using concealed_evolves unfolding runs_to_def text_collected_def by blast

lemma collected_order: "text_collected T b k json sensitive text c \<Longrightarrow> text_in_order c"
  unfolding text_collected_def text_in_order_def using concealed_order by blast

lemma collected_protected:
  assumes c: "text_collected T (tz_broker s) k json sensitive text c" and a: "text_referenced T s c a"
    and stands: "\<And>x y secret w. hidden_at T json text x y secret \<Longrightarrow> referenced T (tz_broker s) secret w \<Longrightarrow> stands secret w"
  shows "text_protected T (tz_broker s) stands k json sensitive text (ap_value a) (length (ct_ranges c))"
proof -
  obtain ws where ws: "ap_value a = replaced_text c ws"
    "list_all2 (\<lambda>r w. referenced T (tz_broker s) (secret_of text r) w) (ct_ranges c) ws"
    using a collected_order [OF c] c unfolding text_referenced_def text_collected_def by blast
  have hidden: "hidden_at T json text (fr_start r) (fr_end r) (secret_of text r)" if "r \<in> set (ct_ranges c)" for r
    using c that secret_of_hidden unfolding text_collected_def list_all_iff by blast
  have "list_all2 (\<lambda>r w. \<exists>secret. hidden_at T json text (fr_start r) (fr_end r) secret \<and> stands secret w) (ct_ranges c) ws"
    using hidden stands by (intro list.rel_mono_strong [OF ws(2)]) blast
  then have "list_all2 (\<lambda>r w. \<exists>secret. hidden_at T json text (tx_start r) (tx_end r) secret \<and> stands secret w)
      (map range_span (ct_ranges c)) ws"
    by (simp add: list_all2_map1 range_span_def)
  then show ?thesis
    using c ws(1) unfolding text_protected_def text_collected_def replaced_text_def
    by (intro exI [of _ "map range_span (ct_ranges c)"] exI [of _ ws]) simp
qed

section \<open>Responses\<close>

lemma collect_headers:
  assumes "meanwhile_ok T m" and "tokenizing_ok T m s"
    and "thread (\<lambda>(name, v). collect_text T v (sensitive_header T name v)) headers s = (s', Inr hs)"
  shows "tokenizing_ok T m s' \<and> runs_to T s s' \<and> tz_draws s' = tz_draws s \<and> tz_scans s' = tz_scans s + length headers \<and>
    length hs = length headers \<and>
    (\<forall>i < length headers. text_collected T (tz_broker s') (tz_scans s + i) False (header_spans T (headers ! i))
       (snd (headers ! i)) (hs ! i))"
  using assms(2,3)
proof (induction headers arbitrary: s hs)
  case (Cons h headers)
  obtain s1 c cs where one: "collect_text T (snd h) (sensitive_header T (fst h) (snd h)) s = (s1, Inr c)"
    and rest: "thread (\<lambda>(name, v). collect_text T v (sensitive_header T name v)) headers s1 = (s', Inr cs)" "hs = c # cs"
    using Cons.prems(2) by (auto split: prod.splits sum.splits)
  note c = collect_text_spec [OF assms(1) Cons.prems(1) one sensitive_header_in_text sensitive_header_justified]
  note IH = Cons.IH [OF c(4) rest(1)]
  have "text_collected T (tz_broker s1) (tz_scans s) False (header_spans T h) (snd h) c"
    using c(1,2) c(3) [of False] by (simp add: text_collected_def header_spans_def)
  then have "text_collected T (tz_broker s') (tz_scans s) False (header_spans T h) (snd h) c"
    using IH collected_runs by blast
  then show ?case
    using IH c(5,6,7) rest(2) runs_to_trans by (auto simp: nth_Cons split: nat.split)
qed simp

lemma collect_response_spec:
  assumes "json_scan_ok (te_jsonScanner T body) body" and meanwhile: "meanwhile_ok T m" and good: "tokenizing_ok T m s"
    and "collect_response T headers body s = (s', Inr (hs, b))"
  shows "tokenizing_ok T m s' \<and> runs_to T s s' \<and> length hs = length headers \<and>
    (\<forall>i < length headers. text_collected T (tz_broker s') (tz_scans s + i) False (header_spans T (headers ! i))
       (snd (headers ! i)) (hs ! i)) \<and>
    (\<exists>sensitive. sensitive_body T headers body = Inr sensitive \<and>
       text_collected T (tz_broker s') (tz_scans s + length headers) (isJsonLikeText headers body) (map span sensitive) body b)"
proof -
  obtain s1 rs where hs: "thread (\<lambda>(name, v). collect_text T v (sensitive_header T name v)) headers s = (s1, Inr hs)"
    and rs: "sensitive_body T headers body = Inr rs" and b: "collect_text T body rs s1 = (s', Inr b)"
    using assms(4) by (cases "sensitive_body T headers body") (auto simp: collect_response_def after_Inr)
  note h = collect_headers [OF meanwhile good hs]
  have "tokenizing_ok T m s1" using h by blast
  note c = collect_text_spec [OF meanwhile this b sensitive_body_ranges [OF assms(1) rs]]
  have "text_collected T (tz_broker s') (tz_scans s + length headers) (isJsonLikeText headers body) (map span rs) body b"
    using c(1,2,3) h by (simp add: text_collected_def)
  then show ?thesis using h c(4,5) rs runs_to_trans collected_runs [OF c(5)] by blast
qed

text \<open>How a tokenized response comes about\<close>

lemma tokenizeText_parts:
  assumes "tokenizeText T headers body s = (s', Inr t)"
  obtains s1 hs b s2 applied xs x secrets u where "collect_response T headers body s = (s1, Inr (hs, b))"
    and "broker_call T (\<lambda>now. assertResponseSecretCapacity (te_broker T) now (te_runtime T) (te_auth T)
      (sc_id (te_service T)) secrets) s1 = (s2, Inr u)"
    and "thread (transform_text T) (hs @ [b]) s2 = (s', Inr (xs @ [x]))" and "length xs = length hs"
    and "tt_headers t = zip (map fst headers) (map ap_value xs)" and "tt_body t = ap_value x"
    and "tt_secretTokenizationCount t = sum_list (map (\<lambda>c. length (ct_ranges c)) (hs @ [b]))"
proof -
  obtain s1 hs b where c: "collect_response T headers body s = (s1, Inr (hs, b))"
    using assms by (auto simp: tokenizeText_def after_Inr)
  obtain secrets u s2 applied where
    cap: "broker_call T (\<lambda>now. assertResponseSecretCapacity (te_broker T) now (te_runtime T) (te_auth T)
      (sc_id (te_service T)) secrets) s1 = (s2, Inr u)"
    and applied: "thread (transform_text T) (hs @ [b]) s2 = (s', Inr applied)"
    and t: "tt_headers t = zip (map fst headers) (map ap_value (butlast applied))" "tt_body t = ap_value (last applied)"
      "tt_secretTokenizationCount t = sum_list (map (\<lambda>c. length (ct_ranges c)) (hs @ [b]))"
    using assms c by (auto simp: tokenizeText_def after_Inr Let_def split: if_splits)
  have len: "length applied = length hs + 1" using thread_length [OF applied] by simp
  then obtain xs x where xs: "applied = xs @ [x]" by (cases applied rule: rev_exhaust) auto
  show thesis using that [OF c cap applied [unfolded xs]] t len xs by simp
qed

lemma capacity_spec:
  assumes good: "tokenizing_ok T m s"
    and run: "broker_call T (\<lambda>now. assertResponseSecretCapacity (te_broker T) now (te_runtime T) (te_auth T)
      (sc_id (te_service T)) secrets) s = (s', r)"
  shows "tokenizing_ok T m s' \<and> runs_to T s s'"
proof -
  let ?b = "fst (assertResponseSecretCapacity (te_broker T) (te_clock T (tz_calls s)) (te_runtime T) (te_auth T)
      (sc_id (te_service T)) secrets (tz_broker s))"
  have ok: "broker_ok (te_broker T) (tz_broker s)" using good by (simp add: tokenizing_ok_def broker_good_def)
  have "tz_broker s' = ?b" "tz_draws s' = tz_draws s" using run by (auto simp: broker_call_def split: prod.splits)
  moreover have e: "evolves (te_broker T) {} (tz_broker s) ?b" using assertCapacity_evolves [OF ok] .
  moreover have "broker_ok (te_broker T) ?b" using assertResponseSecretCapacity_ok [OF ok] .
  ultimately show ?thesis using good broker_good_keep by (auto simp: tokenizing_ok_def runs_to_def)
qed

lemma tokenizeText_spec:
  assumes "json_scan_ok (te_jsonScanner T body) body" and "meanwhile_ok T m" and "tokenizing_ok T m s"
    and "tokenizeText T headers body s = (s', Inr t)" and fits: "tz_draws s' \<le> m"
    and stands: "\<And>v secret w. v \<in> snd ` set headers \<union> {body} \<Longrightarrow> (\<exists>x y. hidden_at T True v x y secret) \<Longrightarrow>
      referenced T (tz_broker s') secret w \<Longrightarrow> stands secret w"
  shows "tokenizing_ok T m s' \<and> runs_to T s s' \<and>
    (\<exists>ns. response_tokenized T (tz_broker s') stands (tz_scans s) headers body (tt_headers t) (tt_body t) ns \<and>
       tt_secretTokenizationCount t = sum_list ns)"
proof -
  obtain s1 hs b s2 xs x secrets u where c: "collect_response T headers body s = (s1, Inr (hs, b))"
    and cap: "broker_call T (\<lambda>now. assertResponseSecretCapacity (te_broker T) now (te_runtime T) (te_auth T)
      (sc_id (te_service T)) secrets) s1 = (s2, Inr u)"
    and applied: "thread (transform_text T) (hs @ [b]) s2 = (s', Inr (xs @ [x]))" and len: "length xs = length hs"
    and t: "tt_headers t = zip (map fst headers) (map ap_value xs)" "tt_body t = ap_value x"
      "tt_secretTokenizationCount t = sum_list (map (\<lambda>c. length (ct_ranges c)) (hs @ [b]))"
    using tokenizeText_parts [OF assms(4)] .
  note col = collect_response_spec [OF assms(1-3) c]
  have s2: "tokenizing_ok T m s2" "runs_to T s1 s2" using capacity_spec [OF _ cap] col by blast+
  note app = texts.thread_ok [OF s2(1) applied fits]
  have s1: "runs_to T s1 s'" using s2(2) app runs_to_trans by blast
  have refs: "\<forall>i < length hs. text_referenced T s' (hs ! i) (xs ! i)" "text_referenced T s' b x"
    using app len by (simp_all add: list_all2_append) (simp add: list_all2_conv_all_nth)
  have protect: "text_protected T (tz_broker s') stands k json sensitive v (ap_value a) (length (ct_ranges d))"
    if "text_collected T (tz_broker s1) k json sensitive v d" "text_referenced T s' d a" "v \<in> snd ` set headers \<union> {body}"
    for k json sensitive v d a
  proof (rule collected_protected [OF collected_runs [OF s1 that(1)] that(2)])
    fix x y secret w assume "hidden_at T json v x y secret" "referenced T (tz_broker s') secret w"
    moreover from this have "hidden_at T True v x y secret" by (auto simp: hidden_at_def)
    ultimately show "stands secret w" using stands [OF that(3)] by blast
  qed
  let ?ns = "map (\<lambda>c. length (ct_ranges c)) (hs @ [b])"
  have "response_tokenized T (tz_broker s') stands (tz_scans s) headers body (tt_headers t) (tt_body t) ?ns"
    unfolding response_tokenized_def
  proof (intro conjI allI impI)
    have n: "length hs = length headers" using col by blast
    show "length ?ns = length headers + 1" "map fst (tt_headers t) = map fst headers" using n len t(1) by simp_all
    show "text_protected T (tz_broker s') stands (tz_scans s + i) False (header_spans T (headers ! i)) (snd (headers ! i))
        (snd (tt_headers t ! i)) (?ns ! i)" if i: "i < length headers" for i
      using protect [of "tz_scans s + i" False "header_spans T (headers ! i)" "snd (headers ! i)" "hs ! i" "xs ! i"] col refs(1) i n len t(1)
      by (simp add: nth_append)
    obtain sensitive where "sensitive_body T headers body = Inr sensitive"
      "text_collected T (tz_broker s1) (tz_scans s + length headers) (isJsonLikeText headers body) (map span sensitive) body b"
      using col by blast
    then show "\<exists>sensitive. sensitive_body T headers body = Inr sensitive \<and>
        text_protected T (tz_broker s') stands (tz_scans s + length headers) (isJsonLikeText headers body) (map span sensitive)
          body (tt_body t) (?ns ! length headers)"
      using protect refs(2) n t(2) by (simp add: nth_append)
  qed
  then show ?thesis using t(3) app col s1 runs_to_trans by blast
qed

section \<open>Properties\<close>

text \<open>
  C10: A response that is passed on is the one received with its secrets replaced. Each header value and the
  body are the original texts in which disjoint ranges are replaced, each by a reference on file for the secret it hides, and
  nothing else is changed: every replaced position belongs to something that was found. In each of the texts everything the
  scanner reports, every sensitive value, every HTTP Basic credential and everything that looks like a reference and was
  not issued to this client for this service is replaced as a whole, and so is every occurrence of a credential of the service,
  plain or escaped for JSON, or one it overlaps. The one exception is what overlaps a reference that was issued to the client:
  the code leaves it alone. The count that is reported is the number of ranges.
\<close>

theorem response_concealed:
  assumes "json_scan_ok (te_jsonScanner T body) body" and "meanwhile_ok T m" and "tokenizing_ok T m s"
    and "tokenizeText T headers body s = (s', Inr t)" and "tz_draws s' \<le> m"
  shows "\<exists>ns. response_tokenized T (tz_broker s') (referenced T (tz_broker s')) (tz_scans s) headers body
      (tt_headers t) (tt_body t) ns \<and> tt_secretTokenizationCount t = sum_list ns"
  using tokenizeText_spec [OF assms(1-4) assms(5), of "referenced T (tz_broker s')"] by blast

text \<open>A reference stands for a secret: it names a credential with it, or a record that holds it.\<close>

definition stands_for :: "tokenizer_env \<Rightarrow> token_broker \<Rightarrow> string \<Rightarrow> string \<Rightarrow> bool" where
  "stands_for T b secret token \<longleftrightarrow> configured_for T b secret token \<or>
     list_ex (\<lambda>s. sr_tokenHash s = be_hash (te_broker T) token \<and> sr_subject s = ac_subject (te_auth T) \<and>
       sr_service s = sc_id (te_service T) \<and> sr_secret s = secret) (tb_secrets b)"

text \<open>The keyed hash does not confuse a secret that the text may hide with another one on file.\<close>

definition index_exact :: "tokenizer_env \<Rightarrow> token_broker \<Rightarrow> string \<Rightarrow> bool" where
  "index_exact T b text \<longleftrightarrow>
     (\<forall>s \<in> set (tb_secrets b). \<forall>x y secret. hidden_at T True text x y secret \<longrightarrow>
        secret_index (te_broker T) s =
            responseSecretIndex (te_broker T) (ac_subject (te_auth T)) (sc_id (te_service T)) secret \<longrightarrow>
          sr_subject s = ac_subject (te_auth T) \<and> sr_service s = sc_id (te_service T) \<and> sr_secret s = secret)"

lemma referenced_stands:
  assumes exact: "index_exact T b text" and hidden: "hidden_at T True text x y secret" and r: "referenced T b secret token"
  shows "stands_for T b secret token"
proof -
  from r consider "configured_for T b secret token" | "stored_for T b secret token" unfolding referenced_def by blast
  then show ?thesis
  proof cases
    case 2
    then obtain r where "r < length (tb_secrets b)" "sr_tokenHash (tb_secrets b ! r) = be_hash (te_broker T) token"
      "secret_index (te_broker T) (tb_secrets b ! r) =
        responseSecretIndex (te_broker T) (ac_subject (te_auth T)) (sc_id (te_service T)) secret"
      unfolding stored_for_def by blast
    moreover from this have "tb_secrets b ! r \<in> set (tb_secrets b)" by simp
    ultimately show ?thesis using exact hidden unfolding stands_for_def index_exact_def list_ex_iff by blast
  qed (simp add: stands_for_def)
qed

text \<open>
  C11: The references in a tokenized response stand for what they replace: in each text the reference put in place
  of a range is on file for the client and the service, as the reference to a credential whose secret is the one that range
  hides, or with a record that holds this very secret. So the client can have it put back.
\<close>

theorem response_references_stand:
  assumes "json_scan_ok (te_jsonScanner T body) body" and "meanwhile_ok T m" and "tokenizing_ok T m s"
    and "tokenizeText T headers body s = (s', Inr t)" and "tz_draws s' \<le> m"
    and "\<forall>text \<in> set (body # map snd headers). index_exact T (tz_broker s') text"
  shows "\<exists>ns. response_tokenized T (tz_broker s') (stands_for T (tz_broker s')) (tz_scans s) headers body
      (tt_headers t) (tt_body t) ns"
proof -
  have stands: "stands_for T (tz_broker s') secret w"
    if "v \<in> snd ` set headers \<union> {body}" "\<exists>x y. hidden_at T True v x y secret" "referenced T (tz_broker s') secret w" for v secret w
    using that assms(6) referenced_stands by auto
  show ?thesis using tokenizeText_spec [OF assms(1-5), of "stands_for T (tz_broker s')"] stands by blast
qed

text \<open>A tokenizer whose draws are pairwise different\<close>

definition counted_tokenizer :: tokenizer_env where
  "counted_tokenizer = sample_tokenizer\<lparr>te_draws := (\<lambda>n. (replicate n CHR ''a'', replicate n CHR ''a''))\<rparr>"

lemma counted_tokenizer_ok: "meanwhile_ok counted_tokenizer m" "tokenizing_ok counted_tokenizer m (tokenizer_start sample_broker)"
proof -
  have T: "te_broker counted_tokenizer = sample_env" "te_meanwhile counted_tokenizer = (\<lambda>_ b. b)"
    "te_draws counted_tokenizer = (\<lambda>n. (replicate n CHR ''a'', replicate n CHR ''a''))"
    by (simp_all add: counted_tokenizer_def sample_tokenizer_def)
  show "meanwhile_ok counted_tokenizer m" using evolves_refl by (auto simp: meanwhile_ok_def T)
  have stores: "map fst (tb_tokenValuesById sample_broker) = [gref_id ''U'']" "tb_responseSecretsByHash sample_broker = []" by code_simp+
  have "set (map fst (tb_tokenValuesById sample_broker)) = {gref_id ''U''}" by (simp add: stores(1))
  then have "draws_free sample_env (te_draws counted_tokenizer) 0 m sample_broker"
    using stores(2) by (simp add: draws_free_def T sec_draw_fresh_def sample_env_def sec_id_def sec_token_def gref_id_def)
  then show "tokenizing_ok counted_tokenizer m (tokenizer_start sample_broker)"
    by (simp add: tokenizing_ok_def broker_good_def T sample_ttls reachable_ok [OF sample_reachable sample_ttls] tokenizer_start_def)
qed

definition sample_tokenized :: "(string, string) jmap \<Rightarrow> tokenizer_state \<times> tokenized_text gateway_result" where
  "sample_tokenized headers = tokenizeText counted_tokenizer headers ''key=hunter2;'' (tokenizer_start sample_broker)"

theorem response_concealed_witness:
  "let b = tz_broker (fst (sample_tokenized []))
   in \<exists>ns. response_tokenized counted_tokenizer b (referenced counted_tokenizer b) 0 [] ''key=hunter2;'' [] ''key=gref_R;'' ns \<and>
        sum_list ns = 1"
proof -
  let ?r = "sample_tokenized []"
  have v: "result_map_value (\<lambda>t. (tt_headers t, tt_body t, tt_secretTokenizationCount t)) (snd ?r) = Inr ([], ''key=gref_R;'', 1)"
    by code_simp
  then obtain t where t: "snd ?r = Inr t" "tt_headers t = []" "tt_body t = ''key=gref_R;''" "tt_secretTokenizationCount t = 1"
    by (auto simp: result_map_value_Inr)
  then have run: "tokenizeText counted_tokenizer [] ''key=hunter2;'' (tokenizer_start sample_broker) = (fst ?r, Inr t)"
    unfolding sample_tokenized_def by (metis prod.collapse)
  have scan: "json_scan_ok (te_jsonScanner counted_tokenizer ''key=hunter2;'') ''key=hunter2;''" by code_simp
  have draws: "tz_draws (fst ?r) \<le> 5" by code_simp
  show ?thesis
    using response_concealed [OF scan counted_tokenizer_ok run draws] t(2-)
    by (simp add: Let_def tokenizer_start_def eq_commute [of "Suc 0"])
qed

theorem response_references_stand_witness:
  "let b = tz_broker (fst (sample_tokenized [(''x'', ''hunter2'')]))
   in \<exists>ns. response_tokenized counted_tokenizer b (stands_for counted_tokenizer b) 0 [(''x'', ''hunter2'')] ''key=hunter2;''
        [(''x'', ''gref_R'')] ''key=gref_R;'' ns"
proof -
  let ?r = "sample_tokenized [(''x'', ''hunter2'')]"
  have v: "result_map_value (\<lambda>t. (tt_headers t, tt_body t)) (snd ?r) = Inr ([(''x'', ''gref_R'')], ''key=gref_R;'')" by code_simp
  then obtain t where t: "snd ?r = Inr t" "tt_headers t = [(''x'', ''gref_R'')]" "tt_body t = ''key=gref_R;''"
    by (auto simp: result_map_value_Inr)
  then have run: "tokenizeText counted_tokenizer [(''x'', ''hunter2'')] ''key=hunter2;'' (tokenizer_start sample_broker) = (fst ?r, Inr t)"
    unfolding sample_tokenized_def by (metis prod.collapse)
  have scan: "json_scan_ok (te_jsonScanner counted_tokenizer ''key=hunter2;'') ''key=hunter2;''" by code_simp
  have draws: "tz_draws (fst ?r) \<le> 5" by code_simp
  have "tb_secrets (tz_broker (fst ?r)) = []" by code_simp
  then have "\<forall>text \<in> set (''key=hunter2;'' # map snd [(''x'', ''hunter2'')]). index_exact counted_tokenizer (tz_broker (fst ?r)) text"
    by (simp add: index_exact_def)
  from response_references_stand [OF scan counted_tokenizer_ok run draws this] show ?thesis
    using t(2,3) by (simp add: Let_def tokenizer_start_def)
qed

end
