(* ===== verification/ScannerPool.thy ===== *)
theory ScannerPool
  imports SecretScanner "HOL-Library.Multiset"
begin

text \<open>
  \<^verbatim>\<open>src/secretScannerPool.ts\<close>: the pool of worker threads that scan texts for secrets. Every method and
  callback runs to its end before the next, so the pool is a state machine over events: a call of \<open>scan\<close> or
  \<open>close\<close>, a timer that fires, or a message, an error or the exit of a worker. A worker that was replaced has no job
  and is no longer in the list, so its later messages and its exit do nothing and are left out. Its error event does
  something: \<open>recycle\<close> then finds no index and stores a new worker under the key \<open>-1\<close> of the array, where neither
  \<open>dispatch\<close> nor \<open>close\<close> nor \<open>stats\<close> ever sees it. The pool counts those workers in \<open>po_extra\<close>, and in
  \<open>po_replaced\<close> the ones taken out of the list whose error event may still come: a worker emits one at most and ends
  with it. How a promise is settled is recorded.
\<close>

section \<open>Model\<close>

record pool_config =
  pc_workers :: nat
  pc_queueMax :: nat
  pc_subjectActiveMax :: nat
  pc_subjectQueueMax :: nat
  pc_queueTimeoutMs :: nat

record job =
  jb_id :: nat
  jb_subject :: string
  jb_text :: string
  jb_rules :: "secretlint_rule_config list"
  jb_timeoutMs :: nat

datatype job_outcome = Job_findings "secret_finding list" | Job_busy string | Job_failed string

record scanner_pool =
  po_config :: pool_config
  po_workers :: "job option list"
  po_queue :: "job list"
  po_activeBySubject :: "(string, nat) jmap"
  po_nextId :: nat
  po_closed :: bool
  po_replaced :: nat
  po_extra :: nat
  po_settled :: "(nat \<times> job_outcome) list"

definition new_pool :: "pool_config \<Rightarrow> scanner_pool" where
  "new_pool config =
     \<lparr>po_config = config, po_workers = replicate (pc_workers config) None, po_queue = [], po_activeBySubject = [],
      po_nextId = 1, po_closed = False, po_replaced = 0, po_extra = 0, po_settled = []\<rparr>"

definition subject_active :: "scanner_pool \<Rightarrow> string \<Rightarrow> nat" where
  "subject_active p subject = (case jmap_get (po_activeBySubject p) subject of None \<Rightarrow> 0 | Some n \<Rightarrow> n)"

definition subject_queued :: "scanner_pool \<Rightarrow> string \<Rightarrow> nat" where
  "subject_queued p subject = length (filter (\<lambda>j. jb_subject j = subject) (po_queue p))"

definition settle :: "nat \<Rightarrow> job_outcome \<Rightarrow> scanner_pool \<Rightarrow> scanner_pool" where
  "settle i outcome p = p\<lparr>po_settled := po_settled p @ [(i, outcome)]\<rparr>"

definition start_job :: "nat \<Rightarrow> job \<Rightarrow> scanner_pool \<Rightarrow> scanner_pool" where
  "start_job i j p =
     p\<lparr>po_workers := (po_workers p)[i := Some j],
       po_activeBySubject := jmap_set (po_activeBySubject p) (jb_subject j) (subject_active p (jb_subject j) + 1)\<rparr>"

definition decrementSubject :: "string \<Rightarrow> scanner_pool \<Rightarrow> scanner_pool" where
  "decrementSubject subject p =
     (let current = (case jmap_get (po_activeBySubject p) subject of None \<Rightarrow> 1 | Some n \<Rightarrow> n)
      in if current \<le> 1 then p\<lparr>po_activeBySubject := jmap_delete (po_activeBySubject p) subject\<rparr>
         else p\<lparr>po_activeBySubject := jmap_set (po_activeBySubject p) subject (current - 1)\<rparr>)"

definition startable :: "scanner_pool \<Rightarrow> job \<Rightarrow> bool" where
  "startable p j \<longleftrightarrow> subject_active p (jb_subject j) < pc_subjectActiveMax (po_config p)"

fun dispatch_loop :: "nat list \<Rightarrow> scanner_pool \<Rightarrow> scanner_pool" where
  "dispatch_loop [] p = p"
| "dispatch_loop (i # is) p =
     (if po_workers p ! i \<noteq> None then dispatch_loop is p
      else let index = length (takeWhile (\<lambda>j. \<not> startable p j) (po_queue p))
           in if index = length (po_queue p) then p
              else dispatch_loop is
                     (start_job i (po_queue p ! index)
                       (p\<lparr>po_queue := take index (po_queue p) @ drop (index + 1) (po_queue p)\<rparr>)))"

definition dispatch :: "scanner_pool \<Rightarrow> scanner_pool" where
  "dispatch p = dispatch_loop [0 ..< length (po_workers p)] p"

text \<open>The end of a job in a worker, which \<open>finish\<close> and \<open>recycle\<close> share\<close>

definition end_job :: "nat \<Rightarrow> job \<Rightarrow> job_outcome \<Rightarrow> scanner_pool \<Rightarrow> scanner_pool" where
  "end_job i j outcome p =
     settle (jb_id j) outcome (decrementSubject (jb_subject j) (p\<lparr>po_workers := (po_workers p)[i := None]\<rparr>))"

definition finish :: "nat \<Rightarrow> job_outcome \<Rightarrow> scanner_pool \<Rightarrow> scanner_pool" where
  "finish i outcome p =
     (case po_workers p ! i of None \<Rightarrow> p | Some j \<Rightarrow> dispatch (end_job i j outcome p))"

text \<open>
  \<open>this.workers[index] = this.createWorker()\<close>, unless the pool is closed: the new worker has no job, and \<open>None\<close>
  is the index \<open>-1\<close> of a worker that is not in the list.
\<close>

definition store_new_worker :: "nat option \<Rightarrow> scanner_pool \<Rightarrow> scanner_pool" where
  "store_new_worker index p =
     (if po_closed p then p
      else case index of
             None \<Rightarrow> p\<lparr>po_extra := po_extra p + 1\<rparr>
           | Some i \<Rightarrow> p\<lparr>po_workers := (po_workers p)[i := None], po_replaced := po_replaced p + 1\<rparr>)"

definition entry_job :: "nat option \<Rightarrow> scanner_pool \<Rightarrow> (nat \<times> job) option" where
  "entry_job index p =
     (case index of None \<Rightarrow> None | Some i \<Rightarrow> (case po_workers p ! i of None \<Rightarrow> None | Some j \<Rightarrow> Some (i, j)))"

definition recycle :: "nat option \<Rightarrow> string \<Rightarrow> scanner_pool \<Rightarrow> scanner_pool" where
  "recycle index msg p =
     dispatch (store_new_worker index
       (case entry_job index p of None \<Rightarrow> p | Some (i, j) \<Rightarrow> end_job i j (Job_failed msg) p))"

datatype worker_message = Worker_error | Worker_findings json

datatype pool_event =
  Scan string string "secretlint_rule_config list" nat
| Queue_timeout nat
| Scan_timeout nat
| Message nat nat worker_message
| Worker_failed nat
| Worker_exit nat int
| Replaced_failed
| Extra_failed
| Close

text \<open>\<open>scan\<close>: \<open>Inl\<close> when it throws at once, otherwise the job of the promise\<close>

definition scan :: "string \<Rightarrow> string \<Rightarrow> secretlint_rule_config list \<Rightarrow> nat \<Rightarrow> scanner_pool \<Rightarrow> scanner_pool \<times> (string + nat)" where
  "scan subject text rules timeoutMs p =
     (if po_closed p then (p, Inl ''Secret scanner is closed'')
      else let C = po_config p;
               free = length (takeWhile (\<lambda>w. w \<noteq> None) (po_workers p));
               canStart = (free < length (po_workers p) \<and> subject_active p subject < pc_subjectActiveMax C);
               j = \<lparr>jb_id = po_nextId p, jb_subject = subject, jb_text = text, jb_rules = rules, jb_timeoutMs = timeoutMs\<rparr>;
               p' = p\<lparr>po_nextId := po_nextId p + 1\<rparr>
           in if \<not> canStart \<and>
                 (pc_queueMax C \<le> length (po_queue p) \<or> pc_subjectQueueMax C \<le> subject_queued p subject)
              then (p, Inl ''Secret scanner is busy'')
              else if canStart then (start_job free j p', Inr (jb_id j))
              else (p'\<lparr>po_queue := po_queue p @ [j]\<rparr>, Inr (jb_id j)))"

definition queue_timeout :: "nat \<Rightarrow> scanner_pool \<Rightarrow> scanner_pool" where
  "queue_timeout i p =
     (if list_ex (\<lambda>j. jb_id j = i) (po_queue p)
      then settle i (Job_busy ''Secret scanner queue timed out'')
             (p\<lparr>po_queue := filter (\<lambda>j. jb_id j \<noteq> i) (po_queue p)\<rparr>)
      else p)"

definition on_message :: "nat \<Rightarrow> nat \<Rightarrow> worker_message \<Rightarrow> scanner_pool \<Rightarrow> scanner_pool" where
  "on_message i jobId m p =
     (case po_workers p ! i of
        None \<Rightarrow> p
      | Some j \<Rightarrow>
          (if jobId \<noteq> jb_id j then p
           else case m of
                  Worker_error \<Rightarrow> finish i (Job_failed ''Secretlint scan failed'') p
                | Worker_findings v \<Rightarrow>
                    (case validateFindings v (length (jb_text j)) of
                       Inl msg \<Rightarrow> finish i (Job_failed msg) p
                     | Inr findings \<Rightarrow> finish i (Job_findings findings) p)))"

definition close_pool :: "scanner_pool \<Rightarrow> scanner_pool" where
  "close_pool p =
     foldl (\<lambda>q j. settle (jb_id j) (Job_busy ''Secret scanner is closed'') q)
       (p\<lparr>po_closed := True, po_queue := []\<rparr>) (po_queue p)"

record pool_stats =
  ps_workers :: nat
  ps_active :: nat
  ps_queued :: nat
  ps_activeSubjects :: nat

definition stats :: "scanner_pool \<Rightarrow> pool_stats" where
  "stats p =
     \<lparr>ps_workers = length (po_workers p), ps_active = length (filter (\<lambda>w. w \<noteq> None) (po_workers p)),
      ps_queued = length (po_queue p), ps_activeSubjects = length (po_activeBySubject p)\<rparr>"

fun handle_event :: "pool_event \<Rightarrow> scanner_pool \<Rightarrow> scanner_pool" where
  "handle_event (Scan subject text rules timeoutMs) p = fst (scan subject text rules timeoutMs p)"
| "handle_event (Queue_timeout i) p = queue_timeout i p"
| "handle_event (Scan_timeout i) p = recycle (Some i) ''Secretlint scan timed out'' p"
| "handle_event (Message i jobId m) p = on_message i jobId m p"
| "handle_event (Worker_failed i) p = recycle (Some i) ''Secretlint worker failed'' p"
| "handle_event (Worker_exit i code) p =
     (if \<not> po_closed p \<and> code \<noteq> 0 \<and> po_workers p ! i \<noteq> None then recycle (Some i) ''Secretlint worker exited'' p else p)"
| "handle_event Replaced_failed p =
     recycle None ''Secretlint worker failed'' (p\<lparr>po_replaced := po_replaced p - 1\<rparr>)"
| "handle_event Extra_failed p =
     recycle None ''Secretlint worker failed'' (p\<lparr>po_extra := po_extra p - 1\<rparr>)"
| "handle_event Close p = close_pool p"

text \<open>Events come from workers the pool has started.\<close>

fun event_of :: "scanner_pool \<Rightarrow> pool_event \<Rightarrow> bool" where
  "event_of p (Scan_timeout i) = (i < length (po_workers p))"
| "event_of p (Message i jobId m) = (i < length (po_workers p))"
| "event_of p (Worker_failed i) = (i < length (po_workers p))"
| "event_of p (Worker_exit i code) = (i < length (po_workers p))"
| "event_of p Replaced_failed = (0 < po_replaced p)"
| "event_of p Extra_failed = (0 < po_extra p)"
| "event_of p _ = True"

inductive pool_reachable :: "pool_config \<Rightarrow> scanner_pool \<Rightarrow> bool" for config where
  pool_new: "pool_reachable config (new_pool config)"
| pool_event: "pool_reachable config p \<Longrightarrow> event_of p ev \<Longrightarrow> pool_reachable config (handle_event ev p)"

section \<open>The invariant\<close>

definition jobs_of :: "job option list \<Rightarrow> job list" where
  "jobs_of ws = concat (map (\<lambda>w. case w of None \<Rightarrow> [] | Some j \<Rightarrow> [j]) ws)"

definition running :: "scanner_pool \<Rightarrow> string \<Rightarrow> nat" where
  "running p subject = length (filter (\<lambda>j. jb_subject j = subject) (jobs_of (po_workers p)))"

text \<open>Every job that was accepted is queued, running or settled, and only one of these, and only once.\<close>

definition job_ids :: "scanner_pool \<Rightarrow> nat multiset" where
  "job_ids p = mset (map jb_id (po_queue p)) + mset (map jb_id (jobs_of (po_workers p))) + mset (map fst (po_settled p))"

definition pool_ok :: "scanner_pool \<Rightarrow> bool" where
  "pool_ok p \<longleftrightarrow>
     (\<forall>subject. subject_active p subject = running p subject) \<and>
     (\<forall>subject. running p subject \<le> pc_subjectActiveMax (po_config p)) \<and>
     (\<forall>subject. subject_queued p subject \<le> pc_subjectQueueMax (po_config p)) \<and>
     length (po_queue p) \<le> pc_queueMax (po_config p) \<and>
     length (po_workers p) = pc_workers (po_config p) \<and>
     job_ids p = mset [1 ..< po_nextId p] \<and> 1 \<le> po_nextId p"

text \<open>No worker is idle while a queued job may start.\<close>

definition work_conserving :: "scanner_pool \<Rightarrow> bool" where
  "work_conserving p \<longleftrightarrow> None \<notin> set (po_workers p) \<or> list_all (\<lambda>j. \<not> startable p j) (po_queue p)"

end
