(* ===== verification/ScannerPoolProperties.thy ===== *)
theory ScannerPoolProperties
  imports ScannerPool
begin

text \<open>
  Every event keeps the invariant of the pool: counts and limits are right, no job is lost or settled twice,
  and no worker is idle while a queued job may start.
\<close>

section \<open>Jobs of workers\<close>

lemma jobs_of_start:
  "i < length ws \<Longrightarrow> ws ! i = None \<Longrightarrow> mset (jobs_of (ws[i := Some j])) = add_mset j (mset (jobs_of ws))"
proof (induction ws arbitrary: i)
  case (Cons w ws)
  then show ?case by (cases i) (auto simp: jobs_of_def)
qed simp

lemma jobs_of_end:
  "i < length ws \<Longrightarrow> ws ! i = Some j \<Longrightarrow> mset (jobs_of ws) = add_mset j (mset (jobs_of (ws[i := None])))"
proof (induction ws arbitrary: i)
  case (Cons w ws)
  then show ?case by (cases i) (auto simp: jobs_of_def)
qed simp

lemma jobs_of_none [simp]: "jobs_of (replicate n None) = []"
  by (induction n) (simp_all add: jobs_of_def)

lemma running_mset: "running p s = size (filter_mset (\<lambda>j. jb_subject j = s) (mset (jobs_of (po_workers p))))"
  by (simp add: running_def flip: mset_filter size_mset)

lemma job_ids_mset:
  "job_ids p = image_mset jb_id (mset (po_queue p)) + image_mset jb_id (mset (jobs_of (po_workers p))) +
    image_mset fst (mset (po_settled p))"
  by (simp add: job_ids_def)

lemma pool_okD:
  assumes "pool_ok p"
  shows "subject_active p s = running p s" and "running p s \<le> pc_subjectActiveMax (po_config p)"
    and "subject_queued p s \<le> pc_subjectQueueMax (po_config p)" and "length (po_queue p) \<le> pc_queueMax (po_config p)"
    and "length (po_workers p) = pc_workers (po_config p)" and "job_ids p = mset [1 ..< po_nextId p]"
    and "1 \<le> po_nextId p"
  using assms unfolding pool_ok_def by blast+

section \<open>Steps\<close>

lemma active_start [simp]:
  "subject_active (start_job i j p) s = subject_active p s + (if s = jb_subject j then 1 else 0)"
  by (simp add: subject_active_def start_job_def)

lemma start_fields [simp]:
  "po_config (start_job i j p) = po_config p" "po_queue (start_job i j p) = po_queue p"
  "po_settled (start_job i j p) = po_settled p" "po_nextId (start_job i j p) = po_nextId p"
  "length (po_workers (start_job i j p)) = length (po_workers p)"
  by (simp_all add: start_job_def)

lemma running_start:
  assumes "i < length (po_workers p)" and "po_workers p ! i = None"
  shows "running (start_job i j p) s = running p s + (if s = jb_subject j then 1 else 0)"
  using jobs_of_start [OF assms] by (simp add: running_mset start_job_def)

lemma job_ids_start:
  assumes "i < length (po_workers p)" and "po_workers p ! i = None"
  shows "job_ids (start_job i j p) = add_mset (jb_id j) (job_ids p)"
  using jobs_of_start [OF assms] by (simp add: job_ids_mset start_job_def)

text \<open>A job of the queue that may start starts.\<close>

lemma dequeue_ok:
  assumes ok: "pool_ok p" and i: "i < length (po_workers p)" "po_workers p ! i = None"
    and k: "k < length (po_queue p)" "startable p (po_queue p ! k)"
  shows "pool_ok (start_job i (po_queue p ! k) (p\<lparr>po_queue := take k (po_queue p) @ drop (k + 1) (po_queue p)\<rparr>))"
proof -
  let ?j = "po_queue p ! k" and ?q = "take k (po_queue p) @ drop (k + 1) (po_queue p)"
  let ?p = "p\<lparr>po_queue := ?q\<rparr>"
  have split: "po_queue p = take k (po_queue p) @ ?j # drop (k + 1) (po_queue p)" using id_take_nth_drop [OF k(1)] by simp
  have q: "mset (po_queue p) = add_mset ?j (mset ?q)" by (subst split) simp
  have len: "length ?q \<le> length (po_queue p)" using k(1) by simp
  have queued: "subject_queued (start_job i ?j ?p) s \<le> subject_queued p s" for s
  proof -
    have "subject_queued (start_job i ?j ?p) s = size (filter_mset (\<lambda>j. jb_subject j = s) (mset ?q))"
      by (simp add: subject_queued_def flip: mset_filter size_mset)
    also have "\<dots> \<le> size (filter_mset (\<lambda>j. jb_subject j = s) (mset (po_queue p)))" unfolding q by simp
    finally show ?thesis by (simp add: subject_queued_def flip: mset_filter size_mset)
  qed
  have ids: "job_ids (start_job i ?j ?p) = job_ids p"
  proof -
    have "job_ids (start_job i ?j ?p) = add_mset (jb_id ?j) (job_ids ?p)" by (rule job_ids_start) (use i in simp_all)
    then show ?thesis unfolding job_ids_mset by (simp add: q)
  qed
  have run: "running ?p s = running p s" "subject_active ?p s = subject_active p s" for s
    by (simp_all add: running_def subject_active_def)
  have "running (start_job i ?j ?p) s = running p s + (if s = jb_subject ?j then 1 else 0)" for s
    using running_start [of i ?p ?j s] i run by simp
  moreover from this have "running (start_job i ?j ?p) s \<le> pc_subjectActiveMax (po_config p)" for s
    using k(2) pool_okD(1) [OF ok, of "jb_subject ?j"] pool_okD(2) [OF ok, of s] by (auto simp: startable_def)
  ultimately show ?thesis
    using pool_okD [OF ok] order_trans [OF queued pool_okD(3) [OF ok]] len ids run(2) unfolding pool_ok_def by auto
qed

lemma length_dispatch_loop [simp]: "length (po_workers (dispatch_loop is p)) = length (po_workers p)"
  by (induction "is" p rule: dispatch_loop.induct) (simp_all add: Let_def)

lemma dispatch_loop_ok:
  assumes "pool_ok p" and "set is \<subseteq> {..< length (po_workers p)}"
    and "\<forall>i < length (po_workers p). i \<notin> set is \<longrightarrow> po_workers p ! i \<noteq> None"
  shows "pool_ok (dispatch_loop is p) \<and> work_conserving (dispatch_loop is p)"
  using assms
proof (induction "is" p rule: dispatch_loop.induct)
  case (1 p)
  then show ?case by (auto simp: work_conserving_def in_set_conv_nth)
next
  case (2 i "is" p)
  let ?k = "length (takeWhile (\<lambda>j. \<not> startable p j) (po_queue p))"
  show ?case
  proof (cases "po_workers p ! i = None")
    case False
    then show ?thesis using 2(1) [OF False] 2(3-5) by auto
  next
    case True
    show ?thesis
    proof (cases "?k = length (po_queue p)")
      case True
      then have "list_all (\<lambda>j. \<not> startable p j) (po_queue p)"
        by (metis list_all_iff set_takeWhileD takeWhile_eq_all_conv takeWhile_eq_take take_all_iff order_refl)
      then show ?thesis using True 2(3) \<open>po_workers p ! i = None\<close> by (simp add: work_conserving_def)
    next
      case False
      then have k: "?k < length (po_queue p)" using length_takeWhile_le [of _ "po_queue p"] by (simp add: order_less_le)
      let ?p = "start_job i (po_queue p ! ?k) (p\<lparr>po_queue := take ?k (po_queue p) @ drop (?k + 1) (po_queue p)\<rparr>)"
      have "startable p (po_queue p ! ?k)" using nth_length_takeWhile [OF k] by simp
      then have ok: "pool_ok ?p" by (intro dequeue_ok) (use 2(3,4) True k in auto)
      have "po_workers ?p = (po_workers p)[i := Some (po_queue p ! ?k)]" by (simp add: start_job_def)
      then have busy: "po_workers ?p ! n \<noteq> None" if n: "n < length (po_workers ?p)" "n \<notin> set is" for n
        using 2(5) n by (cases "n = i") (simp_all add: nth_list_update)
      have "pool_ok (dispatch_loop is ?p) \<and> work_conserving (dispatch_loop is ?p)"
        by (rule 2(2) [OF _ refl False]) (use True ok busy 2(4) in auto)
      then show ?thesis using True False by (simp add: Let_def)
    qed
  qed
qed

lemma dispatch_ok: "pool_ok p \<Longrightarrow> pool_ok (dispatch p) \<and> work_conserving (dispatch p)"
  unfolding dispatch_def by (rule dispatch_loop_ok) auto

lemma end_job_ok:
  assumes ok: "pool_ok p" and i: "i < length (po_workers p)" "po_workers p ! i = Some j"
  shows "pool_ok (end_job i j outcome p)"
proof -
  let ?e = "end_job i j outcome p"
  have w: "mset (jobs_of (po_workers p)) = add_mset j (mset (jobs_of (po_workers ?e)))"
    using jobs_of_end [OF i] by (simp add: end_job_def settle_def decrementSubject_def Let_def)
  have fields: "po_config ?e = po_config p" "po_queue ?e = po_queue p" "po_nextId ?e = po_nextId p"
    "po_settled ?e = po_settled p @ [(jb_id j, outcome)]" "length (po_workers ?e) = length (po_workers p)"
    by (simp_all add: end_job_def settle_def decrementSubject_def Let_def)
  have run: "running p s = running ?e s + (if s = jb_subject j then 1 else 0)" for s unfolding running_mset w by simp
  have active: "subject_active ?e s = subject_active p s - (if s = jb_subject j then 1 else 0)" for s
  proof -
    have "1 \<le> subject_active p (jb_subject j)" using pool_okD(1) [OF ok, of "jb_subject j"] run [of "jb_subject j"] by simp
    then obtain n where n: "jmap_get (po_activeBySubject p) (jb_subject j) = Some n" "1 \<le> n"
      unfolding subject_active_def by (cases "jmap_get (po_activeBySubject p) (jb_subject j)") simp_all
    have "po_activeBySubject ?e =
        (if n \<le> 1 then jmap_delete (po_activeBySubject p) (jb_subject j)
         else jmap_set (po_activeBySubject p) (jb_subject j) (n - 1))"
      using n(1) by (simp add: end_job_def settle_def decrementSubject_def Let_def)
    then show ?thesis using n by (simp add: subject_active_def)
  qed
  have "subject_active ?e s = running ?e s" for s using active [of s] run [of s] pool_okD(1) [OF ok, of s] by simp
  moreover have "running ?e s \<le> pc_subjectActiveMax (po_config p)" for s using run [of s] pool_okD(2) [OF ok, of s] by simp
  moreover have "job_ids ?e = job_ids p" unfolding job_ids_mset w fields by simp
  ultimately show ?thesis
    using pool_okD [OF ok] unfolding pool_ok_def fields subject_queued_def by simp
qed

lemma finish_ok:
  "pool_ok p \<Longrightarrow> work_conserving p \<Longrightarrow> i < length (po_workers p) \<Longrightarrow>
    pool_ok (finish i outcome p) \<and> work_conserving (finish i outcome p)"
  by (auto simp: finish_def dispatch_ok end_job_ok split: option.splits)

text \<open>A new worker changes nothing of what the jobs see; its own place has no job any more.\<close>

lemma pool_ok_counters [simp]:
  "pool_ok (p\<lparr>po_replaced := m\<rparr>) = pool_ok p" "pool_ok (p\<lparr>po_extra := m\<rparr>) = pool_ok p"
  by (simp_all add: pool_ok_def subject_active_def running_def subject_queued_def job_ids_def)

lemma store_new_worker_ok:
  assumes "pool_ok p" and "\<And>i. index = Some i \<Longrightarrow> po_workers p ! i = None"
  shows "pool_ok (store_new_worker index p)"
proof (cases index)
  case (Some i)
  then have same: "(po_workers p)[i := None] = po_workers p" using assms(2) list_update_id [of "po_workers p" i] by simp
  have "store_new_worker index p = (if po_closed p then p else p\<lparr>po_replaced := po_replaced p + 1\<rparr>)"
    unfolding store_new_worker_def Some by (simp add: same)
  then show ?thesis using assms(1) by simp
qed (use assms(1) in \<open>simp add: store_new_worker_def\<close>)

lemma recycle_ok:
  assumes ok: "pool_ok p" and i: "\<And>i. index = Some i \<Longrightarrow> i < length (po_workers p)"
  shows "pool_ok (recycle index msg p) \<and> work_conserving (recycle index msg p)"
proof -
  let ?p = "case entry_job index p of None \<Rightarrow> p | Some (i, j) \<Rightarrow> end_job i j (Job_failed msg) p"
  have "pool_ok ?p" using ok i end_job_ok [OF ok] by (auto simp: entry_job_def split: option.splits)
  moreover have "po_workers ?p ! i = None" if "index = Some i" for i
    using that i by (auto simp: entry_job_def end_job_def settle_def decrementSubject_def Let_def split: option.splits)
  ultimately have "pool_ok (store_new_worker index ?p)" by (rule store_new_worker_ok)
  then show ?thesis unfolding recycle_def by (rule dispatch_ok)
qed

lemma recycle_listed_ok:
  "pool_ok p \<Longrightarrow> i < length (po_workers p) \<Longrightarrow> pool_ok (recycle (Some i) m p) \<and> work_conserving (recycle (Some i) m p)"
  by (rule recycle_ok) simp_all

lemma recycle_unlisted_ok: "pool_ok p \<Longrightarrow> pool_ok (recycle None m p) \<and> work_conserving (recycle None m p)"
  by (rule recycle_ok) simp_all

lemma queued_mset: "subject_queued p s = size (filter_mset (\<lambda>j. jb_subject j = s) (mset (po_queue p)))"
  by (simp add: subject_queued_def flip: mset_filter size_mset)

lemma upt_snoc_mset: "1 \<le> n \<Longrightarrow> mset [1 ..< n + 1] = add_mset n (mset [1 ..< n])"
  by simp

lemma scan_ok_step:
  assumes ok: "pool_ok p" and wc: "work_conserving p"
  shows "pool_ok (fst (scan subject text rules t p)) \<and> work_conserving (fst (scan subject text rules t p))"
proof -
  let ?j = "\<lparr>jb_id = po_nextId p, jb_subject = subject, jb_text = text, jb_rules = rules, jb_timeoutMs = t\<rparr>"
  let ?free = "length (takeWhile (\<lambda>w. w \<noteq> None) (po_workers p))"
  let ?p = "p\<lparr>po_nextId := Suc (po_nextId p)\<rparr>"
  have same: "subject_active ?p s = subject_active p s" "running ?p s = running p s" "subject_queued ?p s = subject_queued p s"
    "job_ids ?p = job_ids p" for s
    by (simp_all add: subject_active_def running_def subject_queued_def job_ids_def)
  show ?thesis
  proof (cases "?free < length (po_workers p) \<and> subject_active p subject < pc_subjectActiveMax (po_config p)")
    case True
    then have none: "po_workers p ! ?free = None"
      using nth_length_takeWhile [of "\<lambda>w. w \<noteq> None" "po_workers p"] by simp
    let ?q = "start_job ?free ?j ?p"
    have run: "running ?q s = running p s + (if s = subject then 1 else 0)" for s
      using running_start [of ?free ?p ?j s] True none same by simp
    have ids: "job_ids ?q = add_mset (po_nextId p) (job_ids p)"
      using job_ids_start [of ?free ?p ?j] True none same by simp
    have queued: "subject_queued ?q s = subject_queued p s" for s by (simp add: subject_queued_def)
    have max: "running ?q s \<le> pc_subjectActiveMax (po_config p)" for s
      using True pool_okD(1) [OF ok, of subject] pool_okD(2) [OF ok, of s] unfolding run by auto
    have "pool_ok ?q"
      unfolding pool_ok_def
      using pool_okD [OF ok] run ids queued max upt_snoc_mset [OF pool_okD(7) [OF ok]] same by auto
    moreover have "list_all (\<lambda>j. \<not> startable ?q j) (po_queue ?q)"
    proof -
      have "None \<in> set (po_workers p)" using True none by (metis nth_mem)
      then have "list_all (\<lambda>j. \<not> startable p j) (po_queue p)" using wc by (simp add: work_conserving_def)
      then show ?thesis by (auto simp: list_all_iff startable_def same)
    qed
    ultimately show ?thesis using ok wc True by (auto simp: scan_def Let_def work_conserving_def)
  next
    case False
    let ?q = "?p\<lparr>po_queue := po_queue p @ [?j]\<rparr>"
    have "pool_ok ?q \<and> work_conserving ?q"
      if room: "length (po_queue p) < pc_queueMax (po_config p)" "subject_queued p subject < pc_subjectQueueMax (po_config p)"
    proof
      have q: "subject_queued ?q s = subject_queued p s + (if s = subject then 1 else 0)" for s
        by (simp add: queued_mset)
      have "job_ids ?q = add_mset (po_nextId p) (job_ids p)" by (simp add: job_ids_def)
      moreover have "running ?q s = running p s" "subject_active ?q s = subject_active p s" for s
        by (simp_all add: running_def subject_active_def)
      moreover have "subject_queued ?q s \<le> pc_subjectQueueMax (po_config p)" for s
        using room(2) pool_okD(3) [OF ok, of s] unfolding q by auto
      ultimately show "pool_ok ?q"
        unfolding pool_ok_def
        using pool_okD [OF ok] room(1) upt_snoc_mset [OF pool_okD(7) [OF ok]] by auto
      have st: "startable ?q j = startable p j" for j by (simp add: startable_def subject_active_def)
      show "work_conserving ?q"
      proof (cases "None \<in> set (po_workers p)")
        case True
        then have "?free < length (po_workers p)"
          by (metis length_takeWhile_le order_less_le set_takeWhileD takeWhile_eq_take take_all)
        then show ?thesis using False wc True by (auto simp: work_conserving_def st list_all_iff) (auto simp: startable_def)
      qed (simp add: work_conserving_def)
    qed
    then show ?thesis using ok wc False by (auto simp: scan_def Let_def)
  qed
qed

lemma filter_id_mset:
  assumes "distinct (map f xs)" and "x \<in> set xs"
  shows "mset xs = add_mset x (mset (filter (\<lambda>y. f y \<noteq> f x) xs))"
  using assms
proof (induction xs)
  case (Cons y ys)
  show ?case
  proof (cases "y = x")
    case True
    then have "filter (\<lambda>y. f y \<noteq> f x) ys = ys" using Cons.prems True by (intro filter_True) (auto simp: image_iff)
    then show ?thesis using True by simp
  next
    case False
    then show ?thesis using Cons by (auto simp: image_iff)
  qed
qed simp

lemma queue_ids_distinct: "pool_ok p \<Longrightarrow> distinct (map jb_id (po_queue p))"
proof -
  assume ok: "pool_ok p"
  have "mset (map jb_id (po_queue p)) \<subseteq># mset [1 ..< po_nextId p]"
    using pool_okD(6) [OF ok] unfolding job_ids_def by (metis mset_subset_eq_add_left add.assoc)
  then obtain r where "mset [1 ..< po_nextId p] = mset (map jb_id (po_queue p)) + r" by (auto simp: subset_mset.le_iff_add)
  then have "mset ((map jb_id (po_queue p)) @ sorted_list_of_multiset r) = mset [1 ..< po_nextId p]" by simp
  then have "distinct (map jb_id (po_queue p) @ sorted_list_of_multiset r)" by (metis distinct_upt mset_eq_imp_distinct_iff)
  then show ?thesis by simp
qed

lemma queue_timeout_ok:
  assumes ok: "pool_ok p" and wc: "work_conserving p"
  shows "pool_ok (queue_timeout i p) \<and> work_conserving (queue_timeout i p)"
proof (cases "list_ex (\<lambda>j. jb_id j = i) (po_queue p)")
  case True
  then obtain j where j: "j \<in> set (po_queue p)" "jb_id j = i" by (auto simp: list_ex_iff)
  let ?q = "filter (\<lambda>j. jb_id j \<noteq> i) (po_queue p)"
  have q: "mset (po_queue p) = add_mset j (mset ?q)"
    using filter_id_mset [OF queue_ids_distinct [OF ok] j(1)] j(2) by simp
  let ?p = "settle i (Job_busy ''Secret scanner queue timed out'') (p\<lparr>po_queue := ?q\<rparr>)"
  have "job_ids ?p = job_ids p" unfolding job_ids_mset q using j(2) by (simp add: settle_def)
  moreover have le: "subject_queued ?p s \<le> subject_queued p s" for s unfolding queued_mset q by (simp add: settle_def)
  note bounds = order_trans [OF le pool_okD(3) [OF ok]] order_trans [OF length_filter_le pool_okD(4) [OF ok]]
  moreover have "running ?p s = running p s" "subject_active ?p s = subject_active p s" for s
    by (simp_all add: running_def subject_active_def settle_def)
  ultimately have "pool_ok ?p"
    using pool_okD [OF ok] bounds unfolding pool_ok_def by (auto simp: settle_def)
  moreover have "work_conserving ?p"
    using wc by (auto simp: work_conserving_def settle_def list_all_iff startable_def subject_active_def)
  ultimately show ?thesis using True by (simp add: queue_timeout_def)
qed (use ok wc in \<open>simp add: queue_timeout_def\<close>)

lemma close_settles:
  "foldl (\<lambda>q j. settle (jb_id j) (Job_busy m) q) p js = p\<lparr>po_settled := po_settled p @ map (\<lambda>j. (jb_id j, Job_busy m)) js\<rparr>"
  by (induction js arbitrary: p) (simp_all add: settle_def)

lemma close_ok: "pool_ok p \<Longrightarrow> pool_ok (close_pool p) \<and> work_conserving (close_pool p)"
proof -
  assume ok: "pool_ok p"
  let ?c = "close_pool p"
  have "job_ids ?c = job_ids p" by (simp add: close_pool_def close_settles job_ids_def comp_def)
  moreover have "running ?c s = running p s" "subject_active ?c s = subject_active p s" "subject_queued ?c s = 0" for s
    by (simp_all add: close_pool_def close_settles running_def subject_active_def subject_queued_def)
  moreover have "po_queue ?c = []" "po_config ?c = po_config p" "po_workers ?c = po_workers p" "po_nextId ?c = po_nextId p"
    by (simp_all add: close_pool_def close_settles)
  ultimately show ?thesis using pool_okD [OF ok] unfolding pool_ok_def work_conserving_def by simp
qed

lemma handle_event_ok:
  assumes "pool_ok p" and "work_conserving p" and "event_of p ev"
  shows "pool_ok (handle_event ev p) \<and> work_conserving (handle_event ev p)"
  using assms
  by (cases ev)
    (auto simp: scan_ok_step queue_timeout_ok recycle_listed_ok recycle_unlisted_ok close_ok finish_ok on_message_def
      split: option.splits worker_message.splits sum.splits)

text \<open>What no job sees: the counts of workers outside the list\<close>

lemma extra_kept [simp]:
  "po_extra (start_job i j p) = po_extra p" "po_extra (settle i out p) = po_extra p"
  "po_extra (decrementSubject s p) = po_extra p" "po_extra (end_job i j out p) = po_extra p"
  "po_closed (start_job i j p) = po_closed p" "po_closed (settle i out p) = po_closed p"
  "po_closed (decrementSubject s p) = po_closed p" "po_closed (end_job i j out p) = po_closed p"
  by (simp_all add: start_job_def settle_def decrementSubject_def end_job_def Let_def)

lemma extra_dispatch [simp]: "po_extra (dispatch p) = po_extra p"
proof -
  have "po_extra (dispatch_loop is q) = po_extra q" for "is" q
    by (induction "is" q rule: dispatch_loop.induct) (simp_all add: Let_def)
  then show ?thesis by (simp add: dispatch_def)
qed

lemma extra_finish [simp]: "po_extra (finish i out p) = po_extra p"
  by (simp add: finish_def split: option.splits)

lemma extra_recycle:
  "po_extra (recycle index msg p) = po_extra p + (if index = None \<and> \<not> po_closed p then 1 else 0)"
  by (simp add: recycle_def store_new_worker_def entry_job_def split: option.splits)

lemma extra_handle:
  "po_extra (handle_event ev p) =
     (case ev of
        Replaced_failed \<Rightarrow> po_extra p + (if po_closed p then 0 else 1)
      | Extra_failed \<Rightarrow> po_extra p - 1 + (if po_closed p then 0 else 1)
      | _ \<Rightarrow> po_extra p)"
  by (cases ev)
    (simp_all add: extra_recycle scan_def queue_timeout_def on_message_def close_pool_def close_settles Let_def
      split: option.splits worker_message.splits sum.splits)

lemma new_pool_ok: "pool_ok (new_pool config) \<and> work_conserving (new_pool config)"
  by (simp add: pool_ok_def work_conserving_def new_pool_def subject_active_def running_def subject_queued_def job_ids_def)

lemma handle_config [simp]: "po_config (handle_event ev p) = po_config p"
proof -
  have end_config: "po_config (end_job i j o1 q) = po_config q" for i j o1 q
    by (simp add: end_job_def settle_def decrementSubject_def Let_def)
  have settled: "po_config (settle i o1 q) = po_config q" for i o1 q by (simp add: settle_def)
  have loop: "po_config (dispatch_loop is q) = po_config q" for "is" q
    by (induction "is" q rule: dispatch_loop.induct) (simp_all add: Let_def)
  show ?thesis
    by (cases ev)
      (auto simp: scan_def queue_timeout_def settled recycle_def store_new_worker_def finish_def on_message_def close_pool_def close_settles
        end_config loop dispatch_def Let_def split: option.splits worker_message.splits sum.splits)
qed

lemma pool_reachable_ok:
  "pool_reachable config p \<Longrightarrow> pool_ok p \<and> work_conserving p \<and> po_config p = config"
proof (induction rule: pool_reachable.induct)
  case pool_new
  then show ?case using new_pool_ok [of config] by (simp add: new_pool_def)
qed (simp add: handle_event_ok)

section \<open>Properties\<close>

text \<open>
  C27: Whatever happens to the pool, the limits on its jobs hold: the workers that are given jobs are as many as
  configured, the count of running scans of a subject is exact and within its limit, and so are the queue and a
  subject's part of it. The number of worker threads is not bounded by the configuration: a worker outside the list
  is started exactly when, before the pool is closed, a worker that was replaced fails late or such an extra worker
  fails (which itself ends), and closing the pool ends none of them.
\<close>

theorem pool_within_limits:
  assumes "pool_reachable config p"
  shows "length (po_workers p) = pc_workers config \<and> length (po_queue p) \<le> pc_queueMax config \<and>
    subject_active p subject = running p subject \<and> running p subject \<le> pc_subjectActiveMax config \<and>
    subject_queued p subject \<le> pc_subjectQueueMax config \<and>
    po_extra (handle_event ev p) =
      (case ev of
         Replaced_failed \<Rightarrow> po_extra p + (if po_closed p then 0 else 1)
       | Extra_failed \<Rightarrow> po_extra p - 1 + (if po_closed p then 0 else 1)
       | _ \<Rightarrow> po_extra p)"
  using pool_reachable_ok [OF assms] pool_okD extra_handle [of ev p] by metis

text \<open>
  C26: Every scan the pool accepts is accounted for: the jobs that wait, run and have been settled are together
  exactly the ones that were accepted, each once, so no promise is settled twice and none is dropped; and no worker is
  idle while a job that waits is allowed to run.
\<close>

theorem pool_loses_no_job:
  assumes "pool_reachable config p"
  shows "job_ids p = mset [1 ..< po_nextId p] \<and> distinct (map fst (po_settled p)) \<and> work_conserving p"
proof -
  have ok: "pool_ok p" "work_conserving p" using pool_reachable_ok [OF assms] by simp_all
  have ids: "mset (map fst (po_settled p)) + (mset (map jb_id (po_queue p)) + mset (map jb_id (jobs_of (po_workers p)))) =
      mset [1 ..< po_nextId p]"
    using pool_okD(6) [OF ok(1)] unfolding job_ids_def by (simp add: add.commute)
  then have "mset (map fst (po_settled p) @ (map jb_id (po_queue p) @ map jb_id (jobs_of (po_workers p)))) =
      mset [1 ..< po_nextId p]"
    unfolding mset_append .
  from mset_eq_imp_distinct_iff [OF this]
  have "distinct (map fst (po_settled p) @ (map jb_id (po_queue p) @ map jb_id (jobs_of (po_workers p))))" by simp
  then have "distinct (map fst (po_settled p))" unfolding distinct_append by (rule conjunct1)
  then show ?thesis using ok(2) pool_okD(6) [OF ok(1)] by (intro conjI)
qed

definition sample_pool_config :: pool_config where
  "sample_pool_config =
     \<lparr>pc_workers = 1, pc_queueMax = 2, pc_subjectActiveMax = 1, pc_subjectQueueMax = 1, pc_queueTimeoutMs = 5\<rparr>"

definition sample_pool :: scanner_pool where
  "sample_pool = handle_event (Scan ''bob'' ''y'' [] 9) (handle_event (Scan ''alice'' ''x'' [] 9) (new_pool sample_pool_config))"

lemma sample_pool_reachable:
  "pool_reachable sample_pool_config sample_pool" "pool_reachable sample_pool_config (handle_event (Scan_timeout 0) sample_pool)"
proof -
  show "pool_reachable sample_pool_config sample_pool"
    unfolding sample_pool_def by (intro pool_event pool_new) simp_all
  then show "pool_reachable sample_pool_config (handle_event (Scan_timeout 0) sample_pool)"
    by (rule pool_event) code_simp
qed

theorem pool_within_limits_witness:
  "running sample_pool ''alice'' \<le> 1 \<and> length (po_queue sample_pool) \<le> 2 \<and> po_queue sample_pool \<noteq> [] \<and>
   event_of (handle_event (Scan_timeout 0) sample_pool) Replaced_failed \<and>
   po_extra (handle_event Replaced_failed (handle_event (Scan_timeout 0) sample_pool)) = 1"
proof -
  let ?p = "handle_event (Scan_timeout 0) sample_pool"
  have "po_queue sample_pool \<noteq> []" "event_of ?p Replaced_failed" "po_extra ?p = 0" "\<not> po_closed ?p"
    by code_simp+
  then show ?thesis
    using pool_within_limits [OF sample_pool_reachable(1), of "''alice''"]
      pool_within_limits [OF sample_pool_reachable(2), of _ Replaced_failed]
    by (simp add: sample_pool_config_def)
qed

theorem pool_loses_no_job_witness:
  "distinct (map fst (po_settled (handle_event (Scan_timeout 0) sample_pool))) \<and>
   map fst (po_settled (handle_event (Scan_timeout 0) sample_pool)) = [1]"
proof -
  have "map fst (po_settled (handle_event (Scan_timeout 0) sample_pool)) = [1]" by code_simp
  then show ?thesis using pool_loses_no_job [OF sample_pool_reachable(2)] by simp
qed

end
