(* ===== verification/ApiKeyFormat.thy ===== *)
theory ApiKeyFormat
  imports Base64Body
begin

text \<open>
  The format of system API keys in \<^verbatim>\<open>src/apiKeys.ts\<close>: \<open>ssk_v1_\<close>, twelve random bytes and \<open>_\<close> and 32 random bytes, both
  in the URL alphabet of Base64 without padding. The random bytes are arguments.
\<close>

section \<open>Model\<close>

definition key_prefix :: string where
  "key_prefix = ''ssk_v1''"

definition identifier_bytes :: nat where "identifier_bytes = 12"
definition secret_bytes :: nat where "secret_bytes = 32"
definition identifier_length :: nat where "identifier_length = 16"
definition secret_length :: nat where "secret_length = 43"

definition raw_key_length :: nat where
  "raw_key_length = length key_prefix + 2 + identifier_length + secret_length"

text \<open>\<open>toString("base64url")\<close>, and \<open>Buffer.from(v, "base64url")\<close> of a text in the URL alphabet\<close>

definition url_char :: "char \<Rightarrow> char" where
  "url_char c = (if c = CHR ''+'' then CHR ''-'' else if c = CHR ''/'' then CHR ''_'' else c)"

definition std_char :: "char \<Rightarrow> char" where
  "std_char c = (if c = CHR ''-'' then CHR ''+'' else if c = CHR ''_'' then CHR ''/'' else c)"

definition base64url_encode :: "nat list \<Rightarrow> string" where
  "base64url_encode bs = map url_char (filter (\<lambda>c. c \<noteq> CHR ''='') (b64_encode bs))"

definition base64url_decode :: "string \<Rightarrow> nat list" where
  "base64url_decode v = b64_decode (map std_char v @ replicate ((4 - length v mod 4) mod 4) CHR ''='')"

definition base64url_char :: "char \<Rightarrow> bool" where
  "base64url_char c \<longleftrightarrow> is_alnum c \<or> c = CHR ''_'' \<or> c = CHR ''-''"

definition canonicalBase64url :: "string \<Rightarrow> nat \<Rightarrow> bool" where
  "canonicalBase64url v n \<longleftrightarrow>
     (if v = [] \<or> \<not> list_all base64url_char v then False
      else length (base64url_decode v) = n \<and> base64url_encode (base64url_decode v) = v)"

datatype api_key_error =
  Key_invalid_request | Key_forbidden | Key_not_found | Key_stale | Key_conflict | Key_rate_limited | Key_unavailable

record parsed_api_key =
  pk_identifier :: string
  pk_raw :: string

definition parseApiKey :: "string \<Rightarrow> api_key_error + parsed_api_key" where
  "parseApiKey v =
     (if length v \<noteq> raw_key_length \<or> \<not> list_all (\<lambda>c. 33 \<le> char_code c \<and> char_code c \<le> 126) v then Inl Key_invalid_request
      else if \<not> starts_with v (key_prefix @ ''_'') \<or> v ! (length key_prefix + 1 + identifier_length) \<noteq> CHR ''_''
      then Inl Key_invalid_request
      else let identifierStart = length key_prefix + 1;
               identifier = js_slice v identifierStart (identifierStart + identifier_length);
               secret = drop (identifierStart + identifier_length + 1) v
           in if length identifier \<noteq> identifier_length \<or> length secret \<noteq> secret_length \<or>
                 \<not> canonicalBase64url identifier identifier_bytes \<or> \<not> canonicalBase64url secret secret_bytes
              then Inl Key_invalid_request
              else Inr \<lparr>pk_identifier = identifier, pk_raw = v\<rparr>)"

record generated_api_key =
  gk_identifier :: string
  gk_value :: string
  gk_lastFour :: string

definition api_key_text :: "string \<Rightarrow> string \<Rightarrow> string" where
  "api_key_text identifier secret = key_prefix @ ''_'' @ identifier @ ''_'' @ secret"

definition generateApiKey :: "nat list \<Rightarrow> nat list \<Rightarrow> api_key_error + generated_api_key" where
  "generateApiKey identifierBytes secretBytes =
     (if length identifierBytes \<noteq> identifier_bytes \<or> length secretBytes \<noteq> secret_bytes then Inl Key_unavailable
      else let identifier = base64url_encode identifierBytes;
               secret = base64url_encode secretBytes;
               v = api_key_text identifier secret
           in result_map_value (\<lambda>_. \<lparr>gk_identifier = identifier, gk_value = v,
                gk_lastFour = drop (length secret - 4) secret\<rparr>) (parseApiKey v))"

section \<open>Library lemmas\<close>

lemma b64_encode_padding:
  "is_bytes bs \<Longrightarrow>
    b64_encode bs = filter (\<lambda>c. c \<noteq> CHR ''='') (b64_encode bs) @ replicate ((3 - length bs mod 3) mod 3) CHR ''='' \<and>
    length (filter (\<lambda>c. c \<noteq> CHR ''='') (b64_encode bs)) = (4 * length bs + 2) div 3 \<and>
    list_all is_b64 (filter (\<lambda>c. c \<noteq> CHR ''='') (b64_encode bs))"
proof (induction bs rule: b64_encode.induct)
  case (2 x)
  then show ?case using byte_parts [of x x] by (simp add: is_bytes_def b64_char_facts numeral_2_eq_2)
next
  case (3 x y)
  then show ?case using byte_parts [of x y] byte_parts [of y x] by (simp add: is_bytes_def b64_char_facts)
next
  case (4 x y z bs)
  have m: "Suc (Suc (Suc (length bs))) mod 3 = length bs mod 3"
    "(4 * Suc (Suc (Suc (length bs))) + 2) div 3 = 4 + (4 * length bs + 2) div 3" by presburger+
  have q: "x div 4 < 64" "x mod 4 * 16 + y div 16 < 64" "y mod 16 * 4 + z div 64 < 64" "z mod 64 < 64"
    using 4(2) byte_parts [of x y] byte_parts [of z y] by (simp_all add: is_bytes_def)
  show ?case
    using 4 m by (simp add: is_bytes_def b64_char_facts(2,3) [OF q(1)] b64_char_facts(2,3) [OF q(2)]
      b64_char_facts(2,3) [OF q(3)] b64_char_facts(2,3) [OF q(4)])
qed simp

lemma std_url_char:
  assumes "is_b64 c"
  shows "std_char (url_char c) = c" and "base64url_char (url_char c)"
proof -
  have "\<not> is_b64 CHR ''-''" "\<not> is_b64 CHR ''_''" by code_simp+
  then have "c \<noteq> CHR ''-''" "c \<noteq> CHR ''_''" using assms by auto
  then show "std_char (url_char c) = c" by (simp add: std_char_def url_char_def)
  show "base64url_char (url_char c)" using assms by (auto simp: url_char_def base64url_char_def is_b64_def)
qed

lemma base64url_char_printable:
  assumes "base64url_char c"
  shows "33 \<le> char_code c \<and> char_code c \<le> 126"
proof -
  have "char_code CHR ''_'' = 95" "char_code CHR ''-'' = 45" by (simp_all add: char_code_def)
  then show ?thesis
    using assms by (auto simp: base64url_char_def is_alnum_def is_alpha_def is_digit_def in_range_def b64_literals)
qed

lemma length_key_prefix [simp]: "length key_prefix = 6"
  by (simp add: key_prefix_def)

lemma unpadded_length: "(4 - (4 * n + 2) div 3 mod 4) mod 4 = (3 - n mod 3) mod (3::nat)"
proof -
  define q r where "q = n div 3" and "r = n mod 3"
  have n: "n = 3 * q + r" "r < 3" by (simp_all add: q_def r_def)
  have "(4 * n + 2) div 3 = 4 * q + (4 * r + 2) div 3" unfolding n(1) by simp
  moreover have "n mod 3 = r" by (simp add: r_def)
  moreover have "r = 0 \<or> r = 1 \<or> r = 2" using n(2) by linarith
  moreover have "Suc (Suc (4 * q)) mod 4 = 2" by presburger
  ultimately show ?thesis by (elim disjE) simp_all
qed

lemma base64url_facts:
  assumes "is_bytes bs"
  shows "length (base64url_encode bs) = (4 * length bs + 2) div 3"
    and "list_all base64url_char (base64url_encode bs)"
    and "base64url_decode (base64url_encode bs) = bs"
proof -
  let ?u = "filter (\<lambda>c. c \<noteq> CHR ''='') (b64_encode bs)"
  have pad: "b64_encode bs = ?u @ replicate ((3 - length bs mod 3) mod 3) CHR ''=''"
    and len: "length ?u = (4 * length bs + 2) div 3" and chars: "list_all is_b64 ?u"
    using b64_encode_padding [OF assms] by blast+
  show l: "length (base64url_encode bs) = (4 * length bs + 2) div 3" using len by (simp add: base64url_encode_def)
  show "list_all base64url_char (base64url_encode bs)"
    using chars by (auto simp: base64url_encode_def list_all_iff std_url_char)
  have "map std_char (base64url_encode bs) = ?u"
    using chars by (auto simp: base64url_encode_def list_all_iff std_url_char intro!: map_idI)
  then have "base64url_decode (base64url_encode bs) = b64_decode (b64_encode bs)"
    unfolding base64url_decode_def l unpadded_length using pad by simp
  then show "base64url_decode (base64url_encode bs) = bs" using b64_decode_encode [OF assms] by simp
qed

lemma b64_value_less: "b64_value c < 64"
  by (auto simp: b64_value_def is_digit_def in_range_def char_code_def)

lemma is_bytes_b64_decode: "is_bytes (b64_decode s)"
proof (induction s rule: b64_decode.induct)
  case (1 a b c d cs)
  have "b64_value a * 4 + b64_value b div 16 < 256" "b64_value b mod 16 * 16 + b64_value c div 4 < 256"
    "b64_value c mod 4 * 64 + b64_value d < 256"
    using b64_value_less [of a] b64_value_less [of b] b64_value_less [of c] b64_value_less [of d]
      mod_less_divisor [of 16 "b64_value b"] mod_less_divisor [of 4 "b64_value c"] by linarith+
  then show ?case using 1 by (simp add: is_bytes_def Let_def)
qed (simp_all add: is_bytes_def)

section \<open>Properties\<close>

text \<open>
  C38: The keys that are accepted are precisely the generated ones: the text of twelve bytes and of 32 bytes, and the
  identifier that is read off a key is the text of its twelve bytes.
\<close>

theorem api_key_format:
  "(parseApiKey v = Inr k) =
   (\<exists>i s. is_bytes i \<and> is_bytes s \<and> length i = 12 \<and> length s = 32 \<and>
      v = api_key_text (base64url_encode i) (base64url_encode s) \<and>
      k = \<lparr>pk_identifier = base64url_encode i, pk_raw = v\<rparr>)"
proof
  assume p: "parseApiKey v = Inr k"
  define i s where "i = js_slice v 7 23" and "s = drop 24 v"
  have pre: "prefix (key_prefix @ ''_'') v" and len: "length v = 67" and us: "v ! 23 = CHR ''_''"
    and can: "canonicalBase64url i 12" "canonicalBase64url s 32" and k: "k = \<lparr>pk_identifier = i, pk_raw = v\<rparr>"
    using p by (auto simp: parseApiKey_def Let_def i_def s_def identifier_length_def identifier_bytes_def
        secret_bytes_def raw_key_length_def secret_length_def split: if_splits)
  obtain w where w: "v = (key_prefix @ ''_'') @ w" using pre by (rule prefixE)
  have wl: "length w = 60" using w len by simp
  have seven: "length (key_prefix @ ''_'') = 7" by simp
  have "i = take 16 w" unfolding i_def js_slice_def w using seven by simp
  moreover have "s = drop 17 w" unfolding s_def w using seven by simp
  moreover have "w ! 16 = CHR ''_''" using us unfolding w using seven by (simp add: nth_append)
  ultimately have "w = i @ ''_'' @ s" using wl id_take_nth_drop [of 16 w] by simp
  then have v: "v = api_key_text i s" using w by (simp add: api_key_text_def)
  have "base64url_encode (base64url_decode i) = i" "length (base64url_decode i) = 12"
    "base64url_encode (base64url_decode s) = s" "length (base64url_decode s) = 32"
    using can by (simp_all add: canonicalBase64url_def split: if_splits)
  moreover have "is_bytes (base64url_decode t)" for t by (simp add: base64url_decode_def is_bytes_b64_decode)
  ultimately show "\<exists>i s. is_bytes i \<and> is_bytes s \<and> length i = 12 \<and> length s = 32 \<and>
      v = api_key_text (base64url_encode i) (base64url_encode s) \<and>
      k = \<lparr>pk_identifier = base64url_encode i, pk_raw = v\<rparr>"
    using v k by (intro exI [of _ "base64url_decode i"] exI [of _ "base64url_decode s"]) simp
next
  assume "\<exists>i s. is_bytes i \<and> is_bytes s \<and> length i = 12 \<and> length s = 32 \<and>
      v = api_key_text (base64url_encode i) (base64url_encode s) \<and>
      k = \<lparr>pk_identifier = base64url_encode i, pk_raw = v\<rparr>"
  then obtain i s where b: "is_bytes i" "is_bytes s" "length i = 12" "length s = 32"
    and v: "v = api_key_text (base64url_encode i) (base64url_encode s)"
    and k: "k = \<lparr>pk_identifier = base64url_encode i, pk_raw = v\<rparr>" by blast
  let ?i = "base64url_encode i" and ?s = "base64url_encode s"
  note fi = base64url_facts [OF b(1)] and fs = base64url_facts [OF b(2)]
  have li: "length ?i = 16" and ls: "length ?s = 43" using fi(1) fs(1) b by simp_all
  have can: "canonicalBase64url ?i 12" "canonicalBase64url ?s 32"
    using fi fs li ls b by (auto simp: canonicalBase64url_def)
  have "list_all (\<lambda>c. 33 \<le> char_code c \<and> char_code c \<le> 126) v"
    using fi(2) fs(2) base64url_char_printable
    by (auto simp: v api_key_text_def key_prefix_def list_all_iff char_code_def)
  moreover have "js_slice v 7 23 = ?i" "drop 24 v = ?s" "v ! 23 = CHR ''_''" "length v = 67"
    using li ls by (simp_all add: v api_key_text_def key_prefix_def js_slice_def nth_append)
  moreover have "prefix (key_prefix @ ''_'') v" by (simp add: v api_key_text_def)
  ultimately show "parseApiKey v = Inr k"
    using can li ls k by (simp add: parseApiKey_def Let_def raw_key_length_def identifier_length_def
        identifier_bytes_def secret_bytes_def secret_length_def)
qed

text \<open>Every generated key is accepted, so \<open>generateApiKey\<close> fails only for draws of the wrong size.\<close>

lemma generated_key_accepted:
  "list_all (\<lambda>b. b < 256) i \<and> list_all (\<lambda>b. b < 256) s \<and> length i = 12 \<and> length s = 32 \<longrightarrow>
   (case generateApiKey i s of
      Inl e \<Rightarrow> False
    | Inr g \<Rightarrow> parseApiKey (gk_value g) = Inr \<lparr>pk_identifier = gk_identifier g, pk_raw = gk_value g\<rparr>)"
proof (intro impI)
  assume b: "list_all (\<lambda>b. b < 256) i \<and> list_all (\<lambda>b. b < 256) s \<and> length i = 12 \<and> length s = 32"
  let ?v = "api_key_text (base64url_encode i) (base64url_encode s)"
  have "parseApiKey ?v = Inr \<lparr>pk_identifier = base64url_encode i, pk_raw = ?v\<rparr>"
    unfolding api_key_format using b by (auto simp: is_bytes_def)
  then show "case generateApiKey i s of Inl e \<Rightarrow> False
    | Inr g \<Rightarrow> parseApiKey (gk_value g) = Inr \<lparr>pk_identifier = gk_identifier g, pk_raw = gk_value g\<rparr>"
    using b by (simp add: generateApiKey_def identifier_bytes_def secret_bytes_def Let_def)
qed

end
