(* ===== verification/HeaderEnforcement.thy ===== *)
theory HeaderEnforcement
  imports JsonSubstitution
begin

text \<open>
  \<^verbatim>\<open>src/headerEnforcement.ts\<close>: a credential may own a request header. A request that sets this header must
  do so with one valid reference to the credential, the header is rewritten to the configured template, and such a
  reference may stand nowhere else. Each inspection of a reference reads the clock once; the state is
  the broker and the number of readings so far. What is written to the log is left out.
\<close>

section \<open>Model\<close>

text \<open>\<^verbatim>\<open>/gref_[A-Za-z0-9_-]+/g\<close>: the match at the head of a text, and all of them\<close>

definition match_gref :: "string \<Rightarrow> string option" where
  "match_gref s =
     (if starts_with s ''gref_''
      then (let run = takeWhile token_char (drop 5 s) in if run = [] then None else Some (''gref_'' @ run))
      else None)"

lemma match_gref_token: "match_gref s = Some t \<Longrightarrow> match_token s = Some t"
  by (simp add: match_gref_def match_token_def token_prefix_def Let_def numeral_eq_Suc split: if_splits)

lemma match_gref_length: "match_gref s = Some t \<Longrightarrow> t \<noteq> [] \<and> length t \<le> length s"
  using match_token_length [OF match_gref_token] by blast

function gref_matches :: "string \<Rightarrow> string list" where
  "gref_matches [] = []"
| "gref_matches (c # cs) =
     (case match_gref (c # cs) of
        Some t \<Rightarrow> t # gref_matches (drop (length t) (c # cs))
      | None \<Rightarrow> gref_matches cs)"
  by pat_completeness auto
termination
  by (relation "measure length") (auto dest!: match_gref_length)

fun findGatewayReferences :: "json \<Rightarrow> string list" where
  "findGatewayReferences (JString t) = gref_matches t"
| "findGatewayReferences (JArray vs) = concat (map (\<lambda>v. findGatewayReferences v) vs)"
| "findGatewayReferences (JObject fs) =
     concat (map (\<lambda>kv. gref_matches (fst kv) @ findGatewayReferences (snd kv)) fs)"
| "findGatewayReferences v = []"

type_synonym broker_clock = "token_broker \<times> nat"

definition inspectReference :: "substitution_env \<Rightarrow> string \<Rightarrow> broker_clock \<Rightarrow> broker_clock \<times> nat option" where
  "inspectReference S reference bn =
     (case preflightTokenUse (su_broker S) (su_clock S (snd bn)) (su_auth S) (su_target S) reference (fst bn) of
        (b, Inl e) \<Rightarrow> ((b, snd bn + 1), None)
      | (b, Inr r) \<Rightarrow> ((b, snd bn + 1), Some r))"

definition isEnforcedHeaderCredential :: "credential_config \<Rightarrow> bool" where
  "isEnforcedHeaderCredential c \<longleftrightarrow>
     cu_enforce (cr_usage c) \<and> to_lower (cu_kind (cr_usage c)) = ''header'' \<and> cu_name (cr_usage c) \<noteq> None"

definition owned_header :: "credential_config \<Rightarrow> string" where
  "owned_header c = or_empty (cu_name (cr_usage c))"

definition groupByHeaderName :: "credential_config list \<Rightarrow> (string, credential_config list) jmap" where
  "groupByHeaderName credentials =
     foldl (\<lambda>groups c.
       let normalized = to_lower (owned_header c)
       in case jmap_get groups normalized of
            None \<Rightarrow> jmap_set groups normalized [c]
          | Some existing \<Rightarrow> jmap_set groups normalized (existing @ [c])) [] credentials"

fun inspect_references ::
  "substitution_env \<Rightarrow> string list \<Rightarrow> broker_clock \<Rightarrow> broker_clock \<times> (string \<times> nat) list" where
  "inspect_references S [] bn = (bn, [])"
| "inspect_references S (reference # rs) bn =
     (case inspectReference S reference bn of
        (bn1, found) \<Rightarrow>
          (case inspect_references S rs bn1 of
             (bn2, valid) \<Rightarrow> (bn2, (case found of None \<Rightarrow> [] | Some r \<Rightarrow> [(reference, r)]) @ valid)))"

text \<open>\<open>credentials.find(...)\<close> by the credential of a record; none for a service reference\<close>

definition credential_of :: "credential_config list \<Rightarrow> token_record \<Rightarrow> credential_config option" where
  "credential_of credentials rec =
     (if tr_kind rec \<noteq> Kind_credential then None
      else case tr_credentialId rec of None \<Rightarrow> None | Some i \<Rightarrow> find (\<lambda>c. cr_id c = i) credentials)"

definition named_entries :: "string \<Rightarrow> (string, string) jmap \<Rightarrow> (string \<times> string) list" where
  "named_entries normalizedName headers = filter (\<lambda>(name, v). to_lower name = normalizedName) headers"

text \<open>One group of credentials that own the same header\<close>

definition enforce_group ::
  "substitution_env \<Rightarrow> string \<times> credential_config list \<Rightarrow> (string, string) jmap \<Rightarrow> broker_clock
    \<Rightarrow> broker_clock \<times> (string, string) jmap gateway_result" where
  "enforce_group S owners headers bn =
     (case owners of (normalizedName, credentials) \<Rightarrow>
        (let entries = named_entries normalizedName headers
         in if entries = [] then (bn, Inr headers)
            else case inspect_references S (js_unique (concat (map (gref_matches \<circ> snd) entries))) bn of
              (bn1, valid) \<Rightarrow>
                (let matches = filter (\<lambda>(reference, r). credential_of credentials (tb_records (fst bn1) ! r) \<noteq> None) valid
                 in if length matches \<noteq> 1 \<or> length valid \<noteq> 1
                    then (bn1, invalid_reference
                            ''Gateway-owned credential header requires exactly one matching reference.'')
                    else case hd matches of (reference, r) \<Rightarrow>
                      (let credential = the (credential_of credentials (tb_records (fst bn1) ! r));
                           expected = credentialReferenceTemplate (cr_usage credential) reference
                       in (bn1, Inr (jmap_set (foldl (\<lambda>h e. jmap_delete h (fst e)) headers entries)
                                       (owned_header credential) expected))))))"

fun enforce_groups ::
  "substitution_env \<Rightarrow> (string \<times> credential_config list) list \<Rightarrow> (string, string) jmap \<Rightarrow> broker_clock
    \<Rightarrow> broker_clock \<times> (string, string) jmap gateway_result" where
  "enforce_groups S [] headers bn = (bn, Inr headers)"
| "enforce_groups S (g # gs) headers bn =
     (case enforce_group S g headers bn of
        (bn1, Inl e) \<Rightarrow> (bn1, Inl e)
      | (bn1, Inr headers1) \<Rightarrow> enforce_groups S gs headers1 bn1)"

text \<open>The places of a request; only a header has a name.\<close>

record request_location =
  rl_header :: "string option"
  rl_value :: json

definition request_locations :: "(string, string) jmap \<Rightarrow> (string \<times> json) list \<Rightarrow> json option \<Rightarrow> request_location list" where
  "request_locations headers query body =
     map (\<lambda>(name, v). \<lparr>rl_header = Some name, rl_value = JString v\<rparr>) headers @
     [\<lparr>rl_header = None, rl_value = JObject query\<rparr>,
      \<lparr>rl_header = None, rl_value = (case body of None \<Rightarrow> JNull | Some v \<Rightarrow> v)\<rparr>]"

definition placed_as_configured :: "credential_config \<Rightarrow> request_location \<Rightarrow> string \<Rightarrow> bool" where
  "placed_as_configured c location reference \<longleftrightarrow>
     (case rl_header location of None \<Rightarrow> False | Some name \<Rightarrow> to_lower name = to_lower (owned_header c)) \<and>
     rl_value location = JString (credentialReferenceTemplate (cr_usage c) reference)"

fun check_references ::
  "substitution_env \<Rightarrow> credential_config list \<Rightarrow> request_location \<Rightarrow> string list \<Rightarrow> broker_clock
    \<Rightarrow> broker_clock \<times> unit gateway_result" where
  "check_references S enforced location [] bn = (bn, Inr ())"
| "check_references S enforced location (reference # rs) bn =
     (case inspectReference S reference bn of
        (bn1, None) \<Rightarrow> check_references S enforced location rs bn1
      | (bn1, Some r) \<Rightarrow>
          (case credential_of enforced (tb_records (fst bn1) ! r) of
             None \<Rightarrow> check_references S enforced location rs bn1
           | Some credential \<Rightarrow>
               (if placed_as_configured credential location reference
                then check_references S enforced location rs bn1
                else (bn1, invalid_reference
                        ''Enforced credential reference is not in its configured header template.''))))"

fun check_locations ::
  "substitution_env \<Rightarrow> credential_config list \<Rightarrow> request_location list \<Rightarrow> broker_clock
    \<Rightarrow> broker_clock \<times> unit gateway_result" where
  "check_locations S enforced [] bn = (bn, Inr ())"
| "check_locations S enforced (l # ls) bn =
     (case check_references S enforced l (js_unique (findGatewayReferences (rl_value l))) bn of
        (bn1, Inl e) \<Rightarrow> (bn1, Inl e)
      | (bn1, Inr _) \<Rightarrow> check_locations S enforced ls bn1)"

definition assertNoEnforcedReferenceOutsideOwnedHeader ::
  "substitution_env \<Rightarrow> credential_config list \<Rightarrow> (string, string) jmap \<Rightarrow> (string \<times> json) list \<Rightarrow> json option
    \<Rightarrow> broker_clock \<Rightarrow> broker_clock \<times> unit gateway_result" where
  "assertNoEnforcedReferenceOutsideOwnedHeader S enforced headers query body bn =
     check_locations S enforced (request_locations headers query body) bn"

definition enforceCredentialHeaderUsage ::
  "substitution_env \<Rightarrow> (string, string) jmap \<Rightarrow> (string \<times> json) list \<Rightarrow> json option \<Rightarrow> broker_clock
    \<Rightarrow> broker_clock \<times> (string, string) jmap gateway_result" where
  "enforceCredentialHeaderUsage S headers query body bn =
     (let enforced = filter isEnforcedHeaderCredential (sc_credentials (su_service S))
      in if enforced = [] then (bn, Inr headers)
         else case enforce_groups S (groupByHeaderName enforced) headers bn of
                (bn1, Inl e) \<Rightarrow> (bn1, Inl e)
              | (bn1, Inr headers1) \<Rightarrow>
                  (case assertNoEnforcedReferenceOutsideOwnedHeader S enforced headers1 query body bn1 of
                     (bn2, Inl e) \<Rightarrow> (bn2, Inl e)
                   | (bn2, Inr _) \<Rightarrow> (bn2, Inr headers1)))"

section \<open>Occurrences\<close>

lemma match_gref_None: "match_token s = None \<Longrightarrow> match_gref s = None"
  using match_gref_token [of s] by (cases "match_gref s") simp_all

lemma match_token_gref: "match_token s = Some t \<Longrightarrow> starts_with t ''gref_'' \<Longrightarrow> match_gref s = Some t"
  by (auto simp: match_gref_def match_token_def token_prefix_def Let_def numeral_eq_Suc split: if_splits)

lemma takeWhile_boundary:
  "list_all P u \<Longrightarrow> rest = [] \<or> \<not> P (hd rest) \<Longrightarrow> takeWhile P (u @ rest) = u"
  by (induction u) (auto simp: takeWhile_eq_Nil_iff)

text \<open>What a run of token characters contains does not change what follows it.\<close>

lemma gref_matches_run:
  assumes "list_all token_char u" and "rest = [] \<or> \<not> token_char (hd rest)"
  shows "set (gref_matches rest) \<subseteq> set (gref_matches (u @ rest))"
  using assms(1)
proof (induction "length u" arbitrary: u rule: less_induct)
  case less
  show ?case
  proof (cases u)
    case (Cons c cs)
    show ?thesis
    proof (cases "match_gref (u @ rest)")
      case None
      then show ?thesis using less.hyps [of cs] less.prems by (simp add: Cons)
    next
      case (Some t)
      have g: "starts_with (u @ rest) ''gref_''" "t = ''gref_'' @ takeWhile token_char (drop 5 (u @ rest))"
        using Some by (auto simp: match_gref_def Let_def split: if_splits)
      have chars: "list_all token_char ''gref_''" by (simp add: token_char_def is_alnum_def is_alpha_def in_range_def char_code_def)
      have "list_all token_char t" using g(2) chars by (simp add: list_all_iff) (metis set_takeWhileD)
      moreover have "prefix t (u @ rest)" using match_token_length [OF match_gref_token [OF Some]] by blast
      ultimately have tu: "prefix t u"
        using assms(2) by (auto simp: prefix_append elim!: prefixE split: if_splits) (metis append_Nil2 hd_append2 list.set_sel(1) list_all_append list_all_iff)
      then obtain w where w: "u = ''gref_'' @ w" using g(2) by (auto elim!: prefixE)
      moreover from this have "takeWhile token_char (w @ rest) = w"
        using takeWhile_boundary [of token_char w rest] less.prems assms(2) by simp
      ultimately have "t = u" using g(2) by (simp add: numeral_eq_Suc)
      then show ?thesis using Some by (auto simp: Cons)
    qed
  qed simp
qed


lemma match_token_run:
  assumes "match_token s = Some t"
  obtains p where "t = p @ takeWhile token_char (drop (length p) s)" "list_all token_char p"
proof -
  obtain p where p: "token_prefix s = Some p" "t = p @ takeWhile token_char (drop (length p) s)"
    using assms by (auto simp: match_token_def Let_def split: option.splits if_splits)
  have "list_all token_char ''gref_''" "list_all token_char ''sec_''" by code_simp+
  then have "list_all token_char p" using p(1) by (auto simp only: token_prefix_def split: if_splits)
  then show ?thesis using that p(2) by blast
qed

lemma match_token_chars: "match_token s = Some t \<Longrightarrow> list_all token_char t"
  by (erule match_token_run) (auto simp: list_all_iff dest: set_takeWhileD)

lemma match_token_maximal:
  assumes "match_token s = Some t"
  shows "drop (length t) s = [] \<or> \<not> token_char (hd (drop (length t) s))"
proof -
  obtain p where p: "t = p @ takeWhile token_char (drop (length p) s)" using assms by (rule match_token_run)
  have "drop (length t) s = dropWhile token_char (drop (length p) s)"
    by (subst p) (simp add: dropWhile_eq_drop add.commute)
  then show ?thesis using hd_dropWhile by metis
qed

text \<open>Every reference to a credential that a substitution redeems is among the ones that are inspected.\<close>

lemma pieces_gref:
  "Ref t \<in> set (pieces s) \<Longrightarrow> starts_with t ''gref_'' \<Longrightarrow> t \<in> set (gref_matches s)"
proof (induction s rule: pieces.induct)
  case (2 c cs)
  show ?case
  proof (cases "match_token (c # cs)")
    case None
    then show ?thesis using 2 match_gref_None by simp
  next
    case (Some u)
    let ?rest = "drop (length u) (c # cs)"
    have s: "c # cs = u @ ?rest" using match_token_length [OF Some] by (metis append_eq_conv_conj prefix_def)
    consider "t = u" | "t \<in> set (gref_matches ?rest)" using 2 Some by auto
    then show ?thesis
    proof cases
      case 1
      then show ?thesis using match_token_gref [OF Some] 2(4) by simp
    next
      case 2
      then show ?thesis using gref_matches_run [OF match_token_chars [OF Some] match_token_maximal [OF Some]] s by auto
    qed
  qed
qed simp

section \<open>Inspecting references\<close>

text \<open>A reference that stays valid at every reading of the clock from \<open>n\<close> up to \<open>m\<close>\<close>

definition live_reference :: "substitution_env \<Rightarrow> token_broker \<Rightarrow> nat \<Rightarrow> nat \<Rightarrow> string \<Rightarrow> nat \<Rightarrow> bool" where
  "live_reference S b n m reference r \<longleftrightarrow>
     (\<forall>k. n \<le> k \<and> k < m \<longrightarrow>
        snd (preflightTokenUse (su_broker S) (su_clock S k) (su_auth S) (su_target S) reference b) = Inr r)"

text \<open>Inspections drop expired references and change nothing else.\<close>

definition only_inspected :: "substitution_env \<Rightarrow> broker_clock \<Rightarrow> broker_clock \<Rightarrow> bool" where
  "only_inspected S bn bn' \<longleftrightarrow>
     snd bn \<le> snd bn' \<and> tb_records (fst bn') = tb_records (fst bn) \<and>
     map_of (tb_recordsByHash (fst bn')) \<subseteq>\<^sub>m map_of (tb_recordsByHash (fst bn)) \<and>
     (\<forall>m t r. snd bn' \<le> m \<longrightarrow> live_reference S (fst bn) (snd bn) m t r \<longrightarrow> live_reference S (fst bn') (snd bn') m t r)"

lemma only_inspected_refl [simp]: "only_inspected S bn bn"
  by (simp add: only_inspected_def)

lemma only_inspected_trans [trans]:
  "only_inspected S x y \<Longrightarrow> only_inspected S y z \<Longrightarrow> only_inspected S x z"
  unfolding only_inspected_def by (metis map_le_trans order_trans)

lemma preflight_Inr_iff:
  "snd (preflightTokenUse E now auth target t b) = Inr r \<longleftrightarrow>
    jmap_get (tb_recordsByHash b) (be_hash E t) = Some r \<and>
    \<not> life_expired now (tr_life (tb_records b ! r)) \<and>
    tr_subject (tb_records b ! r) = ac_subject auth \<and> tr_service (tb_records b ! r) = ut_service target \<and>
    (ut_destination target = None \<or> ut_destination target = Some (tr_destination (tb_records b ! r)))"
  using preflight_Inr [of E now auth target t b "fst (preflightTokenUse E now auth target t b)" r]
  by (cases "preflightTokenUse E now auth target t b") (auto simp: preflightTokenUse_def Let_def split: option.splits if_splits)

lemma preflight_broker:
  "fst (preflightTokenUse E now auth target t b) = b \<or>
   (\<exists>r. jmap_get (tb_recordsByHash b) (be_hash E t) = Some r \<and> life_expired now (tr_life (tb_records b ! r)) \<and>
     fst (preflightTokenUse E now auth target t b) = b\<lparr>tb_recordsByHash := jmap_delete (tb_recordsByHash b) (be_hash E t)\<rparr>)"
  by (auto simp: preflightTokenUse_def Let_def split: option.splits)

lemma inspectReference_only: "only_inspected S bn (fst (inspectReference S t bn))"
proof -
  let ?p = "preflightTokenUse (su_broker S) (su_clock S (snd bn)) (su_auth S) (su_target S) t (fst bn)"
  have fst: "fst (inspectReference S t bn) = (fst ?p, snd bn + 1)"
    by (simp add: inspectReference_def split: prod.splits sum.splits)
  consider "fst ?p = fst bn" | r where "jmap_get (tb_recordsByHash (fst bn)) (be_hash (su_broker S) t) = Some r"
    "life_expired (su_clock S (snd bn)) (tr_life (tb_records (fst bn) ! r))"
    "fst ?p = (fst bn)\<lparr>tb_recordsByHash := jmap_delete (tb_recordsByHash (fst bn)) (be_hash (su_broker S) t)\<rparr>"
    using preflight_broker by blast
  then show ?thesis
  proof cases
    case 1
    then show ?thesis by (auto simp: only_inspected_def fst live_reference_def)
  next
    case 2
    have "be_hash (su_broker S) u \<noteq> be_hash (su_broker S) t"
      if "snd bn + 1 \<le> m" "live_reference S (fst bn) (snd bn) m u q" for m u q
    proof -
      have "snd (preflightTokenUse (su_broker S) (su_clock S (snd bn)) (su_auth S) (su_target S) u (fst bn)) = Inr q"
        using that unfolding live_reference_def by simp
      then show ?thesis using 2(1,2) unfolding preflight_Inr_iff by auto
    qed
    then show ?thesis
      by (auto simp: only_inspected_def fst 2(3) live_reference_def preflight_Inr_iff map_le_def split: if_splits)
  qed
qed

lemma inspectReference_Some:
  "inspectReference S t bn = (bn', Some r) \<Longrightarrow>
    snd (preflightTokenUse (su_broker S) (su_clock S (snd bn)) (su_auth S) (su_target S) t (fst bn)) = Inr r"
  by (auto simp: inspectReference_def split: prod.splits sum.splits)

lemma inspectReference_live:
  assumes "inspectReference S t bn = (bn', found)" and "live_reference S (fst bn) (snd bn) m t r" and "snd bn' \<le> m"
  shows "found = Some r"
proof -
  have "snd bn' = snd bn + 1" using assms(1) by (auto simp: inspectReference_def split: prod.splits sum.splits)
  then have "snd (preflightTokenUse (su_broker S) (su_clock S (snd bn)) (su_auth S) (su_target S) t (fst bn)) = Inr r"
    using assms(2,3) unfolding live_reference_def by simp
  then show ?thesis using assms(1) by (auto simp: inspectReference_def split: prod.splits sum.splits)
qed

lemma inspect_references_only: "only_inspected S bn (fst (inspect_references S ts bn))"
proof (induction ts arbitrary: bn)
  case (Cons t ts)
  show ?case
    using only_inspected_trans [OF inspectReference_only Cons.IH]
    by (simp split: prod.splits) (metis fst_conv)
qed simp

lemma check_references_only: "only_inspected S bn (fst (check_references S enforced l ts bn))"
proof (induction ts arbitrary: bn)
  case (Cons t ts)
  obtain bn1 found where i: "inspectReference S t bn = (bn1, found)" by (cases "inspectReference S t bn")
  then have "only_inspected S bn bn1" using inspectReference_only [of S bn t] by simp
  then show ?case using only_inspected_trans [OF _ Cons.IH] by (auto simp: i split: option.splits)
qed simp

lemma check_locations_only: "only_inspected S bn (fst (check_locations S enforced ls bn))"
proof (induction ls arbitrary: bn)
  case (Cons l ls)
  obtain bn1 res where c: "check_references S enforced l (js_unique (findGatewayReferences (rl_value l))) bn = (bn1, res)"
    by (cases "check_references S enforced l (js_unique (findGatewayReferences (rl_value l))) bn")
  then have "only_inspected S bn bn1" by (metis check_references_only fst_conv)
  then show ?case using only_inspected_trans [OF _ Cons.IH] by (auto simp: c split: sum.splits)
qed simp

lemma enforce_group_only: "only_inspected S bn (fst (enforce_group S g headers bn))"
proof -
  have "only_inspected S bn bn1" if "inspect_references S ts bn = (bn1, valid)" for ts bn1 valid
    using inspect_references_only [of S bn ts] that by simp
  then show ?thesis by (auto simp: enforce_group_def Let_def split: prod.splits)
qed

lemma enforce_groups_only: "only_inspected S bn (fst (enforce_groups S gs headers bn))"
proof (induction gs arbitrary: headers bn)
  case (Cons g gs)
  obtain bn1 res where c: "enforce_group S g headers bn = (bn1, res)" by (cases "enforce_group S g headers bn")
  then have "only_inspected S bn bn1" by (metis enforce_group_only fst_conv)
  then show ?case using only_inspected_trans [OF _ Cons.IH] by (auto simp: c split: sum.splits)
qed simp

section \<open>Where references may stand\<close>

lemma only_inspectedD:
  assumes "only_inspected S bn bn'"
  shows "snd bn \<le> snd bn'" and "tb_records (fst bn') = tb_records (fst bn)"
    and "map_of (tb_recordsByHash (fst bn')) \<subseteq>\<^sub>m map_of (tb_recordsByHash (fst bn))"
    and "live_reference S (fst bn) (snd bn) m t r \<Longrightarrow> snd bn' \<le> m \<Longrightarrow> live_reference S (fst bn') (snd bn') m t r"
  using assms unfolding only_inspected_def by blast+

lemma map_le_get: "f \<subseteq>\<^sub>m g \<Longrightarrow> f k = Some v \<Longrightarrow> g k = Some v"
  by (simp add: map_le_def dom_def)

lemma check_references_live:
  assumes "check_references S enforced l ts bn = (bn', Inr u)" and "t \<in> set ts"
    and "live_reference S (fst bn) (snd bn) m t r" and "snd bn' \<le> m"
    and "credential_of enforced (tb_records (fst bn) ! r) = Some c"
  shows "placed_as_configured c l t"
  using assms
proof (induction ts arbitrary: bn)
  case (Cons x xs)
  obtain bn1 found where i: "inspectReference S x bn = (bn1, found)" by (cases "inspectReference S x bn")
  have o1: "only_inspected S bn bn1" using inspectReference_only [of S bn x] i by simp
  have rest: "check_references S enforced l xs bn1 = (bn', Inr u)"
    and placed: "found = Some q \<Longrightarrow> credential_of enforced (tb_records (fst bn1) ! q) = Some d \<Longrightarrow> placed_as_configured d l x"
    for q d
    using Cons.prems(1) by (auto simp: i split: option.splits if_splits)
  have "snd bn1 \<le> snd bn'" using check_references_only [of S bn1 enforced l xs] rest only_inspectedD(1) by fastforce
  then have m: "snd bn1 \<le> m" using Cons.prems(4) by simp
  show ?case
  proof (cases "t = x")
    case True
    have "found = Some r" using inspectReference_live [OF i _ m] Cons.prems(3) True by blast
    then show ?thesis using placed Cons.prems(5) only_inspectedD(2) [OF o1] True by simp
  next
    case False
    then have "t \<in> set xs" using Cons.prems(2) by simp
    then show ?thesis
      using Cons.IH [OF rest _ only_inspectedD(4) [OF o1 Cons.prems(3) m] Cons.prems(4)] Cons.prems(5)
        only_inspectedD(2) [OF o1] by simp
  qed
qed simp

lemma check_locations_live:
  assumes "check_locations S enforced ls bn = (bn', Inr u)" and "l \<in> set ls" and "t \<in> set (findGatewayReferences (rl_value l))"
    and "live_reference S (fst bn) (snd bn) m t r" and "snd bn' \<le> m"
    and "credential_of enforced (tb_records (fst bn) ! r) = Some c"
  shows "placed_as_configured c l t"
  using assms
proof (induction ls arbitrary: bn)
  case (Cons x xs)
  let ?ts = "js_unique (findGatewayReferences (rl_value x))"
  obtain bn1 v where i: "check_references S enforced x ?ts bn = (bn1, Inr v)"
    and rest: "check_locations S enforced xs bn1 = (bn', Inr u)"
    using Cons.prems(1) by (auto split: prod.splits sum.splits)
  have o1: "only_inspected S bn bn1" using check_references_only [of S bn enforced x ?ts] i by simp
  have "snd bn1 \<le> snd bn'" using check_locations_only [of S bn1 enforced xs] rest only_inspectedD(1) by fastforce
  then have m: "snd bn1 \<le> m" using Cons.prems(5) by simp
  show ?case
  proof (cases "l = x")
    case True
    then show ?thesis using check_references_live [OF i _ Cons.prems(4) m Cons.prems(6)] Cons.prems(3) by simp
  next
    case False
    then have "l \<in> set xs" using Cons.prems(2) by simp
    then show ?thesis
      using Cons.IH [OF rest _ Cons.prems(3) only_inspectedD(4) [OF o1 Cons.prems(4) m] Cons.prems(5)] Cons.prems(6)
        only_inspectedD(2) [OF o1] by simp
  qed
qed simp

definition enforced_credentials :: "substitution_env \<Rightarrow> credential_config list" where
  "enforced_credentials S = filter isEnforcedHeaderCredential (sc_credentials (su_service S))"

text \<open>
  C18: A reference to a credential that owns a header, valid throughout the check, stands nowhere in an accepted
  request but in this header, whose value is then the configured template around it.
\<close>

theorem enforced_reference_placed:
  assumes "enforceCredentialHeaderUsage S headers query body bn = (bn', Inr headers')"
    and "live_reference S (fst bn) (snd bn) (snd bn') t r"
    and "credential_of (enforced_credentials S) (tb_records (fst bn) ! r) = Some c"
    and "l \<in> set (request_locations headers' query body)" and "t \<in> set (findGatewayReferences (rl_value l))"
  shows "placed_as_configured c l t"
proof -
  let ?enforced = "enforced_credentials S"
  have "?enforced \<noteq> []" using assms(3) by (auto simp: credential_of_def split: if_splits option.splits)
  then obtain bn1 u where g: "enforce_groups S (groupByHeaderName ?enforced) headers bn = (bn1, Inr headers')"
    and c: "check_locations S ?enforced (request_locations headers' query body) bn1 = (bn', Inr u)"
    using assms(1)
    by (auto simp: enforceCredentialHeaderUsage_def enforced_credentials_def assertNoEnforcedReferenceOutsideOwnedHeader_def Let_def
        split: prod.splits sum.splits)
  have o1: "only_inspected S bn bn1" using enforce_groups_only [of S bn "groupByHeaderName ?enforced" headers] g by simp
  have "snd bn1 \<le> snd bn'"
    using check_locations_only [of S bn1 ?enforced "request_locations headers' query body"] c only_inspectedD(1) by fastforce
  from only_inspectedD(4) [OF o1 assms(2) this] show ?thesis
    using check_locations_live [OF c assms(4,5)] assms(3) only_inspectedD(2) [OF o1] by simp
qed

section \<open>Owned headers\<close>

definition bound_reference :: "substitution_env \<Rightarrow> token_broker \<Rightarrow> string \<Rightarrow> credential_config \<Rightarrow> bool" where
  "bound_reference S b t c \<longleftrightarrow>
     (case jmap_get (tb_recordsByHash b) (be_hash (su_broker S) t) of
        None \<Rightarrow> False
      | Some r \<Rightarrow>
          (let rec = tb_records b ! r
           in tr_kind rec = Kind_credential \<and> tr_credentialId rec = Some (cr_id c) \<and>
              tr_subject rec = ac_subject (su_auth S) \<and> tr_service rec = ut_service (su_target S) \<and>
              (ut_destination (su_target S) = None \<or> ut_destination (su_target S) = Some (tr_destination rec))))"

text \<open>The header of a group is absent, or there is one, and it holds the template of one of the group's credentials.\<close>

definition owned_value :: "substitution_env \<Rightarrow> token_broker \<Rightarrow> credential_config list \<Rightarrow> (string \<times> string) list \<Rightarrow> bool" where
  "owned_value S b credentials entries \<longleftrightarrow>
     entries = [] \<or>
     (\<exists>c \<in> set credentials. \<exists>t. entries = [(owned_header c, credentialReferenceTemplate (cr_usage c) t)] \<and>
        bound_reference S b t c)"

lemma named_entries_delete: "named_entries n (foldl (\<lambda>h e. jmap_delete h (fst e)) headers es) =
    filter (\<lambda>(k, v). k \<notin> fst ` set es) (named_entries n headers)"
proof (induction es arbitrary: headers)
  case (Cons e es)
  have "named_entries n (jmap_delete headers (fst e)) = filter (\<lambda>(k, v). k \<noteq> fst e) (named_entries n headers)"
    by (auto simp: named_entries_def AList.delete_eq intro!: filter_cong)
  then show ?case using Cons by (auto intro!: filter_cong)
qed (simp add: case_prod_beta)

lemma inspect_references_valid:
  assumes "inspect_references S ts bn = (bn', valid)" and "(t, r) \<in> set valid"
  shows "\<exists>bn1. only_inspected S bn bn1 \<and>
    snd (preflightTokenUse (su_broker S) (su_clock S (snd bn1)) (su_auth S) (su_target S) t (fst bn1)) = Inr r"
  using assms
proof (induction ts arbitrary: bn valid)
  case (Cons x xs)
  obtain bn1 found where i: "inspectReference S x bn = (bn1, found)" by (cases "inspectReference S x bn")
  obtain valid1 where rest: "inspect_references S xs bn1 = (bn', valid1)"
    and v: "valid = (case found of None \<Rightarrow> [] | Some r \<Rightarrow> [(x, r)]) @ valid1"
    using Cons.prems(1) by (auto simp: i split: prod.splits)
  have o1: "only_inspected S bn bn1" using inspectReference_only [of S bn x] i by simp
  show ?case
  proof (cases "(t, r) \<in> set valid1")
    case True
    then show ?thesis using Cons.IH [OF rest] only_inspected_trans [OF o1] by blast
  next
    case False
    then have "found = Some r" "t = x" using Cons.prems(2) v by (auto split: option.splits)
    then show ?thesis using inspectReference_Some i only_inspected_refl by blast
  qed
qed simp

lemma credential_of_Some:
  "credential_of cs rec = Some c \<Longrightarrow> c \<in> set cs \<and> tr_kind rec = Kind_credential \<and> tr_credentialId rec = Some (cr_id c)"
  by (auto simp: credential_of_def split: if_splits option.splits dest!: find_Some_iff')

lemma named_entries_snoc:
  "k \<notin> fst ` set h \<Longrightarrow> named_entries n (jmap_set h k v) = named_entries n h @ (if to_lower k = n then [(k, v)] else [])"
  by (simp add: jmap_set_new named_entries_def)

lemma set_named_entries: "p \<in> set (named_entries n h) \<longleftrightarrow> p \<in> set h \<and> to_lower (fst p) = n"
  by (cases p) (auto simp: named_entries_def)

lemma keys_foldl_delete: "fst ` set (foldl (\<lambda>h e. jmap_delete h (fst e)) h es) = fst ` set h - fst ` set es"
  by (induction es arbitrary: h) (auto simp: jmap_set_delete)

lemma enforce_group_owned:
  assumes run: "enforce_group S (n, cs) headers bn = (bn', Inr headers')" and names: "\<forall>c \<in> set cs. to_lower (owned_header c) = n"
  shows "owned_value S (fst bn) cs (named_entries n headers')"
    and "n' \<noteq> n \<Longrightarrow> named_entries n' headers' = named_entries n' headers"
proof -
  let ?es = "named_entries n headers"
  have "owned_value S (fst bn) cs (named_entries n headers') \<and>
      (n' \<noteq> n \<longrightarrow> named_entries n' headers' = named_entries n' headers)"
  proof (cases "?es = []")
    case True
    then show ?thesis using run by (simp add: enforce_group_def Let_def owned_value_def)
  next
    case False
    obtain valid where i: "inspect_references S (js_unique (concat (map (gref_matches \<circ> snd) ?es))) bn = (bn', valid)"
      using run False by (auto simp: enforce_group_def Let_def split: prod.splits if_splits)
    let ?matches = "filter (\<lambda>(t, r). credential_of cs (tb_records (fst bn') ! r) \<noteq> None) valid"
    have "length ?matches = 1" using run False i by (simp add: enforce_group_def Let_def split: prod.splits if_splits)
    then obtain t r where m: "?matches = [(t, r)]" by (cases ?matches) auto
    then have "(t, r) \<in> set ?matches" by simp
    then have tr: "(t, r) \<in> set valid" "credential_of cs (tb_records (fst bn') ! r) \<noteq> None" by auto
    then obtain c where c: "credential_of cs (tb_records (fst bn') ! r) = Some c" by blast
    let ?v = "credentialReferenceTemplate (cr_usage c) t"
    let ?rest = "foldl (\<lambda>h e. jmap_delete h (fst e)) headers ?es"
    have headers': "headers' = jmap_set ?rest (owned_header c) ?v"
      using run False i m c by (simp add: enforce_group_def Let_def split: if_splits)
    have cn: "c \<in> set cs" "to_lower (owned_header c) = n" using credential_of_Some [OF c] names by blast+
    have "owned_header c \<notin> fst ` set ?rest"
      unfolding keys_foldl_delete using cn(2) by (auto simp: set_named_entries image_iff)
    note entries = named_entries_snoc [OF this, of _ ?v]
    have all: "k \<in> fst ` set ?es" if "(k, v) \<in> set (named_entries n headers)" for k v using that by force
    have "named_entries n ?rest = []" unfolding named_entries_delete by (auto simp: filter_empty_conv dest: all)
    then have one: "named_entries n headers' = [(owned_header c, ?v)]" unfolding headers' entries by (simp add: cn)
    have "named_entries n' ?rest = named_entries n' headers" if "n' \<noteq> n"
      unfolding named_entries_delete using that by (auto simp: filter_id_conv set_named_entries)
    then have others: "n' \<noteq> n \<longrightarrow> named_entries n' headers' = named_entries n' headers" unfolding headers' entries by (simp add: cn)
    obtain bn1 where o1: "only_inspected S bn bn1"
      and p: "snd (preflightTokenUse (su_broker S) (su_clock S (snd bn1)) (su_auth S) (su_target S) t (fst bn1)) = Inr r"
      using inspect_references_valid [OF i tr(1)] by blast
    have recs: "tb_records (fst bn1) = tb_records (fst bn)" "tb_records (fst bn') = tb_records (fst bn)"
      using only_inspectedD(2) [OF o1] only_inspectedD(2) [OF inspect_references_only] i by (simp_all, metis fst_conv)
    have "jmap_get (tb_recordsByHash (fst bn)) (be_hash (su_broker S) t) = Some r"
      using p map_le_get [OF only_inspectedD(3) [OF o1]] unfolding preflight_Inr_iff by blast
    then have "bound_reference S (fst bn) t c"
      using p credential_of_Some [OF c] unfolding preflight_Inr_iff by (simp add: bound_reference_def recs Let_def)
    then show ?thesis using one others cn(1) unfolding owned_value_def by blast
  qed
  then show "owned_value S (fst bn) cs (named_entries n headers')"
    and "n' \<noteq> n \<Longrightarrow> named_entries n' headers' = named_entries n' headers" by blast+
qed

lemma bound_reference_before:
  "only_inspected S bn bn1 \<Longrightarrow> bound_reference S (fst bn1) t c \<Longrightarrow> bound_reference S (fst bn) t c"
  unfolding bound_reference_def using only_inspectedD(2,3) [of S bn bn1]
  by (auto dest: map_le_get split: option.splits)

lemma owned_value_before:
  "only_inspected S bn bn1 \<Longrightarrow> owned_value S (fst bn1) cs es \<Longrightarrow> owned_value S (fst bn) cs es"
  unfolding owned_value_def using bound_reference_before by blast

definition grouped :: "(string, credential_config list) jmap \<Rightarrow> credential_config list \<Rightarrow> bool" where
  "grouped gs cs \<longleftrightarrow>
     jmap_ok gs \<and> (\<forall>n. (case jmap_get gs n of None \<Rightarrow> [] | Some ds \<Rightarrow> ds) = filter (\<lambda>c. to_lower (owned_header c) = n) cs)"

lemma groupByHeaderName_grouped: "grouped (groupByHeaderName cs) cs"
proof (induction cs rule: rev_induct)
  case Nil
  then show ?case by (simp add: grouped_def groupByHeaderName_def)
next
  case (snoc c cs)
  let ?n = "to_lower (owned_header c)" and ?gs = "groupByHeaderName cs"
  have "groupByHeaderName (cs @ [c]) =
      jmap_set ?gs ?n ((case jmap_get ?gs ?n of None \<Rightarrow> [] | Some ds \<Rightarrow> ds) @ [c])"
    by (simp add: groupByHeaderName_def Let_def split: option.splits)
  then show ?case using snoc unfolding grouped_def by (auto split: option.splits)
qed

lemma groupByHeaderName_names: "\<forall>(n, cs) \<in> set (groupByHeaderName ds). \<forall>c \<in> set cs. to_lower (owned_header c) = n"
proof (clarify)
  fix n cs c assume m: "(n, cs) \<in> set (groupByHeaderName ds)" "c \<in> set cs"
  have ok: "jmap_ok (groupByHeaderName ds)" and get: "(case jmap_get (groupByHeaderName ds) n of None \<Rightarrow> [] | Some es \<Rightarrow> es) =
      filter (\<lambda>d. to_lower (owned_header d) = n) ds"
    using groupByHeaderName_grouped [of ds] unfolding grouped_def by blast+
  then have "c \<in> set (filter (\<lambda>d. to_lower (owned_header d) = n) ds)"
    using m by (simp add: jmap_get_iff [symmetric])
  then show "to_lower (owned_header c) = n" by simp
qed

lemma enforce_groups_owned:
  assumes "enforce_groups S gs headers bn = (bn', Inr headers')" and "jmap_ok gs"
    and "\<forall>(n, cs) \<in> set gs. \<forall>c \<in> set cs. to_lower (owned_header c) = n"
  shows "((n, cs) \<in> set gs \<longrightarrow> owned_value S (fst bn) cs (named_entries n headers')) \<and>
    (n \<notin> fst ` set gs \<longrightarrow> named_entries n headers' = named_entries n headers)"
  using assms
proof (induction gs arbitrary: headers bn)
  case (Cons g gs)
  obtain k ds where g: "g = (k, ds)" by (cases g)
  obtain bn1 headers1 where i: "enforce_group S (k, ds) headers bn = (bn1, Inr headers1)"
    and rest: "enforce_groups S gs headers1 bn1 = (bn', Inr headers')"
    using Cons.prems(1) by (auto simp: g split: prod.splits sum.splits)
  have names: "\<forall>c \<in> set ds. to_lower (owned_header c) = k" "\<forall>(n, cs) \<in> set gs. \<forall>c \<in> set cs. to_lower (owned_header c) = n"
    using Cons.prems(3) by (auto simp: g)
  note own = enforce_group_owned [OF i names(1)]
  have o1: "only_inspected S bn bn1" using enforce_group_only [of S bn "(k, ds)" headers] i by simp
  have new: "k \<notin> fst ` set gs" "jmap_ok gs" using Cons.prems(2) by (simp_all add: g jmap_ok_Cons)
  note IH = Cons.IH [OF rest new(2) names(2)]
  show ?case
  proof (cases "n = k")
    case True
    then have "(n, cs) \<in> set (g # gs) \<longrightarrow> cs = ds" using new(1) by (force simp: g)
    then show ?thesis using IH new(1) own(1) True by (auto simp: g)
  next
    case False
    then show ?thesis using IH own(2) owned_value_before [OF o1] by (auto simp: g)
  qed
qed simp

text \<open>
  C19: In an accepted request a header that credentials own is absent, or stands there once and holds the template
  of one of these credentials around a reference that is bound to it, the subject and the target.
\<close>

theorem owned_header_exact:
  assumes "enforceCredentialHeaderUsage S headers query body bn = (bn', Inr headers')"
    and "c \<in> set (enforced_credentials S)"
  shows "owned_value S (fst bn)
    (filter (\<lambda>d. to_lower (owned_header d) = to_lower (owned_header c)) (enforced_credentials S))
    (named_entries (to_lower (owned_header c)) headers')"
proof -
  let ?enforced = "enforced_credentials S" and ?n = "to_lower (owned_header c)"
  let ?gs = "groupByHeaderName ?enforced"
  have "?enforced \<noteq> []" using assms(2) by auto
  then obtain bn1 where g: "enforce_groups S ?gs headers bn = (bn1, Inr headers')"
    using assms(1)
    by (auto simp: enforceCredentialHeaderUsage_def enforced_credentials_def Let_def split: prod.splits sum.splits)
  have ok: "jmap_ok ?gs" and get: "(case jmap_get ?gs k of None \<Rightarrow> [] | Some ds \<Rightarrow> ds) =
      filter (\<lambda>d. to_lower (owned_header d) = k) ?enforced" for k
    using groupByHeaderName_grouped [of ?enforced] unfolding grouped_def by blast+
  have "filter (\<lambda>d. to_lower (owned_header d) = ?n) ?enforced \<noteq> []" using assms(2) by (auto simp: filter_empty_conv)
  then have "jmap_get ?gs ?n = Some (filter (\<lambda>d. to_lower (owned_header d) = ?n) ?enforced)"
    using get [of ?n] by (auto split: option.splits)
  then have "(?n, filter (\<lambda>d. to_lower (owned_header d) = ?n) ?enforced) \<in> set ?gs" using ok by (simp add: jmap_get_iff)
  then show ?thesis using enforce_groups_owned [OF g ok groupByHeaderName_names] by blast
qed

section \<open>Examples\<close>

definition header_substitution :: substitution_env where
  "header_substitution =
     sample_substitution\<lparr>su_scanner := (\<lambda>_. []),
       su_utf8 := \<lparr>uc_decode = (\<lambda>bs. Some (map char_of bs)), uc_encode = map char_code\<rparr>\<rparr>"

lemma header_substitution_run:
  "enforceCredentialHeaderUsage header_substitution [(''x-KEY'', ''my gref_R'')] [] None (sample_broker, 0) =
     ((sample_broker, 2), Inr [(''X-Key'', ''gref_R'')])"
  "enforced_credentials header_substitution = sc_credentials sample_service"
  "credential_of (sc_credentials sample_service) (tb_records sample_broker ! 0) = Some (hd (sc_credentials sample_service))"
  by code_simp+

theorem enforced_reference_placed_witness:
  "placed_as_configured (hd (sc_credentials sample_service)) \<lparr>rl_header = Some ''X-Key'', rl_value = JString ''gref_R''\<rparr> ''gref_R''"
proof -
  have "snd (preflightTokenUse (su_broker header_substitution) 105 (su_auth header_substitution) (su_target header_substitution)
      ''gref_R'' sample_broker) = Inr 0" by code_simp
  then have "live_reference header_substitution (fst (sample_broker, 0)) (snd (sample_broker, 0)) (snd (sample_broker, 2)) ''gref_R'' 0"
    by (simp add: live_reference_def header_substitution_def sample_substitution_def)
  moreover have "\<lparr>rl_header = Some ''X-Key'', rl_value = JString ''gref_R''\<rparr> \<in> set (request_locations [(''X-Key'', ''gref_R'')] [] None)"
    by (simp add: request_locations_def)
  moreover have "list_ex (\<lambda>t. t = ''gref_R'') (gref_matches ''gref_R'')" by code_simp
  ultimately show ?thesis
    using enforced_reference_placed [OF header_substitution_run(1), of "''gref_R''" 0 "hd (sc_credentials sample_service)"
        "\<lparr>rl_header = Some ''X-Key'', rl_value = JString ''gref_R''\<rparr>"]
    by (simp add: header_substitution_run list_ex_iff)
qed

theorem owned_header_exact_witness:
  "owned_value header_substitution sample_broker (sc_credentials sample_service) [(''X-Key'', ''gref_R'')]"
proof -
  let ?c = "hd (sc_credentials sample_service)"
  have c: "list_all (\<lambda>d. to_lower (owned_header d) = to_lower (owned_header ?c)) (sc_credentials sample_service)"
    "named_entries (to_lower (owned_header ?c)) [(''X-Key'', ''gref_R'')] = [(''X-Key'', ''gref_R'')]" by code_simp+
  have "?c \<in> set (enforced_credentials header_substitution)" by (simp add: header_substitution_run sample_service_def)
  from owned_header_exact [OF header_substitution_run(1) this] show ?thesis
    using c by (simp add: header_substitution_run list_all_iff)
qed

section \<open>Bodies that declare Base64\<close>

lemma b64_groups_chars: "b64_groups s \<Longrightarrow> c \<in> set s \<Longrightarrow> is_b64 c \<or> c = CHR ''=''"
  by (induction s rule: b64_groups.induct) auto

lemma gref_matches_underscore: "CHR ''_'' \<notin> set s \<Longrightarrow> gref_matches s = []"
proof (induction s rule: gref_matches.induct)
  case (2 c cs)
  have "match_gref (c # cs) = None" using 2(3) by (auto simp: match_gref_def elim!: prefixE)
  then show ?case using 2 by simp
qed simp

lemma declared_body_references:
  assumes "decodeDeclaredBase64Body U headers (Some (JString t)) direction = Inr (Some decoded)"
  shows "gref_matches t = []"
proof (rule gref_matches_underscore)
  have "isCanonicalBase64Shape (filter (\<lambda>c. \<not> transfer_space c) t)"
    using assms by (auto simp: decodeDeclaredBase64Body_def result_bind_Inr Let_def split: if_splits)
  then have "is_b64 c \<or> c = CHR ''=''" if "c \<in> set t" "\<not> transfer_space c" for c
    using that b64_groups_chars [of "filter (\<lambda>c. \<not> transfer_space c) t" c]
    by (auto simp: isCanonicalBase64Shape_def filter_empty_conv split: if_splits)
  moreover have "\<not> transfer_space CHR ''_''" "\<not> is_b64 CHR ''_''"
    by (simp_all add: transfer_space_def is_b64_def is_alnum_def is_alpha_def is_digit_def in_range_def char_code_def)
  ultimately show "CHR ''_'' \<notin> set t" by fastforce
qed

lemma check_locations_last:
  assumes "findGatewayReferences (rl_value l) = []" and "findGatewayReferences (rl_value l') = []"
  shows "check_locations S enforced (ls @ [l]) bn = check_locations S enforced (ls @ [l']) bn"
proof (induction ls arbitrary: bn)
  case Nil
  then show ?case by (simp add: assms js_unique_def)
next
  case (Cons x ls)
  then show ?case by (simp split: prod.split sum.split)
qed

lemma enforce_ignores_body:
  assumes "findGatewayReferences v = []"
  shows "enforceCredentialHeaderUsage S headers query (Some v) bn = enforceCredentialHeaderUsage S headers query None bn"
proof -
  have same: "assertNoEnforcedReferenceOutsideOwnedHeader S e h query (Some v) b =
      assertNoEnforcedReferenceOutsideOwnedHeader S e h query None b" for e h b
    using check_locations_last [of "\<lparr>rl_header = None, rl_value = v\<rparr>" "\<lparr>rl_header = None, rl_value = JNull\<rparr>" S e
        "map (\<lambda>(name, v). \<lparr>rl_header = Some name, rl_value = JString v\<rparr>) h @ [\<lparr>rl_header = None, rl_value = JObject query\<rparr>]" b]
      assms
    by (simp add: assertNoEnforcedReferenceOutsideOwnedHeader_def request_locations_def)
  show ?thesis unfolding enforceCredentialHeaderUsage_def same ..
qed

text \<open>
  C39: The ownership check reads the body as it comes and substitution reads what it encodes. For every body that
  declares Base64 and decodes, the check gives what it gives for a request without a body, whatever references the
  decoded text holds; and when substitution succeeds, all these references, those of credentials that own a header
  included, are redeemed and the body sent encodes the text with their secrets.
\<close>

theorem base64_body_escapes_ownership:
  assumes "decodeDeclaredBase64Body (su_utf8 S) headers (Some (JString t)) Direction_request = Inr (Some decoded)"
    and "substituteRequestBodyTokens S (Some (JString t)) headers b calls = (s', Inr q)"
    and "isJsonLikeText headers decoded \<Longrightarrow> scan_ok (su_scanner S decoded) decoded"
  shows "enforceCredentialHeaderUsage S headers query (Some (JString t)) bn =
      enforceCredentialHeaderUsage S headers query None bn \<and>
    (\<exists>ws. list_all2 (secret_bound S s') (string_tokens decoded) ws \<and>
      sbr_value q = Some (JString (encodeBase64Body (su_utf8 S)
        (fill_text decoded (if isJsonLikeText headers decoded then map json_escape ws else ws)))))"
proof
  show "enforceCredentialHeaderUsage S headers query (Some (JString t)) bn =
      enforceCredentialHeaderUsage S headers query None bn"
    by (rule enforce_ignores_body) (simp add: declared_body_references [OF assms(1)])
  have decoded: "body_text S (Some (JString t)) headers = Some decoded" by (simp add: body_text_def assms(1))
  then show "\<exists>ws. list_all2 (secret_bound S s') (string_tokens decoded) ws \<and>
      sbr_value q = Some (JString (encodeBase64Body (su_utf8 S)
        (fill_text decoded (if isJsonLikeText headers decoded then map json_escape ws else ws))))"
    using substituteRequestBody_bound [OF assms(2)] assms(1,3)
    by (auto simp: body_tokens_def filled_body_def Let_def)
qed

theorem base64_body_escapes_ownership_witness:
  "enforceCredentialHeaderUsage header_substitution [(''content-transfer-encoding'', ''base64'')] []
     (Some (JString ''Z3JlZl9S'')) (sample_broker, 0) =
   enforceCredentialHeaderUsage header_substitution [(''content-transfer-encoding'', ''base64'')] [] None (sample_broker, 0) \<and>
   (\<exists>s' ws. list_all2 (secret_bound header_substitution s') [''gref_R''] ws \<and>
      encodeBase64Body (su_utf8 header_substitution) ''hunter2'' =
      encodeBase64Body (su_utf8 header_substitution) (fill_text ''gref_R'' ws))"
proof -
  let ?h = "[(''content-transfer-encoding'', ''base64'')]" and ?body = "Some (JString ''Z3JlZl9S'')"
  let ?r = "substituteRequestBodyTokens header_substitution ?body ?h sample_broker 0"
  have v: "decodeDeclaredBase64Body (su_utf8 header_substitution) ?h ?body Direction_request = Inr (Some ''gref_R'')"
    "result_map_value sbr_value (snd ?r) = Inr (Some (JString (encodeBase64Body (su_utf8 header_substitution) ''hunter2'')))"
    "isJsonLikeText ?h ''gref_R'' = False" "string_tokens ''gref_R'' = [''gref_R'']"
    by code_simp+
  then obtain q where q: "snd ?r = Inr q"
      "sbr_value q = Some (JString (encodeBase64Body (su_utf8 header_substitution) ''hunter2''))"
    by (auto simp: result_map_value_Inr)
  then have "?r = (fst ?r, Inr q)" by (metis prod.collapse)
  from base64_body_escapes_ownership [OF v(1) this, of "[]" "(sample_broker, 0)"] show ?thesis
    using v(3,4) q(2) by (simp only: if_False refl simp_thms option.inject json.inject) blast
qed

end
