(* ===== verification/SelfApiKeyProtection.thy ===== *)
theory SelfApiKeyProtection
  imports ApiKeyFormat TokenizerCollecting
begin

text \<open>
  \<^verbatim>\<open>src/selfApiKeyProtection.ts\<close>: a request that the gateway would send to itself is searched for API keys of its own.
  The values of a request are trees, so the set of objects already visited never stops the search. The
  repository of keys and the verifier of their hashes answer for a candidate through a parameter.
\<close>

section \<open>Searching\<close>

datatype self_key_location = In_header | In_query | In_body | In_credential

datatype self_key_error = Candidate_limit | Self_rate_limited | Self_unavailable

record structural_candidate =
  kc_value :: string
  kc_identifier :: string
  kc_location :: self_key_location

definition max_candidates :: nat where "max_candidates = 16"
definition max_visited_values :: nat where "max_visited_values = 10000"
definition max_depth :: nat where "max_depth = 64"

text \<open>\<^verbatim>\<open>/ssk_v1_[A-Za-z0-9_-]{16}_[A-Za-z0-9_-]{43}/g\<close>\<close>

definition api_key_match :: "string matcher" where
  "api_key_match prev s =
     (if starts_with s (key_prefix @ ''_'') \<and> 67 \<le> length s \<and> list_all token_char (js_slice s 7 23) \<and> s ! 23 = CHR ''_'' \<and>
         list_all token_char (js_slice s 24 67)
      then Some (67, take 67 s) else None)"

record structural_scan =
  ss_visited :: nat
  ss_found :: "structural_candidate list"

fun result_fold :: "('a \<Rightarrow> 's \<Rightarrow> 'e + 's) \<Rightarrow> 'a list \<Rightarrow> 's \<Rightarrow> 'e + 's" where
  "result_fold f [] s = Inr s"
| "result_fold f (x # xs) s = (case f x s of Inl e \<Rightarrow> Inl e | Inr s' \<Rightarrow> result_fold f xs s')"

lemma result_fold_cong [fundef_cong]:
  "xs = ys \<Longrightarrow> s = t \<Longrightarrow> (\<And>x u. x \<in> set ys \<Longrightarrow> f x u = g x u) \<Longrightarrow> result_fold f xs s = result_fold g ys t"
proof (induction xs arbitrary: ys s t)
  case (Cons x xs)
  then show ?case by (auto split: sum.splits)
qed simp

lemma result_bind_cong [fundef_cong]:
  "r = r' \<Longrightarrow> (\<And>a. r' = Inr a \<Longrightarrow> f a = g a) \<Longrightarrow> result_bind r f = result_bind r' g"
  by (cases r') auto

definition visit_match ::
  "self_key_location \<Rightarrow> string \<Rightarrow> nat \<times> nat \<times> string \<Rightarrow> structural_scan \<Rightarrow> self_key_error + structural_scan" where
  "visit_match location t match st =
     (case match of (index, n, candidate) \<Rightarrow>
        (if 0 < index \<and> token_char (t ! (index - 1)) \<or>
            index + length candidate < length t \<and> token_char (t ! (index + length candidate))
         then Inr st
         else case parseApiKey candidate of
           Inl _ \<Rightarrow> Inr st
         | Inr parsed \<Rightarrow>
             (if list_ex (\<lambda>c. kc_location c = location \<and> kc_value c = candidate) (ss_found st) then Inr st
              else if max_candidates \<le> length (ss_found st) then Inl Candidate_limit
              else Inr (st\<lparr>ss_found := ss_found st @
                [\<lparr>kc_value = candidate, kc_identifier = pk_identifier parsed, kc_location = location\<rparr>]\<rparr>))))"

definition count_visit :: "nat \<Rightarrow> structural_scan \<Rightarrow> self_key_error + structural_scan" where
  "count_visit depth st =
     (let st' = st\<lparr>ss_visited := ss_visited st + 1\<rparr>
      in if max_visited_values < ss_visited st' \<or> max_depth < depth then Inl Candidate_limit else Inr st')"

lemma size_field: "kv \<in> set fs \<Longrightarrow> size (snd kv) < Suc (size_list (\<lambda>x. Suc (size (snd x))) fs)"
  by (induction fs) auto

function visit_value :: "self_key_location \<Rightarrow> nat \<Rightarrow> json \<Rightarrow> structural_scan \<Rightarrow> self_key_error + structural_scan" where
  "visit_value location depth (JString t) st =
     result_bind (count_visit depth st)
       (\<lambda>st. result_fold (visit_match location t) (scan_matches api_key_match 0 None t) st)"
| "visit_value location depth (JArray vs) st =
     result_bind (count_visit depth st) (\<lambda>st. result_fold (\<lambda>v. visit_value location (depth + 1) v) vs st)"
| "visit_value location depth (JObject fs) st =
     result_bind (count_visit depth st) (\<lambda>st. result_fold (\<lambda>kv. visit_value location (depth + 1) (snd kv)) fs st)"
| "visit_value location depth JNull st = count_visit depth st"
| "visit_value location depth (JBool b) st = count_visit depth st"
| "visit_value location depth (JNumber n) st = count_visit depth st"
  by pat_completeness auto
termination
  by (relation "measure (\<lambda>(location, depth, v, st). size v)") (auto simp: size_field less_Suc_eq_le intro: size_list_estimation')

definition scanStructuralApiKeyCandidates ::
  "(json \<times> self_key_location) list \<Rightarrow> self_key_error + structural_candidate list" where
  "scanStructuralApiKeyCandidates roots =
     result_map_value ss_found
       (result_fold (\<lambda>(v, location). visit_value location 0 v) roots \<lparr>ss_visited = 0, ss_found = []\<rparr>)"

section \<open>Limiting verifications\<close>

record limit_entry =
  le_startedAt :: int
  le_count :: nat

record self_key_limiter =
  kl_maximumPerWindow :: nat
  kl_windowMs :: int
  kl_maximumEntries :: nat
  kl_entries :: "(string, limit_entry) jmap"

text \<open>The constructor throws for limits out of range.\<close>

definition new_self_key_limiter :: "nat \<Rightarrow> int \<Rightarrow> nat \<Rightarrow> self_key_limiter option" where
  "new_self_key_limiter maximumPerWindow windowMs maximumEntries =
     (if maximumPerWindow < 1 \<or> 1000 < maximumPerWindow \<or> windowMs < 1000 \<or> 86400000 < windowMs \<or>
         maximumEntries < 1 \<or> 100000 < maximumEntries
      then None
      else Some \<lparr>kl_maximumPerWindow = maximumPerWindow, kl_windowMs = windowMs, kl_maximumEntries = maximumEntries,
             kl_entries = []\<rparr>)"

definition sweep_entries :: "self_key_limiter \<Rightarrow> int \<Rightarrow> (string, limit_entry) jmap \<Rightarrow> (string, limit_entry) jmap" where
  "sweep_entries l now = jmap_delete_where (\<lambda>e. kl_windowMs l \<le> now - le_startedAt e)"

text \<open>\<open>#increment\<close>: the entries, and whether it throws\<close>

definition increment_entry :: "int \<Rightarrow> string \<Rightarrow> self_key_limiter \<Rightarrow> self_key_limiter \<times> unit option" where
  "increment_entry now key l =
     (let entries = (case jmap_get (kl_entries l) key of
            None \<Rightarrow> kl_entries l
          | Some e \<Rightarrow> if kl_windowMs l \<le> now - le_startedAt e then jmap_delete (kl_entries l) key else kl_entries l)
      in case jmap_get entries key of
           None \<Rightarrow>
             (let swept = (if kl_maximumEntries l \<le> length entries then sweep_entries l now entries else entries)
              in if kl_maximumEntries l \<le> length swept then (l\<lparr>kl_entries := swept\<rparr>, None)
                 else (l\<lparr>kl_entries := jmap_set swept key \<lparr>le_startedAt = now, le_count = 1\<rparr>\<rparr>, Some ()))
         | Some e \<Rightarrow>
             (if kl_maximumPerWindow l \<le> le_count e then (l\<lparr>kl_entries := entries\<rparr>, None)
              else (l\<lparr>kl_entries := jmap_set entries key (e\<lparr>le_count := le_count e + 1\<rparr>)\<rparr>, Some ())))"

definition decrement_entry :: "string \<Rightarrow> self_key_limiter \<Rightarrow> self_key_limiter" where
  "decrement_entry key l =
     (case jmap_get (kl_entries l) key of
        None \<Rightarrow> l
      | Some e \<Rightarrow>
          (if le_count e - 1 = 0 then l\<lparr>kl_entries := jmap_delete (kl_entries l) key\<rparr>
           else l\<lparr>kl_entries := jmap_set (kl_entries l) key (e\<lparr>le_count := le_count e - 1\<rparr>)\<rparr>))"

definition limiter_name_ok :: "string \<Rightarrow> bool" where
  "limiter_name_ok s \<longleftrightarrow>
     1 \<le> length s \<and> length s \<le> 256 \<and> list_all (\<lambda>c. char_code c \<notin> {0, 10, 13}) s"

text \<open>\<open>acquire\<close>: \<open>readings\<close> are the clock readings of the two increments.\<close>

definition acquire_verification ::
  "int \<times> int \<Rightarrow> string \<Rightarrow> string \<Rightarrow> self_key_limiter \<Rightarrow> self_key_limiter \<times> (self_key_error + unit)" where
  "acquire_verification readings subject source l =
     (if \<not> limiter_name_ok subject \<or> \<not> limiter_name_ok source then (l, Inl Self_rate_limited)
      else case increment_entry (fst readings) (''principal:'' @ subject) l of
             (l1, None) \<Rightarrow> (l1, Inl Self_rate_limited)
           | (l1, Some _) \<Rightarrow>
               (case increment_entry (snd readings) (''source:'' @ source) l1 of
                  (l2, None) \<Rightarrow> (decrement_entry (''principal:'' @ subject) l2, Inl Self_rate_limited)
                | (l2, Some _) \<Rightarrow> (l2, Inr ())))"

section \<open>The detector\<close>

text \<open>What repository and verifier say of a candidate: an active key with its name, or a failure\<close>

record active_key =
  ak_id :: string
  ak_nickname :: string
  ak_lastFour :: string

datatype verification = Not_active | Active_key active_key | Verification_failed self_key_error

record self_key_match =
  sm_key :: active_key
  sm_location :: self_key_location

text \<open>\<open>inspect\<close>; \<open>readings i\<close> are the clock readings and \<open>verify i\<close> is the verdict for the \<open>i\<close>-th candidate.\<close>

fun inspect_candidates_from ::
  "nat \<Rightarrow> (nat \<Rightarrow> int \<times> int) \<Rightarrow> (nat \<Rightarrow> structural_candidate \<Rightarrow> verification) \<Rightarrow> string \<Rightarrow> string
    \<Rightarrow> structural_candidate list \<Rightarrow> self_key_limiter \<Rightarrow> self_key_limiter \<times> (self_key_error + self_key_match list)" where
  "inspect_candidates_from i readings verify subject source [] l = (l, Inr [])"
| "inspect_candidates_from i readings verify subject source (c # cs) l =
     (case acquire_verification (readings i) subject source l of
        (l1, Inl e) \<Rightarrow> (l1, Inl e)
      | (l1, Inr _) \<Rightarrow>
          (case verify i c of
             Verification_failed e \<Rightarrow> (l1, Inl e)
           | Not_active \<Rightarrow> inspect_candidates_from (i + 1) readings verify subject source cs l1
           | Active_key k \<Rightarrow>
               (case inspect_candidates_from (i + 1) readings verify subject source cs l1 of
                  (l2, Inl e) \<Rightarrow> (l2, Inl e)
                | (l2, Inr ms) \<Rightarrow> (l2, Inr (\<lparr>sm_key = k, sm_location = kc_location c\<rparr> # ms)))))"

definition inspect_self_keys ::
  "(nat \<Rightarrow> int \<times> int) \<Rightarrow> (nat \<Rightarrow> structural_candidate \<Rightarrow> verification) \<Rightarrow> string \<Rightarrow> string
    \<Rightarrow> (json \<times> self_key_location) list \<Rightarrow> self_key_limiter \<Rightarrow> self_key_limiter \<times> (self_key_error + self_key_match list)" where
  "inspect_self_keys readings verify subject source roots l =
     (case scanStructuralApiKeyCandidates roots of
        Inl e \<Rightarrow> (l, Inl e)
      | Inr candidates \<Rightarrow> inspect_candidates_from 0 readings verify subject source candidates l)"

section \<open>What the search finds\<close>

fun string_leaves :: "json \<Rightarrow> string list" where
  "string_leaves (JString t) = [t]"
| "string_leaves (JArray vs) = concat (map (\<lambda>v. string_leaves v) vs)"
| "string_leaves (JObject fs) = concat (map (\<lambda>kv. string_leaves (snd kv)) fs)"
| "string_leaves v = []"

text \<open>An API key that stands in a text on its own, not inside a longer word\<close>

definition delimited_key :: "string \<Rightarrow> string \<Rightarrow> bool" where
  "delimited_key t k \<longleftrightarrow>
     \<not> isl (parseApiKey k) \<and>
     (\<exists>a b. t = a @ k @ b \<and> (a = [] \<or> \<not> token_char (last a)) \<and> (b = [] \<or> \<not> token_char (hd b)))"

lemma token_base64url: "token_char c = base64url_char c"
  by (simp add: token_char_def base64url_char_def)

lemma api_key_match_Some:
  "api_key_match prev s = Some (n, k) \<Longrightarrow> n = 67 \<and> k = take 67 s \<and> 67 \<le> length s \<and> list_all token_char k"
proof -
  assume "api_key_match prev s = Some (n, k)"
  then have n: "n = 67" "k = take 67 s" "67 \<le> length s" and pre: "starts_with s (key_prefix @ ''_'')"
    and parts: "list_all token_char (js_slice s 7 23)" "s ! 23 = CHR ''_''" "list_all token_char (js_slice s 24 67)"
    by (simp_all add: api_key_match_def split: if_splits)
  obtain w where w: "s = (key_prefix @ ''_'') @ w" using pre by (rule prefixE)
  have chars: "list_all token_char (key_prefix @ ''_'')" "token_char CHR ''_''" by code_simp+
  have l7: "length (key_prefix @ ''_'') = 7" by simp
  have "take 67 s = (key_prefix @ ''_'') @ take 60 w" using l7 by (simp add: w)
  moreover have "take 60 w = take 16 w @ [w ! 16] @ take 43 (drop 17 w)"
  proof -
    have "60 \<le> length w" using n(3) l7 by (simp add: w)
    then show ?thesis
      using take_add [of 16 44 w] take_Suc_conv_app_nth [of 16 w] take_add [of 17 43 w] by simp
  qed
  moreover have "js_slice s 7 23 = take 16 w" "js_slice s 24 67 = take 43 (drop 17 w)" "s ! 23 = w ! 16"
    unfolding js_slice_def w using l7 by (simp_all add: nth_append)
  ultimately have "list_all token_char (take 67 s)" using parts chars by simp
  then show ?thesis using n by simp
qed

lemma api_key_match_ok: "matcher_ok api_key_match"
  using api_key_match_Some by (fastforce simp: matcher_ok_def)

lemma api_key_matches:
  assumes "\<not> isl (parseApiKey k)"
  shows "length k = 67" and "api_key_match prev (k @ b) = Some (67, k)"
proof -
  obtain q where "parseApiKey k = Inr q" using assms by (cases "parseApiKey k") auto
  then obtain i s where b: "is_bytes i" "is_bytes s" "length i = 12" "length s = 32"
    and k: "k = api_key_text (base64url_encode i) (base64url_encode s)"
    unfolding api_key_format by blast
  have l: "length (base64url_encode i) = 16" "length (base64url_encode s) = 43" using base64url_facts(1) b by simp_all
  then show lk: "length k = 67" by (simp add: k api_key_text_def)
  have "js_slice (k @ b) 7 23 = base64url_encode i" "js_slice (k @ b) 24 67 = base64url_encode s" "(k @ b) ! 23 = CHR ''_''"
    using l by (simp_all add: k api_key_text_def js_slice_def nth_append)
  moreover have "list_all token_char (base64url_encode i)" "list_all token_char (base64url_encode s)"
    using base64url_facts(2) b by (simp_all add: token_base64url [abs_def])
  ultimately show "api_key_match prev (k @ b) = Some (67, k)"
    using lk by (simp add: api_key_match_def) (simp add: k api_key_text_def)
qed

lemma api_keys_complete:
  assumes "\<not> isl (parseApiKey k)" and "t = a @ k @ b" and "a = [] \<or> \<not> token_char (last a)"
  shows "(i + length a, 67, k) \<in> set (scan_matches api_key_match i prev t)"
  using assms(2,3)
proof (induction "api_key_match" i prev t arbitrary: a rule: scan_matches.induct)
  case (1 i prev)
  then show ?case using api_key_matches(1) [OF assms(1)] by simp
next
  case (2 i prev c cs)
  show ?case
  proof (cases "api_key_match prev (c # cs)")
    case None
    then obtain a' where a: "a = c # a'" using 2(3) api_key_matches(2) [OF assms(1)] by (cases a) auto
    then have "(i + 1 + length a', 67, k) \<in> set (scan_matches api_key_match (i + 1) (Some c) cs)"
      using 2(3,4) by (intro 2(1) [OF None]) (auto split: if_splits)
    then show ?thesis using None by (simp add: a)
  next
    case (Some na)
    then obtain k' where na: "na = (67, k')" using api_key_match_Some by (cases na) blast
    note k' = api_key_match_Some [OF Some [unfolded na]]
    show ?thesis
    proof (cases "a = []")
      case True
      then have "k' = k" using k' 2(3) api_key_matches(1) [OF assms(1)] by simp
      then show ?thesis using Some na True k' by (simp add: Let_def min_def)
    next
      case False
      have "67 < length a"
      proof (rule ccontr)
        assume "\<not> 67 < length a"
        then have "last a \<in> set k'" using 2(3) k' False by (simp add: take_append last_in_set)
        then show False using k' 2(4) False by (simp add: list_all_iff)
      qed
      then have l: "67 < length a" "min (Suc (67 - 1)) (length (c # cs)) = 67" using k' by simp_all
      let ?rest = "scan_matches api_key_match (i + 67) (Some ((c # cs) ! (67 - 1))) (drop 67 (c # cs))"
      have "(i + 67 + length (drop 67 a), 67, k) \<in> set ?rest"
      proof (rule 2(2) [OF Some na [symmetric] l(2) [symmetric]])
        show "drop 67 (c # cs) = drop 67 a @ k @ b" using 2(3) l(1) by simp
        show "drop 67 a = [] \<or> \<not> token_char (last (drop 67 a))" using 2(4) False l(1) by simp
      qed
      then show ?thesis using Some na l by (simp add: Let_def add.commute [of 67 i])
    qed
  qed
qed

definition found_keys :: "structural_scan \<Rightarrow> (self_key_location \<times> string) set" where
  "found_keys st = (\<lambda>c. (kc_location c, kc_value c)) ` set (ss_found st)"

text \<open>The test that a match is subjected to\<close>

definition standing_alone :: "string \<Rightarrow> nat \<Rightarrow> string \<Rightarrow> bool" where
  "standing_alone t i k \<longleftrightarrow>
     \<not> isl (parseApiKey k) \<and> \<not> (0 < i \<and> token_char (t ! (i - 1))) \<and>
     \<not> (i + length k < length t \<and> token_char (t ! (i + length k)))"

lemma scanned_delimited:
  "(\<exists>i n. (i, n, k) \<in> set (scan_matches api_key_match 0 None t) \<and> standing_alone t i k) = delimited_key t k"
proof
  assume "delimited_key t k"
  then obtain a b where k: "\<not> isl (parseApiKey k)" and t: "t = a @ k @ b"
    and a: "a = [] \<or> \<not> token_char (last a)" and b: "b = [] \<or> \<not> token_char (hd b)"
    unfolding delimited_key_def by blast
  have "(length a, 67, k) \<in> set (scan_matches api_key_match 0 None t)"
    using api_keys_complete [OF k t a, of 0] by simp
  moreover have "\<not> (0 < length a \<and> token_char (t ! (length a - 1)))"
    using a t by (cases a rule: rev_cases) (auto simp: nth_append)
  moreover have "\<not> (length a + length k < length t \<and> token_char (t ! (length a + length k)))"
    using b t by (cases b) (auto simp: nth_append)
  ultimately show "\<exists>i n. (i, n, k) \<in> set (scan_matches api_key_match 0 None t) \<and> standing_alone t i k"
    using k unfolding standing_alone_def by blast
next
  assume "\<exists>i n. (i, n, k) \<in> set (scan_matches api_key_match 0 None t) \<and> standing_alone t i k"
  then obtain i n where m: "(i, n, k) \<in> set (scan_matches api_key_match 0 None t)" and k: "\<not> isl (parseApiKey k)"
    and out: "\<not> (0 < i \<and> token_char (t ! (i - 1)))" "\<not> (i + length k < length t \<and> token_char (t ! (i + length k)))"
    unfolding standing_alone_def by blast
  obtain q where q: "api_key_match q (drop i t) = Some (n, k)" "i + n \<le> length t"
    using scan_matches_at [OF api_key_match_ok m] by auto
  note m67 = api_key_match_Some [OF q(1)]
  have lk: "length k = 67" using m67 by simp
  have "t = take i t @ k @ drop (i + 67) t" using m67 q(2) by (metis append_take_drop_id drop_drop add.commute)
  moreover have "take i t = [] \<or> \<not> token_char (last (take i t))"
    using out(1) q(2) m67 by (cases "i = 0") (auto simp: last_conv_nth)
  moreover have "drop (i + 67) t = [] \<or> \<not> token_char (hd (drop (i + 67) t))"
    using out(2) lk by (auto simp: hd_drop_conv_nth)
  ultimately show "delimited_key t k" using k unfolding delimited_key_def by blast
qed

lemma visit_match_found:
  "visit_match location t (i, n, k) st = Inr st' \<Longrightarrow>
    found_keys st' = found_keys st \<union> (if standing_alone t i k then {(location, k)} else {})"
  by (cases "parseApiKey k") (auto simp: visit_match_def found_keys_def standing_alone_def list_ex_iff split: if_splits)

lemma visit_string_found:
  "result_fold (visit_match location t) ms st = Inr st' \<Longrightarrow>
    found_keys st' = found_keys st \<union> {(location, k) | k. \<exists>i n. (i, n, k) \<in> set ms \<and> standing_alone t i k}"
proof (induction ms arbitrary: st)
  case (Cons m ms)
  obtain i n k where m: "m = (i, n, k)" by (cases m)
  obtain st1 where "visit_match location t (i, n, k) st = Inr st1" and rest: "result_fold (visit_match location t) ms st1 = Inr st'"
    using Cons.prems by (auto simp: m split: sum.splits)
  from visit_match_found [OF this(1)] Cons.IH [OF rest] show ?case by (auto simp: m split: if_splits)
qed simp

text \<open>The keys that stand on their own in the strings of a value\<close>

definition keys_of :: "self_key_location \<Rightarrow> json \<Rightarrow> (self_key_location \<times> string) set" where
  "keys_of location v = {(location, k) | k. \<exists>t \<in> set (string_leaves v). delimited_key t k}"

lemma keys_of_simps:
  "keys_of location (JString t) = {(location, k) | k. delimited_key t k}"
  "keys_of location (JArray vs) = (\<Union>v \<in> set vs. keys_of location v)"
  "keys_of location (JObject fs) = (\<Union>kv \<in> set fs. keys_of location (snd kv))"
  "keys_of location JNull = {}" "keys_of location (JBool b) = {}" "keys_of location (JNumber n) = {}"
  by (auto simp: keys_of_def)

lemma result_fold_found:
  assumes "result_fold f xs st = Inr st'"
    and "\<And>x st st'. x \<in> set xs \<Longrightarrow> f x st = Inr st' \<Longrightarrow> found_keys st' = found_keys st \<union> g x"
  shows "found_keys st' = found_keys st \<union> (\<Union>x \<in> set xs. g x)"
  using assms
proof (induction xs arbitrary: st)
  case (Cons x xs)
  obtain st1 where st1: "f x st = Inr st1" and rest: "result_fold f xs st1 = Inr st'"
    using Cons.prems(1) by (auto split: sum.splits)
  have "found_keys st' = found_keys st1 \<union> (\<Union>x \<in> set xs. g x)" using Cons.IH [OF rest] Cons.prems(2) by simp
  then show ?case using Cons.prems(2) [OF _ st1] by auto
qed simp

lemma count_visit_found: "count_visit depth st = Inr st' \<Longrightarrow> found_keys st' = found_keys st"
  by (auto simp: count_visit_def Let_def found_keys_def split: if_splits)

lemma visit_value_found:
  "visit_value location depth v st = Inr st' \<Longrightarrow> found_keys st' = found_keys st \<union> keys_of location v"
proof (induction v arbitrary: depth st st' rule: string_leaves.induct)
  case (1 t)
  then obtain st1 where c: "count_visit depth st = Inr st1"
    and f: "result_fold (visit_match location t) (scan_matches api_key_match 0 None t) st1 = Inr st'"
    by (auto simp: result_bind_Inr)
  show ?case
    unfolding keys_of_simps visit_string_found [OF f] count_visit_found [OF c] scanned_delimited by (rule refl)
next
  case (2 vs)
  then obtain st1 where c: "count_visit depth st = Inr st1"
    and f: "result_fold (\<lambda>v. visit_value location (depth + 1) v) vs st1 = Inr st'" by (auto simp: result_bind_Inr)
  have "found_keys st' = found_keys st1 \<union> (\<Union>v \<in> set vs. keys_of location v)" by (rule result_fold_found [OF f]) (rule 2(1))
  then show ?case using count_visit_found [OF c] by (simp add: keys_of_simps)
next
  case (3 fs)
  then obtain st1 where c: "count_visit depth st = Inr st1"
    and f: "result_fold (\<lambda>kv. visit_value location (depth + 1) (snd kv)) fs st1 = Inr st'" by (auto simp: result_bind_Inr)
  have "found_keys st' = found_keys st1 \<union> (\<Union>kv \<in> set fs. keys_of location (snd kv))"
    by (rule result_fold_found [OF f]) (rule 3(1))
  then show ?case using count_visit_found [OF c] by (simp add: keys_of_simps)
qed (auto simp: keys_of_simps dest: count_visit_found)

text \<open>
  C20: A search that does not give up finds exactly the API keys that stand on their own in a string of the
  request, each with the part of the request it is in.
\<close>

theorem structural_scan_exact:
  assumes "scanStructuralApiKeyCandidates roots = Inr found"
  shows "(list_ex (\<lambda>c. kc_location c = location \<and> kc_value c = k) found) =
    list_ex (\<lambda>r. snd r = location \<and> list_ex (\<lambda>t. delimited_key t k) (string_leaves (fst r))) roots"
proof -
  obtain st where f: "result_fold (\<lambda>(v, location). visit_value location 0 v) roots \<lparr>ss_visited = 0, ss_found = []\<rparr> = Inr st"
    and found: "found = ss_found st"
    using assms by (auto simp: scanStructuralApiKeyCandidates_def result_map_value_Inr)
  have "found_keys st = found_keys \<lparr>ss_visited = 0, ss_found = []\<rparr> \<union> (\<Union>r \<in> set roots. keys_of (snd r) (fst r))"
    by (rule result_fold_found [OF f]) (auto simp: visit_value_found)
  then have st: "found_keys st = (\<Union>r \<in> set roots. keys_of (snd r) (fst r))" by (simp add: found_keys_def)
  have "(list_ex (\<lambda>c. kc_location c = location \<and> kc_value c = k) found) = ((location, k) \<in> found_keys st)"
    unfolding list_ex_iff found found_keys_def image_iff by auto
  also have "\<dots> = (\<exists>r \<in> set roots. snd r = location \<and> (\<exists>t \<in> set (string_leaves (fst r)). delimited_key t k))"
    unfolding st keys_of_def by blast
  finally show ?thesis unfolding list_ex_iff .
qed

definition sample_api_key :: string where
  "sample_api_key = api_key_text (replicate 16 CHR ''A'') (replicate 43 CHR ''A'')"

definition sample_roots :: "(json \<times> self_key_location) list" where
  "sample_roots = [(JObject [(''k'', JArray [JNull, JString (''key '' @ sample_api_key)])], In_body)]"

theorem structural_scan_exact_witness:
  "list_ex (\<lambda>r. snd r = In_body \<and> list_ex (\<lambda>t. delimited_key t sample_api_key) (string_leaves (fst r))) sample_roots"
proof -
  let ?c = "\<lparr>kc_value = sample_api_key, kc_identifier = replicate 16 CHR ''A'', kc_location = In_body\<rparr>"
  have scan: "scanStructuralApiKeyCandidates sample_roots = Inr [?c]" by code_simp
  from structural_scan_exact [OF scan, of In_body sample_api_key] show ?thesis by simp
qed

end
