(* ===== verification/DownstreamRequest.thy ===== *)
theory DownstreamRequest
  imports HeaderEnforcement SelfApiKeyProtection
begin

text \<open>
  The parts of \<^verbatim>\<open>src/gateway.ts\<close> that shape the request to the downstream service and take its answer in: the checks
  of the caller's input, the request that is sent, and the bounded reading of the response. \<open>URLSearchParams\<close> and the
  serialisation of a \<open>URL\<close> are parameters. Headers are ordered by insertion; names that look like array indexes are not
  reordered.
\<close>

section \<open>Input\<close>

record service_request_input =
  si_service :: string
  si_destination :: "string option"
  si_method :: string
  si_path :: "string option"
  si_url :: "string option"
  si_headers :: "(string, string) jmap"
  si_query :: "(string \<times> json) list"
  si_body :: "json option"
  si_service_reference :: "string option"
  si_reason :: string

definition allowed_methods :: "string list" where
  "allowed_methods = [''GET'', ''POST'', ''PUT'', ''PATCH'', ''DELETE'', ''HEAD'', ''OPTIONS'']"

definition validateRequestInput :: "service_request_input \<Rightarrow> unit gateway_result" where
  "validateRequestInput input =
     (if js_trim (si_reason input) = [] then Inl (gateway_error Policy_denied ''service_request reason is required.'')
      else if to_upper (si_method input) \<notin> set allowed_methods
      then Inl (gateway_error Destination_not_allowed (''Unsupported method: '' @ si_method input))
      else Inr ())"

definition caller_controlled_authority_headers :: "string list" where
  "caller_controlled_authority_headers =
     [''host'', '':authority'', ''forwarded'', ''x-forwarded-host'', ''x-forwarded-proto'']"

definition hop_by_hop_headers :: "string list" where
  "hop_by_hop_headers =
     [''connection'', ''keep-alive'', ''proxy-authenticate'', ''proxy-authorization'', ''proxy-connection'', ''te'',
      ''trailer'', ''transfer-encoding'', ''upgrade'']"

definition reject_header :: "string \<Rightarrow> unit gateway_result" where
  "reject_header name =
     (let normalized = to_lower name;
          refused = Inl (gateway_error Destination_not_allowed (''Caller-supplied '' @ name @ '' header is not allowed.''))
      in if normalized \<in> set caller_controlled_authority_headers \<or> starts_with normalized ''x-forwarded-'' then refused
         else if normalized \<in> set hop_by_hop_headers
         then (if normalized = ''transfer-encoding''
               then Inl (gateway_error Unsupported_transfer_encoding ''Caller-supplied Transfer-Encoding is not allowed.'')
               else refused)
         else Inr ())"

definition rejectCallerControlledHeaders :: "(string, string) jmap \<Rightarrow> unit gateway_result" where
  "rejectCallerControlledHeaders headers = result_map_value (\<lambda>_. ()) (result_map reject_header (jmap_keys headers))"

definition assertRawRequestBound :: "utf8_codec \<Rightarrow> json option \<Rightarrow> string \<Rightarrow> nat \<Rightarrow> unit gateway_result" where
  "assertRawRequestBound U body method maximum =
     (case body of
        None \<Rightarrow> Inr ()
      | Some v \<Rightarrow>
          (if to_upper method = ''GET'' \<or> to_upper method = ''HEAD'' then Inr ()
           else let encoded = (case v of JString t \<Rightarrow> t | _ \<Rightarrow> json_stringify v)
                in if maximum < length (uc_encode U encoded)
                   then Inl (gateway_error Request_too_large ''Request body is too large.'')
                   else Inr ()))"

text \<open>\<open>configuredReferences\<close>: every reference in names and values, each once\<close>

fun references_in :: "json \<Rightarrow> string list" where
  "references_in (JString t) = map snd (matches_from 0 t)"
| "references_in (JArray vs) = concat (map (\<lambda>v. references_in v) vs)"
| "references_in (JObject fs) = concat (map (\<lambda>kv. map snd (matches_from 0 (fst kv)) @ references_in (snd kv)) fs)"
| "references_in v = []"

definition configuredReferences :: "json list \<Rightarrow> string list" where
  "configuredReferences values = js_unique (concat (map references_in values))"

section \<open>The request that is sent\<close>

record downstream_request =
  dr_url :: url
  dr_method :: string
  dr_headers :: "(string, string) jmap"
  dr_body :: "string option"
  dr_tlsVerify :: bool

text \<open>\<open>searchParams.set\<close>, which changes what follows the path of a URL\<close>

type_synonym search_params = "string \<Rightarrow> string \<Rightarrow> string \<Rightarrow> string"

definition set_search_param :: "search_params \<Rightarrow> string \<Rightarrow> string \<Rightarrow> url \<Rightarrow> url" where
  "set_search_param Q key v u = u\<lparr>url_rest := Q key v (url_rest u)\<rparr>"

definition url_host :: "url \<Rightarrow> string" where
  "url_host u = (if url_port u = [] then url_hostname u else url_hostname u @ '':'' @ url_port u)"

text \<open>\<open>String(value)\<close>\<close>

fun js_string :: "json \<Rightarrow> string" where
  "js_string JNull = ''null''"
| "js_string (JBool b) = (if b then ''true'' else ''false'')"
| "js_string (JNumber n) = int_string n"
| "js_string (JString t) = t"
| "js_string (JArray vs) = js_join '','' (map (\<lambda>v. if v = JNull then [] else js_string v) vs)"
| "js_string (JObject fs) = ''[object Object]''"

definition set_query :: "search_params \<Rightarrow> (string \<times> json) list \<Rightarrow> url \<Rightarrow> url" where
  "set_query Q query u =
     foldl (\<lambda>u (key, v). if v = JNull then u else set_search_param Q key (js_string v) u) u query"

definition hasHeader :: "(string, string) jmap \<Rightarrow> string \<Rightarrow> bool" where
  "hasHeader headers name \<longleftrightarrow> list_ex (\<lambda>key. to_lower key = to_lower name) (jmap_keys headers)"

definition removeHeader :: "string \<Rightarrow> (string, string) jmap \<Rightarrow> (string, string) jmap" where
  "removeHeader name headers = filter (\<lambda>(key, v). to_lower key \<noteq> to_lower name) headers"

definition buildDownstreamRequest ::
  "utf8_codec \<Rightarrow> search_params \<Rightarrow> gateway_config \<Rightarrow> url \<Rightarrow> string \<Rightarrow> (string, string) jmap \<Rightarrow> (string \<times> json) list
    \<Rightarrow> json option \<Rightarrow> bool \<Rightarrow> downstream_request gateway_result" where
  "buildDownstreamRequest U Q config u method headers query body tlsVerify =
     (let targetUrl = set_query Q query u;
          requestHeaders = jmap_set (removeHeader ''content-length'' (removeHeader ''transfer-encoding'' headers))
            ''host'' (url_host targetUrl);
          request = \<lparr>dr_url = targetUrl, dr_method = to_upper method, dr_headers = requestHeaders, dr_body = None,
            dr_tlsVerify = tlsVerify\<rparr>
      in if body = None \<or> to_upper method = ''GET'' \<or> to_upper method = ''HEAD'' then Inr request
         else let requestBody = (case the body of JString t \<Rightarrow> t | v \<Rightarrow> json_stringify v);
                  typedHeaders = (case the body of
                     JString t \<Rightarrow> requestHeaders
                   | v \<Rightarrow> if hasHeader requestHeaders ''content-type'' then requestHeaders
                          else jmap_set requestHeaders ''content-type'' ''application/json'');
                  size = length (uc_encode U requestBody)
              in if lc_maxRequestBodyBytes (gc_limits config) < size
                 then Inl (gateway_error Request_too_large ''Request body is too large.'')
                 else Inr (request\<lparr>dr_headers := jmap_set typedHeaders ''content-length'' (nat_string size),
                        dr_body := Some requestBody\<rparr>))"

section \<open>The response\<close>

text \<open>
  How an exchange goes: it fails with the name and the code of an error, or an answer comes whose body arrives in
  pieces and then ends or breaks off. The headers are as \<open>Headers\<close> gives them, with the declared length as it was sent.
\<close>

record send_error =
  se_name :: string
  se_code :: "string option"

datatype body_end = Body_ended | Body_failed send_error

record answer =
  an_status :: nat
  an_headers :: "(string, string) jmap"
  an_declaredLength :: "string option"
  an_chunks :: "nat list list"
  an_end :: body_end

datatype exchange = Exchange_failed send_error | Exchange_answered answer

datatype send_failure = Send_refused gateway_exception | Send_error send_error | Send_uncaught

record downstream_response =
  ds_status :: nat
  ds_headers :: "(string, string) jmap"
  ds_body :: "nat list"

definition response_too_large :: gateway_exception where
  "response_too_large = gateway_error Response_too_large ''Downstream response is too large.''"

fun receive_chunks :: "nat \<Rightarrow> nat list \<Rightarrow> nat list list \<Rightarrow> body_end \<Rightarrow> send_failure + nat list" where
  "receive_chunks maxResponseBytes received [] ending =
     (case ending of Body_ended \<Rightarrow> Inr received | Body_failed e \<Rightarrow> Inl (Send_error e))"
| "receive_chunks maxResponseBytes received (chunk # chunks) ending =
     (if maxResponseBytes < length received + length chunk then Inl (Send_refused response_too_large)
      else receive_chunks maxResponseBytes (received @ chunk) chunks ending)"

definition declared_too_large :: "nat \<Rightarrow> string option \<Rightarrow> bool" where
  "declared_too_large maxResponseBytes declared \<longleftrightarrow>
     (case declared of
        None \<Rightarrow> False
      | Some d \<Rightarrow> d \<noteq> [] \<and> list_all is_digit d \<and> maxResponseBytes < decimal_value d)"

text \<open>
  \<open>new Response(body, { status })\<close> throws for a status outside 200 to 599 and, since a body is given, for one that has
  none. It does so in a listener, where nothing catches it: the promise is never settled and the process stops.
\<close>

definition constructible_status :: "nat \<Rightarrow> bool" where
  "constructible_status n \<longleftrightarrow> 200 \<le> n \<and> n \<le> 599 \<and> n \<notin> set [204, 205, 304]"

definition construct_response :: "answer \<Rightarrow> nat list \<Rightarrow> send_failure + downstream_response" where
  "construct_response a body =
     (if constructible_status (an_status a)
      then Inr \<lparr>ds_status = an_status a, ds_headers = an_headers a, ds_body = body\<rparr> else Inl Send_uncaught)"

definition sendDownstreamRequest :: "nat \<Rightarrow> exchange \<Rightarrow> send_failure + downstream_response" where
  "sendDownstreamRequest maxResponseBytes x =
     (case x of
        Exchange_failed e \<Rightarrow> Inl (Send_error e)
      | Exchange_answered a \<Rightarrow>
          (if declared_too_large maxResponseBytes (an_declaredLength a) then Inl (Send_refused response_too_large)
           else result_bind (receive_chunks maxResponseBytes [] (an_chunks a) (an_end a)) (construct_response a)))"

definition isAbortError :: "send_error \<Rightarrow> bool" where
  "isAbortError e \<longleftrightarrow> se_name e = ''AbortError'' \<or> se_code e = Some ''ABORT_ERR''"

definition tls_error_codes :: "string list" where
  "tls_error_codes =
     [''DEPTH_ZERO_SELF_SIGNED_CERT'', ''SELF_SIGNED_CERT_IN_CHAIN'', ''CERT_HAS_EXPIRED'', ''UNABLE_TO_VERIFY_LEAF_SIGNATURE'',
      ''ERR_TLS_CERT_ALTNAME_INVALID'']"

definition isTlsError :: "send_error \<Rightarrow> bool" where
  "isTlsError e \<longleftrightarrow> (case se_code e of None \<Rightarrow> False | Some c \<Rightarrow> c \<in> set tls_error_codes)"

definition downstreamErrorMessage :: "send_error \<Rightarrow> string" where
  "downstreamErrorMessage e =
     (if se_code e = Some ''ECONNREFUSED'' then ''Downstream connection was refused.''
      else if se_code e = Some ''ENETUNREACH'' then ''Downstream network is unreachable.''
      else if se_code e = Some ''EHOSTUNREACH'' then ''Downstream host is unreachable.''
      else if se_code e = Some ''ECONNRESET'' then ''Downstream connection was reset.''
      else ''Downstream request failed.'')"

datatype fetch_failure = Fetch_refused gateway_exception | Fetch_uncaught

definition fetchWithTimeout :: "nat \<Rightarrow> exchange \<Rightarrow> fetch_failure + downstream_response" where
  "fetchWithTimeout maxResponseBytes x =
     (case sendDownstreamRequest maxResponseBytes x of
        Inr r \<Rightarrow> Inr r
      | Inl Send_uncaught \<Rightarrow> Inl Fetch_uncaught
      | Inl (Send_refused e) \<Rightarrow> Inl (Fetch_refused e)
      | Inl (Send_error e) \<Rightarrow> Inl (Fetch_refused
          (if isAbortError e then gateway_error Downstream_timeout ''Downstream request timed out.''
           else if isTlsError e then gateway_error Tls_error ''Downstream TLS verification failed.''
           else gateway_error Downstream_error (downstreamErrorMessage e))))"

definition withContentLength :: "(string, string) jmap \<Rightarrow> nat \<Rightarrow> (string, string) jmap" where
  "withContentLength headers n = jmap_set (removeHeader ''content-length'' headers) ''content-length'' (nat_string n)"

section \<open>The gateway as a destination\<close>

record self_origin_config =
  so_publicOrigin :: "string option"
  so_resource :: string
  so_issuer :: "string option"

text \<open>\<open>origin\<close> of a URL with a host\<close>

definition url_origin :: "url \<Rightarrow> string" where
  "url_origin u = url_protocol u @ ''//'' @ url_host u"

definition configuredSelfOrigins :: "url_platform \<Rightarrow> self_origin_config \<Rightarrow> string list" where
  "configuredSelfOrigins P origins =
     js_unique (concat (map (\<lambda>v. case v of
         None \<Rightarrow> []
       | Some t \<Rightarrow> (case up_parse P t None of None \<Rightarrow> [] | Some u \<Rightarrow> [url_origin u]))
       [so_publicOrigin origins, Some (so_resource origins), so_issuer origins]))"

definition isConfiguredSelfTarget :: "url_platform \<Rightarrow> self_origin_config \<Rightarrow> url \<Rightarrow> bool" where
  "isConfiguredSelfTarget P origins target \<longleftrightarrow> url_origin target \<in> set (configuredSelfOrigins P origins)"

section \<open>Properties\<close>

lemma receive_chunks_Inr:
  "(receive_chunks m received chunks ending = Inr body) =
    (ending = Body_ended \<and> body = received @ concat chunks \<and> (chunks = [] \<or> length body \<le> m))"
proof (induction chunks arbitrary: received)
  case (Cons c cs)
  show ?case by (cases "cs = []") (auto simp: Cons.IH split: body_end.splits)
qed (auto split: body_end.splits)

lemma fetch_Inr: "fetchWithTimeout m x = Inr r \<longleftrightarrow> sendDownstreamRequest m x = Inr r"
  by (auto simp: fetchWithTimeout_def split: sum.splits send_failure.splits)

lemma send_Inr:
  "sendDownstreamRequest m (Exchange_answered a) = Inr r \<longleftrightarrow>
    an_end a = Body_ended \<and> \<not> declared_too_large m (an_declaredLength a) \<and> length (concat (an_chunks a)) \<le> m \<and>
    constructible_status (an_status a) \<and>
    r = \<lparr>ds_status = an_status a, ds_headers = an_headers a, ds_body = concat (an_chunks a)\<rparr>"
  by (auto simp: sendDownstreamRequest_def result_bind_Inr receive_chunks_Inr construct_response_def)

text \<open>
  C21: A response is taken exactly when it arrives whole, neither its declared length nor its body exceeds the limit
  and its status is one that has a body; then the body is what arrived: never a part of it.
\<close>

theorem response_bounded_exact:
  "(fetchWithTimeout maxResponseBytes x = Inr r) =
   (\<exists>a. x = Exchange_answered a \<and> an_end a = Body_ended \<and> \<not> declared_too_large maxResponseBytes (an_declaredLength a) \<and>
      length (concat (an_chunks a)) \<le> maxResponseBytes \<and> constructible_status (an_status a) \<and>
      r = \<lparr>ds_status = an_status a, ds_headers = an_headers a, ds_body = concat (an_chunks a)\<rparr>)"
  unfolding fetch_Inr by (cases x) (simp_all add: send_Inr, simp add: sendDownstreamRequest_def)

lemma set_query_url:
  "url_host (set_query Q query u) = url_host u" "url_protocol (set_query Q query u) = url_protocol u"
  "url_pathname (set_query Q query u) = url_pathname u" "url_hostname (set_query Q query u) = url_hostname u"
  "url_port (set_query Q query u) = url_port u"
proof -
  have "\<exists>r. set_query Q query u = u\<lparr>url_rest := r\<rparr>"
    unfolding set_query_def
  proof (induction query arbitrary: u)
    case Nil
    have "u = u\<lparr>url_rest := url_rest u\<rparr>" by simp
    then show ?case by (metis foldl_Nil)
  next
    case (Cons q query)
    have "\<exists>r. (case q of (key, v) \<Rightarrow> if v = JNull then u else set_search_param Q key (js_string v) u) = u\<lparr>url_rest := r\<rparr>"
      by (cases q) (auto simp: set_search_param_def intro: exI [of _ "url_rest u"])
    then obtain r where r: "(case q of (key, v) \<Rightarrow> if v = JNull then u else set_search_param Q key (js_string v) u) = u\<lparr>url_rest := r\<rparr>" ..
    show ?case using Cons [of "u\<lparr>url_rest := r\<rparr>"] by (simp add: r)
  qed
  then show "url_host (set_query Q query u) = url_host u" "url_protocol (set_query Q query u) = url_protocol u"
    "url_pathname (set_query Q query u) = url_pathname u" "url_hostname (set_query Q query u) = url_hostname u"
    "url_port (set_query Q query u) = url_port u"
    by (auto simp: url_host_def)
qed

text \<open>The headers of a name, whatever its case\<close>

definition headers_named :: "string \<Rightarrow> (string, string) jmap \<Rightarrow> (string \<times> string) list" where
  "headers_named name headers = filter (\<lambda>(key, v). to_lower key = to_lower name) headers"

lemma headers_named_Nil: "headers_named name headers = [] \<longleftrightarrow> \<not> list_ex (\<lambda>key. to_lower key = to_lower name) (jmap_keys headers)"
  by (auto simp: headers_named_def list_ex_iff filter_empty_conv)

lemma headers_named_set:
  "headers_named name headers = [] \<Longrightarrow> to_lower key = to_lower name \<Longrightarrow>
    headers_named name (jmap_set headers key v) = [(key, v)]"
proof (induction headers)
  case (Cons h hs)
  then show ?case by (cases h) (auto simp: headers_named_def split: if_splits)
qed (simp add: headers_named_def)

lemma headers_named_set_other:
  "to_lower key \<noteq> to_lower name \<Longrightarrow> headers_named name (jmap_set headers key v) = headers_named name headers"
proof (induction headers)
  case (Cons h hs)
  then show ?case by (cases h) (auto simp: headers_named_def)
qed (simp add: headers_named_def)

lemma headers_named_remove:
  "headers_named name (removeHeader n headers) = (if to_lower n = to_lower name then [] else headers_named name headers)"
  by (induction headers) (auto simp: headers_named_def removeHeader_def)

definition forwardable :: "string \<Rightarrow> bool" where
  "forwardable name \<longleftrightarrow> to_lower name \<notin> set hop_by_hop_headers"

definition content_length_ok :: "utf8_codec \<Rightarrow> gateway_config \<Rightarrow> downstream_request \<Rightarrow> bool" where
  "content_length_ok U config d \<longleftrightarrow>
     (case dr_body d of
        None \<Rightarrow> headers_named ''content-length'' (dr_headers d) = []
      | Some b \<Rightarrow>
          headers_named ''content-length'' (dr_headers d) = [(''content-length'', nat_string (length (uc_encode U b)))] \<and>
          length (uc_encode U b) \<le> lc_maxRequestBodyBytes (gc_limits config) \<and> dr_method d \<notin> {''GET'', ''HEAD''})"

lemma lower_literals:
  "to_lower ''host'' = ''host''" "to_lower ''content-length'' = ''content-length''" "to_lower ''content-type'' = ''content-type''"
  "to_lower ''transfer-encoding'' = ''transfer-encoding''"
  by code_simp+

lemma reject_header_Inr: "reject_header name = Inr u \<Longrightarrow> forwardable name \<and> to_lower name \<noteq> ''host''"
  by (auto simp: reject_header_def forwardable_def Let_def caller_controlled_authority_headers_def split: if_splits)

lemma list_all_jmap_set: "list_all P (map fst m) \<Longrightarrow> P k \<Longrightarrow> list_all P (map fst (jmap_set m k v))"
  by (induction m) auto

lemma built_request:
  assumes "buildDownstreamRequest U Q config u method headers query body tlsVerify = Inr d"
    and "rejectCallerControlledHeaders headers = Inr x"
  shows "url_host (dr_url d) = url_host u \<and> url_protocol (dr_url d) = url_protocol u \<and>
    url_pathname (dr_url d) = url_pathname u \<and> dr_method d = to_upper method \<and> dr_tlsVerify d = tlsVerify \<and>
    headers_named ''host'' (dr_headers d) = [(''host'', url_host u)] \<and>
    list_all forwardable (jmap_keys (dr_headers d)) \<and> content_length_ok U config d"
proof -
  have names: "list_all (\<lambda>n. forwardable n \<and> to_lower n \<noteq> ''host'') (jmap_keys headers)"
    using assms(2) reject_header_Inr
    by (auto simp: rejectCallerControlledHeaders_def result_map_value_Inr result_map_Inr_map list_all_iff)
  let ?h1 = "removeHeader ''content-length'' (removeHeader ''transfer-encoding'' headers)"
  let ?h2 = "jmap_set ?h1 ''host'' (url_host u)"
  have keys: "set ?h1 \<subseteq> set headers" by (auto simp: removeHeader_def)
  have fw: "forwardable ''host''" "forwardable ''content-type''" "forwardable ''content-length''" by code_simp+
  have "list_all forwardable (jmap_keys ?h1)"
    using names image_mono [OF keys, of fst] unfolding list_all_iff set_map by blast
  then have h2: "list_all forwardable (jmap_keys ?h2)" by (rule list_all_jmap_set [where P = forwardable]) (rule fw)
  have "headers_named ''host'' headers = []"
    using names unfolding headers_named_Nil list_ex_iff list_all_iff lower_literals by blast
  then have "headers_named ''host'' ?h1 = []" by (simp add: headers_named_remove lower_literals)
  then have host2: "headers_named ''host'' ?h2 = [(''host'', url_host u)]" by (rule headers_named_set) simp
  have len2: "headers_named ''content-length'' ?h2 = []"
    by (simp add: headers_named_set_other headers_named_remove lower_literals)
  have typed: "headers_named ''host'' (jmap_set h ''content-type'' v) = headers_named ''host'' h"
    "headers_named ''content-length'' (jmap_set h ''content-type'' v) = headers_named ''content-length'' h"
    "headers_named ''host'' (jmap_set h ''content-length'' v) = headers_named ''host'' h" for h v
    by (simp_all add: headers_named_set_other lower_literals)
  show ?thesis
  proof (cases "body = None \<or> to_upper method = ''GET'' \<or> to_upper method = ''HEAD''")
    case True
    then have "d = \<lparr>dr_url = set_query Q query u, dr_method = to_upper method, dr_headers = ?h2, dr_body = None, dr_tlsVerify = tlsVerify\<rparr>"
      using assms(1) by (simp add: buildDownstreamRequest_def Let_def set_query_url)
    then show ?thesis using h2 host2 len2 by (simp add: set_query_url content_length_ok_def)
  next
    case False
    define b where "b = (case the body of JString t \<Rightarrow> t | v \<Rightarrow> json_stringify v)"
    define h3 where "h3 = (case the body of JString t \<Rightarrow> ?h2
      | v \<Rightarrow> if hasHeader ?h2 ''content-type'' then ?h2 else jmap_set ?h2 ''content-type'' ''application/json'')"
    have d: "d = \<lparr>dr_url = set_query Q query u, dr_method = to_upper method,
        dr_headers = jmap_set h3 ''content-length'' (nat_string (length (uc_encode U b))), dr_body = Some b, dr_tlsVerify = tlsVerify\<rparr>"
      and small: "length (uc_encode U b) \<le> lc_maxRequestBodyBytes (gc_limits config)"
      using assms(1) False unfolding buildDownstreamRequest_def Let_def set_query_url b_def [symmetric] h3_def [symmetric]
      by (simp_all split: if_splits)
    have h3: "h3 = ?h2 \<or> h3 = jmap_set ?h2 ''content-type'' ''application/json''"
      unfolding h3_def by (cases "the body") simp_all
    have t2: "list_all forwardable (jmap_keys (jmap_set ?h2 ''content-type'' v))" for v
      using h2 by (rule list_all_jmap_set [where P = forwardable]) (rule fw)
    have h3': "list_all forwardable (jmap_keys h3)" using h3 t2 h2 by (elim disjE ssubst)
    have h3'': "headers_named ''host'' h3 = [(''host'', url_host u)]" "headers_named ''content-length'' h3 = []"
      using h3 typed host2 len2 by (elim disjE; simp only: typed)+
    have "list_all forwardable (jmap_keys (dr_headers d))" 
      unfolding d downstream_request.select_convs by (rule list_all_jmap_set [where P = forwardable, OF h3' fw(3)])
    moreover have "headers_named ''content-length'' (dr_headers d) = [(''content-length'', nat_string (length (uc_encode U b)))]"
      unfolding d downstream_request.select_convs by (rule headers_named_set [OF h3''(2)]) (rule refl)
    ultimately show ?thesis using h3''(1) small False by (simp add: d set_query_url content_length_ok_def typed)
  qed
qed

text \<open>
  C22: A request that is sent goes to the host and the path that were checked and names this host, and no other, as its
  \<open>host\<close>; it has no header that belongs to the connection; and it declares a length exactly when it has a body, the
  length of this body, which is within the limit.
\<close>

theorem downstream_request_wellformed:
  assumes "buildDownstreamRequest U Q config u method headers query body tlsVerify = Inr d"
    and "rejectCallerControlledHeaders headers = Inr x"
  shows "url_host (dr_url d) = url_host u \<and> url_protocol (dr_url d) = url_protocol u \<and>
    url_pathname (dr_url d) = url_pathname u \<and> dr_method d = to_upper method \<and> dr_tlsVerify d = tlsVerify \<and>
    headers_named ''host'' (dr_headers d) = [(''host'', url_host u)] \<and>
    list_all forwardable (jmap_keys (dr_headers d)) \<and> content_length_ok U config d"
  using built_request [OF assms] .

definition sample_url :: url where
  "sample_url = \<lparr>url_protocol = ''https:'', url_hostname = ''h'', url_port = [], url_pathname = ''/a'', url_rest = []\<rparr>"

definition roomy_config :: gateway_config where
  "roomy_config = sample_config (sample_limits\<lparr>lc_maxRequestBodyBytes := 9, lc_maxResponseBodyBytes := 40\<rparr>)"

theorem downstream_request_wellformed_witness:
  "\<exists>d. buildDownstreamRequest latin1_codec (\<lambda>k v r. r) roomy_config sample_url ''post'' [(''Content-Length'', ''7'')]
      [(''q'', JNull)] (Some (JArray [])) True = Inr d \<and>
    headers_named ''host'' (dr_headers d) = [(''host'', ''h'')] \<and> content_length_ok latin1_codec roomy_config d"
proof -
  let ?b = "buildDownstreamRequest latin1_codec (\<lambda>k v r. r) roomy_config sample_url ''post'' [(''Content-Length'', ''7'')]
      [(''q'', JNull)] (Some (JArray [])) True"
  have "\<not> isl ?b" by code_simp
  then obtain d where d: "?b = Inr d" by (cases ?b) auto
  have "rejectCallerControlledHeaders [(''Content-Length'', ''7'')] = Inr ()" by code_simp
  from downstream_request_wellformed [OF d this] show ?thesis using d by (simp add: url_host_def sample_url_def)
qed

end
