(* ===== verification/BinaryResponse.thy ===== *)
theory BinaryResponse
  imports ResponseTokenizerProperties
begin

text \<open>
  \<^verbatim>\<open>src/binaryResponse.ts\<close>: whether a response is binary, and the inspection that replaces tokenizing for one
  that is: a binary body cannot be rewritten, so it is refused when it holds a credential or something that looks like a
  reference and is not one of the client. \<^verbatim>\<open>src/cookies.ts\<close>: cookies do not pass, in either direction.
\<close>

section \<open>Classification\<close>

definition default_binary_max_bytes :: nat where
  "default_binary_max_bytes = 102400"

datatype body_reason = Utf8_text | Binary_signature | Invalid_utf8 | Nul_byte | Control_bytes

definition binarySignatures :: "nat list list" where
  "binarySignatures =
     [[137, 80, 78, 71, 13, 10, 26, 10], [255, 216, 255], [71, 73, 70, 56], [37, 80, 68, 70, 45], [80, 75, 3, 4],
      [31, 139], [127, 69, 76, 70], [0, 97, 115, 109]]"

definition control_byte :: "nat \<Rightarrow> bool" where
  "control_byte b \<longleftrightarrow> b < 32 \<and> b \<notin> {9, 10, 12, 13} \<or> b = 127"

definition classifyResponseBody :: "utf8_codec \<Rightarrow> nat list \<Rightarrow> body_reason" where
  "classifyResponseBody U body =
     (if list_ex (\<lambda>signature. prefix signature body) binarySignatures then Binary_signature
      else if 0 \<in> set body then Nul_byte
      else case uc_decode U body of
             None \<Rightarrow> Invalid_utf8
           | Some _ \<Rightarrow>
               (if body \<noteq> [] \<and> length body < 100 * length (filter control_byte body) then Control_bytes else Utf8_text))"

definition is_binary :: "body_reason \<Rightarrow> bool" where
  "is_binary r \<longleftrightarrow> r \<noteq> Utf8_text"

definition declared_mime_type :: "(string, string) jmap \<Rightarrow> string option" where
  "declared_mime_type headers =
     map_option (\<lambda>(name, v). to_lower (js_trim (hd (js_split CHR '';'' v))))
       (find (\<lambda>(name, v). to_lower name = ''content-type'') headers)"

definition isBinaryMediaType :: "(string, string) jmap \<Rightarrow> bool" where
  "isBinaryMediaType headers =
     (case declared_mime_type headers of
        None \<Rightarrow> False
      | Some mimeType \<Rightarrow>
          mimeType \<in> {''application/octet-stream'', ''application/pdf'', ''application/zip''} \<or>
          starts_with mimeType ''image/'' \<or> starts_with mimeType ''audio/'' \<or> starts_with mimeType ''video/'' \<or>
          starts_with mimeType ''font/'')"

definition responseMimeType :: "(string, string) jmap \<Rightarrow> string" where
  "responseMimeType headers =
     (case declared_mime_type headers of
        None \<Rightarrow> ''application/octet-stream''
      | Some t \<Rightarrow> if t = [] then ''application/octet-stream'' else t)"

section \<open>Inspection\<close>

fun contains_bytes :: "nat list \<Rightarrow> nat list \<Rightarrow> bool" where
  "contains_bytes needle [] = (needle = [])"
| "contains_bytes needle (b # bs) = (prefix needle (b # bs) \<or> contains_bytes needle bs)"

definition credential_forms :: "credential_config \<Rightarrow> string list" where
  "credential_forms c = [cr_secret c, json_escape (cr_secret c)]"

definition body_holds :: "utf8_codec \<Rightarrow> nat list \<Rightarrow> string \<Rightarrow> bool" where
  "body_holds U body v \<longleftrightarrow> v \<noteq> [] \<and> contains_bytes (uc_encode U v) body"

record binary_inspection =
  bi_ruleIds :: "string list"
  bi_warnings :: token_warnings

definition inspect_binary_candidate ::
  "tokenizer_env \<Rightarrow> tokenizer_state \<times> binary_inspection \<Rightarrow> string \<Rightarrow> tokenizer_state \<times> binary_inspection" where
  "inspect_binary_candidate T si candidate =
     (case si of (s, i) \<Rightarrow>
        (case broker_call T (\<lambda>now. inspectResponseToken (te_broker T) now (te_auth T) (sc_id (te_service T)) candidate) s of
           (s', Token_valid) \<Rightarrow> (s', i)
         | (s', Token_invalid reason) \<Rightarrow>
             (s', \<lparr>bi_ruleIds = bi_ruleIds i @ [''gateway:invalid-opaque-prefix''],
                   bi_warnings = add_warning 1 (warning_key candidate reason) (bi_warnings i)\<rparr>)))"

definition inspectBinaryBody ::
  "tokenizer_env \<Rightarrow> nat list \<Rightarrow> tokenizer_state \<Rightarrow> tokenizer_state \<times> binary_inspection" where
  "inspectBinaryBody T body s =
     (let projected = map char_of body;
          configured = (if list_ex (\<lambda>c. list_ex (body_holds (te_utf8 T) body) (credential_forms c)) (sc_credentials (te_service T))
                        then [''gateway:configured-credential''] else []);
          basic = (if findHttpBasicCredentialRanges projected \<noteq> [] then [''gateway:http-basic-credential''] else [])
      in case foldl (inspect_binary_candidate T) (s, \<lparr>bi_ruleIds = configured @ basic, bi_warnings = []\<rparr>)
                (map snd (token_candidates projected)) of
           (s', i) \<Rightarrow> (s', i\<lparr>bi_ruleIds := js_sort (js_unique (bi_ruleIds i))\<rparr>))"

definition assertSafeBinaryBody :: "binary_inspection \<Rightarrow> string \<Rightarrow> unit gateway_result" where
  "assertSafeBinaryBody inspection requestId =
     (if bi_ruleIds inspection \<noteq> []
      then Inl \<lparr>ge_code = Secret_scan_failed, ge_message = ''Binary response contains protected data.'',
                ge_request_id = Some requestId\<rparr>
      else Inr ())"

section \<open>Cookies\<close>

definition prohibited_cookie :: "string \<Rightarrow> bool" where
  "prohibited_cookie name \<longleftrightarrow> to_lower name \<in> {''cookie'', ''cookie2'', ''set-cookie'', ''set-cookie2''}"

definition prohibitedCookieHeaderNames :: "(string, 'a) jmap \<Rightarrow> string list" where
  "prohibitedCookieHeaderNames headers = js_sort (map to_lower (filter prohibited_cookie (jmap_keys headers)))"

definition stripCookieHeaders :: "(string, string) jmap \<Rightarrow> (string, string) jmap \<times> string list" where
  "stripCookieHeaders headers =
     (filter (\<lambda>(name, v). \<not> prohibited_cookie name) headers, prohibitedCookieHeaderNames headers)"

section \<open>What an inspection reports\<close>

lemma contains_bytes_iff: "contains_bytes needle bs \<longleftrightarrow> sublist needle bs"
proof (induction bs)
  case (Cons b bs)
  then show ?case by (simp add: sublist_Cons_right)
qed simp

text \<open>The bytes hold no credential of the service, plain or escaped for JSON, and no HTTP Basic credential.\<close>

definition binary_clean :: "tokenizer_env \<Rightarrow> nat list \<Rightarrow> bool" where
  "binary_clean T body \<longleftrightarrow>
     (\<forall>v \<in> set (service_secrets T). v \<noteq> [] \<longrightarrow> \<not> sublist (uc_encode (te_utf8 T) v) body) \<and>
     findHttpBasicCredentialRanges (map char_of body) = []"

text \<open>
  Each of the references may be used by the client when its turn comes: by then every inspection has moved the clock
  on, and refreshed the reference it found.
\<close>

primrec references_live :: "tokenizer_env \<Rightarrow> string list \<Rightarrow> tokenizer_state \<Rightarrow> bool" where
  "references_live T [] s \<longleftrightarrow> True"
| "references_live T (c # cs) s \<longleftrightarrow>
     (let now = te_clock T (tz_calls s)
      in live_reference_of (te_broker T) now (te_auth T) (sc_id (te_service T)) (tz_broker s) c \<and>
         references_live T cs (s\<lparr>tz_broker := fst (inspectResponseToken (te_broker T) now (te_auth T) (sc_id (te_service T)) c
           (tz_broker s)), tz_calls := tz_calls s + 1\<rparr>))"

lemma inspect_binary_rules:
  "bi_ruleIds (snd (foldl (inspect_binary_candidate T) (s, i) cs)) = [] \<longleftrightarrow> bi_ruleIds i = [] \<and> references_live T cs s"
proof (induction cs arbitrary: s i)
  case (Cons c cs)
  let ?now = "te_clock T (tz_calls s)"
  let ?call = "inspectResponseToken (te_broker T) ?now (te_auth T) (sc_id (te_service T)) c (tz_broker s)"
  let ?s = "s\<lparr>tz_broker := fst ?call, tz_calls := tz_calls s + 1\<rparr>"
  have live: "live_reference_of (te_broker T) ?now (te_auth T) (sc_id (te_service T)) (tz_broker s) c \<longleftrightarrow> snd ?call = Token_valid"
    by (simp add: inspect_valid_iff)
  show ?case
  proof (cases "snd ?call")
    case Token_valid
    then have "inspect_binary_candidate T (s, i) c = (?s, i)"
      by (cases ?call) (simp add: inspect_binary_candidate_def broker_call_def)
    then show ?thesis using Cons.IH [of ?s i] live Token_valid by (simp add: Let_def)
  next
    case (Token_invalid reason)
    let ?i = "\<lparr>bi_ruleIds = bi_ruleIds i @ [''gateway:invalid-opaque-prefix''],
       bi_warnings = add_warning 1 (warning_key c reason) (bi_warnings i)\<rparr>"
    have "inspect_binary_candidate T (s, i) c = (?s, ?i)"
      using Token_invalid by (cases ?call) (simp add: inspect_binary_candidate_def broker_call_def)
    then show ?thesis using Cons.IH [of ?s ?i] live Token_invalid by (simp add: Let_def)
  qed
qed simp

lemma credentials_absent:
  "\<not> list_ex (\<lambda>c. list_ex (body_holds (te_utf8 T) body) (credential_forms c)) (sc_credentials (te_service T)) \<longleftrightarrow>
     (\<forall>v \<in> set (service_secrets T). v \<noteq> [] \<longrightarrow> \<not> sublist (uc_encode (te_utf8 T) v) body)"
  by (auto simp: list_ex_iff body_holds_def credential_forms_def service_secrets_def contains_bytes_iff)

lemma inspected_body:
  "bi_ruleIds (snd (inspectBinaryBody T body s)) = [] \<longleftrightarrow>
     binary_clean T body \<and> references_live T (map snd (token_candidates (map char_of body))) s"
proof -
  let ?start = "\<lparr>bi_ruleIds = (if list_ex (\<lambda>c. list_ex (body_holds (te_utf8 T) body) (credential_forms c)) (sc_credentials (te_service T))
      then [''gateway:configured-credential''] else []) @
     (if findHttpBasicCredentialRanges (map char_of body) \<noteq> [] then [''gateway:http-basic-credential''] else []), bi_warnings = []\<rparr>"
  let ?f = "foldl (inspect_binary_candidate T) (s, ?start) (map snd (token_candidates (map char_of body)))"
  have "bi_ruleIds (snd (inspectBinaryBody T body s)) = js_sort (js_unique (bi_ruleIds (snd ?f)))"
    unfolding inspectBinaryBody_def Let_def by (cases ?f) simp
  moreover have "js_sort (js_unique xs) = [] \<longleftrightarrow> xs = []" for xs by (metis js_sort_eq_Nil set_js_unique set_empty)
  moreover have "bi_ruleIds ?start = [] \<longleftrightarrow> binary_clean T body"
    unfolding binary_clean_def credentials_absent [symmetric] by simp
  ultimately show ?thesis by (simp add: inspect_binary_rules)
qed

text \<open>
  C23: A binary body passes its inspection exactly when no credential of the service is in it, neither as it is nor
  escaped for JSON, no HTTP Basic credential is, and everything that looks like a reference is one the client may use for the
  service at the moment it is looked at. Every other body is refused, with the same message whatever was found.
\<close>

theorem binary_body_safe:
  "assertSafeBinaryBody (snd (inspectBinaryBody T body s)) requestId =
     (if binary_clean T body \<and> references_live T (map snd (token_candidates (map char_of body))) s then Inr ()
      else Inl \<lparr>ge_code = Secret_scan_failed, ge_message = ''Binary response contains protected data.'',
                ge_request_id = Some requestId\<rparr>)"
  using inspected_body [of T body s] by (auto simp: assertSafeBinaryBody_def)

section \<open>What an inspection leaves\<close>

lemma live_candidates:
  assumes "tokenizing_ok T m s" and "foldl (inspect_binary_candidate T) (s, i) cs = (s', i')"
  shows "tokenizing_ok T m s' \<and> runs_to T s s' \<and> tz_draws s' = tz_draws s \<and>
    (references_live T cs s \<longrightarrow> (\<forall>c \<in> set cs. client_file T (tz_broker s') c))"
  using assms
proof (induction cs arbitrary: s i)
  case (Cons c cs)
  let ?now = "te_clock T (tz_calls s)"
  let ?call = "inspectResponseToken (te_broker T) ?now (te_auth T) (sc_id (te_service T)) c (tz_broker s)"
  let ?s = "s\<lparr>tz_broker := fst ?call, tz_calls := tz_calls s + 1\<rparr>"
  have e: "evolves (te_broker T) {} (tz_broker s) (fst ?call)" by (rule inspect_evolves)
  have good: "tokenizing_ok T m ?s"
    using Cons.prems(1) broker_good_inspect by (simp add: tokenizing_ok_def)
  have "\<exists>i1. inspect_binary_candidate T (s, i) c = (?s, i1)"
    by (simp add: inspect_binary_candidate_def broker_call_def split: prod.split token_inspection.split)
  then obtain i1 where "foldl (inspect_binary_candidate T) (?s, i1) cs = (s', i')" using Cons.prems(2) by auto
  note IH = Cons.IH [OF good this]
  have run: "runs_to T s ?s" using e by (auto simp: runs_to_def)
  have "client_file T (tz_broker s') c"
    if live: "live_reference_of (te_broker T) ?now (te_auth T) (sc_id (te_service T)) (tz_broker s) c"
  proof -
    have "client_file T (tz_broker s) c"
      using Cons.prems(1) live_on_file [OF _ live] by (simp add: tokenizing_ok_def broker_good_def)
    then show ?thesis using on_file_evolves runs_to_trans [OF run] IH unfolding runs_to_def by blast
  qed
  then show ?case using IH runs_to_trans [OF run] by (simp add: Let_def)
qed simp

lemma inspected_run:
  assumes "tokenizing_ok T m s" and "inspectBinaryBody T body s = (s', i)"
  shows "tokenizing_ok T m s' \<and> runs_to T s s' \<and> tz_draws s' = tz_draws s \<and>
    (assertSafeBinaryBody i requestId = Inr u \<longrightarrow> binary_clean T body \<and>
       (\<forall>c \<in> set (token_candidates (map char_of body)). client_file T (tz_broker s') (snd c)))"
proof -
  have "snd (inspectBinaryBody T body s) = i" using assms(2) by simp
  moreover obtain j k where "foldl (inspect_binary_candidate T) (s, k) (map snd (token_candidates (map char_of body))) = (s', j)"
    using assms(2) by (auto simp: inspectBinaryBody_def Let_def split: prod.splits)
  ultimately show ?thesis
    using live_candidates [OF assms(1)] inspected_body [of T body s]
    by (fastforce simp: assertSafeBinaryBody_def split: if_splits)
qed

end
