(* ===== verification/Gateway.thy ===== *)
theory Gateway
  imports DownstreamRequest BinaryResponse DenialStore ServiceRequestLimiter Policy
begin

text \<open>
  \<open>executeServiceRequest\<close> of \<^verbatim>\<open>src/gateway.ts\<close> for services of the configuration file: one request of a client, from the
  checks of its input over the policy, the references and the exchange with the service to the tokenized response. The
  state holds what requests share: the broker, the stores, the audit log, and the requests sent so far. While
  a request waits, other requests run; what they do to the state during the \<open>k\<close>-th wait is a parameter. Writing to the log is
  left out, and so are the times in audit events.
\<close>

section \<open>State and surroundings\<close>

record service_request_event =
  sv_requestId :: string
  sv_subject :: string
  sv_service :: string
  sv_destination :: string
  sv_accessIds :: "string list"
  sv_internalReferenceIds :: "string list"
  sv_method :: string
  sv_targetHost :: string
  sv_targetPath :: string
  sv_allowed :: bool
  sv_matchedRule :: "string option"
  sv_statusCode :: "nat option"
  sv_tlsVerify :: bool
  sv_tokenizationCount :: nat
  sv_credentialUseCount :: nat
  sv_ruleIds :: "string list"
  sv_responseReferenceIds :: "string list"
  sv_binaryScanBypassed :: bool
  sv_error :: "(gateway_error_code \<times> string) option"

datatype audit_event =
  Service_request service_request_event
| Invalid_response_references string string string string token_warnings
| Self_key_blocked string string string string self_key_location "string option"

record gateway_state =
  gs_broker :: token_broker
  gs_calls :: nat
  gs_draws :: nat
  gs_denials :: denial_store
  gs_limiter :: service_limiter
  gs_selfLimiter :: self_key_limiter
  gs_audit :: "audit_event list"
  gs_sent :: "downstream_request list"

record gateway_env =
  gw_broker :: broker_env
  gw_clock :: "nat \<Rightarrow> int"
  gw_draws :: "nat \<Rightarrow> string \<times> string"
  gw_runtime :: "runtime_secrets option"
  gw_utf8 :: utf8_codec
  gw_toString :: "nat list \<Rightarrow> string"
  gw_sha256 :: "nat list \<Rightarrow> string"
  gw_jsonScanner :: "string \<Rightarrow> scanned_token list"
  gw_urls :: url_platform
  gw_matchers :: matcher_platform
  gw_search :: search_params
  gw_origins :: self_origin_config
  gw_prechecked :: bool
  gw_detector :: "(nat \<Rightarrow> structural_candidate \<Rightarrow> verification) option"
  gw_rules :: "secretlint_rule_config list"
  gw_maxUniqueSecrets :: nat
  gw_match :: "string \<Rightarrow> string list"
  gw_scan :: "nat \<Rightarrow> string \<Rightarrow> string \<Rightarrow> secretlint_rule_config list \<Rightarrow> scan_outcome"
  gw_network :: "nat \<Rightarrow> downstream_request \<Rightarrow> exchange"
  gw_others :: "nat \<Rightarrow> gateway_state \<Rightarrow> gateway_state"
  gw_scanOthers :: "nat \<Rightarrow> token_broker \<Rightarrow> token_broker"

abbreviation gw_config :: "gateway_env \<Rightarrow> gateway_config" where
  "gw_config G \<equiv> be_config (gw_broker G)"

record service_response =
  sp_requestId :: string
  sp_statusCode :: nat
  sp_headers :: "(string, string) jmap"
  sp_body :: "string option"
  sp_bodySizeBytes :: nat
  sp_bodySha256 :: string
  sp_secretTokenized :: bool
  sp_secretTokenizationCount :: nat
  sp_tlsVerify :: bool
  sp_binaryBody :: "(nat list \<times> string) option"

text \<open>A \<open>GatewayError\<close>, an exception of another class, or one that no handler sees, which stops the process\<close>

datatype gateway_failure = Refused gateway_exception | Crashed | Stopped

type_synonym 'a gateway_step = "gateway_state \<Rightarrow> gateway_state \<times> (gateway_failure + 'a)"

definition refused :: "'a gateway_result \<Rightarrow> gateway_failure + 'a" where
  "refused r = (case r of Inl e \<Rightarrow> Inl (Refused e) | Inr a \<Rightarrow> Inr a)"

definition check_step :: "'a gateway_result \<Rightarrow> 'a gateway_step" where
  "check_step r s = (s, refused r)"

definition error_with_id :: "string \<Rightarrow> gateway_exception \<Rightarrow> gateway_exception" where
  "error_with_id requestId e = e\<lparr>ge_request_id := Some requestId\<rparr>"

definition append_audit :: "audit_event \<Rightarrow> gateway_state \<Rightarrow> gateway_state" where
  "append_audit ev s = s\<lparr>gs_audit := gs_audit s @ [ev]\<rparr>"

text \<open>What one request runs with\<close>

record request_context =
  rc_auth :: auth_context
  rc_service :: service_config
  rc_target :: resolved_target
  rc_input :: service_request_input
  rc_requestId :: string
  rc_matchedRule :: "string option"

definition token_target :: "request_context \<Rightarrow> token_use_target" where
  "token_target R = \<lparr>ut_service = sc_id (rc_service R), ut_destination = Some (dc_id (rt_destination (rc_target R)))\<rparr>"

definition substitution_env_of :: "gateway_env \<Rightarrow> request_context \<Rightarrow> substitution_env" where
  "substitution_env_of G R =
     \<lparr>su_broker = gw_broker G, su_clock = gw_clock G, su_auth = rc_auth R, su_target = token_target R,
      su_service = rc_service R, su_scanner = gw_jsonScanner G, su_utf8 = gw_utf8 G\<rparr>"

definition tokenizer_env_of :: "gateway_env \<Rightarrow> request_context \<Rightarrow> string list \<Rightarrow> tokenizer_env" where
  "tokenizer_env_of G R disabled =
     \<lparr>te_broker = gw_broker G, te_clock = gw_clock G, te_draws = gw_draws G, te_runtime = gw_runtime G,
      te_auth = rc_auth R, te_service = rc_service R, te_rules = gw_rules G, te_disabledRuleIds = disabled,
      te_maxUniqueSecrets = gw_maxUniqueSecrets G, te_match = gw_match G, te_jsonScanner = gw_jsonScanner G,
      te_scan = gw_scan G, te_meanwhile = gw_scanOthers G, te_utf8 = gw_utf8 G\<rparr>"

text \<open>The event of a request, with the fields a refusal leaves empty\<close>

definition request_event :: "request_context \<Rightarrow> bool \<Rightarrow> service_request_event" where
  "request_event R allowed =
     \<lparr>sv_requestId = rc_requestId R, sv_subject = ac_subject (rc_auth R), sv_service = sc_id (rc_service R),
      sv_destination = dc_id (rt_destination (rc_target R)), sv_accessIds = [], sv_internalReferenceIds = [],
      sv_method = to_upper (si_method (rc_input R)), sv_targetHost = url_hostname (rt_url (rc_target R)),
      sv_targetPath = rt_methodPath (rc_target R), sv_allowed = allowed, sv_matchedRule = rc_matchedRule R,
      sv_statusCode = None, sv_tlsVerify = tls_verify (rt_tls (rc_target R)), sv_tokenizationCount = 0,
      sv_credentialUseCount = 0, sv_ruleIds = [], sv_responseReferenceIds = [], sv_binaryScanBypassed = False,
      sv_error = None\<rparr>"

definition refusal_event :: "request_context \<Rightarrow> bool \<Rightarrow> gateway_error_code \<Rightarrow> string \<Rightarrow> audit_event" where
  "refusal_event R allowed code msg = Service_request ((request_event R allowed)\<lparr>sv_error := Some (code, msg)\<rparr>)"

section \<open>Before the exchange\<close>

definition service_reference_step :: "gateway_env \<Rightarrow> request_context \<Rightarrow> nat option gateway_step" where
  "service_reference_step G R s =
     (if sc_credentials (rc_service R) = []
      then (case si_service_reference (rc_input R) of
              None \<Rightarrow> (s, Inl (Refused (gateway_error Reference_invalid ''service_reference is required for this service.'')))
            | Some reference \<Rightarrow>
                (if reference = []
                 then (s, Inl (Refused (gateway_error Reference_invalid ''service_reference is required for this service.'')))
                 else case validateServiceReferenceUse (gw_broker G) (gw_clock G (gs_calls s)) (rc_auth R) (token_target R)
                        reference (gs_broker s) of
                   (b, r) \<Rightarrow> (s\<lparr>gs_broker := b, gs_calls := gs_calls s + 1\<rparr>, refused (result_map_value Some r))))
      else if si_service_reference (rc_input R) \<noteq> None
      then (s, Inl (Refused (gateway_error Reference_invalid ''service_reference is only valid for gateway access references.'')))
      else (s, Inr None))"

definition cookie_step :: "request_context \<Rightarrow> unit gateway_step" where
  "cookie_step R =
     check_step (if prohibitedCookieHeaderNames (si_headers (rc_input R)) \<noteq> []
       then Inl (gateway_error Cookie_not_allowed ''Cookie headers are not allowed in service requests.'')
       else Inr ())"

definition json_headers :: "(string, string) jmap \<Rightarrow> json" where
  "json_headers headers = JObject (map (\<lambda>(k, v). (k, JString v)) headers)"

definition inspection_values :: "request_context \<Rightarrow> (json \<times> self_key_location) list" where
  "inspection_values R =
     [(json_headers (si_headers (rc_input R)), In_header), (JObject (si_query (rc_input R)), In_query),
      ((case si_body (rc_input R) of None \<Rightarrow> JNull | Some v \<Rightarrow> v), In_body)] @
     map (\<lambda>c. (JString (cr_secret c), In_credential)) (sc_credentials (rc_service R))"

text \<open>\<open>activeSelfApiKeyMatches\<close>; the detector is asked after a wait.\<close>

definition activeSelfApiKeyMatches ::
  "gateway_env \<Rightarrow> (json \<times> self_key_location) list \<Rightarrow> string \<Rightarrow> self_key_match list gateway_step" where
  "activeSelfApiKeyMatches G values subject s =
     (case scanStructuralApiKeyCandidates values of
        Inl _ \<Rightarrow> (s, Inl (Refused (gateway_error Self_api_key_denied ''Self API key inspection could not complete.'')))
      | Inr recognizable \<Rightarrow>
          (if recognizable = [] then (s, Inr [])
           else case gw_detector G of
             None \<Rightarrow> (s, Inl (Refused (gateway_error Self_api_key_denied ''Self API key inspection is unavailable.'')))
           | Some verify \<Rightarrow>
               (let s1 = gw_others G 0 s;
                    base = gs_calls s1
                in case inspect_self_keys (\<lambda>i. (gw_clock G (base + 2 * i), gw_clock G (base + 2 * i + 1))) verify subject
                          ''mcp:runtime'' values (gs_selfLimiter s1) of
                     (l, r) \<Rightarrow>
                       (s1\<lparr>gs_selfLimiter := l, gs_calls := base + 2 * length recognizable\<rparr>,
                        case r of
                          Inl _ \<Rightarrow> Inl (Refused (gateway_error Self_api_key_denied ''Self API key inspection could not complete.''))
                        | Inr matches \<Rightarrow> Inr matches))))"

definition self_key_event :: "request_context \<Rightarrow> self_key_location \<Rightarrow> string option \<Rightarrow> audit_event" where
  "self_key_event R location i =
     Self_key_blocked (rc_requestId R) (ac_subject (rc_auth R)) (sc_id (rc_service R)) (dc_id (rt_destination (rc_target R))) location i"

text \<open>A request to the gateway itself; a search that gave up throws again when the event is built.\<close>

definition self_target_step :: "gateway_env \<Rightarrow> request_context \<Rightarrow> unit gateway_step" where
  "self_target_step G R s =
     (if isConfiguredSelfTarget (gw_urls G) (gw_origins G) (rt_url (rc_target R)) \<and> \<not> gw_prechecked G
      then (case activeSelfApiKeyMatches G (inspection_values R) (ac_subject (rc_auth R)) s of
              (s1, Inr []) \<Rightarrow> (s1, Inr ())
            | (s1, Inr (m # ms)) \<Rightarrow>
                (append_audit (self_key_event R (sm_location m) (Some (ak_id (sm_key m)))) s1,
                 Inl (Refused (error_with_id (rc_requestId R)
                   (gateway_error Self_api_key_denied ''Active SecretSauce API keys require database-backed approval.''))))
            | (s1, Inl (Refused e)) \<Rightarrow>
                (if ge_code e \<noteq> Self_api_key_denied then (s1, Inl (Refused e))
                 else case scanStructuralApiKeyCandidates (inspection_values R) of
                   Inl _ \<Rightarrow> (s1, Inl Crashed)
                 | Inr candidates \<Rightarrow>
                     ((case candidates of
                         [] \<Rightarrow> s1
                       | c # cs \<Rightarrow> append_audit (self_key_event R (kc_location c) (Some (kc_identifier c))) s1),
                      Inl (Refused (error_with_id (rc_requestId R) e))))
            | (s1, Inl f) \<Rightarrow> (s1, Inl f))
      else (s, Inr ()))"

definition enforce_step :: "gateway_env \<Rightarrow> request_context \<Rightarrow> (string, string) jmap gateway_step" where
  "enforce_step G R s =
     (case enforceCredentialHeaderUsage (substitution_env_of G R) (si_headers (rc_input R)) (si_query (rc_input R))
             (si_body (rc_input R)) (gs_broker s, gs_calls s) of
        ((b, n), r) \<Rightarrow> (s\<lparr>gs_broker := b, gs_calls := n\<rparr>, refused r))"

text \<open>A substitution run on the state of the gateway\<close>

definition substitution_step ::
  "(token_broker \<Rightarrow> nat \<Rightarrow> substitution_state \<times> 'a substitution_result gateway_result) \<Rightarrow> 'a substitution_result gateway_step" where
  "substitution_step f s =
     (case f (gs_broker s) (gs_calls s) of
        (t, r) \<Rightarrow> (s\<lparr>gs_broker := sub_broker t, gs_calls := sub_calls t\<rparr>, refused r))"

definition json_fields :: "json \<Rightarrow> (string \<times> json) list" where
  "json_fields v = (case v of JObject fs \<Rightarrow> fs | _ \<Rightarrow> [])"

definition headers_of_json :: "json \<Rightarrow> (string, string) jmap" where
  "headers_of_json v = map (\<lambda>(k, v). (k, json_text v)) (json_fields v)"

record prepared_request =
  pq_downstream :: downstream_request
  pq_records :: "nat list"

definition prepare_request :: "gateway_env \<Rightarrow> request_context \<Rightarrow> prepared_request gateway_step" where
  "prepare_request G R s0 =
     (let S = substitution_env_of G R; input = rc_input R
      in after (service_reference_step G R s0) (\<lambda>serviceReference s.
         after (check_step (rejectCallerControlledHeaders (si_headers input)) s) (\<lambda>_ s.
         after (cookie_step R s) (\<lambda>_ s.
         after (self_target_step G R s) (\<lambda>_ s.
         after (enforce_step G R s) (\<lambda>headers s.
         after (substitution_step (substituteTokens S (json_headers headers)) s) (\<lambda>headerSub s.
         after (substitution_step (substituteTokens S (JObject (si_query input))) s) (\<lambda>querySub s.
         after (substitution_step (substituteRequestBodyTokens S (si_body input) (headers_of_json (sbr_value headerSub))) s)
           (\<lambda>bodySub s.
         after (check_step (buildDownstreamRequest (gw_utf8 G) (gw_search G) (gw_config G) (rt_url (rc_target R))
                  (si_method input) (headers_of_json (sbr_value headerSub)) (json_fields (sbr_value querySub)) (sbr_value bodySub)
                  (tls_verify (rt_tls (rc_target R)))) s) (\<lambda>d s.
           (s, Inr \<lparr>pq_downstream = d,
                    pq_records = (case serviceReference of None \<Rightarrow> [] | Some r \<Rightarrow> [r]) @ sbr_records headerSub @
                      sbr_records querySub @ sbr_records bodySub\<rparr>)))))))))))"

section \<open>The exchange and the response\<close>

definition exchange_step :: "gateway_env \<Rightarrow> downstream_request \<Rightarrow> downstream_response gateway_step" where
  "exchange_step G d s =
     (let s1 = gw_others G 1 (s\<lparr>gs_sent := gs_sent s @ [d]\<rparr>)
      in (s1, case fetchWithTimeout (lc_maxResponseBodyBytes (gc_limits (gw_config G))) (gw_network G (length (gs_sent s)) d) of
            Inl Fetch_uncaught \<Rightarrow> Inl Stopped
          | Inl (Fetch_refused e) \<Rightarrow> Inl (Refused e)
          | Inr response \<Rightarrow> Inr response))"

definition matched_rule :: "request_context \<Rightarrow> policy_rule_config option" where
  "matched_rule R =
     (case rc_matchedRule R of None \<Rightarrow> None | Some i \<Rightarrow> find (\<lambda>r. pr_id r = i) (pc_rules (sc_policy (rc_service R))))"

definition disabled_rules :: "gateway_env \<Rightarrow> request_context \<Rightarrow> string list" where
  "disabled_rules G R =
     (case matched_rule R of
        None \<Rightarrow> []
      | Some r \<Rightarrow>
          (case pr_secretlint r of
             None \<Rightarrow> []
           | Some Secretlint_disabled \<Rightarrow> map slr_id (gw_rules G)
           | Some (Secretlint_disabled_rules ids) \<Rightarrow> ids))"

definition binary_policy :: "request_context \<Rightarrow> binary_response_config" where
  "binary_policy R =
     (case matched_rule R of
        None \<Rightarrow> \<lparr>br_scan = True, br_maxBytes = Some default_binary_max_bytes\<rparr>
      | Some r \<Rightarrow> pr_binaryResponse r)"

text \<open>A run of the tokenizer; the other requests meanwhile change the rest of the state.\<close>

definition tokenizer_step ::
  "gateway_env \<Rightarrow> (tokenizer_state \<Rightarrow> tokenizer_state \<times> (gateway_failure + 'a)) \<Rightarrow> 'a gateway_step" where
  "tokenizer_step G f s =
     (case f \<lparr>tz_broker = gs_broker s, tz_calls = gs_calls s, tz_draws = gs_draws s, tz_scans = 0\<rparr> of
        (t, r) \<Rightarrow>
          ((gw_others G 2 s)\<lparr>gs_broker := tz_broker t, gs_calls := tz_calls t, gs_draws := tz_draws t\<rparr>, r))"

record safe_response =
  sf_tokenized :: tokenized_text
  sf_entity :: "nat list"
  sf_bypassed :: bool

definition binary_response_step ::
  "gateway_env \<Rightarrow> request_context \<Rightarrow> (string, string) jmap \<Rightarrow> nat list \<Rightarrow> safe_response gateway_step" where
  "binary_response_step G R headers entityBody s =
     (let policy = binary_policy R; T = tokenizer_env_of G R (disabled_rules G R)
      in if (case br_maxBytes policy of None \<Rightarrow> False | Some n \<Rightarrow> n < length entityBody)
         then (s, Inl (Refused (error_with_id (rc_requestId R)
                (gateway_error Response_too_large ''Binary response exceeds its policy size limit.''))))
         else after
           (if br_scan policy
            then (case inspectBinaryBody T entityBody
                    \<lparr>tz_broker = gs_broker s, tz_calls = gs_calls s, tz_draws = gs_draws s, tz_scans = 0\<rparr> of
                    (t, i) \<Rightarrow> (s\<lparr>gs_broker := tz_broker t, gs_calls := tz_calls t\<rparr>,
                               refused (assertSafeBinaryBody i (rc_requestId R))))
            else (s, Inr ()))
           (\<lambda>_ s. after (tokenizer_step G (\<lambda>t. case tokenizeHeaders T headers t of (t', r) \<Rightarrow> (t', refused r)) s) (\<lambda>t s.
              (s, Inr \<lparr>sf_tokenized = t, sf_entity = entityBody, sf_bypassed = \<not> br_scan policy\<rparr>))))"

definition text_response_step ::
  "gateway_env \<Rightarrow> request_context \<Rightarrow> (string, string) jmap \<Rightarrow> nat list \<Rightarrow> safe_response gateway_step" where
  "text_response_step G R headers entityBody =
     tokenizer_step G (\<lambda>t. case tokenizeBytes (tokenizer_env_of G R (disabled_rules G R)) headers entityBody t of
        (t', Inl (Tokenizing_refused e)) \<Rightarrow> (t', Inl (Refused e))
      | (t', Inl Not_utf8) \<Rightarrow> (t', Inl Crashed)
      | (t', Inr (tt, out)) \<Rightarrow> (t', Inr \<lparr>sf_tokenized = tt, sf_entity = out, sf_bypassed = False\<rparr>))"

definition credential_use_count :: "token_broker \<Rightarrow> nat list \<Rightarrow> nat" where
  "credential_use_count b records =
     length (js_unique (map tr_credentialId (filter (\<lambda>r. tr_kind r = Kind_credential) (map (\<lambda>i. tb_records b ! i) records))))"

definition success_event ::
  "request_context \<Rightarrow> token_broker \<Rightarrow> nat list \<Rightarrow> nat \<Rightarrow> safe_response \<Rightarrow> service_request_event" where
  "success_event R b records status safe =
     (request_event R True)
       \<lparr>sv_accessIds := js_unique (map (\<lambda>i. tr_accessId (tb_records b ! i)) records),
        sv_internalReferenceIds := js_unique (map (\<lambda>i. tr_id (tb_records b ! i)) records),
        sv_targetHost := url_host (rt_url (rc_target R)), sv_statusCode := Some status,
        sv_tokenizationCount := tt_secretTokenizationCount (sf_tokenized safe),
        sv_credentialUseCount := credential_use_count b records,
        sv_ruleIds := tt_ruleIds (sf_tokenized safe),
        sv_responseReferenceIds := tt_internalRecordIds (sf_tokenized safe),
        sv_binaryScanBypassed := sf_bypassed safe\<rparr>"

definition audit_success ::
  "request_context \<Rightarrow> nat list \<Rightarrow> nat \<Rightarrow> safe_response \<Rightarrow> gateway_state \<Rightarrow> gateway_state" where
  "audit_success R records status safe s =
     (let s1 = append_audit (Service_request (success_event R (gs_broker s) records status safe)) s;
          warnings = tt_warnings (sf_tokenized safe)
      in if warnings = [] then s1
         else append_audit (Invalid_response_references (rc_requestId R) (ac_subject (rc_auth R)) (sc_id (rc_service R))
                (dc_id (rt_destination (rc_target R))) warnings) s1)"

text \<open>What is handed to the client\<close>

definition response_of ::
  "gateway_env \<Rightarrow> request_context \<Rightarrow> downstream_response \<Rightarrow> (string, string) jmap \<Rightarrow> bool \<Rightarrow> bool \<Rightarrow> safe_response
    \<Rightarrow> service_response" where
  "response_of G R response headers decoded binary safe =
     (let returnedBody = (if decoded then encodeBase64Bytes (sf_entity safe) else sf_entity safe);
          returnedHeaders = (if ds_body response \<noteq> returnedBody
            then withContentLength (tt_headers (sf_tokenized safe)) (length returnedBody)
            else tt_headers (sf_tokenized safe));
          blob = (binary \<or> isBinaryMediaType headers)
      in \<lparr>sp_requestId = rc_requestId R, sp_statusCode = ds_status response, sp_headers = returnedHeaders,
          sp_body = (if blob then None else Some (gw_toString G returnedBody)), sp_bodySizeBytes = length returnedBody,
          sp_bodySha256 = gw_sha256 G returnedBody, sp_secretTokenized = tt_secretTokenized (sf_tokenized safe),
          sp_secretTokenizationCount = tt_secretTokenizationCount (sf_tokenized safe),
          sp_tlsVerify = tls_verify (rt_tls (rc_target R)),
          sp_binaryBody = (if blob then Some (returnedBody, responseMimeType headers) else None)\<rparr>)"

definition process_response ::
  "gateway_env \<Rightarrow> request_context \<Rightarrow> nat list \<Rightarrow> downstream_response \<Rightarrow> service_response gateway_step" where
  "process_response G R records response s0 =
     (let headers = fst (stripCookieHeaders (ds_headers response))
      in after (check_step (decodeDeclaredBase64Bytes headers (ds_body response)) s0) (\<lambda>decodedBody s.
         let entityBody = (case decodedBody of None \<Rightarrow> ds_body response | Some b \<Rightarrow> b);
             binary = is_binary (classifyResponseBody (gw_utf8 G) entityBody)
         in after ((if binary then binary_response_step else text_response_step) G R headers entityBody s) (\<lambda>safe s.
           (audit_success R records (ds_status response) safe s,
            Inr (response_of G R response headers (decodedBody \<noteq> None) binary safe)))))"

section \<open>The request\<close>

definition admitted_request :: "gateway_env \<Rightarrow> request_context \<Rightarrow> service_response gateway_step" where
  "admitted_request G R s0 =
     after (prepare_request G R s0) (\<lambda>q s.
     after (exchange_step G (pq_downstream q) s) (\<lambda>response s.
       process_response G R (pq_records q) response s))"

text \<open>\<open>finally { releaseCapacity(); }\<close>\<close>

definition with_capacity :: "service_lease \<Rightarrow> 'a gateway_step \<Rightarrow> 'a gateway_step" where
  "with_capacity h step s =
     (case step s of
        (s', Inl Stopped) \<Rightarrow> (s', Inl Stopped)
      | (s', r) \<Rightarrow> (s'\<lparr>gs_limiter := snd (service_release h (gs_limiter s'))\<rparr>, r))"

definition denial_input_of :: "request_context \<Rightarrow> policy_decision \<Rightarrow> denial_input" where
  "denial_input_of R d =
     \<lparr>di_subject = ac_subject (rc_auth R), di_reason = pd_reason d, di_matched_rule = pd_matchedRule d,
      di_policy_mode = pd_policyMode d, di_suggestion = pd_suggestion d\<rparr>"

definition deny_request :: "gateway_env \<Rightarrow> request_context \<Rightarrow> policy_decision \<Rightarrow> 'a gateway_step" where
  "deny_request G R d s =
     (case denial_record_op (gw_clock G (gs_calls s)) (gs_denials s) (denial_input_of R d) (rc_requestId R) of
        (denials, denial) \<Rightarrow>
          (append_audit (refusal_event R False Policy_denied (pd_reason d))
             (s\<lparr>gs_denials := denials, gs_calls := gs_calls s + 1\<rparr>),
           Inl (Refused (error_with_id (dn_request_id denial) (gateway_error Policy_denied (pd_reason d))))))"

definition allowed_request :: "gateway_env \<Rightarrow> request_context \<Rightarrow> service_response gateway_step" where
  "allowed_request G R s =
     (case acquireServiceRequest (gs_limiter s) (ac_subject (rc_auth R)) (sc_id (rc_service R)) of
        (l, Inl e) \<Rightarrow>
          (append_audit (refusal_event R True (ge_code e) (ge_message e)) (s\<lparr>gs_limiter := l\<rparr>),
           Inl (Refused (error_with_id (rc_requestId R) e)))
      | (l, Inr h) \<Rightarrow> with_capacity h (admitted_request G R) (s\<lparr>gs_limiter := l\<rparr>))"

definition executeServiceRequest ::
  "gateway_env \<Rightarrow> auth_context \<Rightarrow> service_request_input \<Rightarrow> string \<Rightarrow> service_response gateway_step" where
  "executeServiceRequest G auth input requestId s =
     (case validateRequestInput input of
        Inl e \<Rightarrow> (s, Inl (Refused e))
      | Inr _ \<Rightarrow>
          (case getService (gw_config G) (si_service input) (Some auth) of
             Inl e \<Rightarrow> (s, Inl (Refused e))
           | Inr service \<Rightarrow>
               (case resolveDestination (gw_urls G) (gw_config G) auth (si_service input) (si_destination input)
                       \<lparr>ti_path = si_path input, ti_url = si_url input\<rparr> of
                  Inl (Target_refused e) \<Rightarrow> (s, Inl (Refused e))
                | Inl Url_type_error \<Rightarrow> (s, Inl Crashed)
                | Inr target \<Rightarrow>
                    (case evaluatePolicy (gw_matchers G) service target (si_method input) of
                       Inl _ \<Rightarrow> (s, Inl Crashed)
                     | Inr decision \<Rightarrow>
                         (let R = \<lparr>rc_auth = auth, rc_service = service, rc_target = target, rc_input = input,
                                rc_requestId = requestId, rc_matchedRule = pd_matchedRule decision\<rparr>
                          in if pd_allowed decision then allowed_request G R s else deny_request G R decision s)))))"

end
