(* ===== verification/GatewaySteps.thy ===== *)
theory GatewaySteps
  imports Gateway
begin

text \<open>
  The steps of a service request, one by one, keep every predicate on the requests sent and on the limiter that the
  requests running meanwhile keep: \<open>stable\<close>. What a whole run does to these two follows from its exchange and its lease alone.
\<close>

section \<open>Steps that keep a predicate\<close>

lemma after_keeps:
  assumes "P (fst r)" and "\<And>s a. P s \<Longrightarrow> P (fst (f a s))"
  shows "P (fst (after r f))"
  using assms by (cases r) (simp add: after_def split: sum.split)

text \<open>A predicate on the requests sent and the limiter that other requests keep\<close>

definition stable :: "gateway_env \<Rightarrow> (gateway_state \<Rightarrow> bool) \<Rightarrow> bool" where
  "stable G P \<longleftrightarrow>
     (\<forall>s s'. gs_sent s' = gs_sent s \<and> gs_limiter s' = gs_limiter s \<and> P s \<longrightarrow> P s') \<and> (\<forall>k s. P s \<longrightarrow> P (gw_others G k s))"

lemma stable_same: "stable G P \<Longrightarrow> P s \<Longrightarrow> gs_sent s' = gs_sent s \<Longrightarrow> gs_limiter s' = gs_limiter s \<Longrightarrow> P s'"
  unfolding stable_def by blast

lemma stable_others: "stable G P \<Longrightarrow> P s \<Longrightarrow> P (gw_others G k s)"
  unfolding stable_def by blast

definition untouched :: "gateway_state \<Rightarrow> gateway_state \<Rightarrow> bool" where
  "untouched s s' \<longleftrightarrow> gs_sent s' = gs_sent s \<and> gs_limiter s' = gs_limiter s"

lemma append_audit_untouched: "untouched s (append_audit ev s)"
  by (simp add: untouched_def append_audit_def)

lemma service_reference_untouched: "untouched s (fst (service_reference_step G R s))"
  by (auto simp: untouched_def service_reference_step_def split: option.splits prod.splits)

lemma enforce_untouched: "untouched s (fst (enforce_step G R s))"
  by (auto simp: untouched_def enforce_step_def split: prod.splits)

lemma substitution_untouched: "untouched s (fst (substitution_step f s))"
  by (auto simp: untouched_def substitution_step_def split: prod.splits)

lemma check_step_fst [simp]: "fst (check_step r s) = s"
  by (simp add: check_step_def)

lemma cookie_step_fst [simp]: "fst (cookie_step R s) = s"
  by (simp add: cookie_step_def)

lemma stable_untouched: "stable G P \<Longrightarrow> P s \<Longrightarrow> untouched s s' \<Longrightarrow> P s'"
  using stable_same unfolding untouched_def by blast

lemma activeSelfApiKeyMatches_keeps:
  assumes "stable G P" and "P s"
  shows "P (fst (activeSelfApiKeyMatches G vs subject s))"
proof -
  have "P ((gw_others G 0 s)\<lparr>gs_selfLimiter := l, gs_calls := n\<rparr>)" for l n
    by (rule stable_same [OF assms(1) stable_others [OF assms]]) simp_all
  then show ?thesis
    using assms(2) by (auto simp: activeSelfApiKeyMatches_def Let_def split: sum.splits option.splits prod.splits)
qed

lemma self_target_keeps:
  assumes "stable G P" and "P s"
  shows "P (fst (self_target_step G R s))"
proof -
  let ?a = "activeSelfApiKeyMatches G (inspection_values R) (ac_subject (rc_auth R)) s"
  have keep: "P (fst ?a)" using assms by (rule activeSelfApiKeyMatches_keeps)
  then have audit: "P (append_audit ev (fst ?a))" for ev
    by (rule stable_untouched [OF assms(1) _ append_audit_untouched])
  have "fst (self_target_step G R s) \<in> {s, fst ?a} \<union> range (\<lambda>ev. append_audit ev (fst ?a))"
    unfolding self_target_step_def
    by (cases ?a) (auto split: sum.split list.split gateway_failure.split)
  then show ?thesis using keep audit assms(2) by (elim UnE insertE emptyE rangeE) simp_all
qed

lemma prepare_keeps:
  assumes "stable G P" and "P s"
  shows "P (fst (prepare_request G R s))"
proof -
  note touch = stable_untouched [OF assms(1)]
  show ?thesis
    unfolding prepare_request_def Let_def
    apply (intro after_keeps [where P = P])
    apply (rule touch [OF assms(2) service_reference_untouched])
    apply (unfold check_step_fst cookie_step_fst fst_conv)
    apply (assumption | erule self_target_keeps [OF assms(1)] | erule touch [OF _ enforce_untouched]
        | erule touch [OF _ substitution_untouched])+
    done
qed

lemma tokenizer_step_keeps:
  assumes "stable G P" and "P s"
  shows "P (fst (tokenizer_step G f s))"
proof -
  have "P ((gw_others G 2 s)\<lparr>gs_broker := b, gs_calls := n, gs_draws := m\<rparr>)" for b n m
    by (rule stable_same [OF assms(1) stable_others [OF assms]]) simp_all
  then show ?thesis by (simp add: tokenizer_step_def split: prod.split)
qed

text \<open>The inspection of a binary body\<close>

lemma inspection_keeps:
  assumes "stable G P" and "P s"
  shows "P (fst (case inspectBinaryBody T body t of
    (t, i) \<Rightarrow> (s\<lparr>gs_broker := tz_broker t, gs_calls := tz_calls t\<rparr>, refused (assertSafeBinaryBody i requestId))))"
proof -
  have "P (s\<lparr>gs_broker := b, gs_calls := n\<rparr>)" for b n by (rule stable_same [OF assms]) simp_all
  then show ?thesis by (cases "inspectBinaryBody T body t") simp
qed

lemma response_steps_keep:
  assumes "stable G P" and "P s"
  shows "P (fst (text_response_step G R headers body s))" and "P (fst (binary_response_step G R headers body s))"
proof -
  show "P (fst (text_response_step G R headers body s))"
    unfolding text_response_step_def by (rule tokenizer_step_keeps [OF assms])
  show "P (fst (binary_response_step G R headers body s))"
  proof (cases "case br_maxBytes (binary_policy R) of None \<Rightarrow> False | Some n \<Rightarrow> n < length body")
    case True
    then show ?thesis using assms(2) by (simp add: binary_response_step_def Let_def)
  next
    case False
    show ?thesis
      unfolding binary_response_step_def Let_def if_not_P [OF False]
    proof (intro after_keeps [where P = P], goal_cases)
      case 1
      show ?case by (cases "br_scan (binary_policy R)") (simp_all add: assms(2) inspection_keeps [OF assms])
    next
      case 2
      then show ?case by (rule tokenizer_step_keeps [OF assms(1)])
    next
      case 3
      then show ?case by simp
    qed
  qed
qed

lemma audit_success_keeps:
  assumes "stable G P" and "P s"
  shows "P (audit_success R records n safe s)"
  by (rule stable_same [OF assms]) (simp_all add: audit_success_def append_audit_def Let_def)

lemma process_keeps:
  assumes "stable G P" and "P s"
  shows "P (fst (process_response G R records response s))"
  unfolding process_response_def Let_def
proof (intro after_keeps [where P = P], goal_cases)
  case 1
  show ?case by (simp add: assms(2))
next
  case (2 s a)
  then show ?case by (cases "is_binary (classifyResponseBody (gw_utf8 G) (case a of None \<Rightarrow> ds_body response | Some b \<Rightarrow> b))")
      (simp_all add: response_steps_keep [OF assms(1)])
next
  case 3
  then show ?case by (simp add: audit_success_keeps [OF assms(1)])
qed

end
