(* ===== verification/GatewaySample.thy ===== *)
theory GatewaySample
  imports GatewaySteps
begin

text \<open>A run of the gateway, step by step: a call with a reference in the header of its credential, which is sent and answered.\<close>

definition open_config :: gateway_config where
  "open_config =
     roomy_config\<lparr>gc_services := [(''s'', sample_service\<lparr>sc_policy := \<lparr>pc_mode = Allow, pc_rules = []\<rparr>\<rparr>)]\<rparr>"

definition sample_gateway :: gateway_env where
  "sample_gateway =
     \<lparr>gw_broker = sample_env\<lparr>be_config := open_config\<rparr>, gw_clock = (\<lambda>_. 104), gw_draws = (\<lambda>n. (replicate n CHR ''a'', replicate n CHR ''a'')),
      gw_runtime = None, gw_utf8 = ascii_codec, gw_toString = map char_of, gw_sha256 = (\<lambda>_. []),
      gw_jsonScanner = (\<lambda>_. []), gw_urls = sample_platform,
      gw_matchers = \<lparr>mp_url = sample_platform, mp_regex_u = (\<lambda>_. None), mp_locale_le = (\<lambda>_ _. True)\<rparr>,
      gw_search = (\<lambda>k v r. r), gw_origins = \<lparr>so_publicOrigin = None, so_resource = [], so_issuer = None\<rparr>,
      gw_prechecked = True, gw_detector = None, gw_rules = [], gw_maxUniqueSecrets = 4, gw_match = (\<lambda>_. []),
      gw_scan = (\<lambda>_ _ _ _. Scan_findings (JArray [])),
      gw_network = (\<lambda>_ _. Exchange_answered \<lparr>an_status = 200, an_headers = [], an_declaredLength = None,
        an_chunks = [map char_code ''key=hunter2;''], an_end = Body_ended\<rparr>),
      gw_others = (\<lambda>_ s. s), gw_scanOthers = (\<lambda>_ b. b)\<rparr>"

definition gateway_start :: gateway_state where
  "gateway_start =
     \<lparr>gs_broker = sample_broker, gs_calls = 0, gs_draws = 0, gs_denials = new_denial_store 1 10,
      gs_limiter = new_service_limiter 1 1 1, gs_selfLimiter = the (new_self_key_limiter 5 1000 1), gs_audit = [], gs_sent = []\<rparr>"

definition sample_call :: service_request_input where
  "sample_call =
     \<lparr>si_service = ''s'', si_destination = None, si_method = ''get'', si_path = Some ''/api/a'', si_url = None,
      si_headers = [(''X-Key'', ''gref_R'')], si_query = [], si_body = None, si_service_reference = None, si_reason = ''t''\<rparr>"


definition gateway_context :: request_context where
  "gateway_context =
     \<lparr>rc_auth = sample_auth, rc_service = sample_service\<lparr>sc_policy := \<lparr>pc_mode = Allow, pc_rules = []\<rparr>\<rparr>,
      rc_target = \<lparr>rt_destination = sample_destination,
         rt_url = \<lparr>url_protocol = ''https:'', url_hostname = ''h'', url_port = [], url_pathname = ''/api/a'', url_rest = []\<rparr>,
         rt_methodPath = ''/api/a'', rt_tls = \<lparr>tls_verify = True\<rparr>\<rparr>,
      rc_input = sample_call, rc_requestId = ''r1'', rc_matchedRule = None\<rparr>"


abbreviation sample_headers :: "(string, string) jmap" where
  "sample_headers \<equiv> [(''X-Key'', ''gref_R'')]"

abbreviation sample_answer :: "nat list" where
  "sample_answer \<equiv> map char_code ''key=hunter2;''"

definition sample_substitute :: "substitution_state \<times> json substitution_result gateway_result" where
  "sample_substitute = substituteTokens (substitution_env_of sample_gateway gateway_context) (json_headers sample_headers) sample_broker 2"

definition sample_decision :: policy_decision where
  "sample_decision = (case evaluatePolicy (gw_matchers sample_gateway) (rc_service gateway_context) (rc_target gateway_context)
     (si_method sample_call) of Inr d \<Rightarrow> d)"

lemma decision_evaluated:
  "validateRequestInput sample_call = Inr ()"
  "getService (gw_config sample_gateway) (si_service sample_call) (Some sample_auth) = Inr (rc_service gateway_context)"
  "resolveDestination (gw_urls sample_gateway) (gw_config sample_gateway) sample_auth (si_service sample_call) (si_destination sample_call)
     \<lparr>ti_path = si_path sample_call, ti_url = si_url sample_call\<rparr> = Inr (rc_target gateway_context)"
  "evaluatePolicy (gw_matchers sample_gateway) (rc_service gateway_context) (rc_target gateway_context) (si_method sample_call) =
     Inr sample_decision"
  "pd_allowed sample_decision" "pd_matchedRule sample_decision = None"
  by code_simp+

lemma steps_evaluated:
  "enforceCredentialHeaderUsage (substitution_env_of sample_gateway gateway_context) sample_headers [] None (sample_broker, 0) =
     ((sample_broker, 2), Inr sample_headers)"
  "result_map_value sbr_value (snd sample_substitute) = Inr (json_headers [(''X-Key'', ''hunter2'')])"
  "isl (buildDownstreamRequest (gw_utf8 sample_gateway) (gw_search sample_gateway) (gw_config sample_gateway) (rt_url (rc_target gateway_context))
     (si_method sample_call) [(''X-Key'', ''hunter2'')] [] None (tls_verify (rt_tls (rc_target gateway_context)))) = False"
  "isl (snd (tokenizeBytes (tokenizer_env_of sample_gateway gateway_context (disabled_rules sample_gateway gateway_context)) [] sample_answer
     \<lparr>tz_broker = sub_broker (fst sample_substitute), tz_calls = 3, tz_draws = 0, tz_scans = 0\<rparr>)) = False"
  "rejectCallerControlledHeaders (si_headers sample_call) = Inr ()"
  "prohibitedCookieHeaderNames (si_headers sample_call) = []"
  "is_binary (classifyResponseBody (gw_utf8 sample_gateway) sample_answer) = False"
  "sub_calls (fst sample_substitute) = 3"
  "declared_base64 [(''X-Key'', ''hunter2'')] = Inr False" "declared_base64 [] = Inr False"
  by code_simp+

lemma isl_False: "isl r = False \<Longrightarrow> \<exists>x. r = Inr x"
  by (cases r) simp_all

lemma limiter_evaluated: "isl (snd (acquireServiceRequest (new_service_limiter 1 1 1) ''alice'' ''s'')) = False"
  by code_simp

lemma answer_evaluated:
  "fetchWithTimeout (lc_maxResponseBodyBytes (gc_limits (gw_config sample_gateway))) (Exchange_answered
     \<lparr>an_status = 200, an_headers = [], an_declaredLength = None, an_chunks = [sample_answer], an_end = Body_ended\<rparr>) =
   Inr \<lparr>ds_status = 200, ds_headers = [], ds_body = sample_answer\<rparr>"
  by code_simp

lemma sample_parts [simp]:
  "rc_input gateway_context = sample_call" "si_headers sample_call = sample_headers" "si_query sample_call = []" "si_body sample_call = None"
  "gs_sent gateway_start = []" "gs_broker gateway_start = sample_broker" "gs_calls gateway_start = 0" "gs_draws gateway_start = 0"
  "gw_others sample_gateway k s = s"
  by (simp_all add: gateway_context_def sample_call_def gateway_start_def sample_gateway_def)

definition sample_built :: downstream_request where
  "sample_built = (case buildDownstreamRequest (gw_utf8 sample_gateway) (gw_search sample_gateway) (gw_config sample_gateway)
     (rt_url (rc_target gateway_context)) (si_method sample_call) [(''X-Key'', ''hunter2'')] [] None
     (tls_verify (rt_tls (rc_target gateway_context))) of Inr d \<Rightarrow> d)"

lemma sample_prepare:
  assumes "gs_broker s = sample_broker" and "gs_calls s = 0"
  shows "\<exists>q. prepare_request sample_gateway gateway_context s =
    (s\<lparr>gs_broker := sub_broker (fst sample_substitute), gs_calls := 3\<rparr>, Inr q) \<and> pq_downstream q = sample_built"
proof -
  let ?S = "substitution_env_of sample_gateway gateway_context"
  obtain q where q': "snd sample_substitute = Inr q" "json_headers [(''X-Key'', ''hunter2'')] = sbr_value q"
    using steps_evaluated(2) unfolding result_map_value_Inr by blast
  then have q: "sample_substitute = (fst sample_substitute, Inr q)" "sbr_value q = json_headers [(''X-Key'', ''hunter2'')]"
    by (simp_all add: prod_eq_iff)
  let ?s = "s\<lparr>gs_broker := sub_broker (fst sample_substitute), gs_calls := 3\<rparr>"
  have 1: "service_reference_step sample_gateway gateway_context s = (s, Inr None)"
    by (simp add: service_reference_step_def) (simp add: gateway_context_def sample_call_def sample_service_def)
  have 2: "cookie_step gateway_context s = (s, Inr ())"
    using steps_evaluated(6) by (simp add: cookie_step_def check_step_def refused_def)
  have 3: "self_target_step sample_gateway gateway_context s = (s, Inr ())"
    by (simp add: self_target_step_def) (simp add: sample_gateway_def)
  have 4: "enforce_step sample_gateway gateway_context s = (s\<lparr>gs_broker := sample_broker, gs_calls := 2\<rparr>, Inr sample_headers)"
    using steps_evaluated(1) by (simp add: enforce_step_def refused_def assms)
  have 5: "substitution_step (substituteTokens ?S (json_headers sample_headers)) (s\<lparr>gs_broker := sample_broker, gs_calls := 2\<rparr>) = (?s, Inr q)"
  proof -
    have "substituteTokens ?S (json_headers sample_headers) sample_broker 2 = (fst sample_substitute, Inr q)"
      using q(1) unfolding sample_substitute_def .
    then show ?thesis using steps_evaluated(8) by (simp add: substitution_step_def refused_def)
  qed
  have 6: "substitution_step (substituteTokens ?S (JObject [])) ?s = (?s, Inr \<lparr>sbr_value = JObject [], sbr_records = [], sbr_responseSecretRecords = []\<rparr>)"
    by (simp add: substitution_step_def substituteTokens_def substitution_outcome_def substitution_start_def result_map_value_def refused_def)
  have 7: "substitution_step (substituteRequestBodyTokens ?S None h) ?s =
      (?s, Inr \<lparr>sbr_value = None, sbr_records = [], sbr_responseSecretRecords = []\<rparr>)" if "h = [(''X-Key'', ''hunter2'')]" for h
    by (simp add: that steps_evaluated(9) substitution_step_def substituteRequestBodyTokens_def decodeDeclaredBase64Body_def substitution_outcome_def
        substitution_start_def result_map_value_def refused_def)
  have 8: "headers_of_json (sbr_value q) = [(''X-Key'', ''hunter2'')]" "json_fields (JObject []) = []"
    by (simp_all add: q(2) headers_of_json_def json_headers_def json_fields_def json_text_def)
  obtain d where d: "buildDownstreamRequest (gw_utf8 sample_gateway) (gw_search sample_gateway) (gw_config sample_gateway)
     (rt_url (rc_target gateway_context)) (si_method sample_call) [(''X-Key'', ''hunter2'')] [] None
     (tls_verify (rt_tls (rc_target gateway_context))) = Inr d"
    using isl_False [OF steps_evaluated(3)] by blast
  then have "d = sample_built" by (simp add: sample_built_def)
  then show ?thesis
    using steps_evaluated(5) d
    by (simp add: prepare_request_def Let_def after_def check_step_def refused_def 1 2 3 4 5 6 7 8)
qed

lemma sample_run:
  "\<exists>s' sp. executeServiceRequest sample_gateway sample_auth sample_call ''r1'' gateway_start = (s', Inr sp) \<and>
     gs_sent s' = [sample_built]"
proof -
  let ?G = sample_gateway and ?R = gateway_context
  let ?l = "fst (acquireServiceRequest (new_service_limiter 1 1 1) ''alice'' ''s'')"
  obtain h where l: "acquireServiceRequest (gs_limiter gateway_start) (ac_subject (rc_auth ?R)) (sc_id (rc_service ?R)) = (?l, Inr h)"
    using isl_False [OF limiter_evaluated]
    by (auto simp: gateway_start_def gateway_context_def sample_auth_def sample_service_def prod_eq_iff)
  let ?s1 = "gateway_start\<lparr>gs_limiter := ?l\<rparr>"
  let ?s2 = "?s1\<lparr>gs_broker := sub_broker (fst sample_substitute), gs_calls := 3\<rparr>"
  obtain q where q: "prepare_request ?G ?R ?s1 = (?s2, Inr q)" "pq_downstream q = sample_built"
    using sample_prepare [of ?s1] by auto
  let ?answer = "\<lparr>ds_status = 200, ds_headers = [], ds_body = sample_answer\<rparr>"
  let ?s3 = "?s2\<lparr>gs_sent := [sample_built]\<rparr>"
  have "gw_network ?G n d = Exchange_answered \<lparr>an_status = 200, an_headers = [], an_declaredLength = None,
        an_chunks = [sample_answer], an_end = Body_ended\<rparr>" for n d by (simp add: sample_gateway_def)
  then have x: "exchange_step ?G sample_built ?s2 = (?s3, Inr ?answer)"
    using answer_evaluated by (simp add: exchange_step_def Let_def)
  let ?t = "\<lparr>tz_broker = sub_broker (fst sample_substitute), tz_calls = 3, tz_draws = 0, tz_scans = 0\<rparr>"
  let ?z = "tokenizeBytes (tokenizer_env_of ?G ?R (disabled_rules ?G ?R)) [] sample_answer ?t"
  obtain t tt out where z: "?z = (t, Inr (tt, out))"
    using isl_False [OF steps_evaluated(4)] by (auto simp: prod_eq_iff)
  then have tokenized: "text_response_step ?G ?R [] sample_answer ?s3 = (?s3\<lparr>gs_broker := tz_broker t, gs_calls := tz_calls t, gs_draws := tz_draws t\<rparr>,
      Inr \<lparr>sf_tokenized = tt, sf_entity = out, sf_bypassed = False\<rparr>)"
    by (simp add: text_response_step_def tokenizer_step_def)
  obtain s4 sp where p: "process_response ?G ?R (pq_records q) ?answer ?s3 = (s4, Inr sp)" "gs_sent s4 = [sample_built]"
    using tokenized steps_evaluated(7)
    by (simp add: process_response_def Let_def stripCookieHeaders_def after_def check_step_def refused_def decodeDeclaredBase64Bytes_def
        steps_evaluated(10) audit_success_def append_audit_def)
  have "executeServiceRequest ?G sample_auth sample_call ''r1'' gateway_start = allowed_request ?G ?R gateway_start"
    by (simp add: executeServiceRequest_def decision_evaluated Let_def) (simp add: gateway_context_def)
  also have "\<dots> = with_capacity h (admitted_request ?G ?R) ?s1" by (simp add: allowed_request_def l)
  finally show ?thesis using q x p by (simp add: with_capacity_def admitted_request_def after_def)
qed

end
