(* ===== verification/GatewayBroker.thy ===== *)
theory GatewayBroker
  imports GatewaySteps TokenizerReferences
begin

text \<open>
  The steps of a service request keep the broker in order, and the draws that are left usable: what the response of a
  request needs for its references.
\<close>

section \<open>Operations on the broker\<close>

lemma thread_keeps:
  "(\<And>x s. x \<in> set xs \<Longrightarrow> P s \<Longrightarrow> P (fst (f x s))) \<Longrightarrow> P s \<Longrightarrow> P (fst (thread f xs s))"
proof (induction xs arbitrary: s)
  case (Cons x xs)
  obtain s1 r where one: "f x s = (s1, r)" by fastforce
  then have P1: "P s1" using Cons.prems(1) [of x s] Cons.prems(2) by simp
  then have "P (fst (thread f xs s1))" using Cons.IH Cons.prems(1) by simp
  then show ?case using one P1 by (cases r) (auto split: prod.split sum.split)
qed simp

text \<open>A predicate on the broker that the uses of references keep\<close>

locale broker_keeper =
  fixes E :: broker_env
    and good :: "token_broker \<Rightarrow> bool"
  assumes validate_good: "good b \<Longrightarrow> good (fst (validateTokenUse E now auth target v b))"
    and secret_good: "good b \<Longrightarrow> good (fst (validateResponseSecretUse E now auth service v b))"
    and preflight_good: "good b \<Longrightarrow> good (fst (preflightTokenUse E now auth target v b))"
    and service_good: "good b \<Longrightarrow> good (fst (validateServiceReferenceUse E now auth target v b))"
begin

lemma redeem_good:
  assumes "su_broker S = E" and "good (sub_broker s)"
  shows "good (sub_broker (fst (redeemToken S t s)))"
proof (cases "starts_with t ''sec_''")
  case True
  let ?v = "validateResponseSecretUse E (su_clock S (sub_calls s)) (su_auth S) (ut_service (su_target S)) t (sub_broker s)"
  have "good (fst ?v)" using assms(2) by (rule secret_good)
  then show ?thesis using True assms(1)
    by (cases ?v) (simp add: redeemToken_def redeem_secret_def split: sum.split)
next
  case False
  let ?v = "validateTokenUse E (su_clock S (sub_calls s)) (su_auth S) (su_target S) t (sub_broker s)"
  have "good (fst ?v)" using assms(2) by (rule validate_good)
  then show ?thesis using False assms(1)
    by (cases ?v) (simp add: redeemToken_def redeem_reference_def Let_def split: sum.split token_kind.split option.split)
qed

lemma value_good:
  assumes "su_broker S = E"
  shows "good (sub_broker s) \<Longrightarrow> good (sub_broker (fst (substituteValue (redeemToken S) v s)))"
proof (induction v arbitrary: s)
  case (JString t)
  have "good (sub_broker (fst (thread (substituted_piece (redeemToken S)) (pieces t) s)))"
  proof (rule thread_keeps [where P = "\<lambda>s. good (sub_broker s)"])
    fix x and s :: substitution_state assume "good (sub_broker s)"
    then show "good (sub_broker (fst (substituted_piece (redeemToken S) x s)))" using redeem_good [OF assms] by (cases x) simp_all
  qed (rule JString)
  then show ?case by (auto simp: replace_tokens_def split: prod.split sum.split)
next
  case (JArray vs)
  have "good (sub_broker (fst (thread (\<lambda>v. substituteValue (redeemToken S) v) vs s)))"
    by (rule thread_keeps [where P = "\<lambda>s. good (sub_broker s)"]) (use JArray in blast)+
  then show ?case by (auto split: prod.split)
next
  case (JObject fs)
  have "good (sub_broker (fst (thread (\<lambda>kv s. case substituteValue (redeemToken S) (snd kv) s of
      (s', r) \<Rightarrow> (s', result_map_value (\<lambda>v. (fst kv, v)) r)) fs s)))"
  proof (rule thread_keeps [where P = "\<lambda>s. good (sub_broker s)"])
    fix kv and s :: substitution_state assume "kv \<in> set fs" "good (sub_broker s)"
    then have "good (sub_broker (fst (substituteValue (redeemToken S) (snd kv) s)))" using JObject.IH [of kv "snd kv"] snds.intros [of kv] by simp
    then show "good (sub_broker (fst (case substituteValue (redeemToken S) (snd kv) s of
      (s', r) \<Rightarrow> (s', result_map_value (\<lambda>v. (fst kv, v)) r))))" by (auto split: prod.split)
  qed (rule JObject.prems)
  then show ?case by (auto split: prod.split)
qed simp_all

lemma tokens_good:
  "su_broker S = E \<Longrightarrow> good b \<Longrightarrow> good (sub_broker (fst (substituteTokens S v b n)))"
  using value_good [of S "substitution_start b n" v]
  by (simp add: substituteTokens_def substitution_outcome_def substitution_start_def)

lemma matches_good:
  "su_broker S = E \<Longrightarrow> good (sub_broker s) \<Longrightarrow> good (sub_broker (fst (redeem_matches S ms s)))"
proof (induction ms arbitrary: s)
  case (Cons m ms)
  obtain i t where m: "m = (i, t)" by (cases m)
  obtain s1 r where one: "redeemToken S t s = (s1, r)" by fastforce
  then have g: "good (sub_broker s1)" using redeem_good [OF Cons.prems, of t] by simp
  then have "good (sub_broker (fst (redeem_matches S ms s1)))" using Cons.IH Cons.prems(1) by blast
  then show ?case using one g m by (cases r) (auto split: prod.split sum.split)
qed simp

lemma json_text_good:
  assumes "su_broker S = E" and "good b"
  shows "good (sub_broker (fst (substituteJsonTextTokens S text b n)))"
proof -
  have "good (sub_broker (fst (redeem_matches S ms (substitution_start b n))))" for ms
    using assms by (intro matches_good) (simp_all add: substitution_start_def)
  then show ?thesis
    by (auto simp: substituteJsonTextTokens_def substitution_outcome_def substituteJsonText_def Let_def split: prod.splits sum.splits)
      (metis fst_conv)+
qed

lemma body_good:
  assumes "su_broker S = E" and "good b"
  shows "good (sub_broker (fst (substituteRequestBodyTokens S body headers b n)))"
  using assms(2) tokens_good [OF assms] json_text_good [OF assms]
  by (simp add: substituteRequestBodyTokens_def substitution_with_def substitution_outcome_def substitution_start_def
      split: sum.split option.split json.split)

lemma inspect_good:
  assumes "su_broker S = E" and "good (fst bn)"
  shows "good (fst (fst (inspectReference S t bn)))"
proof -
  let ?v = "preflightTokenUse E (su_clock S (snd bn)) (su_auth S) (su_target S) t (fst bn)"
  have "good (fst ?v)" using assms(2) by (rule preflight_good)
  then show ?thesis using assms(1) by (cases ?v) (simp add: inspectReference_def split: sum.split)
qed

lemma inspect_all_good:
  "su_broker S = E \<Longrightarrow> good (fst bn) \<Longrightarrow> good (fst (fst (inspect_references S ts bn)))"
proof (induction ts arbitrary: bn)
  case (Cons t ts)
  obtain bn1 f where one: "inspectReference S t bn = (bn1, f)" by fastforce
  then have "good (fst bn1)" using inspect_good [OF Cons.prems, of t] by simp
  then have "good (fst (fst (inspect_references S ts bn1)))" using Cons.IH Cons.prems(1) by blast
  then show ?case using one by (auto split: prod.split)
qed simp

lemma groups_good:
  "su_broker S = E \<Longrightarrow> good (fst bn) \<Longrightarrow> good (fst (fst (enforce_groups S gs headers bn)))"
proof (induction gs arbitrary: headers bn)
  case (Cons g gs)
  obtain bn1 r where one: "enforce_group S g headers bn = (bn1, r)" by fastforce
  have "good (fst (fst (enforce_group S g headers bn)))"
    using inspect_all_good [OF Cons.prems] Cons.prems(2)
    by (auto simp: enforce_group_def Let_def split: prod.splits) (metis fst_conv)+
  then have g: "good (fst bn1)" using one by simp
  then have "good (fst (fst (enforce_groups S gs h bn1)))" for h using Cons.IH Cons.prems(1) by blast
  then show ?case using one g by (cases r) simp_all
qed simp

lemma references_good:
  "su_broker S = E \<Longrightarrow> good (fst bn) \<Longrightarrow> good (fst (fst (check_references S enforced l ts bn)))"
proof (induction ts arbitrary: bn)
  case (Cons t ts)
  obtain bn1 f where one: "inspectReference S t bn = (bn1, f)" by fastforce
  then have g: "good (fst bn1)" using inspect_good [OF Cons.prems, of t] by simp
  then have "good (fst (fst (check_references S enforced l ts bn1)))" using Cons.IH Cons.prems(1) by blast
  then show ?case using one g by (simp split: option.split)
qed simp

lemma locations_good:
  "su_broker S = E \<Longrightarrow> good (fst bn) \<Longrightarrow> good (fst (fst (check_locations S enforced ls bn)))"
proof (induction ls arbitrary: bn)
  case (Cons l ls)
  obtain bn1 r where one: "check_references S enforced l (js_unique (findGatewayReferences (rl_value l))) bn = (bn1, r)" by fastforce
  then have g: "good (fst bn1)" using references_good [OF Cons.prems] by (metis fst_conv)
  then have "good (fst (fst (check_locations S enforced ls bn1)))" using Cons.IH Cons.prems(1) by blast
  then show ?case using one g by (cases r) simp_all
qed simp

lemma enforce_good:
  assumes "su_broker S = E" and "good (fst bn)"
  shows "good (fst (fst (enforceCredentialHeaderUsage S headers query body bn)))"
proof -
  let ?enforced = "filter isEnforcedHeaderCredential (sc_credentials (su_service S))"
  obtain bn1 r where one: "enforce_groups S (groupByHeaderName ?enforced) headers bn = (bn1, r)" by fastforce
  then have g: "good (fst bn1)" using groups_good [OF assms] by (metis fst_conv)
  have "good (fst (fst (check_locations S ?enforced ls bn1)))" for ls by (rule locations_good [OF assms(1) g])
  then show ?thesis
    using one g assms(2)
    by (cases r) (auto simp: enforceCredentialHeaderUsage_def assertNoEnforcedReferenceOutsideOwnedHeader_def Let_def
        split: prod.split sum.split, (metis fst_conv)+)
qed

end

interpretation keeper: broker_keeper E "broker_good E draws n m" for E draws n m
  by unfold_locales
    (rule broker_good_keep; assumption?;
      simp add: broker_good_def validateTokenUse_ok validateResponseSecretUse_ok preflightTokenUse_ok validateServiceReferenceUse_ok
        validate_evolves validate_secret_evolves preflight_evolves validate_service_evolves)+

section \<open>Steps of a request\<close>

text \<open>The broker is in order, and the draws from the next one to the one before the \<open>m\<close>-th may be used.\<close>

definition good_state :: "gateway_env \<Rightarrow> nat \<Rightarrow> gateway_state \<Rightarrow> bool" where
  "good_state G m s \<longleftrightarrow> broker_good (gw_broker G) (gw_draws G) (gs_draws s) m (gs_broker s)"

text \<open>The other requests keep it so, also while the pool scans; then they take nothing from the files.\<close>

definition others_ok :: "gateway_env \<Rightarrow> nat \<Rightarrow> bool" where
  "others_ok G m \<longleftrightarrow>
     (\<forall>k s. good_state G m s \<longrightarrow> good_state G m (gw_others G k s)) \<and>
     (\<forall>k n b. broker_good (gw_broker G) (gw_draws G) n m b \<longrightarrow>
        broker_good (gw_broker G) (gw_draws G) n m (gw_scanOthers G k b) \<and>
        (\<exists>D. evolves (gw_broker G) D b (gw_scanOthers G k b)))"

lemma good_same: "good_state G m s \<Longrightarrow> gs_broker s' = gs_broker s \<Longrightarrow> gs_draws s' = gs_draws s \<Longrightarrow> good_state G m s'"
  by (simp add: good_state_def)

lemma service_reference_good: "good_state G m s \<Longrightarrow> good_state G m (fst (service_reference_step G R s))"
  using keeper.service_good [of "gw_broker G" "gw_draws G" "gs_draws s" m "gs_broker s"]
  by (auto simp: service_reference_step_def good_state_def split: option.split prod.split) (metis fst_conv)

lemma self_key_good:
  assumes "others_ok G m" and "good_state G m s"
  shows "good_state G m (fst (activeSelfApiKeyMatches G vs subject s))"
proof -
  have "good_state G m (gw_others G 0 s)" using assms unfolding others_ok_def by blast
  then have "good_state G m ((gw_others G 0 s)\<lparr>gs_selfLimiter := l, gs_calls := n\<rparr>)" for l n by (rule good_same) simp_all
  then show ?thesis
    using assms(2) by (auto simp: activeSelfApiKeyMatches_def Let_def split: sum.splits option.splits prod.splits)
qed

lemma self_target_good:
  assumes "others_ok G m" and "good_state G m s"
  shows "good_state G m (fst (self_target_step G R s))"
proof -
  let ?a = "activeSelfApiKeyMatches G (inspection_values R) (ac_subject (rc_auth R)) s"
  have keep: "good_state G m (fst ?a)" using assms by (rule self_key_good)
  then have audit: "good_state G m (append_audit ev (fst ?a))" for ev by (rule good_same) (simp_all add: append_audit_def)
  have "fst (self_target_step G R s) \<in> {s, fst ?a} \<union> range (\<lambda>ev. append_audit ev (fst ?a))"
    unfolding self_target_step_def
    by (cases ?a) (auto split: sum.split list.split gateway_failure.split)
  then show ?thesis using keep audit assms(2) by (elim UnE insertE emptyE rangeE) simp_all
qed

lemma enforce_step_good: "good_state G m s \<Longrightarrow> good_state G m (fst (enforce_step G R s))"
  using keeper.enforce_good [of "substitution_env_of G R" "gw_broker G" "gw_draws G" "gs_draws s" m "(gs_broker s, gs_calls s)"]
  by (auto simp: enforce_step_def good_state_def substitution_env_of_def split: prod.split) (metis fst_conv)

lemma substitution_step_good:
  assumes "good_state G m s"
    and "\<And>n. broker_good (gw_broker G) (gw_draws G) (gs_draws s) m (sub_broker (fst (f (gs_broker s) n)))"
  shows "good_state G m (fst (substitution_step f s))"
  using assms(2) [of "gs_calls s"] by (cases "f (gs_broker s) (gs_calls s)") (simp add: substitution_step_def good_state_def)

lemma prepare_good:
  assumes "others_ok G m" and "good_state G m s"
  shows "good_state G m (fst (prepare_request G R s))"
proof -
  have S: "su_broker (substitution_env_of G R) = gw_broker G" by (simp add: substitution_env_of_def)
  have tokens: "good_state G m (fst (substitution_step (substituteTokens (substitution_env_of G R) v) t))"
    if "good_state G m t" for v t
    using that by (rule substitution_step_good) (use that keeper.tokens_good [OF S] in \<open>simp add: good_state_def\<close>)
  have body: "good_state G m (fst (substitution_step (substituteRequestBodyTokens (substitution_env_of G R) v h) t))"
    if "good_state G m t" for v h t
    using that by (rule substitution_step_good) (use that keeper.body_good [OF S] in \<open>simp add: good_state_def\<close>)
  show ?thesis
    unfolding prepare_request_def Let_def
    apply (intro after_keeps [where P = "good_state G m"])
    apply (rule service_reference_good [OF assms(2)])
    apply (unfold check_step_fst cookie_step_fst fst_conv)
    apply (assumption | erule self_target_good [OF assms(1)] | erule enforce_step_good | erule tokens | erule body)+
    done
qed

lemma exchange_good:
  assumes "others_ok G m" and "good_state G m s"
  shows "good_state G m (fst (exchange_step G d s))"
proof -
  have "good_state G m (s\<lparr>gs_sent := gs_sent s @ [d]\<rparr>)" using assms(2) by (rule good_same) simp_all
  then show ?thesis using assms(1) by (simp add: exchange_step_def Let_def others_ok_def)
qed

text \<open>The tokenizer of a request\<close>

lemma tokenizer_of [simp]:
  "te_broker (tokenizer_env_of G R ids) = gw_broker G" "te_draws (tokenizer_env_of G R ids) = gw_draws G"
  "te_utf8 (tokenizer_env_of G R ids) = gw_utf8 G" "te_jsonScanner (tokenizer_env_of G R ids) = gw_jsonScanner G"
  "te_auth (tokenizer_env_of G R ids) = rc_auth R" "te_service (tokenizer_env_of G R ids) = rc_service R"
  by (simp_all add: tokenizer_env_of_def)

lemma others_meanwhile: "others_ok G m \<Longrightarrow> meanwhile_ok (tokenizer_env_of G R ids) m"
  by (simp add: others_ok_def meanwhile_ok_def) (simp add: tokenizer_env_of_def)

end
