(* ===== verification/GatewayProperties.thy ===== *)
theory GatewayProperties
  imports GatewaySample GatewayBroker
begin

text \<open>
  What a service request promises: it is sent only when everything allows it, a denial touches nothing but its
  records, the capacity it takes is given back whatever happens, and its response reaches the client protected.
\<close>

section \<open>The headers that are sent\<close>

definition lower_names :: "(string, 'a) jmap \<Rightarrow> string set" where
  "lower_names h = to_lower ` fst ` set h"

lemma lower_names_iff: "n \<in> lower_names h \<longleftrightarrow> named_entries n h \<noteq> []"
  by (force simp: lower_names_def named_entries_def filter_empty_conv)

lemma enforce_group_names:
  assumes "enforce_group S (n, cs) headers bn = (bn', Inr headers')" and "\<forall>c \<in> set cs. to_lower (owned_header c) = n"
  shows "lower_names headers' \<subseteq> lower_names headers"
proof (cases "named_entries n headers = []")
  case True
  then show ?thesis using assms(1) by (simp add: enforce_group_def)
next
  case False
  show ?thesis
  proof
    fix m assume "m \<in> lower_names headers'"
    then show "m \<in> lower_names headers"
      using False enforce_group_owned(2) [OF assms, of m] unfolding lower_names_iff by (cases "m = n") simp_all
  qed
qed

lemma enforce_groups_names:
  assumes "enforce_groups S gs headers bn = (bn', Inr headers')" and "\<forall>(n, cs) \<in> set gs. \<forall>c \<in> set cs. to_lower (owned_header c) = n"
  shows "lower_names headers' \<subseteq> lower_names headers"
  using assms
proof (induction gs arbitrary: headers bn)
  case (Cons g gs)
  obtain n cs where g: "g = (n, cs)" by (cases g)
  obtain bn1 h1 where one: "enforce_group S (n, cs) headers bn = (bn1, Inr h1)"
    and rest: "enforce_groups S gs h1 bn1 = (bn', Inr headers')"
    using Cons.prems(1) by (auto simp: g split: prod.splits sum.splits)
  have names: "\<forall>c \<in> set cs. to_lower (owned_header c) = n" "\<forall>(n, cs) \<in> set gs. \<forall>c \<in> set cs. to_lower (owned_header c) = n"
    using Cons.prems(2) by (auto simp: g)
  show ?case using Cons.IH [OF rest names(2)] enforce_group_names [OF one names(1)] by (rule order_trans)
qed simp

lemma enforced_names:
  assumes "enforceCredentialHeaderUsage S headers query body bn = (bn', Inr headers')"
  shows "lower_names headers' \<subseteq> lower_names headers"
proof -
  have "lower_names h \<subseteq> lower_names headers"
    if "enforce_groups S (groupByHeaderName cs) headers bn = (bn1, Inr h)" for h bn1 cs
    using that groupByHeaderName_names by (rule enforce_groups_names)
  then show ?thesis
    using assms
    by (auto simp: enforceCredentialHeaderUsage_def Let_def split: if_splits prod.splits sum.splits)
qed

lemma rejected_by_lower_names:
  assumes "rejectCallerControlledHeaders headers = Inr ()" and "lower_names headers' \<subseteq> lower_names headers"
  shows "rejectCallerControlledHeaders headers' = Inr ()"
proof -
  have same: "reject_header a = Inr () \<Longrightarrow> to_lower b = to_lower a \<Longrightarrow> reject_header b = Inr ()" for a b
    by (auto simp: reject_header_def Let_def split: if_splits)
  have iff: "(rejectCallerControlledHeaders h = Inr ()) = (\<forall>n \<in> fst ` set h. reject_header n = Inr ())" for h
    by (auto simp: rejectCallerControlledHeaders_def result_map_value_Inr result_map_Inr_map)
  show ?thesis unfolding iff
  proof (intro ballI)
    fix n assume "n \<in> fst ` set headers'"
    then obtain m where "m \<in> fst ` set headers" "to_lower n = to_lower m" using assms(2) unfolding lower_names_def by blast
    then show "reject_header n = Inr ()" using assms(1) same unfolding iff by metis
  qed
qed

lemma substituted_header_names:
  assumes "substituteTokens S (json_headers headers) b n = (t, Inr q)"
  shows "map fst (headers_of_json (sbr_value q)) = map fst headers"
proof -
  have parts: "map fst (fill_parts toks (\<lambda>kv us. (fst kv, f kv us)) xs ws) = map fst xs" for toks f and xs :: "('x \<times> json) list" and ws
    by (induction xs arbitrary: ws) simp_all
  obtain ws where "sbr_value q = fill (json_headers headers) ws"
    using substituteTokens_bound [OF assms] by blast
  then show ?thesis
    by (simp add: json_headers_def headers_of_json_def json_fields_def parts comp_def case_prod_unfold)
qed

section \<open>What is sent\<close>

lemma check_step_Inr: "check_step r s = (s', Inr a) \<longleftrightarrow> s' = s \<and> r = Inr a"
  by (auto simp: check_step_def refused_def split: sum.splits)

lemma prepared:
  assumes "prepare_request G R s = (s', Inr q)"
  shows "\<exists>headers query body. rejectCallerControlledHeaders headers = Inr () \<and>
    buildDownstreamRequest (gw_utf8 G) (gw_search G) (gw_config G) (rt_url (rc_target R))
      (si_method (rc_input R)) headers query body (tls_verify (rt_tls (rc_target R))) = Inr (pq_downstream q)"
proof -
  let ?S = "substitution_env_of G R"
  obtain s1 s2 s3 s4 h hs qs bs d where caller: "rejectCallerControlledHeaders (si_headers (rc_input R)) = Inr ()"
    and h: "enforce_step G R s1 = (s2, Inr h)"
    and hs: "substitution_step (substituteTokens ?S (json_headers h)) s2 = (s3, Inr hs)"
    and d: "buildDownstreamRequest (gw_utf8 G) (gw_search G) (gw_config G) (rt_url (rc_target R)) (si_method (rc_input R))
      (headers_of_json (sbr_value hs)) qs bs (tls_verify (rt_tls (rc_target R))) = Inr d" and q: "pq_downstream q = d"
    using assms unfolding prepare_request_def Let_def
    by (auto simp: after_Inr check_step_Inr)
  have "lower_names h \<subseteq> lower_names (si_headers (rc_input R))"
    using h enforced_names by (force simp: enforce_step_def refused_def split: prod.splits sum.splits)
  moreover have "map fst (headers_of_json (sbr_value hs)) = map fst h"
    using hs substituted_header_names by (force simp: substitution_step_def refused_def split: prod.splits sum.splits)
  then have "lower_names (headers_of_json (sbr_value hs)) = lower_names h"
    unfolding lower_names_def by (metis list.set_map)
  ultimately have "rejectCallerControlledHeaders (headers_of_json (sbr_value hs)) = Inr ()"
    using rejected_by_lower_names [OF caller] by simp
  then show ?thesis using d q by blast
qed

lemma built_url:
  assumes "buildDownstreamRequest U Q config u method headers query body tlsVerify = Inr d"
  shows "dr_url d = set_query Q query u"
  using assms by (auto simp: buildDownstreamRequest_def Let_def split: if_splits)

lemma exchange_sends:
  assumes "\<And>k t. gs_sent (gw_others G k t) = gs_sent t"
  shows "gs_sent (fst (exchange_step G d s)) = gs_sent s @ [d]"
  by (simp add: exchange_step_def Let_def assms split: sum.split)

lemma sent_stable: "(\<And>k t. gs_sent (gw_others G k t) = gs_sent t) \<Longrightarrow> stable G (\<lambda>t. gs_sent t = xs)"
  by (simp add: stable_def)

lemma admitted_sends:
  assumes "\<And>k t. gs_sent (gw_others G k t) = gs_sent t"
  shows "gs_sent (fst (admitted_request G R s)) = gs_sent s \<or>
    (\<exists>s1 q. prepare_request G R s = (s1, Inr q) \<and>
       gs_sent (fst (admitted_request G R s)) = gs_sent s @ [pq_downstream q])"
proof (cases "prepare_request G R s")
  case (Pair s1 r)
  have kept: "gs_sent s1 = gs_sent s"
    using prepare_keeps [OF sent_stable [of G "gs_sent s", OF assms], of s R] Pair by simp
  show ?thesis
  proof (cases r)
    case (Inl e)
    then show ?thesis using Pair kept by (simp add: admitted_request_def after_def)
  next
    case (Inr q)
    let ?d = "pq_downstream q"
    have sent: "gs_sent (fst (exchange_step G ?d s1)) = gs_sent s @ [?d]" using exchange_sends [OF assms] kept by simp
    have "gs_sent (fst (after (exchange_step G ?d s1) (\<lambda>response s. process_response G R (pq_records q) response s))) =
        gs_sent s @ [?d]"
    proof (rule after_keeps [where P = "\<lambda>t. gs_sent t = gs_sent s @ [?d]"])
      show "gs_sent (fst (exchange_step G ?d s1)) = gs_sent s @ [?d]" by (rule sent)
      show "gs_sent t = gs_sent s @ [?d] \<Longrightarrow> gs_sent (fst (process_response G R (pq_records q) a t)) = gs_sent s @ [?d]"
        for t a by (rule process_keeps [OF sent_stable [OF assms]])
    qed
    then show ?thesis using Pair Inr by (simp add: admitted_request_def after_def)
  qed
qed

lemma with_capacity_sent [simp]: "gs_sent (fst (with_capacity h step s)) = gs_sent (fst (step s))"
  by (simp add: with_capacity_def split: prod.split sum.split gateway_failure.split)

text \<open>Which request a run decides about\<close>

definition decided_context ::
  "gateway_env \<Rightarrow> auth_context \<Rightarrow> service_request_input \<Rightarrow> string \<Rightarrow> request_context \<Rightarrow> policy_decision \<Rightarrow> bool" where
  "decided_context G auth input requestId R decision \<longleftrightarrow>
     validateRequestInput input = Inr () \<and>
     getService (gw_config G) (si_service input) (Some auth) = Inr (rc_service R) \<and>
     resolveDestination (gw_urls G) (gw_config G) auth (si_service input) (si_destination input)
       \<lparr>ti_path = si_path input, ti_url = si_url input\<rparr> = Inr (rc_target R) \<and>
     evaluatePolicy (gw_matchers G) (rc_service R) (rc_target R) (si_method input) = Inr decision \<and>
     rc_auth R = auth \<and> rc_input R = input \<and> rc_requestId R = requestId \<and> rc_matchedRule R = pd_matchedRule decision"

lemma execute_cases:
  obtains (early) f where "executeServiceRequest G auth input requestId s = (s, Inl f)" and "f \<noteq> Stopped"
      and "\<nexists>R decision. decided_context G auth input requestId R decision"
  | (decided) R decision where "decided_context G auth input requestId R decision"
      and "executeServiceRequest G auth input requestId s =
        (if pd_allowed decision then allowed_request G R s else deny_request G R decision s)"
proof -
  let ?x = "executeServiceRequest G auth input requestId s"
  let ?t = "resolveDestination (gw_urls G) (gw_config G) auth (si_service input) (si_destination input)
       \<lparr>ti_path = si_path input, ti_url = si_url input\<rparr>"
  show ?thesis
  proof (cases "validateRequestInput input")
    case (Inl e)
    then show ?thesis by (intro early [of "Refused e"]) (simp_all add: executeServiceRequest_def decided_context_def)
  next
    case valid: (Inr u)
    show ?thesis
    proof (cases "getService (gw_config G) (si_service input) (Some auth)")
      case (Inl e)
      then show ?thesis using valid by (intro early [of "Refused e"]) (simp_all add: executeServiceRequest_def decided_context_def)
    next
      case service: (Inr service)
      show ?thesis
      proof (cases ?t)
        case (Inl e)
        then show ?thesis using valid service
          by (intro early [of "case e of Target_refused e \<Rightarrow> Refused e | Url_type_error \<Rightarrow> Crashed"])
            (simp_all add: executeServiceRequest_def decided_context_def split: target_error.split)
      next
        case target: (Inr target)
        show ?thesis
        proof (cases "evaluatePolicy (gw_matchers G) service target (si_method input)")
          case (Inl e)
          then show ?thesis using valid service target
            by (intro early [of Crashed]) (auto simp: executeServiceRequest_def decided_context_def)
        next
          case (Inr decision)
          let ?R = "\<lparr>rc_auth = auth, rc_service = service, rc_target = target, rc_input = input,
            rc_requestId = requestId, rc_matchedRule = pd_matchedRule decision\<rparr>"
          show ?thesis
            by (rule decided [of ?R decision])
              (simp_all add: executeServiceRequest_def decided_context_def valid service target Inr Let_def)
        qed
      qed
    qed
  qed
qed

lemma execute_sends:
  assumes "\<And>k t. gs_sent (gw_others G k t) = gs_sent t"
    and "gs_sent (fst (executeServiceRequest G auth input requestId s)) \<noteq> gs_sent s"
  obtains R decision s0 s1 q where "decided_context G auth input requestId R decision" and "pd_allowed decision"
    and "prepare_request G R s0 = (s1, Inr q)"
    and "gs_sent (fst (executeServiceRequest G auth input requestId s)) = gs_sent s @ [pq_downstream q]"
proof (cases rule: execute_cases [of G auth input requestId s])
  case (early f)
  then show ?thesis using assms(2) by simp
next
  case (decided R decision)
  have "pd_allowed decision"
    using assms(2) decided(2)
    by (auto simp: deny_request_def append_audit_def split: if_splits prod.splits)
  then have e: "executeServiceRequest G auth input requestId s = allowed_request G R s" using decided(2) by simp
  obtain l r where l: "acquireServiceRequest (gs_limiter s) (ac_subject (rc_auth R)) (sc_id (rc_service R)) = (l, r)" by fastforce
  then obtain h where h: "r = Inr h" using assms(2) e by (cases r) (auto simp: allowed_request_def append_audit_def)
  have sent: "gs_sent (fst (executeServiceRequest G auth input requestId s)) =
      gs_sent (fst (admitted_request G R (s\<lparr>gs_limiter := l\<rparr>)))"
    unfolding e by (simp add: allowed_request_def l h)
  from admitted_sends [OF assms(1), where s = "s\<lparr>gs_limiter := l\<rparr>" and R = R] show ?thesis
    using that [OF decided(1) \<open>pd_allowed decision\<close>] assms(2) sent by auto
qed

text \<open>
  C1: A run sends nothing or one request. It sends one only for a service the subject may use and when the policy
  of this service allows the call, and then to a scheme, a host and a port of a destination of the service, under its
  base path, with the path and the method the policy was asked about and with the certificate check of the destination;
  the request names the host that was checked and carries no header that belongs to the connection. That the path in
  the URL is the one the policy was asked about holds for \<open>http\<close> and \<open>https\<close>: the setter of the path does nothing to URLs
  of other schemes that have an opaque path.
\<close>

theorem sent_request_allowed:
  assumes "\<And>k t. gs_sent (gw_others G k t) = gs_sent t"
    and "url_paths_ok (gw_urls G)"
    and "executeServiceRequest G auth input requestId s = (s', r)" and "gs_sent s' \<noteq> gs_sent s"
  shows "\<exists>service target decision base d. gs_sent s' = gs_sent s @ [d] \<and>
    jmap_get (gc_services (gw_config G)) (si_service input) = Some service \<and>
    ac_subject auth \<in> set (access_users (sc_access service)) \<and>
    rt_destination target \<in> set (sc_destinations service) \<and>
    evaluatePolicy (gw_matchers G) service target (si_method input) = Inr decision \<and> pd_allowed decision \<and>
    url_hostname (dr_url d) = url_hostname (rt_url target) \<and>
    (url_scheme (dr_url d) \<in> {''http'', ''https''} \<longrightarrow> url_pathname (dr_url d) = rt_methodPath target) \<and>
    url_scheme (dr_url d) \<in> set (dc_schemes (rt_destination target)) \<and>
    int (effective_port (dr_url d)) \<in> set (dc_ports (rt_destination target)) \<and>
    list_ex (\<lambda>m. matchesHost (gw_urls G) m (normalizeHost (gw_urls G) (url_hostname (dr_url d))))
      (dc_hosts (rt_destination target)) \<and>
    up_parse (gw_urls G) (dc_baseUrl (rt_destination target)) None = Some base \<and>
    path_within (normalizePath (url_pathname base)) (rt_methodPath target) \<and>
    dr_method d = to_upper (si_method input) \<and> dr_tlsVerify d = tls_verify (dc_tls (rt_destination target)) \<and>
    headers_named ''host'' (dr_headers d) = [(''host'', url_host (dr_url d))] \<and>
    list_all forwardable (jmap_keys (dr_headers d))"
proof -
  obtain R decision s0 s1 q where c: "decided_context G auth input requestId R decision" and allowed: "pd_allowed decision"
    and q: "prepare_request G R s0 = (s1, Inr q)" and sent: "gs_sent s' = gs_sent s @ [pq_downstream q]"
    using execute_sends [OF assms(1), where auth = auth and input = input and requestId = requestId and s = s] assms(3,4)
    by (metis fst_conv)
  let ?t = "rc_target R" and ?d = "pq_downstream q"
  obtain headers query body where d: "rejectCallerControlledHeaders headers = Inr ()"
    "buildDownstreamRequest (gw_utf8 G) (gw_search G) (gw_config G) (rt_url ?t) (si_method input) headers query body
      (tls_verify (rt_tls ?t)) = Inr ?d"
    using prepared [OF q] c unfolding decided_context_def by auto
  have target: "resolveDestination (gw_urls G) (gw_config G) auth (si_service input) (si_destination input)
      \<lparr>ti_path = si_path input, ti_url = si_url input\<rparr> = Inr ?t"
    and service: "getService (gw_config G) (si_service input) (Some auth) = Inr (rc_service R)"
    and policy: "evaluatePolicy (gw_matchers G) (rc_service R) ?t (si_method input) = Inr decision"
    using c unfolding decided_context_def by simp_all
  obtain base where t: "rt_destination ?t \<in> set (sc_destinations (rc_service R))"
    "url_scheme (rt_url ?t) \<in> set (dc_schemes (rt_destination ?t))"
    "int (effective_port (rt_url ?t)) \<in> set (dc_ports (rt_destination ?t))"
    "list_ex (\<lambda>m. matchesHost (gw_urls G) m (normalizeHost (gw_urls G) (url_hostname (rt_url ?t)))) (dc_hosts (rt_destination ?t))"
    "up_parse (gw_urls G) (dc_baseUrl (rt_destination ?t)) None = Some base"
    "path_within (normalizePath (url_pathname base)) (rt_methodPath ?t)"
    "url_scheme (rt_url ?t) \<in> {''http'', ''https''} \<longrightarrow> url_pathname (rt_url ?t) = rt_methodPath ?t"
    using resolved_target [OF target assms(2)] service by (auto simp: getService_Inr)
  have tls: "rt_tls ?t = dc_tls (rt_destination ?t)"
    using target by (auto simp: resolveDestination_def resolveDestinationTarget_def result_bind_Inr split: sum.splits)
      (metis resolved_target.select_convs(1,4))
  note url = built_url [OF d(2)]
  note b = built_request [OF d(2,1)]
  have same: "url_hostname (dr_url ?d) = url_hostname (rt_url ?t)" "url_scheme (dr_url ?d) = url_scheme (rt_url ?t)"
    "effective_port (dr_url ?d) = effective_port (rt_url ?t)" "url_host (dr_url ?d) = url_host (rt_url ?t)"
    "url_pathname (dr_url ?d) = url_pathname (rt_url ?t)"
    unfolding url by (simp_all add: set_query_url url_scheme_def effective_port_def)
  have "jmap_get (gc_services (gw_config G)) (si_service input) = Some (rc_service R)"
    "ac_subject auth \<in> set (access_users (sc_access (rc_service R)))"
    using service by (simp_all add: getService_Inr canAccessService_def)
  then show ?thesis
    using sent policy allowed t b same tls
    by (intro exI [of _ "rc_service R"] exI [of _ ?t] exI [of _ decision] exI [of _ base] exI [of _ ?d]) simp
qed

theorem sent_request_allowed_witness:
  "int (effective_port (dr_url sample_built)) = 443 \<and> dr_method sample_built = ''GET'' \<and> dr_tlsVerify sample_built \<and>
   headers_named ''host'' (dr_headers sample_built) = [(''host'', url_host (dr_url sample_built))]"
proof -
  obtain s' sp where run: "executeServiceRequest sample_gateway sample_auth sample_call ''r1'' gateway_start = (s', Inr sp)"
    and sent: "gs_sent s' = [sample_built]" using sample_run by blast
  have paths: "url_paths_ok (gw_urls sample_gateway)" using sample_paths_ok by (simp add: sample_gateway_def)
  have "gs_sent s' \<noteq> gs_sent gateway_start" using sent by simp
  have others: "gs_sent (gw_others sample_gateway k t) = gs_sent t" for k t by simp
  from sent_request_allowed [OF others paths run \<open>gs_sent s' \<noteq> gs_sent gateway_start\<close>]
  obtain service and target :: resolved_target and d where d: "gs_sent s' = gs_sent gateway_start @ [d]"
    "jmap_get (gc_services (gw_config sample_gateway)) (si_service sample_call) = Some service"
    "rt_destination target \<in> set (sc_destinations service)"
    "int (effective_port (dr_url d)) \<in> set (dc_ports (rt_destination target))"
    "dr_method d = to_upper (si_method sample_call)" "dr_tlsVerify d = tls_verify (dc_tls (rt_destination target))"
    "headers_named ''host'' (dr_headers d) = [(''host'', url_host (dr_url d))]"
    by blast
  have "d = sample_built" using d(1) sent by simp
  have "sc_destinations service = [sample_destination]"
    using d(2) by (auto simp: sample_gateway_def open_config_def sample_call_def sample_service_def)
  moreover have "to_upper (si_method sample_call) = ''GET''" by code_simp
  ultimately show ?thesis using d \<open>d = sample_built\<close> by (simp add: sample_destination_def)
qed

section \<open>Denials\<close>

text \<open>
  C4: A call that the policy denies is refused with the reason of the decision and the identifier of the call: nothing
  is sent, no reference is used and no capacity taken, one event records the refusal, and the subject can have the denial
  explained under this identifier as long as it is kept.
\<close>

theorem denied_request_contained:
  assumes "decided_context G auth input requestId R decision" and "\<not> pd_allowed decision"
    and "executeServiceRequest G auth input requestId s = (s', r)"
    and "denial_ok (gs_denials s)" and "requestId \<notin> fst ` set (ds_records (gs_denials s))"
    and "now < gw_clock G (gs_calls s) + ds_ttlMs (gs_denials s)" and "0 < ds_capacity (gs_denials s)"
  shows "r = Inl (Refused (error_with_id requestId (gateway_error Policy_denied (pd_reason decision)))) \<and>
    gs_sent s' = gs_sent s \<and> gs_broker s' = gs_broker s \<and> gs_limiter s' = gs_limiter s \<and>
    gs_audit s' = gs_audit s @ [refusal_event R False Policy_denied (pd_reason decision)] \<and>
    snd (explainDenial now (gs_denials s') (ac_subject auth) requestId) =
      Some \<lparr>dx_request_id = requestId, dx_reason = pd_reason decision, dx_matched_rule = pd_matchedRule decision,
            dx_policy_mode = pd_policyMode decision, dx_suggestion = pd_suggestion decision\<rparr>"
proof (cases rule: execute_cases [of G auth input requestId s])
  case (early f)
  then show ?thesis using assms(1) by blast
next
  case (decided R' decision')
  have same: "R' = R" "decision' = decision" using decided(1) assms(1) by (auto simp: decided_context_def)
  have R: "rc_auth R = auth" "rc_requestId R = requestId" using assms(1) by (simp_all add: decided_context_def)
  let ?i = "denial_input_of R decision" and ?now = "gw_clock G (gs_calls s)"
  have id: "dn_request_id (snd (denial_record_op t b i x)) = x" for t b i x
    by (simp add: denial_record_op_def denial_record_of_def Let_def)
  have s': "s' = append_audit (refusal_event R False Policy_denied (pd_reason decision))
      (s\<lparr>gs_denials := fst (denial_record_op ?now (gs_denials s) ?i requestId), gs_calls := gs_calls s + 1\<rparr>)"
    and r: "r = Inl (Refused (error_with_id requestId (gateway_error Policy_denied (pd_reason decision))))"
    using assms(2,3) decided(2) id [of ?now "gs_denials s" ?i requestId]
    by (simp_all add: same R deny_request_def split: prod.splits)
  have "snd (explainDenial now (foldl denial_step (fst (denial_record_op ?now (gs_denials s) ?i requestId)) [])
      (di_subject ?i) requestId) =
    Some \<lparr>dx_request_id = requestId, dx_reason = di_reason ?i, dx_matched_rule = di_matched_rule ?i,
          dx_policy_mode = di_policy_mode ?i, dx_suggestion = di_suggestion ?i\<rparr>"
    using assms(4-7) by (intro denial_retained) simp_all
  then show ?thesis by (simp add: r s' append_audit_def denial_input_of_def R)
qed

definition denying_gateway :: gateway_env where
  "denying_gateway = sample_gateway\<lparr>gw_broker := sample_env\<lparr>be_config := roomy_config\<rparr>\<rparr>"

definition denied_context :: request_context where
  "denied_context = gateway_context\<lparr>rc_service := sample_service\<rparr>"

definition denied_decision :: policy_decision where
  "denied_decision = (case evaluatePolicy (gw_matchers denying_gateway) sample_service (rc_target gateway_context) (si_method sample_call) of
     Inr d \<Rightarrow> d)"

lemma denied_evaluated:
  "getService (gw_config denying_gateway) (si_service sample_call) (Some sample_auth) = Inr sample_service"
  "resolveDestination (gw_urls denying_gateway) (gw_config denying_gateway) sample_auth (si_service sample_call) (si_destination sample_call)
     \<lparr>ti_path = si_path sample_call, ti_url = si_url sample_call\<rparr> = Inr (rc_target gateway_context)"
  "evaluatePolicy (gw_matchers denying_gateway) sample_service (rc_target gateway_context) (si_method sample_call) = Inr denied_decision"
  "pd_allowed denied_decision = False" "pd_matchedRule denied_decision = None"
  by code_simp+

theorem denied_request_contained_witness:
  "\<exists>s'. executeServiceRequest denying_gateway sample_auth sample_call ''r1'' gateway_start =
      (s', Inl (Refused (error_with_id ''r1'' (gateway_error Policy_denied (pd_reason denied_decision))))) \<and>
    gs_sent s' = [] \<and> snd (explainDenial 110 (gs_denials s') ''alice'' ''r1'') \<noteq> None"
proof -
  have d: "decided_context denying_gateway sample_auth sample_call ''r1'' denied_context denied_decision"
    unfolding decided_context_def denied_context_def
    by (simp add: denied_evaluated decision_evaluated) (simp add: gateway_context_def)
  let ?run = "executeServiceRequest denying_gateway sample_auth sample_call ''r1'' gateway_start"
  have "denial_ok (gs_denials gateway_start)" "''r1'' \<notin> fst ` set (ds_records (gs_denials gateway_start))"
    "110 < gw_clock denying_gateway (gs_calls gateway_start) + ds_ttlMs (gs_denials gateway_start)"
    "0 < ds_capacity (gs_denials gateway_start)"
    by (simp_all add: gateway_start_def denial_ok_new) (simp_all add: new_denial_store_def denying_gateway_def sample_gateway_def)
  from denied_request_contained [OF d _ _ this, of "fst ?run" "snd ?run"] show ?thesis
    by (auto simp: denied_evaluated sample_auth_def intro!: exI [of _ "fst ?run"] simp: prod_eq_iff)
qed

section \<open>Capacity\<close>

lemma per_key_drop: "released h \<Longrightarrow> per_key released key (hs @ [h]) = per_key released key hs"
  by (simp add: per_key_def outstanding_snoc fun_eq_iff)

lemma service_held_drop: "service_held l (hs @ [h]) \<Longrightarrow> sl_released h \<Longrightarrow> service_held l hs"
  by (auto simp: service_held_def inflight_held_def per_key_drop outstanding_snoc)

lemma with_capacity_returned:
  assumes "with_capacity h step s = (s', r)" and "r \<noteq> Inl Stopped"
    and "service_held (gs_limiter (fst (step s))) (hs @ [h])"
  shows "service_held (gs_limiter s') hs"
proof -
  let ?l = "gs_limiter (fst (step s))"
  obtain h' l' where rel: "service_release h ?l = (h', l')" by fastforce
  have "service_held l' ((hs @ [h])[length hs := h'])"
    by (rule service_release_held [OF assms(3)]) (simp_all add: rel nth_append)
  then have "service_held l' (hs @ [h'])" by simp
  moreover have "gs_limiter s' = l'"
    using assms(1,2) rel
    by (auto simp: with_capacity_def split: prod.splits sum.splits gateway_failure.splits)
  ultimately show ?thesis using service_held_drop srl.release_marks [OF rel] by simp
qed

text \<open>
  C3: Whatever becomes of a call, an answer, a refusal or another exception, the capacity it took is given back: if the
  leases of the other calls, any class of leases the other calls keep to, account for the limiter before, they do so
  afterwards. Only an exception that stops the process keeps it.
\<close>

theorem capacity_returned:
  assumes "\<And>k t hs h. service_held (gs_limiter t) (hs @ [h]) \<Longrightarrow> list_all Q hs \<Longrightarrow>
      \<exists>hs'. service_held (gs_limiter (gw_others G k t)) (hs' @ [h]) \<and> list_all Q hs'"
    and "service_held (gs_limiter s) hs" and "list_all Q hs"
    and "executeServiceRequest G auth input requestId s = (s', r)" and "r \<noteq> Inl Stopped"
  shows "\<exists>hs'. service_held (gs_limiter s') hs' \<and> list_all Q hs'"
proof (cases rule: execute_cases [of G auth input requestId s])
  case (early f)
  then show ?thesis using assms(2-4) by auto
next
  case (decided R decision)
  show ?thesis
  proof (cases "pd_allowed decision")
    case False
    then show ?thesis using decided(2) assms(2-4)
      by (auto simp: deny_request_def append_audit_def split: prod.splits)
  next
    case True
    obtain l a where a: "acquireServiceRequest (gs_limiter s) (ac_subject (rc_auth R)) (sc_id (rc_service R)) = (l, a)" by fastforce
    show ?thesis
    proof (cases a)
      case (Inl e)
      have "l = gs_limiter s" using a Inl srl.acquire_refused
        by (auto simp: acquireServiceRequest_def split: prod.splits option.splits)
      then show ?thesis using a Inl True decided(2) assms(2-4) by (auto simp: allowed_request_def append_audit_def)
    next
      case (Inr h)
      have "service_acquire (gs_limiter s) (ac_subject (rc_auth R), sc_id (rc_service R)) = (l, Some h)"
        using a Inr by (auto simp: acquireServiceRequest_def split: prod.splits option.splits)
      then have start: "service_held l (hs @ [h])" by (rule service_acquire_held [OF assms(2)])
      define P where "P t \<longleftrightarrow> (\<exists>hs. service_held (gs_limiter t) (hs @ [h]) \<and> list_all Q hs)" for t :: gateway_state
      have st: "stable G P" unfolding stable_def P_def using assms(1) by metis
      have P0: "P (s\<lparr>gs_limiter := l\<rparr>)" using start assms(3) by (auto simp: P_def)
      have "P (fst (exchange_step G d t))" if "P t" for d t
      proof -
        have "P (t\<lparr>gs_sent := gs_sent t @ [d]\<rparr>)" using that by (simp add: P_def)
        then show ?thesis by (simp add: exchange_step_def Let_def stable_others [OF st])
      qed
      then have "P (fst (admitted_request G R (s\<lparr>gs_limiter := l\<rparr>)))"
        unfolding admitted_request_def
        by (intro after_keeps [where P = P] prepare_keeps [OF st P0] process_keeps [OF st])
      then obtain hs' where "service_held (gs_limiter (fst (admitted_request G R (s\<lparr>gs_limiter := l\<rparr>)))) (hs' @ [h])"
        "list_all Q hs'" unfolding P_def by blast
      moreover have "with_capacity h (admitted_request G R) (s\<lparr>gs_limiter := l\<rparr>) = (s', r)"
        using assms(4) decided(2) True a Inr by (simp add: allowed_request_def)
      ultimately show ?thesis using with_capacity_returned assms(5) by blast
    qed
  qed
qed

theorem capacity_returned_witness:
  "\<exists>s' sp. executeServiceRequest sample_gateway sample_auth sample_call ''r1'' gateway_start = (s', Inr sp) \<and>
     service_held (gs_limiter s') []"
proof -
  obtain s' sp where run: "executeServiceRequest sample_gateway sample_auth sample_call ''r1'' gateway_start = (s', Inr sp)"
    using sample_run by blast
  have "service_held (gs_limiter gateway_start) []" by (simp add: gateway_start_def service_held_new)
  from capacity_returned [where Q = "\<lambda>_. False", OF _ this _ run] have "service_held (gs_limiter s') []"
    by (auto simp: list_all_iff)
  then show ?thesis using run by blast
qed

section \<open>Responses\<close>

text \<open>
  What the body and the headers of an answer become. A binary body passes as it is: within the limit of the policy and,
  unless the policy turns the scan off, holding no credential and only references that were issued to the client. A text is
  tokenized, and its bytes are those of the tokenized text. \<open>n\<close> is the number of replacements.
\<close>

definition protected_body ::
  "tokenizer_env \<Rightarrow> token_broker \<Rightarrow> binary_response_config \<Rightarrow> bool \<Rightarrow> (string, string) jmap \<Rightarrow> nat list \<Rightarrow> (string, string) jmap
    \<Rightarrow> nat list \<Rightarrow> nat \<Rightarrow> bool"
where
  "protected_body T b policy binary headers entity headers' out n \<longleftrightarrow>
     (if binary
      then out = entity \<and>
        (\<exists>body' ns. response_tokenized T b (referenced T b) 0 headers [] headers' body' ns \<and> n = sum_list ns) \<and>
        (case br_maxBytes policy of None \<Rightarrow> True | Some limit \<Rightarrow> length entity \<le> limit) \<and>
        (br_scan policy \<longrightarrow> binary_clean T entity \<and>
           (\<forall>m \<in> set (token_candidates (map char_of entity)). client_file T b (snd m)))
      else \<exists>u u' ns.
        uc_decode (te_utf8 T) (if take 3 entity = byte_order_mark then drop 3 entity else entity) = Some u \<and>
        response_tokenized T b (referenced T b) 0 headers u headers' u' ns \<and> n = sum_list ns \<and>
        out = (if take 3 entity = byte_order_mark then byte_order_mark else []) @ uc_encode (te_utf8 T) u')"

definition tokenizer_of :: "gateway_env \<Rightarrow> request_context \<Rightarrow> tokenizer_env" where
  "tokenizer_of G R = tokenizer_env_of G R (disabled_rules G R)"

lemma tokenizer_of_parts [simp]:
  "te_broker (tokenizer_of G R) = gw_broker G" "te_draws (tokenizer_of G R) = gw_draws G"
  "te_utf8 (tokenizer_of G R) = gw_utf8 G" "te_jsonScanner (tokenizer_of G R) = gw_jsonScanner G"
  "te_auth (tokenizer_of G R) = rc_auth R" "te_service (tokenizer_of G R) = rc_service R"
  by (simp_all add: tokenizer_of_def)

lemma others_tokenizer: "others_ok G m \<Longrightarrow> meanwhile_ok (tokenizer_of G R) m"
  by (simp add: tokenizer_of_def others_meanwhile)

text \<open>Where a run of the tokenizer starts\<close>

definition tokenizer_at :: "gateway_state \<Rightarrow> tokenizer_state" where
  "tokenizer_at s = \<lparr>tz_broker = gs_broker s, tz_calls = gs_calls s, tz_draws = gs_draws s, tz_scans = 0\<rparr>"

lemma tokenizer_at_parts [simp]:
  "tz_broker (tokenizer_at s) = gs_broker s" "tz_draws (tokenizer_at s) = gs_draws s" "tz_scans (tokenizer_at s) = 0"
  by (simp_all add: tokenizer_at_def)

lemma good_tokenizing: "tokenizing_ok (tokenizer_of G R) m (tokenizer_at s) \<longleftrightarrow> good_state G m s"
  by (simp add: tokenizing_ok_def good_state_def)

lemma tokenizer_step_Inr:
  assumes "tokenizer_step G f s = (s', Inr a)"
  obtains t where "f (tokenizer_at s) = (t, Inr a)" and "gs_broker s' = tz_broker t" and "gs_draws s' = tz_draws t"
  using assms by (auto simp: tokenizer_step_def tokenizer_at_def split: prod.splits)

text \<open>What the response of a run rests on\<close>

definition surroundings_ok :: "gateway_env \<Rightarrow> nat \<Rightarrow> bool" where
  "surroundings_ok G m \<longleftrightarrow> codec_ok (gw_utf8 G) \<and>
     (\<forall>bs u. uc_decode (gw_utf8 G) bs = Some u \<longrightarrow> uc_encode (gw_utf8 G) u = bs) \<and>
     (\<forall>u. json_scan_ok (gw_jsonScanner G u) u) \<and> others_ok G m"

lemma text_response_protected:
  assumes ok: "surroundings_ok G m" and good: "good_state G m s"
    and run: "text_response_step G R headers entity s = (s', Inr safe)" and fits: "gs_draws s' \<le> m"
  shows "protected_body (tokenizer_of G R) (gs_broker s') policy False headers entity
    (tt_headers (sf_tokenized safe)) (sf_entity safe) (tt_secretTokenizationCount (sf_tokenized safe))"
proof -
  let ?T = "tokenizer_of G R" and ?t = "sf_tokenized safe"
  obtain t where "(case tokenizeBytes ?T headers entity (tokenizer_at s) of
        (t', Inl (Tokenizing_refused e)) \<Rightarrow> (t', Inl (Refused e))
      | (t', Inl Not_utf8) \<Rightarrow> (t', Inl Crashed)
      | (t', Inr (tt, out)) \<Rightarrow> (t', Inr \<lparr>sf_tokenized = tt, sf_entity = out, sf_bypassed = False\<rparr>)) = (t, Inr safe)"
    and s': "gs_broker s' = tz_broker t" "gs_draws s' = tz_draws t"
    by (rule tokenizer_step_Inr [OF run [unfolded text_response_step_def]]) (simp add: tokenizer_of_def)
  then have bytes: "tokenizeBytes ?T headers entity (tokenizer_at s) = (t, Inr (?t, sf_entity safe))"
    by (auto split: prod.splits sum.splits tokenizer_error.splits)
  have scan: "json_scan_ok (te_jsonScanner ?T u) u" for u using ok by (simp add: surroundings_ok_def)
  have "sf_entity safe = (if take 3 entity = byte_order_mark then byte_order_mark else []) @ uc_encode (te_utf8 ?T) (tt_body ?t)"
    by (rule tokenized_bytes_exact [OF _ _ scan bytes]) (use ok in \<open>simp_all add: surroundings_ok_def\<close>)
  moreover obtain u where
    "uc_decode (te_utf8 ?T) (if take 3 entity = byte_order_mark then drop 3 entity else entity) = Some u"
    and tokens: "tokenizeText ?T headers u (tokenizer_at s) = (t, Inr ?t)"
    using bytes by (auto simp: tokenizeBytes_def Let_def split: option.splits prod.splits sum.splits if_splits)
  moreover have "\<exists>ns. response_tokenized ?T (tz_broker t) (referenced ?T (tz_broker t)) 0 headers u (tt_headers ?t) (tt_body ?t) ns \<and>
      tt_secretTokenizationCount ?t = sum_list ns"
    using tokenizeText_spec [OF scan others_tokenizer _ tokens, of m "referenced ?T (tz_broker t)"] ok good fits s'
    by (simp add: good_tokenizing surroundings_ok_def)
  ultimately show ?thesis unfolding protected_body_def s' by auto
qed

lemma inspection_run:
  assumes good: "good_state G m s"
    and run: "(if scan
      then (case inspectBinaryBody (tokenizer_of G R) entity (tokenizer_at s) of
              (t, i) \<Rightarrow> (s\<lparr>gs_broker := tz_broker t, gs_calls := tz_calls t\<rparr>, refused (assertSafeBinaryBody i (rc_requestId R))))
      else (s, Inr ())) = (s', Inr u)"
  shows "good_state G m s' \<and> (scan \<longrightarrow> binary_clean (tokenizer_of G R) entity \<and>
    (\<forall>c \<in> set (token_candidates (map char_of entity)). client_file (tokenizer_of G R) (gs_broker s') (snd c)))"
proof (cases scan)
  case True
  obtain t i where i: "inspectBinaryBody (tokenizer_of G R) entity (tokenizer_at s) = (t, i)" by fastforce
  have s': "s' = s\<lparr>gs_broker := tz_broker t, gs_calls := tz_calls t\<rparr>" "assertSafeBinaryBody i (rc_requestId R) = Inr u"
    using run True i by (auto simp: refused_def split: sum.splits)
  have "tokenizing_ok (tokenizer_of G R) m (tokenizer_at s)" using good by (simp add: good_tokenizing)
  from inspected_run [OF this i, of "rc_requestId R" u] show ?thesis
    using s' True by (auto simp: tokenizing_ok_def good_state_def)
qed (use assms in simp)

lemma binary_response_protected:
  assumes ok: "surroundings_ok G m" and good: "good_state G m s"
    and run: "binary_response_step G R headers entity s = (s', Inr safe)" and fits: "gs_draws s' \<le> m"
  shows "protected_body (tokenizer_of G R) (gs_broker s') (binary_policy R) True headers entity
    (tt_headers (sf_tokenized safe)) (sf_entity safe) (tt_secretTokenizationCount (sf_tokenized safe))"
proof -
  let ?T = "tokenizer_of G R" and ?policy = "binary_policy R"
  have small: "\<not> (case br_maxBytes ?policy of None \<Rightarrow> False | Some n \<Rightarrow> n < length entity)"
    using run by (auto simp: binary_response_step_def Let_def)
  obtain s1 t u where i: "(if br_scan ?policy
      then (case inspectBinaryBody ?T entity (tokenizer_at s) of
              (t, i) \<Rightarrow> (s\<lparr>gs_broker := tz_broker t, gs_calls := tz_calls t\<rparr>, refused (assertSafeBinaryBody i (rc_requestId R))))
      else (s, Inr ())) = (s1, Inr u)"
    and h: "tokenizer_step G (\<lambda>t. case tokenizeHeaders ?T headers t of (t', r) \<Rightarrow> (t', refused r)) s1 = (s', Inr t)"
    and safe: "safe = \<lparr>sf_tokenized = t, sf_entity = entity, sf_bypassed = \<not> br_scan ?policy\<rparr>"
    using run unfolding binary_response_step_def Let_def if_not_P [OF small] tokenizer_of_def tokenizer_at_def
    by (simp add: after_Inr) blast
  note s1 = inspection_run [OF good i]
  obtain t1 where t1: "tokenizeText ?T headers [] (tokenizer_at s1) = (t1, Inr t)" and s': "gs_broker s' = tz_broker t1" "gs_draws s' = tz_draws t1"
    by (rule tokenizer_step_Inr [OF h])
      (auto simp: tokenizeHeaders_def tokenize_def refused_def split: prod.splits sum.splits)
  have scan: "json_scan_ok (te_jsonScanner ?T []) []" using ok by (simp add: surroundings_ok_def)
  have t: "runs_to ?T (tokenizer_at s1) t1"
    "\<exists>ns. response_tokenized ?T (tz_broker t1) (referenced ?T (tz_broker t1)) 0 headers [] (tt_headers t) (tt_body t) ns \<and>
       tt_secretTokenizationCount t = sum_list ns"
    using tokenizeText_spec [OF scan others_tokenizer _ t1, of m "referenced ?T (tz_broker t1)"] ok s1 fits s'
    by (simp_all add: good_tokenizing surroundings_ok_def)
  have "case br_maxBytes ?policy of None \<Rightarrow> True | Some n \<Rightarrow> length entity \<le> n"
    using small by (cases "br_maxBytes ?policy") simp_all
  moreover have "br_scan ?policy \<longrightarrow> binary_clean ?T entity \<and>
      (\<forall>c \<in> set (token_candidates (map char_of entity)). client_file ?T (tz_broker t1) (snd c))"
    using s1 t(1) on_file_evolves unfolding runs_to_def by fastforce
  ultimately show ?thesis using t(2) unfolding protected_body_def safe s' by auto
qed

text \<open>The response of a run: which answer it stands for and what was done to it\<close>

definition response_protected_as ::
  "gateway_env \<Rightarrow> request_context \<Rightarrow> token_broker \<Rightarrow> downstream_response \<Rightarrow> service_response \<Rightarrow> nat list \<Rightarrow> bool" where
  "response_protected_as G R b response sp out \<longleftrightarrow>
     (\<exists>decoded entity headers' entity'.
        decodeDeclaredBase64Bytes (fst (stripCookieHeaders (ds_headers response))) (ds_body response) = Inr decoded \<and>
        entity = (case decoded of None \<Rightarrow> ds_body response | Some b \<Rightarrow> b) \<and>
        protected_body (tokenizer_of G R) b (binary_policy R)
          (is_binary (classifyResponseBody (gw_utf8 G) entity)) (fst (stripCookieHeaders (ds_headers response))) entity
          headers' entity' (sp_secretTokenizationCount sp) \<and>
        out = (if decoded = None then entity' else encodeBase64Bytes entity') \<and>
        sp_headers sp = (if ds_body response = out then headers' else withContentLength headers' (length out)))"

lemma no_cookies_left:
  assumes "map fst h' = map fst (fst (stripCookieHeaders h))"
  shows "list_all (\<lambda>n. \<not> prohibited_cookie n) (map fst (withContentLength h' n))"
    and "list_all (\<lambda>n. \<not> prohibited_cookie n) (map fst h')"
proof -
  show names: "list_all (\<lambda>n. \<not> prohibited_cookie n) (map fst h')"
    unfolding assms by (auto simp: stripCookieHeaders_def list_all_iff)
  have "list_all (\<lambda>n. \<not> prohibited_cookie n) (map fst (removeHeader ''content-length'' h'))"
    using names by (auto simp: removeHeader_def list_all_iff)
  moreover have "\<not> prohibited_cookie ''content-length''" by code_simp
  ultimately show "list_all (\<lambda>n. \<not> prohibited_cookie n) (map fst (withContentLength h' n))"
    unfolding withContentLength_def by (rule list_all_jmap_set [where P = "\<lambda>n. \<not> prohibited_cookie n"])
qed

lemma process_protected:
  assumes ok: "surroundings_ok G m" and good: "good_state G m s"
    and run: "process_response G R records response s = (s', Inr sp)" and fits: "gs_draws s' \<le> m"
  shows "\<exists>out. response_protected_as G R (gs_broker s') response sp out \<and> sp_bodySha256 sp = gw_sha256 G out \<and>
    (sp_body sp = Some (gw_toString G out) \<and> sp_binaryBody sp = None \<or>
     sp_body sp = None \<and> (\<exists>m. sp_binaryBody sp = Some (out, m)))"
proof -
  let ?h = "fst (stripCookieHeaders (ds_headers response))"
  obtain decoded entity s1 safe where d: "decodeDeclaredBase64Bytes ?h (ds_body response) = Inr decoded"
    and e: "entity = (case decoded of None \<Rightarrow> ds_body response | Some b \<Rightarrow> b)"
    and r: "(if is_binary (classifyResponseBody (gw_utf8 G) entity) then binary_response_step else text_response_step)
      G R ?h entity s = (s1, Inr safe)"
    and s': "s' = audit_success R records (ds_status response) safe s1"
    and sp: "sp = response_of G R response ?h (decoded \<noteq> None) (is_binary (classifyResponseBody (gw_utf8 G) entity)) safe"
    using run unfolding process_response_def Let_def by (auto simp: after_Inr check_step_Inr)
  have same: "gs_broker s' = gs_broker s1" "gs_draws s' = gs_draws s1"
    by (simp_all add: s' audit_success_def append_audit_def Let_def)
  have fits1: "gs_draws s1 \<le> m" using fits same by simp
  let ?p = "protected_body (tokenizer_of G R) (gs_broker s') (binary_policy R)"
  have p: "?p (is_binary (classifyResponseBody (gw_utf8 G) entity)) ?h entity (tt_headers (sf_tokenized safe)) (sf_entity safe)
      (tt_secretTokenizationCount (sf_tokenized safe))"
  proof (cases "is_binary (classifyResponseBody (gw_utf8 G) entity)")
    case True
    then show ?thesis using binary_response_protected [OF ok good _ fits1] r same by simp
  next
    case False
    then show ?thesis using text_response_protected [OF ok good _ fits1] r same by simp
  qed
  let ?out = "if decoded = None then sf_entity safe else encodeBase64Bytes (sf_entity safe)"
  have "sp_headers sp = (if ds_body response = ?out then tt_headers (sf_tokenized safe)
      else withContentLength (tt_headers (sf_tokenized safe)) (length ?out))"
    "sp_secretTokenizationCount sp = tt_secretTokenizationCount (sf_tokenized safe)"
    "sp_bodySha256 sp = gw_sha256 G ?out"
    "sp_body sp = Some (gw_toString G ?out) \<and> sp_binaryBody sp = None \<or>
     sp_body sp = None \<and> (\<exists>m. sp_binaryBody sp = Some (?out, m))"
    by (simp_all add: sp response_of_def Let_def)
  then show ?thesis using d e p unfolding response_protected_as_def by (intro exI [of _ ?out]) auto
qed

lemma protected_no_cookies:
  assumes "response_protected_as G R b response sp out"
  shows "list_all (\<lambda>n. \<not> prohibited_cookie n) (map fst (sp_headers sp))"
proof -
  obtain headers' n where "map fst headers' = map fst (fst (stripCookieHeaders (ds_headers response)))"
    "sp_headers sp = headers' \<or> sp_headers sp = withContentLength headers' n"
    using assms unfolding response_protected_as_def protected_body_def response_tokenized_def
    by (auto split: if_splits)
  then show ?thesis using no_cookies_left by metis
qed

lemma execute_Inr:
  assumes ok: "others_ok G m" and good: "good_state G m s"
    and run: "executeServiceRequest G auth input requestId s = (s', Inr sp)"
  obtains R decision records response s1 s2 where "decided_context G auth input requestId R decision" and "pd_allowed decision"
    and "good_state G m s1" and "process_response G R records response s1 = (s2, Inr sp)"
    and "gs_broker s2 = gs_broker s'" and "gs_draws s2 = gs_draws s'"
proof (cases rule: execute_cases [of G auth input requestId s])
  case (early f)
  then show ?thesis using run by simp
next
  case (decided R decision)
  have "deny_request G R decision s \<noteq> (s', Inr sp)" by (simp add: deny_request_def split: prod.split)
  then have allowed: "pd_allowed decision" and a: "allowed_request G R s = (s', Inr sp)"
    using decided(2) run by (cases "pd_allowed decision"; simp)+
  then obtain h l where "with_capacity h (admitted_request G R) (s\<lparr>gs_limiter := l\<rparr>) = (s', Inr sp)"
    by (auto simp: allowed_request_def split: prod.splits sum.splits)
  then obtain t where t: "admitted_request G R (s\<lparr>gs_limiter := l\<rparr>) = (t, Inr sp)"
    and same: "gs_broker t = gs_broker s'" "gs_draws t = gs_draws s'"
    by (auto simp: with_capacity_def split: prod.splits sum.splits gateway_failure.splits)
  have start: "good_state G m (s\<lparr>gs_limiter := l\<rparr>)" using good by (rule good_same) simp_all
  obtain q response u1 u2 where u1: "prepare_request G R (s\<lparr>gs_limiter := l\<rparr>) = (u1, Inr q)"
    and u2: "exchange_step G (pq_downstream q) u1 = (u2, Inr response)"
    and p: "process_response G R (pq_records q) response u2 = (t, Inr sp)"
    using t by (auto simp: admitted_request_def after_Inr)
  have "good_state G m u2"
    using exchange_good [OF ok, of u1 "pq_downstream q"] prepare_good [OF ok start, of R] u1 u2 by simp
  then show ?thesis using that [OF decided(1) allowed _ p same] by blast
qed


lemma sample_surroundings: "surroundings_ok sample_gateway m" "good_state sample_gateway m gateway_start"
proof -
  have G: "gw_utf8 sample_gateway = ascii_codec" "gw_jsonScanner sample_gateway = (\<lambda>_. [])" "gw_scanOthers sample_gateway = (\<lambda>_ b. b)"
    "gw_draws sample_gateway = te_draws counted_tokenizer" "gw_broker sample_gateway = sample_env\<lparr>be_config := open_config\<rparr>"
    by (simp_all add: sample_gateway_def counted_tokenizer_def)
  show "surroundings_ok sample_gateway m"
    using ascii_codec_ok evolves_refl by (auto simp: surroundings_ok_def others_ok_def G json_scan_ok_def scan_ok_def)
  have T: "tz_broker (tokenizer_start sample_broker) = sample_broker" "tz_draws (tokenizer_start sample_broker) = 0"
    "te_broker counted_tokenizer = sample_env"
    by (simp_all add: tokenizer_start_def counted_tokenizer_def sample_tokenizer_def)
  have good: "broker_good sample_env (te_draws counted_tokenizer) 0 m sample_broker"
    using counted_tokenizer_ok(2) [of m] by (simp add: tokenizing_ok_def T)
  let ?E = "sample_env\<lparr>be_config := open_config\<rparr>"
  have config: "gc_tokens open_config = gc_tokens (be_config sample_env)"
    "lc_maxTokenRecords (gc_limits open_config) = lc_maxTokenRecords (gc_limits (be_config sample_env))"
    "lc_maxTokenRecordsPerSubject (gc_limits open_config) = lc_maxTokenRecordsPerSubject (gc_limits (be_config sample_env))"
    by (simp_all add: open_config_def roomy_config_def sample_env_def sample_config_def)
  have "sec_draw_fresh ?E d b = sec_draw_fresh sample_env d b" for d b by (simp add: sec_draw_fresh_def)
  moreover have "secret_index ?E = secret_index sample_env" by (simp add: fun_eq_iff secret_index_def responseSecretIndex_def)
  ultimately have "broker_good ?E = broker_good sample_env"
    by (simp add: fun_eq_iff broker_good_def ttls_ok_def broker_ok_def gref_ok_def gref_entry_def sec_ok_def sec_entry_def lives_ok_def
        life_ok_def capacity_ok_def draws_free_def config)
  then show "good_state sample_gateway m gateway_start" using good by (simp add: good_state_def G)
qed


end
