(* ===== verification/Spec2Isabelle.thy ===== *)
theory Spec2Isabelle
  imports ServiceRequestLimiter DenialStore ReplayCache ControlRateLimiter LoginAttemptLimiter
    Policy PrincipalSelectors TokenLifecycle ControlRouteProperties ClientSourceProperties
    JsonSubstitution ResponseTokenizerProperties
    TokenizerReferences ScannerPoolProperties
    ApiKeyFormat GatewayProperties
begin

text \<open>
  SecretSauce is a gateway between clients that speak MCP and HTTP services. The client never sees a credential of a
  service: it gets opaque references (\<^verbatim>\<open>gref_...\<close>, \<^verbatim>\<open>sec_...\<close>), writes them into its calls, and the gateway redeems
  them, calls the service, and replaces every secret in the response by a reference again. This development
  models the part of \<^verbatim>\<open>src/\<close> that decides about such a call, the limiters and stores in memory, the frame of the
  control API, and parts of the vault and of the system API keys. Paths below are relative to the repository.

  \<^bold>\<open>A call.\<close> \<open>executeServiceRequest\<close> (theory Gateway, \<^verbatim>\<open>src/gateway.ts\<close>) is the composition of nearly all components:
  the service and the destination are looked up and the URL is checked (ServiceRegistry, UrlValidation), the policy decides
  (PolicyMatchers, Policy), a denial is stored (DenialStore), capacity is taken (InflightLimiter,
  ServiceRequestLimiter), the reference of the service is used (Tokens), headers are checked and credentials
  that own a header are enforced (DownstreamRequest, HeaderEnforcement), a request to the gateway itself is searched for API
  keys (ApiKeyFormat, SelfApiKeyProtection), references are redeemed and put in (Base64Body, Substitution), the request is
  built and sent (DownstreamRequest), and the answer is stripped of cookies, inspected when it is binary (BinaryResponse) or
  tokenized when it is text (SecretScanner, SensitiveJson, SecretRanges, ResponseTokenizer). Texts are scanned by a pool of
  workers (ScannerPool). The state is the record \<open>gateway_state\<close>: broker, denials, limiters, audit log and what was sent.

  \<^bold>\<open>The control API.\<close> ControlRoutes and ControlRequests model the registry of routes and the handler around each of them
  (\<^verbatim>\<open>src/control/routeRegistry.ts\<close>), with the permission matrix (ControlPermissions), the rate limits (ControlRateLimiter),
  the maintenance gate (MaintenanceGate), principal selectors (PrincipalSelectors), the address a request is attributed to
  (ClientSource) and the limits of failed logins (LoginAttemptLimiter). VaultErrors and ReplayCache belong to the vault,
  UuidV7 to the persistence layer.

  \<^bold>\<open>How the code is rendered.\<close> An interface is a record with one field per property under the same name and a prefix, a
  union is a datatype, a \<open>Map\<close> or a plain object is an association list that keeps insertion order (\<open>jmap\<close>, theory Prelude),
  JavaScript strings are lists of the code units 0 to 255 with their operations in JsStrings, numbers are \<open>nat\<close> or
  \<open>int\<close> (the values stay within the safe integers), bytes are naturals below 256. A function that throws returns a sum whose
  left side is the error; a method returns the new state with its result. Objects that are shared and updated in place, the
  records of the broker, live in a store and are passed by index. Where the code awaits, what other requests do meanwhile to
  the shared state is a parameter (\<open>gw_others\<close>, \<open>te_meanwhile\<close>), so that theorems hold for every interleaving at these points.

  \<^bold>\<open>Parameters.\<close> What is not under \<^verbatim>\<open>src/\<close> is an argument: the URL parser and the regular expression engine of the
  platform, hashes, randomness, the clock (a function of the number of readings), the UTF-8 codec, the scanner of the JSON
  package, Secretlint in its workers, the network and the verifier of API keys. Hypotheses about them are named where they
  are used: \<open>codec_ok\<close>, \<open>json_scan_ok\<close>, \<open>url_paths_ok\<close> (the setter of a path leaves one that the parser encoded as it is),
  draws that repeat nothing up to a bound (\<open>draws_free\<close>), other requests that keep the broker in order and take nothing from its
  files (\<open>meanwhile_ok\<close>, \<open>others_ok\<close>), a clock that does not go back. Witnesses instantiate all of them.

  \<^bold>\<open>Loops and bounds.\<close> No definition uses fuel. Loops are structural recursion, folds, or functions with a measure: the
  scanners of texts consume their input, the range search of the tokenizer counts towards the length of the text, the pool's
  dispatch loop starts a waiting job in each round, the search for API keys descends into the value. Limits of the code (queue
  lengths, table sizes, lifetimes, depths) are the code's constants or fields of the configuration.

  \<^bold>\<open>Interfaces.\<close> \<open>capacity_limiter\<close> is what callers rely on in a limiter, interpreted by the in-flight limiter and, on top
  of it, by the limiter of service requests. \<open>expiring_store\<close> is the pruning loop of the stores with expiring entries,
  interpreted by denials, nonces and rate windows. \<open>redeemer\<close> is the function that substitution calls for each
  reference, interpreted by the broker. \<open>issuer\<close> is a step that issues references and keeps those already issued, interpreted
  by the tokenizer's step for a secret and for a text. \<open>broker_keeper\<close> is a predicate on the broker that the uses of references
  keep, from which enforcement and substitution keep it, interpreted by the order of the broker.

  \<^bold>\<open>What the theorems show.\<close> GatewayProperties: a call is sent at most once and only as it was allowed, a denied one touches
  nothing but its records, the capacity is returned, the response is protected; GatewaySteps and GatewayBroker have the steps of
  these proofs and GatewaySample a run that the witnesses use. TokenInvariants, TokenSteps, TokenProperties and TokenLifecycle: an invariant of
  the broker in every reachable state, redemption if and only if a reference is live and bound, lifetimes, limits,
  invalidation. SubstitutionProperties, ReferenceMatches, JsonSubstitution: substitution refines redemption followed by a pure
  replacement, and each secret it puts in is bound to the subject and the target. BrokerEvolution: operations of the broker take
  no record from its files. TokenizerCollecting, SecretRangesProperties, ResponseTokenizerProperties, TokenizerReferences: the
  ranges of a text conceal its secrets (\<open>concealed\<close>), each is replaced by a reference on file for the secret it hides
  (\<open>text_protected\<close>), and nothing else is changed.
  HeaderEnforcement, BinaryResponse, SelfApiKeyProtection, DownstreamRequest, ApiKeyFormat: their contracts, at the end of each
  theory. ScannerPoolProperties: no job is lost, no worker idles, limits hold, and workers outside the list are counted. ControlRouteProperties: no handler without
  authorisation, leases returned. AddressTexts and ClientSourceProperties: canonical addresses, a source that clients behind
  trusted proxies cannot choose. The other theories state their properties beside their definitions.

  \<^bold>\<open>What the code does and should not.\<close> Theorems record some: a Base64 body escapes the ownership of headers
  (\<open>base64_body_escapes_ownership\<close>), a leading space skips the escape check (\<open>absolute_url_space_skips_escape_check\<close>), a preflight
  of an expired reference leaves its value behind (\<open>expired_preflight_keeps_token\<close>), a replaced worker that fails late starts one
  that is never closed (\<open>pool_within_limits\<close>). The model shows others: an answer of status 204, 205 or 304 ends in an uncaught
  exception (\<open>construct_response\<close>), a search for API keys that gives up ends the request with an exception of another class
  (\<open>self_target_step\<close>), and what overlaps a reference of the client passes unchanged (\<open>concealed\<close>).

  \<^bold>\<open>Not modelled.\<close> \<open>executePersistedServiceRequest\<close>, the second entry of \<^verbatim>\<open>src/gateway.ts\<close>: it checks a call against a
  snapshot of the database and the vault and then runs \<open>executeServiceRequest\<close>, which is modelled. The snapshots, and the
  management of services, policies, access, credentials, identities, sessions, OAuth, backups, restores, migrations and audit
  search, work on a PostgreSQL database: their rules are
  SQL statements and transactions, which a model of the code under \<^verbatim>\<open>src/\<close> would have to invent. The vault's key files, envelopes
  and sockets rest on the cryptography and the file system of the platform. Express, MCP and OAuth packages, the browser
  client, logging and process start are glue. Logging and the times in audit events are left out of what is modelled.
\<close>

end
